(* ===== verification/Prelude.thy ===== *)
theory Prelude
  imports "HOL-Library.Word" "HOL-Library.Signed_Division" "HOL-Library.Sublist"
begin

text \<open>
  Shared vocabulary of the development: the machine types of the C++ code, the result type of
  operations whose source can run into undefined behaviour, the C library's conversions between
  decimal text and binary floating point (an argument of the definitions that use them), and the
  list lemmas that the components share. The collection \<open>model_defs\<close> holds the unfolding
  equations of small accessors, \<open>slice_simps\<close> the facts on consecutive parts of a byte sequence.
\<close>

unbundle bit_operations_syntax

named_theorems model_defs
named_theorems slice_simps

section \<open>Machine types\<close>

type_synonym byte = "8 word"
type_synonym bytes = "8 word list"

text \<open>
  A \<open>char\<close> of the code is signed on the platforms the daemon targets; its bit pattern is a
  \<^typ>\<open>byte\<close> and its value is \<open>sint\<close> of it.
\<close>

definition bytes_of :: "string \<Rightarrow> bytes" where
  "bytes_of s = map of_char s"

lemma length_bytes_of [simp]: "length (bytes_of s) = length s"
  by (simp add: bytes_of_def)

section \<open>Undefined behaviour as a value\<close>

datatype ub_kind =
    Out_of_bounds     \<comment> \<open>an array access outside the object\<close>
  | Empty_container   \<comment> \<open>\<open>front\<close> or \<open>pop_front\<close> of an empty container\<close>
  | Bad_iterator      \<comment> \<open>\<open>erase\<close> of the past-the-end iterator\<close>
  | Null_pointer      \<comment> \<open>a null pointer is dereferenced\<close>
  | Bad_pointer       \<comment> \<open>a block that is not allocated is accessed or freed\<close>
  | Indeterminate     \<comment> \<open>the value of uninitialised storage is used\<close>

type_synonym 'a outcome = "ub_kind + 'a"

fun and_then :: "'a outcome \<Rightarrow> ('a \<Rightarrow> 'b outcome) \<Rightarrow> 'b outcome" where
  "and_then (Inl u) f = Inl u"
| "and_then (Inr x) f = f x"

lemma and_then_Inr_iff:
  "and_then r f = Inr y \<longleftrightarrow> (\<exists>x. r = Inr x \<and> f x = Inr y)"
  by (cases r) auto

lemma and_then_assoc: "and_then (and_then r f) g = and_then r (\<lambda>x. and_then (f x) g)"
  by (cases r) auto

section \<open>Binary floating point\<close>

text \<open>
  A \<open>double\<close> is kept as its IEEE binary64 bit pattern, a \<open>float\<close> as its binary32 pattern. The
  only operation the control code performs on them is the comparison \<open>!=\<close>, which is defined on
  the patterns: a NaN differs from everything, the two zeros are equal.
\<close>

type_synonym double = "64 word"
type_synonym float32 = "32 word"

definition dbl_abs_bits :: "double \<Rightarrow> double" where
  "dbl_abs_bits x = x AND 0x7FFFFFFFFFFFFFFF"

definition dbl_nan :: "double \<Rightarrow> bool" where
  "dbl_nan x \<longleftrightarrow> dbl_abs_bits x > 0x7FF0000000000000"

definition dbl_ne :: "double \<Rightarrow> double \<Rightarrow> bool" where
  "dbl_ne x y \<longleftrightarrow>
     dbl_nan x \<or> dbl_nan y \<or> (x \<noteq> y \<and> \<not> (dbl_abs_bits x = 0 \<and> dbl_abs_bits y = 0))"

lemma dbl_ne_refl: "dbl_ne x x \<longleftrightarrow> dbl_nan x"
  by (auto simp: dbl_ne_def)

lemma not_dbl_ne_nan: "\<not> dbl_ne x y \<Longrightarrow> \<not> dbl_nan x \<and> \<not> dbl_nan y"
  by (simp add: dbl_ne_def)

lemma dbl_ne_nonzero:
  "\<not> dbl_nan x \<Longrightarrow> \<not> dbl_nan y \<Longrightarrow> dbl_abs_bits x \<noteq> 0 \<Longrightarrow> dbl_ne x y \<longleftrightarrow> x \<noteq> y"
  by (auto simp: dbl_ne_def)

text \<open>
  The conversions between numbers and decimal text: \<open>atof\<close>, the narrowing assignment of a
  \<open>double\<close> to a \<open>float\<close>, and the renderings \<open>%.1f\<close>, \<open>%f\<close> (of a \<open>float\<close>) and the default
  stream output of a \<open>float\<close>. ISO C leaves the accuracy of these conversions to the
  implementation, so they are an argument of the definitions that call them.
\<close>

record num_conv =
  nc_atof :: "string \<Rightarrow> double"
  nc_narrow :: "double \<Rightarrow> float32"
  nc_fmt_1f :: "double \<Rightarrow> string"
  nc_fmt_f :: "float32 \<Rightarrow> string"
  nc_show_float :: "float32 \<Rightarrow> string"

section \<open>Parts of a sequence\<close>

definition slice :: "nat \<Rightarrow> nat \<Rightarrow> 'a list \<Rightarrow> 'a list" where
  "slice i n xs = take n (drop i xs)"

lemma length_slice [simp]: "length (slice i n xs) = min n (length xs - i)"
  by (simp add: slice_def)

lemma slice_0 [slice_simps]: "slice 0 n xs = take n xs"
  by (simp add: slice_def)

lemma slice_append_left [slice_simps]:
  "i + n \<le> length xs \<Longrightarrow> slice i n (xs @ ys) = slice i n xs"
  by (simp add: slice_def)

lemma slice_append_right [slice_simps]:
  "length xs \<le> i \<Longrightarrow> slice i n (xs @ ys) = slice (i - length xs) n ys"
  by (simp add: slice_def)

lemma nth_slice [slice_simps]: "k < n \<Longrightarrow> i + k < length xs \<Longrightarrow> slice i n xs ! k = xs ! (i + k)"
  by (simp add: slice_def)

lemma slice_mid [slice_simps]: "slice (length xs) (length ys) (xs @ ys @ zs) = ys"
  by (simp add: slice_def)

text \<open>A flag occurs at a position when the sequence reads the flag from there.\<close>

definition occurs_at :: "'a list \<Rightarrow> 'a list \<Rightarrow> nat \<Rightarrow> bool" where
  "occurs_at flag xs p \<longleftrightarrow> p + length flag \<le> length xs \<and> slice p (length flag) xs = flag"

lemma occurs_at_nth:
  "occurs_at flag xs p \<longleftrightarrow>
     p + length flag \<le> length xs \<and> (\<forall>k<length flag. xs ! (p + k) = flag ! k)"
proof
  assume "occurs_at flag xs p"
  then show "p + length flag \<le> length xs \<and> (\<forall>k<length flag. xs ! (p + k) = flag ! k)"
    unfolding occurs_at_def by (metis add_less_cancel_left less_le_trans nth_slice)
next
  assume "p + length flag \<le> length xs \<and> (\<forall>k<length flag. xs ! (p + k) = flag ! k)"
  then show "occurs_at flag xs p"
    unfolding occurs_at_def by (auto intro!: nth_equalityI simp: nth_slice)
qed

lemma occurs_at_middle: "occurs_at flag (xs @ flag @ zs) (length xs)"
  by (simp add: occurs_at_def slice_mid)

lemma foldl_plus_sum: "foldl (+) (a::'a::comm_monoid_add) xs = a + sum_list xs"
  by (induction xs arbitrary: a) (auto simp: add.assoc)

lemma sum_list_update_word:
  fixes xs :: "'a::ab_group_add list"
  shows "i < length xs \<Longrightarrow> sum_list (xs[i := v]) = sum_list xs - xs ! i + v"
  by (induction xs arbitrary: i) (auto simp: algebra_simps split: nat.splits)

lemma takeWhile_eq_take_index:
  "i < length xs \<Longrightarrow> \<not> P (xs ! i) \<Longrightarrow> \<forall>j<i. P (xs ! j) \<Longrightarrow> takeWhile P xs = take i xs"
  by (rule takeWhile_eq_take_P_nth) auto

end
