(* ===== verification/MessageQueue.thy ===== *)
theory MessageQueue
  imports Prelude
begin

text \<open>
  The message queue (MessageQueue.h, MessageQueue.cpp): registration of handlers for user messages,
  posting with low and sending with high priority, and the thread that receives and dispatches. The
  queue itself is \<open>boost::interprocess::message_queue\<close>: its operations are the argument \<open>Q\<close>, and the
  locale \<open>mq_laws\<close> states what its documentation promises. Handlers are names of type \<open>'h\<close>; the
  thread's step returns the calls it makes.
\<close>

definition MQFUNC_SIZE :: int where "MQFUNC_SIZE = 1024"
definition MSG_QUIT :: int where "MSG_QUIT = 0"
definition MSG_USER :: int where "MSG_USER = 128"

lemmas mq_constants = MQFUNC_SIZE_def MSG_QUIT_def MSG_USER_def

record msg_unit =
  mu_id :: int
  mu_par1 :: int
  mu_par2 :: int

text \<open>A blocking call that cannot proceed is \<open>None\<close>, a constructor that throws is \<open>None\<close>.\<close>

record 'q mq_ops =
  mq_make :: "string \<Rightarrow> 'q option"
  mq_send :: "'q \<Rightarrow> nat \<Rightarrow> msg_unit \<Rightarrow> 'q option"
  mq_receive :: "'q \<Rightarrow> (msg_unit \<times> nat \<times> 'q) option"

record ('q, 'h) message_queue =
  mq_q :: "'q option"
  mq_thread :: bool
  mq_funcs :: "nat \<Rightarrow> 'h list"

definition new_message_queue :: "('q, 'h) message_queue" where
  "new_message_queue = \<lparr>mq_q = None, mq_thread = False, mq_funcs = (\<lambda>_. [])\<rparr>"

definition RegisterMessage :: "int \<Rightarrow> 'h \<Rightarrow> ('q, 'h) message_queue \<Rightarrow> bool \<times> ('q, 'h) message_queue" where
  "RegisterMessage msgid slot st =
     (let pos = msgid - MSG_USER; rslt = pos \<ge> 0 \<and> pos < MQFUNC_SIZE
      in (rslt, if rslt then st\<lparr>mq_funcs := (mq_funcs st)(nat pos := mq_funcs st (nat pos) @ [slot])\<rparr> else st))"

definition send_with :: "'q mq_ops \<Rightarrow> nat \<Rightarrow> int \<Rightarrow> int \<Rightarrow> int \<Rightarrow> ('q, 'h) message_queue
    \<Rightarrow> ('q, 'h) message_queue option" where
  "send_with Q prio msgid p1 p2 st =
     (case mq_q st of
        None \<Rightarrow> Some st
      | Some q \<Rightarrow> (case mq_send Q q prio \<lparr>mu_id = msgid, mu_par1 = p1, mu_par2 = p2\<rparr> of
                     None \<Rightarrow> None
                   | Some q' \<Rightarrow> Some (st\<lparr>mq_q := Some q'\<rparr>)))"

definition PostMessage :: "'q mq_ops \<Rightarrow> int \<Rightarrow> int \<Rightarrow> int \<Rightarrow> ('q, 'h) message_queue
    \<Rightarrow> ('q, 'h) message_queue option" where
  "PostMessage Q msgid p1 p2 st = send_with Q 1 msgid p1 p2 st"

definition SendMessage :: "'q mq_ops \<Rightarrow> int \<Rightarrow> int \<Rightarrow> int \<Rightarrow> ('q, 'h) message_queue
    \<Rightarrow> ('q, 'h) message_queue option" where
  "SendMessage Q msgid p1 p2 st = send_with Q 10 msgid p1 p2 st"

definition mq_Start :: "'q mq_ops \<Rightarrow> string \<Rightarrow> ('q, 'h) message_queue \<Rightarrow> bool \<times> ('q, 'h) message_queue" where
  "mq_Start Q name st =
     (if mq_thread st then (True, st)
      else case mq_make Q name of
             None \<Rightarrow> (False, st)
           | Some q \<Rightarrow> (True, st\<lparr>mq_q := Some q, mq_thread := True\<rparr>))"

text \<open>\<open>Stop\<close> up to the join, which waits for the thread to receive the quit message, and after it.\<close>

definition mq_Stop_begin :: "'q mq_ops \<Rightarrow> ('q, 'h) message_queue \<Rightarrow> ('q, 'h) message_queue option" where
  "mq_Stop_begin Q st = (if mq_thread st then SendMessage Q MSG_QUIT 0 0 st else Some st)"

definition mq_Stop_end :: "('q, 'h) message_queue \<Rightarrow> ('q, 'h) message_queue" where
  "mq_Stop_end st = st\<lparr>mq_thread := False, mq_q := None\<rparr>"

text \<open>
  One round of \<open>thread_message\<close>: the handlers to be called with their parameters, whether the loop goes
  on, and the queue without the message. \<open>None\<close> while the queue is empty.
\<close>

definition thread_message_body :: "'q mq_ops \<Rightarrow> ('q, 'h) message_queue
    \<Rightarrow> (('h \<times> int \<times> int) list \<times> bool \<times> ('q, 'h) message_queue) option" where
  "thread_message_body Q st =
     (case mq_q st of
        None \<Rightarrow> None
      | Some q \<Rightarrow>
          (case mq_receive Q q of
             None \<Rightarrow> None
           | Some (m, prio, q') \<Rightarrow>
               let pos = mu_id m - MSG_USER;
                   calls = (if pos \<ge> 0 \<and> pos < MQFUNC_SIZE
                            then map (\<lambda>h. (h, mu_par1 m, mu_par2 m)) (mq_funcs st (nat pos)) else [])
               in Some (calls, mu_id m \<noteq> MSG_QUIT, st\<lparr>mq_q := Some q'\<rparr>)))"

section \<open>The documented behaviour of the queue\<close>

text \<open>Of the messages with the highest priority the oldest is received first.\<close>

fun next_msg :: "(nat \<times> msg_unit) list \<Rightarrow> nat \<times> msg_unit" where
  "next_msg [] = undefined"
| "next_msg [x] = x"
| "next_msg (x # y # ys) = (let n = next_msg (y # ys) in if fst x \<ge> fst n then x else n)"

locale mq_laws =
  fixes Q :: "'q mq_ops" and contents :: "'q \<Rightarrow> (nat \<times> msg_unit) list"
  assumes make_empty: "mq_make Q name = Some q \<Longrightarrow> contents q = []"
    and send_appends: "length (contents q) < 1024 \<Longrightarrow>
      \<exists>q'. mq_send Q q prio m = Some q' \<and> contents q' = contents q @ [(prio, m)]"
    and send_blocks: "1024 \<le> length (contents q) \<Longrightarrow> mq_send Q q prio m = None"
    and receive_next: "contents q \<noteq> [] \<Longrightarrow>
      \<exists>q'. mq_receive Q q = Some (snd (next_msg (contents q)), fst (next_msg (contents q)), q') \<and>
           contents q' = remove1 (next_msg (contents q)) (contents q)"
    and receive_blocks: "contents q = [] \<Longrightarrow> mq_receive Q q = None"
begin

lemma next_msg_in: "xs \<noteq> [] \<Longrightarrow> next_msg xs \<in> set xs"
  by (induction xs rule: next_msg.induct) (auto simp: Let_def)

lemma next_msg_max: "x \<in> set xs \<Longrightarrow> fst x \<le> fst (next_msg xs)"
proof (induction xs rule: next_msg.induct)
  case (3 x y ys)
  then show ?case by (cases "fst x \<ge> fst (next_msg (y # ys))") (auto simp: Let_def)
qed auto

text \<open>A message of higher priority than everything waiting is received next.\<close>

lemma next_msg_urgent: "\<forall>x\<in>set xs. fst x < p \<Longrightarrow> next_msg (xs @ [(p, m)]) = (p, m)"
proof (induction xs rule: next_msg.induct)
  case (3 x y ys)
  then show ?case by (simp add: Let_def)
qed (auto simp: Let_def)

lemma post_alone:
  assumes "mq_q st = Some q" and "contents q = []"
  shows "\<exists>q1 q2. send_with Q prio msgid p1 p2 st = Some (st\<lparr>mq_q := Some q1\<rparr>) \<and>
    mq_receive Q q1 = Some (\<lparr>mu_id = msgid, mu_par1 = p1, mu_par2 = p2\<rparr>, prio, q2) \<and> contents q2 = []"
proof -
  let ?m = "\<lparr>mu_id = msgid, mu_par1 = p1, mu_par2 = p2\<rparr>"
  obtain q1 where q1: "mq_send Q q prio ?m = Some q1" "contents q1 = [(prio, ?m)]"
    using send_appends [of q prio ?m] assms(2) by auto
  then obtain q2 where "mq_receive Q q1 = Some (?m, prio, q2)" "contents q2 = []"
    using receive_next [of q1] by auto
  with q1 show ?thesis
    using assms(1) by (auto simp: send_with_def)
qed

text \<open>A posted message is dispatched to the handlers registered for it, with its parameters.\<close>

lemma dispatched:
  assumes "mq_q st = Some q" and "contents q = []"
  shows "\<exists>st1 q2. PostMessage Q msgid p1 p2 st = Some st1 \<and> contents q2 = [] \<and>
    thread_message_body Q st1 = Some (if MSG_USER \<le> msgid \<and> msgid < MSG_USER + MQFUNC_SIZE
        then map (\<lambda>h. (h, p1, p2)) (mq_funcs st (nat (msgid - MSG_USER))) else [],
      msgid \<noteq> MSG_QUIT, st\<lparr>mq_q := Some q2\<rparr>)"
  using post_alone [OF assms, of 1 msgid p1 p2]
  by (auto simp: PostMessage_def thread_message_body_def Let_def)

end

section \<open>An instance\<close>

definition list_mq :: "(nat \<times> msg_unit) list mq_ops" where
  "list_mq = \<lparr>mq_make = (\<lambda>name. Some []),
     mq_send = (\<lambda>q prio m. if length q < 1024 then Some (q @ [(prio, m)]) else None),
     mq_receive = (\<lambda>q. if q = [] then None
       else Some (snd (next_msg q), fst (next_msg q), remove1 (next_msg q) q))\<rparr>"

interpretation list_mq: mq_laws list_mq "\<lambda>q. q"
  by unfold_locales (auto simp: list_mq_def split: if_splits)

section \<open>Properties\<close>

text \<open>
  C24. Messages reach their handlers. After \<open>Start\<close>, a handler registered for a user message id in range
  is called by the dispatching thread with exactly the two parameters of the posted message, and the
  thread goes on; ids outside of the range are refused by \<open>RegisterMessage\<close>.
\<close>

theorem posted_message_dispatched:
  assumes "mq_laws Q contents" and "mq_Start Q name new_message_queue = (True, st)"
    and "RegisterMessage msgid slot st = (ok, st1)"
  shows "(ok \<longleftrightarrow> 128 \<le> msgid \<and> msgid < 1152) \<and>
    (ok \<longrightarrow> (\<exists>st2 st3. PostMessage Q msgid p1 p2 st1 = Some st2 \<and>
               thread_message_body Q st2 = Some ([(slot, p1, p2)], True, st3)))"
proof -
  obtain q where q: "mq_make Q name = Some q" and st: "st = new_message_queue\<lparr>mq_q := Some q, mq_thread := True\<rparr>"
    using assms(2) by (auto simp: mq_Start_def new_message_queue_def split: option.splits)
  have "contents q = []"
    using mq_laws.make_empty [OF assms(1) q] .
  moreover have "mq_q st1 = Some q"
    using assms(3) by (auto simp: RegisterMessage_def Let_def st split: if_splits)
  ultimately obtain st2 q2 where post: "PostMessage Q msgid p1 p2 st1 = Some st2" and
    body: "thread_message_body Q st2 = Some (if MSG_USER \<le> msgid \<and> msgid < MSG_USER + MQFUNC_SIZE
        then map (\<lambda>h. (h, p1, p2)) (mq_funcs st1 (nat (msgid - MSG_USER))) else [],
      msgid \<noteq> MSG_QUIT, st1\<lparr>mq_q := Some q2\<rparr>)"
    using mq_laws.dispatched [OF assms(1), of st1 q msgid p1 p2] by blast
  show ?thesis
    using assms(3) post body
    by (auto simp: RegisterMessage_def Let_def mq_constants st new_message_queue_def)
qed

theorem posted_message_dispatched_witness:
  "\<exists>st st1 st2 st3. RegisterMessage 130 ''h'' st = (True, st1) \<and> PostMessage list_mq 130 7 8 st1 = Some st2 \<and>
     thread_message_body list_mq st2 = Some ([(''h'', 7, 8)], True, st3)"
proof -
  obtain st :: "((nat \<times> msg_unit) list, string) message_queue" where
    st: "mq_Start list_mq ''mq'' new_message_queue = (True, st)"
    by (simp add: mq_Start_def new_message_queue_def list_mq_def)
  obtain ok st1 where r: "RegisterMessage 130 ''h'' st = (ok, st1)"
    by (cases "RegisterMessage 130 ''h'' st")
  from posted_message_dispatched [OF list_mq.mq_laws_axioms st r, of 7 8] r show ?thesis
    by auto
qed

text \<open>
  \<open>Stop\<close> is prompt: its quit message overtakes everything that was posted, so whatever ordinary
  messages wait in the queue, the next message that the thread receives makes it end without calling
  any handler.
\<close>

theorem stop_overtakes_posts:
  assumes "mq_laws Q contents" and "mq_thread st" and "mq_q st = Some q"
    and "length (contents q) < 1024" and "\<forall>x\<in>set (contents q). fst x = 1"
  shows "\<exists>st1 st2. mq_Stop_begin Q st = Some st1 \<and> thread_message_body Q st1 = Some ([], False, st2)"
proof -
  let ?m = "\<lparr>mu_id = MSG_QUIT, mu_par1 = 0, mu_par2 = 0\<rparr>"
  obtain q1 where q1: "mq_send Q q 10 ?m = Some q1" "contents q1 = contents q @ [(10, ?m)]"
    using mq_laws.send_appends [OF assms(1,4), of 10 ?m] by blast
  have "next_msg (contents q @ [(10, ?m)]) = (10, ?m)"
    using mq_laws.next_msg_urgent [OF assms(1)] assms(5) by simp
  then obtain q2 where "mq_receive Q q1 = Some (?m, 10, q2)"
    using mq_laws.receive_next [OF assms(1), of q1] q1(2) by auto
  with q1 assms(2,3) show ?thesis
    by (simp add: mq_Stop_begin_def SendMessage_def send_with_def thread_message_body_def mq_constants)
qed

theorem stop_overtakes_posts_witness:
  "\<exists>st1 st2. mq_Stop_begin list_mq \<lparr>mq_q = Some [(1, \<lparr>mu_id = 130, mu_par1 = 0, mu_par2 = 0\<rparr>)],
       mq_thread = True, mq_funcs = (\<lambda>_. [''h''])\<rparr> = Some st1 \<and>
     thread_message_body list_mq st1 = Some ([], False, st2)"
  using stop_overtakes_posts [OF list_mq.mq_laws_axioms, of "\<lparr>mq_q = Some [(1, \<lparr>mu_id = 130, mu_par1 = 0, mu_par2 = 0\<rparr>)],
      mq_thread = True, mq_funcs = (\<lambda>_. [''h''])\<rparr>" "[(1, \<lparr>mu_id = 130, mu_par1 = 0, mu_par2 = 0\<rparr>)]"]
  by simp

end
