(* ===== verification/BoostStrings.thy ===== *)
theory BoostStrings
  imports Prelude
begin

text \<open>
  The string algorithms of Boost that the text protocol and the configuration use. The library is not
  part of the repository, so its functions are an argument of the model (the record \<open>boost_str\<close>) and
  the locale \<open>boost_strings\<close> states the documented behaviour the code relies on: \<open>split\<close> with
  \<open>token_compress_on\<close> returns the tokens between the separators, \<open>trim\<close> removes leading and trailing
  white space, \<open>trim_right_if\<close> the trailing characters of a class, \<open>iequals\<close> compares without regard to
  case (in the classic locale), and \<open>format\<close> substitutes its arguments. \<open>boost_ref\<close> is an
  instance that computes.
\<close>

section \<open>Character classes of the classic locale\<close>

definition code_of :: "char \<Rightarrow> nat" where
  "code_of c = of_char c"

definition is_space :: "char \<Rightarrow> bool" where
  "is_space c \<longleftrightarrow> code_of c = 32 \<or> (9 \<le> code_of c \<and> code_of c \<le> 13)"

definition is_punct :: "char \<Rightarrow> bool" where
  "is_punct c \<longleftrightarrow>
     (33 \<le> code_of c \<and> code_of c \<le> 47) \<or> (58 \<le> code_of c \<and> code_of c \<le> 64) \<or>
     (91 \<le> code_of c \<and> code_of c \<le> 96) \<or> (123 \<le> code_of c \<and> code_of c \<le> 126)"

definition is_upper :: "char \<Rightarrow> bool" where
  "is_upper c \<longleftrightarrow> 65 \<le> code_of c \<and> code_of c \<le> 90"

definition ascii_lower :: "char \<Rightarrow> char" where
  "ascii_lower c = (if is_upper c then char_of (code_of c + 32) else c)"

definition no_upper :: "string \<Rightarrow> bool" where
  "no_upper s \<longleftrightarrow> list_all (\<lambda>c. \<not> is_upper c) s"

lemma map_lower_no_upper: "no_upper s \<Longrightarrow> map ascii_lower s = s"
  by (induction s) (auto simp: no_upper_def ascii_lower_def)

definition trimmed :: "string \<Rightarrow> bool" where
  "trimmed s \<longleftrightarrow> s = [] \<or> (\<not> is_space (hd s) \<and> \<not> is_space (last s))"

fun join_tokens :: "char \<Rightarrow> string list \<Rightarrow> string" where
  "join_tokens c [] = []"
| "join_tokens c [t] = t"
| "join_tokens c (t # u # us) = t @ c # join_tokens c (u # us)"

section \<open>The interface\<close>

record boost_str =
  bs_split :: "string \<Rightarrow> string \<Rightarrow> string list"   \<comment> \<open>separators, input; \<open>token_compress_on\<close>\<close>
  bs_trim :: "string \<Rightarrow> string"
  bs_trim_right_ps :: "string \<Rightarrow> string"          \<comment> \<open>\<open>trim_right_if(_, is_punct() || is_space())\<close>\<close>
  bs_iequals :: "string \<Rightarrow> string \<Rightarrow> bool"
  bs_format_kv :: "string \<Rightarrow> string \<Rightarrow> string"    \<comment> \<open>\<open>format("%1%=%2%,") % k % v\<close>\<close>
  bs_format_03d :: "nat \<Rightarrow> string"                \<comment> \<open>\<open>format("%03d") % n\<close>\<close>
  bs_format_d :: "int \<Rightarrow> string"                  \<comment> \<open>\<open>format("%d") % n\<close>\<close>

locale boost_strings =
  fixes S :: boost_str
  assumes split_join:
      "ts \<noteq> [] \<Longrightarrow> (\<And>t. t \<in> set ts \<Longrightarrow> c \<notin> set t) \<Longrightarrow> [] \<notin> set (butlast (tl ts)) \<Longrightarrow>
       bs_split S [c] (join_tokens c ts) = ts"
    and trim_spaces:
      "trimmed s \<Longrightarrow> list_all is_space a \<Longrightarrow> list_all is_space b \<Longrightarrow> bs_trim S (a @ s @ b) = s"
    and trim_right:
      "s \<noteq> [] \<Longrightarrow> \<not> is_punct (last s) \<Longrightarrow> \<not> is_space (last s) \<Longrightarrow>
       list_all (\<lambda>x. is_punct x \<or> is_space x) t \<Longrightarrow> bs_trim_right_ps S (s @ t) = s"
    and iequals: "bs_iequals S s t \<longleftrightarrow> map ascii_lower s = map ascii_lower t"
    and format_kv: "bs_format_kv S k v = k @ ''='' @ v @ '',''"
    and format_digit: "0 \<le> n \<Longrightarrow> n < 10 \<Longrightarrow> bs_format_d S n = [char_of (48 + nat n)]"
begin

lemma trim_trimmed: "trimmed s \<Longrightarrow> bs_trim S s = s"
  using trim_spaces [of s "[]" "[]"] by simp

lemma iequals_lower: "no_upper s \<Longrightarrow> no_upper t \<Longrightarrow> bs_iequals S s t \<longleftrightarrow> s = t"
  by (simp add: iequals map_lower_no_upper)

end

section \<open>An instance\<close>

function split_compress :: "(char \<Rightarrow> bool) \<Rightarrow> string \<Rightarrow> string list" where
  "split_compress P xs =
     (case dropWhile (\<lambda>x. \<not> P x) xs of
        [] \<Rightarrow> [xs]
      | _ # rest \<Rightarrow> takeWhile (\<lambda>x. \<not> P x) xs # split_compress P (dropWhile P rest))"
  by pat_completeness auto
termination
proof (relation "measure (\<lambda>(P, xs). length xs)", goal_cases)
  case 1
  then show ?case by simp
next
  case (2 P xs y rest)
  have "length (dropWhile P rest) \<le> length rest"
    by (rule length_dropWhile_le)
  also have "\<dots> < length (dropWhile (\<lambda>x. \<not> P x) xs)"
    using 2 by simp
  also have "\<dots> \<le> length xs"
    by (rule length_dropWhile_le)
  finally show ?case by simp
qed

declare split_compress.simps [simp del]

lemma split_compress_join:
  assumes "ts \<noteq> []" and "\<And>t. t \<in> set ts \<Longrightarrow> c \<notin> set t" and "[] \<notin> set (butlast (tl ts))"
  shows "split_compress (\<lambda>x. x \<in> set [c]) (join_tokens c ts) = ts"
  using assms
proof (induction c ts rule: join_tokens.induct)
  case (1 c)
  then show ?case by simp
next
  case (2 c t)
  then have "c \<notin> set t" by simp
  then have dw: "dropWhile (\<lambda>x. x \<noteq> c) t = []" by auto
  show ?case by (subst split_compress.simps) (simp add: dw)
next
  case (3 c t u us)
  let ?rest = "join_tokens c (u # us)"
  have t: "c \<notin> set t" and u: "c \<notin> set u" using "3.prems"(2) by auto
  have dw: "dropWhile (\<lambda>x. x \<notin> set [c]) (t @ c # ?rest) = c # ?rest"
    and tw: "takeWhile (\<lambda>x. x \<notin> set [c]) (t @ c # ?rest) = t"
    using t by (induction t) auto
  have "?rest = [] \<or> hd ?rest \<noteq> c"
  proof (cases u)
    case Nil
    with "3.prems"(3) have "us = []" by (cases us) auto
    with Nil show ?thesis by simp
  next
    case (Cons a as)
    with u show ?thesis by (cases us) auto
  qed
  then have "dropWhile (\<lambda>x. x \<in> set [c]) ?rest = ?rest"
    by (cases ?rest) auto
  moreover have "split_compress (\<lambda>x. x \<in> set [c]) ?rest = u # us"
  proof (rule "3.IH")
    show "[] \<notin> set (butlast (tl (u # us)))"
      using "3.prems"(3) by (cases us) auto
  qed (use "3.prems" in auto)
  ultimately show ?case
    using dw tw by (subst split_compress.simps) simp
qed

definition trim_ref :: "string \<Rightarrow> string" where
  "trim_ref s = rev (dropWhile is_space (rev (dropWhile is_space s)))"

fun show_nat :: "nat \<Rightarrow> string" where
  "show_nat n = (if n < 10 then [char_of (48 + n)] else show_nat (n div 10) @ [char_of (48 + n mod 10)])"

declare show_nat.simps [simp del]

definition boost_ref :: boost_str where
  "boost_ref = \<lparr>
     bs_split = (\<lambda>seps. split_compress (\<lambda>x. x \<in> set seps)),
     bs_trim = trim_ref,
     bs_trim_right_ps = (\<lambda>s. rev (dropWhile (\<lambda>x. is_punct x \<or> is_space x) (rev s))),
     bs_iequals = (\<lambda>s t. map ascii_lower s = map ascii_lower t),
     bs_format_kv = (\<lambda>k v. k @ ''='' @ v @ '',''),
     bs_format_03d = (\<lambda>n. replicate (3 - length (show_nat n)) (CHR ''0'') @ show_nat n),
     bs_format_d = (\<lambda>n. if n < 0 then CHR ''-'' # show_nat (nat (- n)) else show_nat (nat n)) \<rparr>"

lemma dropWhile_all_append: "list_all P a \<Longrightarrow> dropWhile P (a @ s) = dropWhile P s"
  by (induction a) auto

lemma dropWhile_trimmed: "s = [] \<or> \<not> P (hd s) \<Longrightarrow> dropWhile P s = s"
  by (cases s) auto

lemma trim_ref_spaces:
  assumes "trimmed s" and "list_all is_space a" and "list_all is_space b"
  shows "trim_ref (a @ s @ b) = s"
proof (cases "s = []")
  case True
  have dw: "dropWhile is_space (a @ b) = []"
    using assms by (simp add: list_all_iff dropWhile_eq_Nil_conv)
  show ?thesis by (simp add: trim_ref_def True dw)
next
  case False
  then have "dropWhile is_space (s @ b) = s @ b"
    using assms(1) by (intro dropWhile_trimmed) (auto simp: trimmed_def)
  moreover have "dropWhile is_space (rev b @ rev s) = rev s"
    using assms False by (simp add: dropWhile_all_append list_all_iff)
      (metis dropWhile_trimmed hd_rev trimmed_def)
  ultimately show ?thesis
    using assms(2) by (simp add: trim_ref_def dropWhile_all_append)
qed

interpretation boost: boost_strings boost_ref
proof unfold_locales
  fix s t :: string
  assume "s \<noteq> []" and "\<not> is_punct (last s)" and "\<not> is_space (last s)"
    and t: "list_all (\<lambda>x. is_punct x \<or> is_space x) t"
  then have "dropWhile (\<lambda>x. is_punct x \<or> is_space x) (rev s) = rev s"
    by (intro dropWhile_trimmed) (auto simp: hd_rev)
  then show "bs_trim_right_ps boost_ref (s @ t) = s"
    using t by (simp add: boost_ref_def dropWhile_all_append list_all_iff)
qed (auto simp: boost_ref_def trim_ref_spaces show_nat.simps [of "nat _"]
    intro: split_compress_join [simplified])

end
