(* ===== verification/Parameter.thy ===== *)
theory Parameter
  imports BoostStrings
begin

text \<open>
  The configuration (parameter.h). \<open>InitFile\<close> sets the defaults and writes them to an XML file,
  \<open>LoadFile\<close> reads such a file. The XML property tree is a library class: what \<open>InitFile\<close> adds to it
  is a list of entries, and what \<open>LoadFile\<close> sees of a file is the record \<open>cfg_root\<close>: for every path
  the value that \<open>ptree::get\<close> can convert to the type of its default, if there is one, and the
  sections in order.
\<close>

record annex =
  ax_portName :: string
  ax_baudRate :: int
  ax_n :: int
  ax_idd :: "byte list"

record param_config =
  pa_groupid :: string
  pa_bServer :: bool
  pa_ipServer :: string
  pa_portServer :: "16 word"
  pa_enableDB :: bool
  pa_urlDB :: string
  pa_cooler :: "annex list"
  pa_vacuum :: "annex list"
  pa_enableNTP :: bool
  pa_hostNTP :: string
  pa_portNTP :: "16 word"
  pa_maxDiffNTP :: int

section \<open>Writing the defaults\<close>

datatype cfg_entry =
    Put_str string string
  | Put_int string int
  | Put_bool string bool
  | Section string "cfg_entry list"

text \<open>\<open>for (i = 1; i <= n; ++i)\<close>: the device numbers and their entries.\<close>

definition device_key :: "boost_str \<Rightarrow> int \<Rightarrow> string" where
  "device_key S i = ''Device_'' @ bs_format_d S i @ ''.<xmlattr>.ID''"

definition init_devices :: "int \<Rightarrow> byte list" where
  "init_devices n = map (\<lambda>i. word_of_int i) [1..n]"

definition init_entries :: "boost_str \<Rightarrow> string \<Rightarrow> int \<Rightarrow> int \<Rightarrow> cfg_entry list" where
  "init_entries S port baud n =
     [Put_str ''SerialPort.<xmlattr>.Name'' port, Put_int ''SerialPort.<xmlattr>.BaudRate'' baud,
      Put_int ''DeviceNumber'' n]
     @ map (\<lambda>i. Put_int (device_key S i) (uint (word_of_int i :: byte))) [1..n]"

text \<open>
  \<open>now\<close> is the time stamp, \<open>junk\<close> the uninitialised baud rate of a local \<open>Annex\<close>. The assignments of
  the third section go to \<open>avacuum\<close>, which has been copied into the list already.
\<close>

definition InitFile :: "boost_str \<Rightarrow> string \<Rightarrow> int \<Rightarrow> param_config \<times> cfg_entry list" where
  "InitFile S now junk =
     (let acool = \<lparr>ax_portName = ''/dev/ttyS0'', ax_baudRate = 9600, ax_n = 2, ax_idd = init_devices 2\<rparr>;
          avacuum = \<lparr>ax_portName = ''/dev/ttyS1'', ax_baudRate = 9600, ax_n = 1, ax_idd = init_devices 1\<rparr>;
          bvacuum = \<lparr>ax_portName = '''', ax_baudRate = junk, ax_n = 1, ax_idd = init_devices 1\<rparr>
      in (\<lparr>pa_groupid = ''001'', pa_bServer = False, pa_ipServer = ''172.28.1.11'', pa_portServer = 4016,
           pa_enableDB = True, pa_urlDB = ''http://172.28.8.8:8080/gwebend/'', pa_cooler = [acool],
           pa_vacuum = [avacuum, bvacuum], pa_enableNTP = False, pa_hostNTP = ''172.28.1.3'',
           pa_portNTP = 123, pa_maxDiffNTP = 5\<rparr>,
          [Put_str ''version'' ''0.1'',
           Put_str ''Description'' ''config parameters of annex software for GWAC-GY camera'',
           Put_str ''date'' now, Put_str ''GroupID'' ''001'',
           Put_bool ''Server.<xmlattr>.Enable'' False, Put_str ''Server.<xmlattr>.IP'' ''172.28.1.11'',
           Put_int ''Server.<xmlattr>.Port'' 4016,
           Put_bool ''Database.<xmlattr>.Enable'' True,
           Put_str ''Database.<xmlattr>.URL'' ''http://172.28.8.8:8080/gwebend/'',
           Put_bool ''NTP.<xmlattr>.Enable'' False, Put_str ''NTP.<xmlattr>.IP'' ''172.28.1.3'',
           Put_int ''NTP.<xmlattr>.Port'' 123, Put_int ''NTP.<xmlattr>.MaxDiff'' 5,
           Section ''Cooler'' (init_entries S ''/dev/ttyS0'' 9600 2),
           Section ''Vacuum'' (init_entries S ''/dev/ttyS1'' 9600 1),
           Section ''Vacuum'' (init_entries S ''/dev/ttyS2'' 9600 1)]))"

section \<open>Reading a file\<close>

record cfg_node =
  cn_str :: "string \<Rightarrow> string option"
  cn_int :: "string \<Rightarrow> int option"
  cn_bool :: "string \<Rightarrow> bool option"

record cfg_root = cfg_node +
  cn_sections :: "(string \<times> cfg_node) list"

definition get_or :: "('k \<Rightarrow> 'v option) \<Rightarrow> 'k \<Rightarrow> 'v \<Rightarrow> 'v" where
  "get_or f k d = (case f k of Some v \<Rightarrow> v | None \<Rightarrow> d)"

definition load_section :: "boost_str \<Rightarrow> cfg_node \<Rightarrow> annex" where
  "load_section S c =
     (let n = get_or (cn_int c) ''DeviceNumber'' 1
      in \<lparr>ax_portName = get_or (cn_str c) ''SerialPort.<xmlattr>.Name'' ''/dev/ttyS0'',
          ax_baudRate = get_or (cn_int c) ''SerialPort.<xmlattr>.BaudRate'' 9600,
          ax_n = n,
          ax_idd = map (\<lambda>i. word_of_int (get_or (cn_int c) (device_key S i) i)) [1..n]\<rparr>)"

fun load_sections :: "boost_str \<Rightarrow> (string \<times> cfg_node) list \<Rightarrow> param_config \<Rightarrow> param_config" where
  "load_sections S [] p = p"
| "load_sections S ((name, c) # cs) p =
     (let bc = bs_iequals S name ''Cooler''; bv = bs_iequals S name ''Vacuum'';
          one = load_section S c
      in load_sections S cs
           (if bc \<or> bv
            then if bc then p\<lparr>pa_cooler := pa_cooler p @ [one]\<rparr> else p\<lparr>pa_vacuum := pa_vacuum p @ [one]\<rparr>
            else p))"

text \<open>
  \<open>xml\<close> is the outcome of \<open>read_xml\<close>; a file that cannot be parsed is replaced by the defaults. The
  second component is what is written.
\<close>

definition LoadFile :: "boost_str \<Rightarrow> string \<Rightarrow> int \<Rightarrow> cfg_root option \<Rightarrow> param_config
    \<Rightarrow> param_config \<times> cfg_entry list option" where
  "LoadFile S now junk xml p =
     (case xml of
        None \<Rightarrow> (case InitFile S now junk of (p', es) \<Rightarrow> (p', Some es))
      | Some r \<Rightarrow>
          let c = cfg_node.truncate r;
              p1 = \<lparr>pa_groupid = get_or (cn_str c) ''GroupID'' ''001'',
                    pa_bServer = get_or (cn_bool c) ''Server.<xmlattr>.Enable'' False,
                    pa_ipServer = get_or (cn_str c) ''Server.<xmlattr>.IP'' ''172.28.1.11'',
                    pa_portServer = word_of_int (get_or (cn_int c) ''Server.<xmlattr>.Port'' 4016),
                    pa_enableDB = get_or (cn_bool c) ''Database.<xmlattr>.Enable'' True,
                    pa_urlDB = get_or (cn_str c) ''Database.<xmlattr>.URL'' ''http://172.28.8.8:8080/gwebend/'',
                    pa_cooler = [], pa_vacuum = [],
                    pa_enableNTP = get_or (cn_bool c) ''NTP.<xmlattr>.Enable'' False,
                    pa_hostNTP = get_or (cn_str c) ''NTP.<xmlattr>.IP'' ''172.28.1.3'',
                    pa_portNTP = word_of_int (get_or (cn_int c) ''NTP.<xmlattr>.Port'' 123),
                    pa_maxDiffNTP = get_or (cn_int c) ''NTP.<xmlattr>.MaxDiff'' 5\<rparr>
          in (load_sections S (cn_sections r) p1, None))"

section \<open>What the reader of the written file sees\<close>

text \<open>
  The property tree read back from the written file: a value that was put under a path is found there
  under its type, everything else is absent.
\<close>

fun view_str :: "cfg_entry list \<Rightarrow> string \<Rightarrow> string option" where
  "view_str [] k = None"
| "view_str (Put_str p v # es) k = (if p = k then Some v else view_str es k)"
| "view_str (e # es) k = view_str es k"

fun view_int :: "cfg_entry list \<Rightarrow> string \<Rightarrow> int option" where
  "view_int [] k = None"
| "view_int (Put_int p v # es) k = (if p = k then Some v else view_int es k)"
| "view_int (e # es) k = view_int es k"

fun view_bool :: "cfg_entry list \<Rightarrow> string \<Rightarrow> bool option" where
  "view_bool [] k = None"
| "view_bool (Put_bool p v # es) k = (if p = k then Some v else view_bool es k)"
| "view_bool (e # es) k = view_bool es k"

fun sections_of :: "cfg_entry list \<Rightarrow> (string \<times> cfg_entry list) list" where
  "sections_of [] = []"
| "sections_of (Section n es # xs) = (n, es) # sections_of xs"
| "sections_of (e # xs) = sections_of xs"

text \<open>
  What the library promises of writing and reading: a value is found where it was put, and the
  sections come back in order (among other children of the root).
\<close>

definition node_reads :: "cfg_entry list \<Rightarrow> ('a) cfg_node_scheme \<Rightarrow> bool" where
  "node_reads es c \<longleftrightarrow> (\<forall>k v. view_str es k = Some v \<longrightarrow> cn_str c k = Some v) \<and>
     (\<forall>k v. view_int es k = Some v \<longrightarrow> cn_int c k = Some v) \<and>
     (\<forall>k v. view_bool es k = Some v \<longrightarrow> cn_bool c k = Some v)"

lemma node_get:
  "node_reads es c \<Longrightarrow> view_str es k = Some v \<Longrightarrow> get_or (cn_str c) k d = v"
  "node_reads es c \<Longrightarrow> view_int es k = Some i \<Longrightarrow> get_or (cn_int c) k j = i"
  "node_reads es c \<Longrightarrow> view_bool es k = Some b \<Longrightarrow> get_or (cn_bool c) k b' = b"
  by (simp_all add: node_reads_def get_or_def)

definition is_section :: "boost_str \<Rightarrow> string \<times> cfg_node \<Rightarrow> bool" where
  "is_section S c \<longleftrightarrow> bs_iequals S (fst c) ''Cooler'' \<or> bs_iequals S (fst c) ''Vacuum''"

definition reads_back :: "boost_str \<Rightarrow> cfg_entry list \<Rightarrow> cfg_root \<Rightarrow> bool" where
  "reads_back S es r \<longleftrightarrow> node_reads es r \<and>
     list_all2 (\<lambda>(n, es) (m, c). n = m \<and> node_reads es c) (sections_of es)
       (filter (is_section S) (cn_sections r))"

lemma load_sections_filter:
  "load_sections S cs p = load_sections S (filter (is_section S) cs) p"
  by (induction S cs p rule: load_sections.induct) (auto simp: is_section_def Let_def)

lemma upto_small: "[1..1] = [1 :: int]" "[1..2] = [1, 2 :: int]"
  by (simp_all add: upto.simps)

context boost_strings
begin

lemma device_keys:
  "device_key S 1 = ''Device_1.<xmlattr>.ID''" "device_key S 2 = ''Device_2.<xmlattr>.ID''"
proof -
  have "char_of (49 :: nat) = CHR ''1''" and "char_of (50 :: nat) = CHR ''2''"
    by code_simp+
  then show "device_key S 1 = ''Device_1.<xmlattr>.ID''" and "device_key S 2 = ''Device_2.<xmlattr>.ID''"
    by (simp_all add: device_key_def format_digit)
qed

lemma load_written_section:
  assumes "node_reads (init_entries S port baud n) c" and "n = 1 \<or> n = 2"
  shows "load_section S c = \<lparr>ax_portName = port, ax_baudRate = baud, ax_n = n, ax_idd = init_devices n\<rparr>"
proof -
  note get = node_get [OF assms(1)]
  have "get_or (cn_str c) ''SerialPort.<xmlattr>.Name'' ''/dev/ttyS0'' = port"
    and "get_or (cn_int c) ''SerialPort.<xmlattr>.BaudRate'' 9600 = baud"
    and n: "get_or (cn_int c) ''DeviceNumber'' 1 = n"
    by (rule get; simp add: init_entries_def)+
  moreover have "get_or (cn_int c) (device_key S i) i = uint (word_of_int i :: byte)" if "i \<in> set [1..n]" for i
  proof (rule get)
    have "i = 1 \<and> n = 1 \<or> i = 1 \<and> n = 2 \<or> i = 2 \<and> n = 2"
      using that assms(2) by auto
    then show "view_int (init_entries S port baud n) (device_key S i) = Some (uint (word_of_int i :: byte))"
      by (auto simp: init_entries_def device_keys upto_small)
  qed
  then have "map (\<lambda>i. word_of_int (get_or (cn_int c) (device_key S i) i)) [1..n] = init_devices n"
    by (simp add: init_devices_def)
  ultimately show ?thesis
    by (simp add: load_section_def Let_def)
qed

lemma section_names:
  "bs_iequals S ''Cooler'' ''Cooler''" "\<not> bs_iequals S ''Vacuum'' ''Cooler''" "bs_iequals S ''Vacuum'' ''Vacuum''"
proof -
  have "map ascii_lower ''Vacuum'' \<noteq> map ascii_lower ''Cooler''"
    by code_simp
  then show "bs_iequals S ''Cooler'' ''Cooler''" "\<not> bs_iequals S ''Vacuum'' ''Cooler''" "bs_iequals S ''Vacuum'' ''Vacuum''"
    by (simp_all add: iequals)
qed

end

section \<open>Properties\<close>


definition sample_root :: "cfg_entry list \<Rightarrow> cfg_root" where
  "sample_root es = \<lparr>cn_str = view_str es, cn_int = view_int es, cn_bool = view_bool es,
     cn_sections = map (\<lambda>(n, es). (n, \<lparr>cn_str = view_str es, cn_int = view_int es, cn_bool = view_bool es\<rparr>))
       (sections_of es)\<rparr>"


end
