(* ===== verification/FlagSearch.thy ===== *)
theory FlagSearch
  imports Prelude
begin

text \<open>
  The search loop of \<open>SerialComm::Lookup\<close> (SerialComm.cpp), which \<open>TCPClient::Lookup\<close> repeats
  over its two buffers: the inner loop compares the flag with the buffer from a position, the outer
  loop advances the position until the inner one ran to the end of the flag or the flag no longer
  fits. Both loops read the buffer through an access function, as the code reads
  \<open>crcrcv_[j]\<close>. The lemmas show that the pair of loops returns the first occurrence.
\<close>

section \<open>The inner comparison loop\<close>

function match_loop :: "(nat \<Rightarrow> byte) \<Rightarrow> bytes \<Rightarrow> nat \<Rightarrow> nat \<Rightarrow> nat \<Rightarrow> nat" where
  "match_loop at flag len i j =
     (if i < len \<and> flag ! i = at j then match_loop at flag len (i + 1) (j + 1) else i)"
  by pat_completeness auto
termination
  by (relation "measure (\<lambda>(at, flag, len, i, j). len - i)") auto

declare match_loop.simps [simp del]

lemma match_loop_le: "i \<le> len \<Longrightarrow> match_loop at flag len i j \<le> len"
proof (induction at flag len i j rule: match_loop.induct)
  case (1 at flag len i j)
  then show ?case by (subst match_loop.simps) auto
qed

lemma match_loop_full_iff:
  "i \<le> len \<Longrightarrow>
     match_loop at flag len i j = len \<longleftrightarrow> (\<forall>d<len - i. flag ! (i + d) = at (j + d))"
proof (induction at flag len i j rule: match_loop.induct)
  case (1 at flag len i j)
  show ?case
  proof (cases "i < len \<and> flag ! i = at j")
    case True
    then have IH: "match_loop at flag len (i + 1) (j + 1) = len \<longleftrightarrow>
        (\<forall>d<len - (i + 1). flag ! (i + Suc d) = at (j + Suc d))"
      using "1.IH" by simp
    have "match_loop at flag len i j = match_loop at flag len (i + 1) (j + 1)"
      using True by (subst match_loop.simps) simp
    moreover have "len - i = Suc (len - (i + 1))"
      using True by arith
    ultimately show ?thesis
      using IH True by (simp only: All_less_Suc2) simp
  next
    case False
    then have "match_loop at flag len i j = i"
      by (subst match_loop.simps) auto
    moreover have "i = len \<or> 0 < len - i"
      using "1.prems" by auto
    ultimately show ?thesis
      using False by (metis add_0_right not_less_zero diff_self_eq_0 zero_less_diff)
  qed
qed

lemma match_loop_occurs:
  assumes "\<forall>q<length xs. at q = xs ! q" and "p + len \<le> length xs" and "len \<le> length flag"
  shows "match_loop at flag len 0 p = len \<longleftrightarrow> occurs_at (take len flag) xs p"
  using assms by (auto simp: match_loop_full_iff occurs_at_nth)

section \<open>The outer loop\<close>

text \<open>
  \<open>n\<close> is the last position at which the flag still fits (negative for a short buffer), \<open>i\<close> the
  result of the last comparison (\<open>-1\<close> before the first). The result is the pair of the final
  \<open>i\<close> and \<open>pos\<close>.
\<close>

function lookup_loop :: "(nat \<Rightarrow> byte) \<Rightarrow> bytes \<Rightarrow> int \<Rightarrow> int \<Rightarrow> int \<Rightarrow> int \<Rightarrow> int \<times> int" where
  "lookup_loop at flag len n i pos =
     (if i \<noteq> len \<and> pos \<le> n
      then lookup_loop at flag len n (int (match_loop at flag (nat len) 0 (nat pos))) (pos + 1)
      else (i, pos))"
  by pat_completeness auto
termination
  by (relation "measure (\<lambda>(at, flag, len, n, i, pos). nat (n + 1 - pos))") auto

declare lookup_loop.simps [simp del]

definition lookup_result :: "int \<Rightarrow> int \<times> int \<Rightarrow> int" where
  "lookup_result len r = (if fst r = len then snd r - 1 else -1)"

text \<open>What a search promises: the first occurrence at or after \<open>from\<close>, or -1.\<close>

definition first_occurrence :: "bytes \<Rightarrow> bytes \<Rightarrow> nat \<Rightarrow> int \<Rightarrow> bool" where
  "first_occurrence flag xs from r \<longleftrightarrow>
     (if \<exists>p. from \<le> p \<and> p \<le> length xs \<and> occurs_at flag xs p
      then 0 \<le> r \<and> from \<le> nat r \<and> occurs_at flag xs (nat r) \<and>
           (\<forall>q. from \<le> q \<and> q < nat r \<longrightarrow> \<not> occurs_at flag xs q)
      else r = -1)"

lemma first_occurrenceI:
  assumes "from \<le> p" and "occurs_at flag xs p"
    and "\<And>q. from \<le> q \<Longrightarrow> q < p \<Longrightarrow> \<not> occurs_at flag xs q"
  shows "first_occurrence flag xs from (int p)"
proof -
  have "\<exists>p. from \<le> p \<and> p \<le> length xs \<and> occurs_at flag xs p"
    using assms(1,2) by (auto simp: occurs_at_def)
  then show ?thesis
    using assms by (auto simp: first_occurrence_def)
qed

lemma first_occurrence_noneI:
  "(\<And>q. from \<le> q \<Longrightarrow> \<not> occurs_at flag xs q) \<Longrightarrow> first_occurrence flag xs from (-1)"
  by (auto simp: first_occurrence_def)

lemma first_occurrence_unique:
  assumes "first_occurrence flag xs from r" and "first_occurrence flag xs from r'"
  shows "r = r'"
proof (cases "\<exists>p. from \<le> p \<and> p \<le> length xs \<and> occurs_at flag xs p")
  case True
  with assms have "\<not> nat r < nat r'" "\<not> nat r' < nat r" "0 \<le> r" "0 \<le> r'"
    by (auto simp: first_occurrence_def)
  then show ?thesis by linarith
next
  case False
  with assms show ?thesis by (simp only: first_occurrence_def if_False)
qed

lemma lookup_loop_step:
  assumes "\<forall>q<length xs. at q = xs ! q" and "0 < len" and "len \<le> int (length flag)"
    and "0 \<le> pos" and "pos \<le> int (length xs) - len" and "i \<noteq> len"
  shows "lookup_loop at flag len (int (length xs) - len) i pos =
    (if occurs_at (take (nat len) flag) xs (nat pos) then (len, pos + 1)
     else lookup_loop at flag len (int (length xs) - len)
            (int (match_loop at flag (nat len) 0 (nat pos))) (pos + 1))"
proof -
  let ?m = "match_loop at flag (nat len) 0 (nat pos)"
  have "?m = nat len \<longleftrightarrow> occurs_at (take (nat len) flag) xs (nat pos)"
    using assms by (intro match_loop_occurs) auto
  then show ?thesis
    using assms(2,5,6)
    by (subst lookup_loop.simps) (auto simp: lookup_loop.simps [of _ _ _ _ len])
qed

lemma lookup_loop_first:
  assumes at: "\<forall>q<length xs. at q = xs ! q" and len: "0 < len" "len \<le> int (length flag)"
    and "0 \<le> pos" and "i \<noteq> len"
  shows "first_occurrence (take (nat len) flag) xs (nat pos)
    (lookup_result len (lookup_loop at flag len (int (length xs) - len) i pos))"
  using \<open>0 \<le> pos\<close> \<open>i \<noteq> len\<close>
proof (induction "nat (int (length xs) - len + 1 - pos)" arbitrary: i pos)
  case 0
  then have small: "\<not> pos \<le> int (length xs) - len" by simp
  have none: "\<not> occurs_at (take (nat len) flag) xs q" if "nat pos \<le> q" for q
    using that small len by (auto simp: occurs_at_def)
  have "lookup_result len (lookup_loop at flag len (int (length xs) - len) i pos) = -1"
    using small 0 by (subst lookup_loop.simps) (auto simp: lookup_result_def)
  then show ?case using none by (auto intro: first_occurrence_noneI)
next
  case (Suc d)
  then have le: "pos \<le> int (length xs) - len" by simp
  let ?occ = "occurs_at (take (nat len) flag) xs"
  let ?m = "match_loop at flag (nat len) 0 (nat pos)"
  note step = lookup_loop_step [OF at len Suc.prems(1) le Suc.prems(2)]
  show ?case
  proof (cases "?occ (nat pos)")
    case True
    then have "lookup_result len (lookup_loop at flag len (int (length xs) - len) i pos)
        = int (nat pos)"
      using step Suc.prems(1) by (simp add: lookup_result_def)
    moreover have "first_occurrence (take (nat len) flag) xs (nat pos) (int (nat pos))"
      using True by (rule first_occurrenceI [OF order_refl]) auto
    ultimately show ?thesis by simp
  next
    case False
    have "?m = nat len \<longleftrightarrow> ?occ (nat pos)"
      using at len le Suc.prems(1) by (intro match_loop_occurs) auto
    with False len have "int ?m \<noteq> len" by auto
    then have IH: "first_occurrence (take (nat len) flag) xs (nat (pos + 1))
        (lookup_result len (lookup_loop at flag len (int (length xs) - len) (int ?m) (pos + 1)))"
      using Suc by (intro Suc.hyps(1)) auto
    have "nat pos \<le> q \<longleftrightarrow> q = nat pos \<or> nat (pos + 1) \<le> q" for q
      using Suc.prems(1) by auto
    with IH False step show ?thesis
      by (simp add: first_occurrence_def) (smt (verit) linorder_not_le le_eq_less_or_eq)
  qed
qed

end
