(* ===== verification/ByteSource.thy ===== *)
theory ByteSource
  imports FlagSearch
begin

text \<open>
  What the users of \<open>SerialComm\<close> and \<open>TCPClient\<close> rely on when they take messages out of the
  receive buffer. \<open>byte_source\<close> is the contract both classes keep: \<open>Lookup\<close> finds the first
  occurrence of a flag and \<open>Read\<close> at position 0 copies bytes and removes them. \<open>frame_source\<close>
  adds the contract of \<open>Read\<close> at a later position, which \<open>ControllerBase::serial_read\<close> uses to cut
  a frame out of the middle of the buffer and which only the serial port keeps. The lemmas inside
  describe what cutting a frame between a head and a tail flag yields.
\<close>

locale byte_source =
  fixes contents :: "'s \<Rightarrow> bytes"
    and lookup :: "'s \<Rightarrow> bytes option \<Rightarrow> int \<Rightarrow> int \<Rightarrow> int"
    and rd :: "'s \<Rightarrow> bytes option \<Rightarrow> int \<Rightarrow> int \<Rightarrow> (int \<times> bytes option \<times> 's) outcome"
  assumes lookup_first:
      "0 < len \<Longrightarrow> len \<le> int (length flag) \<Longrightarrow> 0 \<le> from \<Longrightarrow>
       first_occurrence (take (nat len) flag) (contents s) (nat from) (lookup s (Some flag) len from)"
    and lookup_negative: "from < 0 \<Longrightarrow> lookup s (Some flag) len from = -1"
    and read_front:
      "0 < len \<Longrightarrow> d = take (nat len) (contents s) \<Longrightarrow> length d \<le> length buf \<Longrightarrow>
       \<exists>s'. rd s (Some buf) len 0 = Inr (int (length d), Some (d @ drop (length d) buf), s') \<and>
            contents s' = drop (nat len) (contents s)"
begin

text \<open>A flag that first occurs at a known position is found there.\<close>

lemma lookup_eq:
  assumes "0 \<le> from" and "flag \<noteq> []" and "nat from \<le> p" and "occurs_at flag (contents s) p"
    and "\<And>q. nat from \<le> q \<Longrightarrow> q < p \<Longrightarrow> \<not> occurs_at flag (contents s) q"
  shows "lookup s (Some flag) (int (length flag)) from = int p"
proof -
  have "first_occurrence flag (contents s) (nat from) (int p)"
    using assms(3-5) by (rule first_occurrenceI)
  moreover have "first_occurrence flag (contents s) (nat from)
      (lookup s (Some flag) (int (length flag)) from)"
    using lookup_first [of "int (length flag)" flag "from" s] assms(1,2) by simp
  ultimately show ?thesis by (rule first_occurrence_unique [symmetric])
qed

lemma lookup_absent:
  assumes "0 \<le> from" and "flag \<noteq> []" and "\<And>q. nat from \<le> q \<Longrightarrow> \<not> occurs_at flag (contents s) q"
  shows "lookup s (Some flag) (int (length flag)) from = -1"
proof -
  have "first_occurrence flag (contents s) (nat from) (-1)"
    using assms(3) by (rule first_occurrence_noneI)
  moreover have "first_occurrence flag (contents s) (nat from)
      (lookup s (Some flag) (int (length flag)) from)"
    using lookup_first [of "int (length flag)" flag "from" s] assms(1,2) by simp
  ultimately show ?thesis by (rule first_occurrence_unique [symmetric])
qed

lemma lookup_ge:
  assumes "0 \<le> from" and "flag \<noteq> []"
  shows "lookup s (Some flag) (int (length flag)) from = -1 \<or>
    from \<le> lookup s (Some flag) (int (length flag)) from \<and>
    nat (lookup s (Some flag) (int (length flag)) from) + length flag \<le> length (contents s)"
  using lookup_first [of "int (length flag)" flag "from" s] assms
  by (auto simp: first_occurrence_def occurs_at_def split: if_splits)

text \<open>Taking a message that ends with the first terminator in the buffer.\<close>

lemma message_taken:
  assumes s: "contents s = msg @ flag @ rest" and "flag \<noteq> []"
    and "\<And>q. q < length msg \<Longrightarrow> \<not> occurs_at flag (contents s) q"
    and fits: "length msg + length flag \<le> length buf"
  shows "lookup s (Some flag) (int (length flag)) 0 = int (length msg)"
    and "\<exists>s'. rd s (Some buf) (int (length msg + length flag)) 0 = Inr (int (length msg + length flag),
      Some (msg @ flag @ drop (length msg + length flag) buf), s') \<and> contents s' = rest"
proof -
  have "occurs_at flag (contents s) (length msg)"
    using occurs_at_middle [of flag msg rest] s by simp
  then show "lookup s (Some flag) (int (length flag)) 0 = int (length msg)"
    using lookup_eq [of 0 flag "length msg" s] assms(2,3) by simp
  have "0 < int (length msg + length flag)"
    using assms(2) by (cases flag) simp_all
  from read_front [OF this, of "msg @ flag" s buf] show "\<exists>s'. rd s (Some buf) (int (length msg + length flag)) 0
      = Inr (int (length msg + length flag), Some (msg @ flag @ drop (length msg + length flag) buf), s') \<and>
      contents s' = rest"
    using s fits by simp
qed

end

locale frame_source = byte_source +
  assumes read_at:
      "0 < len \<Longrightarrow> 0 \<le> from \<Longrightarrow> d = slice (nat from) (nat len) (contents s) \<Longrightarrow> d \<noteq> [] \<Longrightarrow>
       length d \<le> length buf \<Longrightarrow>
       \<exists>s'. rd s (Some buf) len from = Inr (int (length d), Some (d @ drop (length d) buf), s') \<and>
            contents s' = drop (nat from + nat len) (contents s)"
begin

text \<open>
  A buffer that holds some noise without a head flag, then one frame from the head to the first tail,
  then the beginning of more input: the frame is located, copied whole, and everything up to its end
  leaves the buffer.
\<close>

lemma frame_located:
  assumes s: "contents s = noise @ body @ tail @ rest" and ne: "hd_flag \<noteq> []" "tail \<noteq> []"
    and h: "occurs_at hd_flag (contents s) (length noise)"
    and no_h: "\<And>q. q < length noise \<Longrightarrow> \<not> occurs_at hd_flag (contents s) q"
    and no_t: "\<And>q. length noise \<le> q \<Longrightarrow> q < length noise + length body \<Longrightarrow>
      \<not> occurs_at tail (contents s) q"
  shows "lookup s (Some hd_flag) (int (length hd_flag)) 0 = int (length noise)"
    and "lookup s (Some tail) (int (length tail)) (int (length noise))
      = int (length noise + length body)"
proof -
  show "lookup s (Some hd_flag) (int (length hd_flag)) 0 = int (length noise)"
    using lookup_eq [of 0 hd_flag "length noise"] ne h no_h by simp
  have "occurs_at tail (contents s) (length noise + length body)"
    using occurs_at_middle [of tail "noise @ body" rest] s by simp
  then show "lookup s (Some tail) (int (length tail)) (int (length noise))
      = int (length noise + length body)"
    using lookup_eq [of "int (length noise)" tail "length noise + length body"] ne no_t by simp
qed

lemma frame_read:
  assumes s: "contents s = noise @ body @ tail @ rest" and ne: "tail \<noteq> []"
    and fits: "length body + length tail \<le> length buf"
  shows "\<exists>s'. rd s (Some buf) (int (length body + length tail)) (int (length noise)) =
      Inr (int (length body + length tail),
           Some (body @ tail @ drop (length body + length tail) buf), s') \<and> contents s' = rest"
proof -
  have "slice (length noise) (length body + length tail) (contents s) = body @ tail"
    using slice_mid [of noise "body @ tail" rest] s by simp
  moreover have "drop (length noise + (length body + length tail)) (contents s) = rest"
    using s by simp
  moreover have "0 < int (length body) + int (length tail)"
    using ne by (simp add: add_nonneg_pos)
  ultimately show ?thesis
    using read_at [of "int (length body + length tail)" "int (length noise)" "body @ tail" s buf]
      ne fits by (simp only: nat_int length_append) simp
qed

end

end
