(* ===== verification/CircularBuffer.thy ===== *)
theory CircularBuffer
  imports Prelude
begin

text \<open>
  \<open>SerialComm\<close> and \<open>TCPClient\<close> keep received and outgoing bytes in \<open>boost::circular_buffer\<close>,
  a library class that is not part of the repository. Its member functions are an argument of the
  model (the record \<open>cb_ops\<close>), and the locale \<open>circular_buffer\<close> states the part of the class's
  documentation that the code relies on: \<open>push_back\<close> appends and overwrites the oldest element of
  a full buffer, \<open>erase_begin n\<close> removes the first \<open>n\<close> of at least \<open>n\<close> elements, and the capacity
  only changes through \<open>set_capacity\<close>. The record \<open>ring_ops\<close> is an instance with
  which the witnesses compute.
\<close>

record 'b cb_ops =
  cb_empty :: 'b
  cb_size :: "'b \<Rightarrow> nat"
  cb_capacity :: "'b \<Rightarrow> nat"
  cb_at :: "'b \<Rightarrow> nat \<Rightarrow> byte"
  cb_push_back :: "'b \<Rightarrow> byte \<Rightarrow> 'b"
  cb_erase_begin :: "'b \<Rightarrow> nat \<Rightarrow> 'b"
  cb_set_capacity :: "'b \<Rightarrow> nat \<Rightarrow> 'b"
  cb_clear :: "'b \<Rightarrow> 'b"

text \<open>The elements from the oldest to the newest: what \<open>linearize()\<close> lays out in memory.\<close>

definition cb_list :: "'b cb_ops \<Rightarrow> 'b \<Rightarrow> bytes" where
  "cb_list B b = map (cb_at B b) [0..<cb_size B b]"

text \<open>The loop \<open>for (i = 0; i < n; ++i) buf.push_back(src[i])\<close>.\<close>

definition cb_push_all :: "'b cb_ops \<Rightarrow> 'b \<Rightarrow> bytes \<Rightarrow> 'b" where
  "cb_push_all B b xs = foldl (cb_push_back B) b xs"

lemma length_cb_list [simp]: "length (cb_list B b) = cb_size B b"
  by (simp add: cb_list_def)

lemma cb_list_nth: "i < cb_size B b \<Longrightarrow> cb_list B b ! i = cb_at B b i"
  by (simp add: cb_list_def)

lemma cb_list_slice:
  "k \<le> cb_size B b \<Longrightarrow> map (cb_at B b) [i..<k] = slice i (k - i) (cb_list B b)"
  by (cases "i \<le> k") (simp_all add: cb_list_def slice_def drop_map take_map)

definition last_n :: "nat \<Rightarrow> 'a list \<Rightarrow> 'a list" where
  "last_n n xs = drop (length xs - n) xs"

lemma last_n_all [simp]: "length xs \<le> n \<Longrightarrow> last_n n xs = xs"
  by (simp add: last_n_def)

lemma length_last_n [simp]: "length (last_n n xs) = min n (length xs)"
  by (simp add: last_n_def)

lemma last_n_append_last_n: "last_n n (last_n n xs @ ys) = last_n n (xs @ ys)"
  by (cases "length xs \<le> n") (auto simp: last_n_def add.commute)

section \<open>The documented behaviour\<close>

locale circular_buffer =
  fixes B :: "'b cb_ops"
  assumes size_le_capacity: "cb_size B b \<le> cb_capacity B b"
    and list_empty: "cb_list B (cb_empty B) = []"
    and list_push_back: "cb_list B (cb_push_back B b c) = last_n (cb_capacity B b) (cb_list B b @ [c])"
    and capacity_push_back: "cb_capacity B (cb_push_back B b c) = cb_capacity B b"
    and list_erase_begin:
      "n \<le> cb_size B b \<Longrightarrow> cb_list B (cb_erase_begin B b n) = drop n (cb_list B b)"
    and capacity_erase_begin:
      "n \<le> cb_size B b \<Longrightarrow> cb_capacity B (cb_erase_begin B b n) = cb_capacity B b"
    and list_set_capacity:
      "cb_size B b \<le> n \<Longrightarrow> cb_list B (cb_set_capacity B b n) = cb_list B b"
    and capacity_set_capacity: "cb_capacity B (cb_set_capacity B b n) = n"
    and list_clear: "cb_list B (cb_clear B b) = []"
begin

lemma size_eq_length: "cb_size B b = length (cb_list B b)"
  by simp

lemma list_le_capacity: "length (cb_list B b) \<le> cb_capacity B b"
  by (simp add: size_le_capacity)

lemma capacity_push_all: "cb_capacity B (cb_push_all B b xs) = cb_capacity B b"
  unfolding cb_push_all_def by (induction xs arbitrary: b) (auto simp: capacity_push_back)

lemma list_push_all:
  "cb_list B (cb_push_all B b xs) = last_n (cb_capacity B b) (cb_list B b @ xs)"
proof (induction xs arbitrary: b)
  case Nil
  then show ?case by (simp add: cb_push_all_def size_le_capacity)
next
  case (Cons x xs)
  have "cb_list B (cb_push_all B b (x # xs)) = cb_list B (cb_push_all B (cb_push_back B b x) xs)"
    by (simp add: cb_push_all_def)
  also have "\<dots> = last_n (cb_capacity B b) (cb_list B (cb_push_back B b x) @ xs)"
    by (simp add: Cons.IH capacity_push_back)
  also have "\<dots> = last_n (cb_capacity B b) ((cb_list B b @ [x]) @ xs)"
    by (simp only: list_push_back last_n_append_last_n)
  finally show ?case by simp
qed

lemma list_push_all_fits:
  "cb_size B b + length xs \<le> cb_capacity B b \<Longrightarrow> cb_list B (cb_push_all B b xs) = cb_list B b @ xs"
  by (simp add: list_push_all)

lemma size_erase_begin:
  "n \<le> cb_size B b \<Longrightarrow> cb_size B (cb_erase_begin B b n) = cb_size B b - n"
  using list_erase_begin [of n b] by (metis length_cb_list length_drop)

lemma empty_iff:
  "cb_size B b = 0 \<longleftrightarrow> cb_list B b = []"
  "0 < cb_size B b \<longleftrightarrow> cb_list B b \<noteq> []"
  by (metis length_cb_list length_0_conv) (metis length_cb_list length_greater_0_conv)

end

section \<open>An instance\<close>

text \<open>A capacity and the stored bytes; a value lists at most as many bytes as its capacity.\<close>

type_synonym ring = "nat \<times> bytes"

definition ring_ops :: "ring cb_ops" where
  "ring_ops = \<lparr>
     cb_empty = (0, []),
     cb_size = (\<lambda>r. min (fst r) (length (snd r))),
     cb_capacity = fst,
     cb_at = (\<lambda>r i. snd r ! i),
     cb_push_back = (\<lambda>r c. (fst r, last_n (fst r) (take (fst r) (snd r) @ [c]))),
     cb_erase_begin = (\<lambda>r n. (fst r, drop n (take (fst r) (snd r)))),
     cb_set_capacity = (\<lambda>r n. (n, take (fst r) (snd r))),
     cb_clear = (\<lambda>r. (fst r, [])) \<rparr>"

lemma ring_ops_sel [simp]:
  "cb_empty ring_ops = (0, [])"
  "cb_size ring_ops r = min (fst r) (length (snd r))"
  "cb_capacity ring_ops r = fst r"
  "cb_at ring_ops r i = snd r ! i"
  "cb_push_back ring_ops r c = (fst r, last_n (fst r) (take (fst r) (snd r) @ [c]))"
  "cb_erase_begin ring_ops r n = (fst r, drop n (take (fst r) (snd r)))"
  "cb_set_capacity ring_ops r n = (n, take (fst r) (snd r))"
  "cb_clear ring_ops r = (fst r, [])"
  by (simp_all add: ring_ops_def)

lemma ring_list [simp]: "cb_list ring_ops r = take (fst r) (snd r)"
  by (rule nth_equalityI) (auto simp: cb_list_def)

interpretation ring: circular_buffer ring_ops
  by unfold_locales (auto simp: last_n_def min_def split: if_splits)

end
