(* ===== verification/SerialComm.thy ===== *)
theory SerialComm
  imports ByteSource CircularBuffer
begin

text \<open>
  The serial port class (SerialComm.h, SerialComm.cpp): its receive and transmit buffers, the
  public operations and the completion handlers of the asynchronous reads and writes. The circular
  buffers are the argument \<open>B\<close> (theory CircularBuffer); the port itself belongs to boost::asio and
  appears as the effects the class requests of it and as the completions it reports.
\<close>

definition SERIAL_BUFF_SIZE :: nat where
  "SERIAL_BUFF_SIZE = 512"

text \<open>An asio error code: its value (0 for success) and its message.\<close>

type_synonym error_code = "int \<times> string"

datatype serial_effect =
    Set_options int          \<comment> \<open>baud rate; one stop bit, no parity, 8 data bits\<close>
  | Async_read nat           \<comment> \<open>\<open>async_read_some\<close> into at most that many bytes\<close>
  | Async_write bytes        \<comment> \<open>\<open>async_write_some\<close> of these bytes\<close>
  | Close_port

record 'b serial_comm =
  sc_is_open :: bool
  sc_errmsg :: string
  sc_cbrcv :: bool           \<comment> \<open>a slot is connected to the receive signal\<close>
  sc_cbsnd :: bool
  sc_bufrcv :: bytes
  sc_crcrcv :: 'b
  sc_crcsnd :: 'b

section \<open>The operations\<close>

text \<open>The constructor, as \<open>make_serial\<close> runs it: \<open>new char[512]\<close> gives 512 arbitrary bytes.\<close>

definition make_serial :: "'b cb_ops \<Rightarrow> bytes \<Rightarrow> 'b serial_comm" where
  "make_serial B fresh = \<lparr>
     sc_is_open = False, sc_errmsg = '''', sc_cbrcv = False, sc_cbsnd = False,
     sc_bufrcv = take SERIAL_BUFF_SIZE fresh,
     sc_crcrcv = cb_set_capacity B (cb_empty B) (SERIAL_BUFF_SIZE * 10),
     sc_crcsnd = cb_set_capacity B (cb_empty B) (SERIAL_BUFF_SIZE * 10) \<rparr>"

definition sc_start_read :: "'b serial_comm \<Rightarrow> serial_effect list" where
  "sc_start_read st = (if sc_is_open st then [Async_read SERIAL_BUFF_SIZE] else [])"

definition sc_start_write :: "'b cb_ops \<Rightarrow> 'b serial_comm \<Rightarrow> serial_effect list" where
  "sc_start_write B st =
     (let n = cb_size B (sc_crcsnd st)
      in if n \<noteq> 0 then [Async_write (cb_list B (sc_crcsnd st))] else [])"

text \<open>\<open>ec\<close> is what \<open>port_.open\<close> reports.\<close>

definition sc_Open ::
  "'b serial_comm \<Rightarrow> int \<Rightarrow> error_code \<Rightarrow> bool \<times> 'b serial_comm \<times> serial_effect list" where
  "sc_Open st baud_rate ec =
     (if sc_is_open st then (True, st, [])
      else if fst ec = 0
           then (let st' = st\<lparr>sc_is_open := True\<rparr>
                 in (True, st', Set_options baud_rate # sc_start_read st'))
           else (False, st\<lparr>sc_errmsg := snd ec\<rparr>, []))"

definition sc_Close :: "'b serial_comm \<Rightarrow> 'b serial_comm \<times> serial_effect list" where
  "sc_Close st =
     (if sc_is_open st then (st\<lparr>sc_is_open := False\<rparr>, [Close_port]) else (st, []))"

text \<open>A null pointer argument is \<open>None\<close>.\<close>

definition sc_Lookup :: "'b cb_ops \<Rightarrow> 'b serial_comm \<Rightarrow> bytes option \<Rightarrow> int \<Rightarrow> int \<Rightarrow> int" where
  "sc_Lookup B st flag len from =
     (case flag of
        None \<Rightarrow> -1
      | Some f \<Rightarrow>
          if len \<le> 0 \<or> from < 0 then -1
          else let n = int (cb_size B (sc_crcrcv st)) - len
               in lookup_result len (lookup_loop (cb_at B (sc_crcrcv st)) f len n (-1) from))"

definition sc_Write ::
  "'b cb_ops \<Rightarrow> 'b serial_comm \<Rightarrow> bytes option \<Rightarrow> int \<Rightarrow> int \<times> 'b serial_comm \<times> serial_effect list"
where
  "sc_Write B st buff len =
     (case buff of
        None \<Rightarrow> (0, st, [])
      | Some src \<Rightarrow>
          if len \<le> 0 \<or> \<not> sc_is_open st then (0, st, [])
          else let n0 = int (cb_size B (sc_crcsnd st));
                   n = min (int (cb_capacity B (sc_crcsnd st)) - n0) len;
                   st' = st\<lparr>sc_crcsnd := cb_push_all B (sc_crcsnd st) (take (nat n) src)\<rparr>
               in (n, st', if n0 = 0 then sc_start_write B st' else []))"

text \<open>
  The destination is a buffer of known size: copying more bytes than it has is undefined. The
  result is the number of copied bytes, the destination after the copy and the new state.
\<close>

definition sc_Read ::
  "'b cb_ops \<Rightarrow> 'b serial_comm \<Rightarrow> bytes option \<Rightarrow> int \<Rightarrow> int
     \<Rightarrow> (int \<times> bytes option \<times> 'b serial_comm) outcome" where
  "sc_Read B st buff len from =
     (case buff of
        None \<Rightarrow> Inr (0, None, st)
      | Some dst \<Rightarrow>
          if len \<le> 0 \<or> from < 0 then Inr (0, Some dst, st)
          else let n1 = from + len;
                   n0 = min (int (cb_size B (sc_crcrcv st))) n1;
                   copied = map (cb_at B (sc_crcrcv st)) [nat from..<nat n0];
                   i = length copied
               in if i > length dst then Inl Out_of_bounds
                  else Inr (int i, Some (copied @ drop i dst),
                            if i \<noteq> 0 then st\<lparr>sc_crcrcv := cb_erase_begin B (sc_crcrcv st) (nat n0)\<rparr>
                            else st))"

definition sc_RegisterRead :: "'b serial_comm \<Rightarrow> 'b serial_comm" where
  "sc_RegisterRead st = st\<lparr>sc_cbrcv := True\<rparr>"

definition sc_RegisterWrite :: "'b serial_comm \<Rightarrow> 'b serial_comm" where
  "sc_RegisterWrite st = st\<lparr>sc_cbsnd := True\<rparr>"

text \<open>
  The completion handlers. The registered slot runs inside the handler and may use the port, so it
  is a function on the port's state together with the state of its own object.
\<close>

definition sc_handle_read ::
  "'b cb_ops \<Rightarrow> (int \<Rightarrow> 'b serial_comm \<times> 'c \<Rightarrow> 'b serial_comm \<times> 'c) \<Rightarrow> 'b serial_comm \<times> 'c
     \<Rightarrow> error_code \<Rightarrow> nat \<Rightarrow> ('b serial_comm \<times> 'c) \<times> serial_effect list" where
  "sc_handle_read B slot sc ec n =
     (let st = fst sc;
          st1 = (if fst ec = 0
                 then st\<lparr>sc_crcrcv := cb_push_all B (sc_crcrcv st) (take n (sc_bufrcv st))\<rparr>
                 else st\<lparr>sc_errmsg := snd ec\<rparr>);
          sc2 = (if sc_cbrcv st1 then slot (fst ec) (st1, snd sc) else (st1, snd sc))
      in (sc2, if fst ec = 0 then sc_start_read (fst sc2) else []))"

definition sc_handle_write ::
  "'b cb_ops \<Rightarrow> (int \<Rightarrow> 'b serial_comm \<times> 'c \<Rightarrow> 'b serial_comm \<times> 'c) \<Rightarrow> 'b serial_comm \<times> 'c
     \<Rightarrow> error_code \<Rightarrow> nat \<Rightarrow> ('b serial_comm \<times> 'c) \<times> serial_effect list" where
  "sc_handle_write B slot sc ec n =
     (let st = fst sc;
          st1 = (if fst ec = 0
                 then st\<lparr>sc_crcsnd := cb_erase_begin B (sc_crcsnd st) n\<rparr>
                 else st\<lparr>sc_errmsg := snd ec\<rparr>);
          sc2 = (if sc_cbsnd st1 then slot (fst ec) (st1, snd sc) else (st1, snd sc))
      in (sc2, if fst ec = 0 then sc_start_write B (fst sc2) else []))"

section \<open>Receiving\<close>

abbreviation sc_received :: "'b cb_ops \<Rightarrow> 'b serial_comm \<Rightarrow> bytes" where
  "sc_received B st \<equiv> cb_list B (sc_crcrcv st)"

lemma sc_Lookup_first:
  assumes "0 < len" and "len \<le> int (length f)" and "0 \<le> from"
  shows "first_occurrence (take (nat len) f) (sc_received B st) (nat from)
    (sc_Lookup B st (Some f) len from)"
proof -
  have "\<forall>q<length (sc_received B st). cb_at B (sc_crcrcv st) q = sc_received B st ! q"
    by (simp add: cb_list_nth)
  from lookup_loop_first [OF this assms, of "-1"] show ?thesis
    using assms by (simp add: sc_Lookup_def)
qed

lemma sc_Lookup_rejects:
  "flag = None \<or> len \<le> 0 \<or> from < 0 \<Longrightarrow> sc_Lookup B st flag len from = -1"
  by (auto simp: sc_Lookup_def split: option.splits)

lemma sc_Read_copied:
  assumes "0 < len" and "0 \<le> from"
  shows "map (cb_at B (sc_crcrcv st)) [nat from..<nat (min (int (cb_size B (sc_crcrcv st))) (from + len))]
    = slice (nat from) (nat len) (sc_received B st)"
proof -
  let ?b = "sc_crcrcv st"
  let ?k = "nat (min (int (cb_size B ?b)) (from + len))"
  have k: "?k = min (cb_size B ?b) (nat from + nat len)"
    using assms by (auto simp: min_def nat_add_distrib)
  then have "map (cb_at B ?b) [nat from..<?k] = slice (nat from) (?k - nat from) (cb_list B ?b)"
    by (intro cb_list_slice) simp
  also have "\<dots> = slice (nat from) (nat len) (cb_list B ?b)"
    unfolding k slice_def by (auto simp: min_def)
  finally show ?thesis .
qed

context circular_buffer
begin

lemma sc_Read_spec:
  assumes "0 < len" and "0 \<le> from" and d: "d = slice (nat from) (nat len) (sc_received B st)"
    and fits: "length d \<le> length dst"
  shows "\<exists>st'. sc_Read B st (Some dst) len from = Inr (int (length d), Some (d @ drop (length d) dst), st') \<and>
    sc_received B st' = (if d = [] then sc_received B st
                         else drop (nat from + nat len) (sc_received B st))"
proof -
  let ?b = "sc_crcrcv st"
  let ?n0 = "min (int (cb_size B ?b)) (from + len)"
  have copied: "map (cb_at B ?b) [nat from..<nat ?n0] = d"
    using sc_Read_copied [OF assms(1,2)] d by simp
  let ?st' = "if d \<noteq> [] then st\<lparr>sc_crcrcv := cb_erase_begin B ?b (nat ?n0)\<rparr> else st"
  have "sc_Read B st (Some dst) len from = Inr (int (length d), Some (d @ drop (length d) dst), ?st')"
    using assms(1,2) fits copied by (auto simp: sc_Read_def Let_def)
  moreover have "cb_list B (cb_erase_begin B ?b (nat ?n0)) = drop (nat from + nat len) (cb_list B ?b)"
    using assms(1,2) by (subst list_erase_begin) (auto simp: min_def nat_add_distrib)
  ultimately show ?thesis by auto
qed

end

sublocale circular_buffer \<subseteq> serial: frame_source "sc_received B" "sc_Lookup B" "sc_Read B"
proof unfold_locales
  fix s :: "'b serial_comm" and d buf :: bytes and len :: int
  assume "0 < len" and d: "d = take (nat len) (sc_received B s)" and "length d \<le> length buf"
  then show "\<exists>s'. sc_Read B s (Some buf) len 0 = Inr (int (length d), Some (d @ drop (length d) buf), s') \<and>
      sc_received B s' = drop (nat len) (sc_received B s)"
    using sc_Read_spec [of len 0 d s buf] by (auto simp: slice_0 split: if_splits)
next
  fix s :: "'b serial_comm" and len "from" :: int and d buf :: bytes
  assume "0 < len" and "0 \<le> from" and "d = slice (nat from) (nat len) (sc_received B s)" and "d \<noteq> []"
    and "length d \<le> length buf"
  then show "\<exists>s'. sc_Read B s (Some buf) len from = Inr (int (length d), Some (d @ drop (length d) buf), s') \<and>
      sc_received B s' = drop (nat from + nat len) (sc_received B s)"
    using sc_Read_spec [of len "from" d s buf] by auto
qed (auto intro: sc_Lookup_first sc_Lookup_rejects)

section \<open>Transmitting\<close>

text \<open>
  The sending side as a state machine: the port together with the writes that boost::asio has been
  asked for and has not completed, the bytes it has put on the wire, the bytes that \<open>Write\<close>
  accepted, and whether a write has failed. The environment completes the oldest outstanding write,
  wholly or in part, or fails it.
\<close>

record 'b link =
  lk_port :: "'b serial_comm"
  lk_pending :: "bytes list"
  lk_wire :: bytes
  lk_accepted :: bytes
  lk_failed :: bool

fun async_writes :: "serial_effect list \<Rightarrow> bytes list" where
  "async_writes [] = []"
| "async_writes (Async_write d # es) = d # async_writes es"
| "async_writes (e # es) = async_writes es"

definition no_slot :: "int \<Rightarrow> 'b serial_comm \<times> unit \<Rightarrow> 'b serial_comm \<times> unit" where
  "no_slot ec sc = sc"

definition link_submit :: "'b cb_ops \<Rightarrow> bytes \<Rightarrow> 'b link \<Rightarrow> 'b link" where
  "link_submit B src l =
     (case sc_Write B (lk_port l) (Some src) (int (length src)) of
        (n, st', effs) \<Rightarrow>
          l\<lparr>lk_port := st', lk_pending := lk_pending l @ async_writes effs,
            lk_accepted := lk_accepted l @ take (nat n) src\<rparr>)"

definition link_complete :: "'b cb_ops \<Rightarrow> nat \<Rightarrow> 'b link \<Rightarrow> 'b link" where
  "link_complete B n l =
     (case sc_handle_write B no_slot (lk_port l, ()) (0, '''') n of
        (sc, effs) \<Rightarrow>
          l\<lparr>lk_port := fst sc, lk_pending := tl (lk_pending l) @ async_writes effs,
            lk_wire := lk_wire l @ take n (hd (lk_pending l))\<rparr>)"

definition link_fail :: "'b cb_ops \<Rightarrow> error_code \<Rightarrow> 'b link \<Rightarrow> 'b link" where
  "link_fail B ec l =
     (case sc_handle_write B no_slot (lk_port l, ()) ec 0 of
        (sc, effs) \<Rightarrow>
          l\<lparr>lk_port := fst sc, lk_pending := tl (lk_pending l) @ async_writes effs,
            lk_failed := True\<rparr>)"

inductive link_step :: "'b cb_ops \<Rightarrow> 'b link \<Rightarrow> 'b link \<Rightarrow> bool" for B where
  submit: "link_step B l (link_submit B src l)"
| complete: "lk_pending l = d # ds \<Longrightarrow> 0 < n \<Longrightarrow> n \<le> length d \<Longrightarrow> link_step B l (link_complete B n l)"
| fail: "lk_pending l = d # ds \<Longrightarrow> fst ec \<noteq> 0 \<Longrightarrow> link_step B l (link_fail B ec l)"

definition link_init :: "'b serial_comm \<Rightarrow> 'b link" where
  "link_init st = \<lparr>lk_port = st, lk_pending = [], lk_wire = [], lk_accepted = [], lk_failed = False\<rparr>"

inductive link_reach :: "'b cb_ops \<Rightarrow> 'b link \<Rightarrow> 'b link \<Rightarrow> bool" for B l0 where
  start: "link_reach B l0 l0"
| step: "link_reach B l0 l \<Longrightarrow> link_step B l l' \<Longrightarrow> link_reach B l0 l'"

abbreviation lk_queued :: "'b cb_ops \<Rightarrow> 'b link \<Rightarrow> bytes" where
  "lk_queued B l \<equiv> cb_list B (sc_crcsnd (lk_port l))"

text \<open>
  At most one write is outstanding, it is a non-empty prefix of the queued bytes, and as long as no
  write failed there is one exactly when bytes are queued.
\<close>

definition link_inv :: "'b cb_ops \<Rightarrow> 'b link \<Rightarrow> bool" where
  "link_inv B l \<longleftrightarrow>
     lk_wire l @ lk_queued B l = lk_accepted l \<and>
     (\<forall>d\<in>set (lk_pending l). d \<noteq> [] \<and> prefix d (lk_queued B l)) \<and>
     length (lk_pending l) \<le> 1 \<and>
     (\<not> lk_failed l \<longrightarrow> lk_queued B l \<noteq> [] \<longrightarrow> lk_pending l \<noteq> [])"

context circular_buffer
begin

lemma start_write_eq:
  "async_writes (sc_start_write B st) =
     (if cb_list B (sc_crcsnd st) = [] then [] else [cb_list B (sc_crcsnd st)])"
  by (simp add: sc_start_write_def empty_iff)

lemma Write_eq:
  assumes "sc_is_open st" and "src \<noteq> []"
    and n: "n = min (cb_capacity B (sc_crcsnd st) - cb_size B (sc_crcsnd st)) (length src)"
  shows "\<exists>st'. sc_Write B st (Some src) (int (length src)) =
      (int n, st', if cb_list B (sc_crcsnd st) = [] then sc_start_write B st' else []) \<and>
      cb_list B (sc_crcsnd st') = cb_list B (sc_crcsnd st) @ take n src \<and>
      cb_capacity B (sc_crcsnd st') = cb_capacity B (sc_crcsnd st) \<and> sc_is_open st'"
proof -
  let ?b = "sc_crcsnd st"
  have "min (int (cb_capacity B ?b) - int (cb_size B ?b)) (int (length src)) = int n"
    using n size_le_capacity [of ?b] by (auto simp: min_def)
  moreover have "cb_list B (cb_push_all B ?b (take n src)) = cb_list B ?b @ take n src"
    using n size_le_capacity [of ?b] by (intro list_push_all_fits) auto
  ultimately show ?thesis
    using assms by (simp add: sc_Write_def Let_def empty_iff capacity_push_all)
qed

lemma Write_closed_or_empty:
  "\<not> sc_is_open st \<or> src = [] \<Longrightarrow> sc_Write B st (Some src) (int (length src)) = (0, st, [])"
  by (auto simp: sc_Write_def)

lemma link_submit_inv: "link_inv B l \<Longrightarrow> link_inv B (link_submit B src l)"
proof (cases "sc_is_open (lk_port l) \<and> src \<noteq> []")
  case False
  then have "link_submit B src l = l"
    using Write_closed_or_empty [of "lk_port l" src] by (auto simp: link_submit_def)
  then show "link_inv B l \<Longrightarrow> ?thesis" by simp
next
  case True
  assume inv: "link_inv B l"
  define n where "n = min (cb_capacity B (sc_crcsnd (lk_port l)) - cb_size B (sc_crcsnd (lk_port l)))
    (length src)"
  obtain st' where w: "sc_Write B (lk_port l) (Some src) (int (length src)) =
      (int n, st', if lk_queued B l = [] then sc_start_write B st' else [])"
    and q: "cb_list B (sc_crcsnd st') = lk_queued B l @ take n src"
    using Write_eq [OF _ _ n_def] True by metis
  have eq: "link_submit B src l = l\<lparr>lk_port := st',
      lk_pending := lk_pending l @ (if lk_queued B l = [] then async_writes (sc_start_write B st') else []),
      lk_accepted := lk_accepted l @ take n src\<rparr>"
    by (simp add: link_submit_def w)
  show ?thesis
  proof (cases "lk_queued B l = []")
    case True
    then have "lk_pending l = []"
      using inv by (cases "lk_pending l") (auto simp: link_inv_def)
    then show ?thesis
      using inv q True unfolding link_inv_def eq by (simp add: start_write_eq)
  next
    case False
    then show ?thesis
      using inv q unfolding link_inv_def eq by (auto intro: prefix_prefix simp flip: append_assoc)
  qed
qed

lemma link_complete_inv:
  assumes inv: "link_inv B l" and p: "lk_pending l = d # ds" and n: "0 < n" "n \<le> length d"
  shows "link_inv B (link_complete B n l)"
proof -
  obtain r where q: "lk_queued B l = d @ r" and ds: "ds = []"
    using inv p by (auto simp: link_inv_def prefix_def)
  have "n \<le> cb_size B (sc_crcsnd (lk_port l))"
    using n q by (metis length_append length_cb_list trans_le_add1)
  then have e: "cb_list B (cb_erase_begin B (sc_crcsnd (lk_port l)) n) = drop n d @ r"
    using list_erase_begin q n by simp
  have "lk_wire l @ d @ r = lk_accepted l"
    using inv q by (simp add: link_inv_def)
  then have "lk_wire l @ take n d @ drop n d @ r = lk_accepted l"
    by (metis append_assoc append_take_drop_id)
  then show ?thesis
    using p ds by (auto simp: link_inv_def link_complete_def sc_handle_write_def no_slot_def
        Let_def start_write_eq e)
qed

lemma link_fail_inv:
  assumes "link_inv B l" and "lk_pending l = d # ds" and "fst ec \<noteq> 0"
  shows "link_inv B (link_fail B ec l)"
  using assms by (auto simp: link_inv_def link_fail_def sc_handle_write_def no_slot_def Let_def)

lemma link_step_inv: "link_step B l l' \<Longrightarrow> link_inv B l \<Longrightarrow> link_inv B l'"
  by (induction rule: link_step.induct) (auto intro: link_submit_inv link_complete_inv link_fail_inv)

lemma link_reach_inv: "link_reach B l0 l \<Longrightarrow> link_inv B l0 \<Longrightarrow> link_inv B l"
  by (induction rule: link_reach.induct) (auto dest: link_step_inv)

lemma make_serial_empty:
  "cb_list B (sc_crcsnd (make_serial B fresh)) = []"
  "sc_received B (make_serial B fresh) = []"
  "cb_capacity B (sc_crcsnd (make_serial B fresh)) = SERIAL_BUFF_SIZE * 10"
  "cb_capacity B (sc_crcrcv (make_serial B fresh)) = SERIAL_BUFF_SIZE * 10"
proof -
  have "cb_size B (cb_empty B) \<le> SERIAL_BUFF_SIZE * 10"
    using empty_iff(1) list_empty by (metis zero_le)
  then show "cb_list B (sc_crcsnd (make_serial B fresh)) = []"
    and "sc_received B (make_serial B fresh) = []"
    and "cb_capacity B (sc_crcsnd (make_serial B fresh)) = SERIAL_BUFF_SIZE * 10"
    and "cb_capacity B (sc_crcrcv (make_serial B fresh)) = SERIAL_BUFF_SIZE * 10"
    by (simp_all add: make_serial_def capacity_set_capacity list_set_capacity list_empty)
qed

text \<open>
  After a failed write with bytes left in the queue nothing is sent any more: \<open>Write\<close> only starts a
  transmission into an empty queue, and no completion will come.
\<close>

lemma stalled_step:
  assumes "link_step B l l'" and "lk_pending l = []" and "lk_queued B l \<noteq> []"
  shows "lk_pending l' = [] \<and> lk_queued B l' \<noteq> [] \<and> lk_wire l' = lk_wire l"
  using assms
proof cases
  case (submit src)
  define n where "n = min (cb_capacity B (sc_crcsnd (lk_port l)) - cb_size B (sc_crcsnd (lk_port l)))
    (length src)"
  show ?thesis
  proof (cases "sc_is_open (lk_port l) \<and> src \<noteq> []")
    case True
    then obtain st' where w: "sc_Write B (lk_port l) (Some src) (int (length src)) =
        (int n, st', if lk_queued B l = [] then sc_start_write B st' else [])"
      and q: "cb_list B (sc_crcsnd st') = lk_queued B l @ take n src"
      using Write_eq [OF _ _ n_def] by metis
    from w have "link_submit B src l = l\<lparr>lk_port := st',
        lk_accepted := lk_accepted l @ take n src\<rparr>"
      using assms(3) by (simp add: link_submit_def)
    then show ?thesis using submit assms q by simp
  next
    case False
    then show ?thesis
      using submit assms Write_closed_or_empty [of "lk_port l" src] by (auto simp: link_submit_def)
  qed
qed (use assms in auto)

lemma stalled_reach:
  assumes "link_reach B l l'" and "lk_pending l = []" and "lk_queued B l \<noteq> []"
  shows "lk_pending l' = [] \<and> lk_queued B l' \<noteq> [] \<and> lk_wire l' = lk_wire l"
  using assms
proof (induction rule: link_reach.induct)
  case start
  then show ?case by simp
next
  case (step l1 l2)
  then show ?case using stalled_step [of l1 l2] by simp
qed

end

section \<open>Properties\<close>

text \<open>
  \<open>SerialComm::Lookup\<close> returns the position of the first occurrence of the flag at or after
  \<open>from\<close> in the received bytes, and -1 exactly when the flag does not occur there.
\<close>

theorem serial_lookup_finds_first:
  assumes "0 < len" and "len \<le> int (length f)" and "0 \<le> from"
  shows "first_occurrence (take (nat len) f) (sc_received B st) (nat from)
    (sc_Lookup B st (Some f) len from)"
  using assms by (rule sc_Lookup_first)

definition sample_port :: "ring serial_comm" where
  "sample_port = \<lparr>sc_is_open = True, sc_errmsg = '''', sc_cbrcv = True, sc_cbsnd = False,
     sc_bufrcv = replicate 8 0, sc_crcrcv = (16, [7, 58, 48, 13, 10, 9]), sc_crcsnd = (4, [])\<rparr>"

theorem serial_lookup_finds_first_witness:
  "first_occurrence [13, 10] [7, 58, 48, 13, 10, 9] 1
     (sc_Lookup ring_ops sample_port (Some [13, 10]) 2 1) \<and>
   sc_Lookup ring_ops sample_port (Some [13, 10]) 2 1 = 3"
proof
  show "first_occurrence [13, 10] [7, 58, 48, 13, 10, 9] 1
     (sc_Lookup ring_ops sample_port (Some [13, 10]) 2 1)"
    using serial_lookup_finds_first [of 2 "[13, 10]" 1 ring_ops sample_port]
    by (simp add: sample_port_def)
  show "sc_Lookup ring_ops sample_port (Some [13, 10]) 2 1 = 3"
    by code_simp
qed

text \<open>
  \<open>SerialComm::Read\<close> of \<open>len\<close> bytes at \<open>from\<close>, where at least one byte is there and the
  destination is large enough, copies exactly the bytes of the stream at those positions to the start
  of the destination, leaves the rest of the destination alone, and removes from the receive buffer
  these bytes and everything before them.
\<close>

theorem serial_read_takes_slice:
  assumes "circular_buffer B" and "0 < len" and "0 \<le> from"
    and "d = slice (nat from) (nat len) (sc_received B st)" and "d \<noteq> []" and "length d \<le> length dst"
  shows "\<exists>st'. sc_Read B st (Some dst) len from = Inr (int (length d), Some (d @ drop (length d) dst), st') \<and>
    sc_received B st' = drop (nat from + nat len) (sc_received B st)"
  using circular_buffer.sc_Read_spec [OF assms(1-4,6)] assms(5) by simp

theorem serial_read_takes_slice_witness:
  "\<exists>st'. sc_Read ring_ops sample_port (Some [0, 0, 0, 0, 5]) 4 1 = Inr (4, Some [58, 48, 13, 10, 5], st') \<and>
    sc_received ring_ops st' = [9]"
  using serial_read_takes_slice [OF ring.circular_buffer_axioms, of 4 1 "[58, 48, 13, 10]" sample_port
      "[0, 0, 0, 0, 5]"]
  by (simp add: sample_port_def slice_def)

text \<open>
  C16. Transmission through \<open>Write\<close>, \<open>start_write\<close> and \<open>handle_write\<close> is a lossless queue. From a
  port with an empty transmit buffer, after any sequence of writes, partial completions and failures:
  the bytes on the wire followed by the bytes still queued are exactly the bytes that \<open>Write\<close>
  accepted, in order; at most one asynchronous write is outstanding, and it carries a non-empty
  prefix of the queue; and unless a write failed, queued bytes always have a write under way.
\<close>

theorem serial_transmit_lossless:
  assumes "circular_buffer B" and "cb_list B (sc_crcsnd st) = []"
    and "link_reach B (link_init st) l"
  shows "lk_wire l @ lk_queued B l = lk_accepted l \<and>
    length (lk_pending l) \<le> 1 \<and>
    (\<forall>d\<in>set (lk_pending l). d \<noteq> [] \<and> prefix d (lk_queued B l)) \<and>
    (\<not> lk_failed l \<longrightarrow> lk_queued B l \<noteq> [] \<longrightarrow> lk_pending l \<noteq> [])"
proof -
  have "link_inv B (link_init st)"
    using assms(2) by (simp add: link_inv_def link_init_def)
  then have "link_inv B l"
    by (rule circular_buffer.link_reach_inv [OF assms(1,3)])
  then show ?thesis
    by (simp add: link_inv_def)
qed

text \<open>Two writes into a queue of four bytes, the first of which completes in part.\<close>

definition sample_link :: "ring link" where
  "sample_link = link_submit ring_ops [4, 5, 6]
     (link_complete ring_ops 2 (link_submit ring_ops [1, 2, 3] (link_init sample_port)))"

lemma sample_link_eq:
  "sample_link = \<lparr>lk_port = sample_port\<lparr>sc_crcsnd := (4, [3, 4, 5, 6])\<rparr>, lk_pending = [[3]],
     lk_wire = [1, 2], lk_accepted = [1, 2, 3, 4, 5, 6], lk_failed = False\<rparr>"
  by (simp add: sample_link_def link_submit_def link_complete_def link_init_def sample_port_def
      sc_Write_def sc_handle_write_def no_slot_def sc_start_write_def cb_push_all_def last_n_def)

lemma sample_link_reach: "link_reach ring_ops (link_init sample_port) sample_link"
proof -
  let ?l1 = "link_submit ring_ops [1, 2, 3] (link_init sample_port)"
  have "lk_pending ?l1 = [[1, 2, 3]]"
    by (simp add: link_submit_def link_init_def sample_port_def
      sc_Write_def sc_start_write_def cb_push_all_def last_n_def)
  then have "link_step ring_ops ?l1 (link_complete ring_ops 2 ?l1)"
    by (intro link_step.complete) auto
  then show ?thesis
    unfolding sample_link_def by (blast intro: link_reach.intros link_step.submit)
qed

theorem serial_transmit_lossless_witness:
  "lk_wire sample_link @ lk_queued ring_ops sample_link = lk_accepted sample_link \<and>
   lk_accepted sample_link = [1, 2, 3, 4, 5, 6] \<and> lk_pending sample_link = [[3]]"
  using serial_transmit_lossless [OF ring.circular_buffer_axioms _ sample_link_reach]
  by (simp add: sample_port_def sample_link_eq)

text \<open>
  A failed write stalls the port: once an asynchronous write has failed and left bytes in the
  transmit buffer, no later call of \<open>Write\<close> puts anything on the wire again, because \<open>Write\<close>
  starts a transmission only when it finds the buffer empty and the failed handler does not restart one.
\<close>

theorem serial_write_error_stalls:
  assumes "circular_buffer B" and "fst ec \<noteq> 0" and "lk_pending l = [d]" and "lk_queued B l \<noteq> []"
    and "link_reach B (link_fail B ec l) l'"
  shows "lk_pending l' = [] \<and> lk_wire l' = lk_wire l"
proof -
  have "lk_pending (link_fail B ec l) = []" and "lk_queued B (link_fail B ec l) \<noteq> []"
    and "lk_wire (link_fail B ec l) = lk_wire l"
    using assms(2-4) by (auto simp: link_fail_def sc_handle_write_def no_slot_def Let_def)
  then show ?thesis
    using circular_buffer.stalled_reach [OF assms(1,5)] by simp
qed

theorem serial_write_error_stalls_witness:
  "lk_pending (link_submit ring_ops [8] (link_fail ring_ops (5, ''I/O error'') sample_link)) = [] \<and>
   lk_wire (link_submit ring_ops [8] (link_fail ring_ops (5, ''I/O error'') sample_link)) = [1, 2]"
proof -
  have "link_reach ring_ops (link_fail ring_ops (5, ''I/O error'') sample_link)
      (link_submit ring_ops [8] (link_fail ring_ops (5, ''I/O error'') sample_link))"
    by (blast intro: link_reach.intros link_step.submit)
  then show ?thesis
    using serial_write_error_stalls [OF ring.circular_buffer_axioms, of "(5, ''I/O error'')" sample_link "[3]"]
    by (simp add: sample_link_eq)
qed

end
