(* ===== verification/AsciiProtocol.thy ===== *)
theory AsciiProtocol
  imports BoostStrings
begin

text \<open>
  The text protocol towards the server (AsciiProtocolBase.h, AsciiProtocol.h, AsciiProtocol.cpp):
  the message structures, their rendering as \<open>type key=value,...\<close> lines into a rotating output
  buffer, and the parser. \<open>S\<close> stands for the Boost string algorithms (theory BoostStrings),
  \<open>N\<close> for the C library's number conversions (theory Prelude). Derived structures extend the record
  of their base, as the classes do.
\<close>

section \<open>Messages\<close>

record ascii_proto_base =
  ap_type :: string
  ap_utc :: string
  ap_gid :: string
  ap_uid :: string
  ap_cid :: string

record ascii_proto_cooler = ascii_proto_base +
  pc_voltage :: float32
  pc_current :: float32
  pc_hotend :: float32
  pc_coolget :: float32
  pc_coolset :: float32

record ascii_proto_vacuum = ascii_proto_base +
  pv_voltage :: float32
  pv_current :: float32
  pv_pressure :: string

definition FLT_MIN :: float32 where
  "FLT_MIN = 0x00800000"

definition make_apcooler :: ascii_proto_cooler where
  "make_apcooler = \<lparr>ap_type = ''cooler'', ap_utc = '''', ap_gid = '''', ap_uid = '''', ap_cid = '''',
     pc_voltage = FLT_MIN, pc_current = FLT_MIN, pc_hotend = FLT_MIN, pc_coolget = FLT_MIN,
     pc_coolset = FLT_MIN\<rparr>"

definition make_apvacuum :: ascii_proto_vacuum where
  "make_apvacuum = \<lparr>ap_type = ''vacuum'', ap_utc = '''', ap_gid = '''', ap_uid = '''', ap_cid = '''',
     pv_voltage = FLT_MIN, pv_current = FLT_MIN, pv_pressure = ''''\<rparr>"

text \<open>The result of the parser: a null pointer is \<open>None\<close>.\<close>

datatype apbase = Ap_cooler ascii_proto_cooler | Ap_vacuum ascii_proto_vacuum

section \<open>Rendering\<close>

record asc_proto =
  asc_ibuf :: nat
  asc_buff :: string

definition make_ascproto :: "string \<Rightarrow> asc_proto" where
  "make_ascproto fresh = \<lparr>asc_ibuf = 0, asc_buff = take (1024 * 10) fresh\<rparr>"

definition NUL :: char where
  "NUL = CHR 0x00"

definition c_str :: "string \<Rightarrow> string" where
  "c_str s = takeWhile (\<lambda>c. c \<noteq> NUL) s"

text \<open>
  The text that is rendered, the slot the rotating index picks, and the write of the text with its
  terminator: past the end of the whole buffer it is undefined, past the end of its slot it runs into
  the next one. The result is the position of the returned pointer, \<open>n\<close> and the new state.
\<close>

definition compacted_text :: "boost_str \<Rightarrow> string \<Rightarrow> string" where
  "compacted_text S output = c_str (bs_trim_right_ps S output) @ [CHR 0x0A]"

definition output_compacted ::
  "boost_str \<Rightarrow> asc_proto \<Rightarrow> string \<Rightarrow> (nat \<times> int \<times> asc_proto) outcome" where
  "output_compacted S a output =
     (let pos = asc_ibuf a * 1024;
          ibuf = (if asc_ibuf a + 1 = 10 then 0 else asc_ibuf a + 1);
          text = compacted_text S output
      in if pos + length text + 1 > length (asc_buff a) then Inl Out_of_bounds
         else Inr (pos, int (length text),
                   \<lparr>asc_ibuf = ibuf,
                    asc_buff = take pos (asc_buff a) @ text @ NUL # drop (pos + length text + 1) (asc_buff a)\<rparr>))"

text \<open>What a reader of the returned pointer sees.\<close>

definition text_at :: "asc_proto \<Rightarrow> nat \<Rightarrow> string" where
  "text_at a pos = c_str (drop pos (asc_buff a))"

definition join_kv :: "boost_str \<Rightarrow> string \<Rightarrow> string \<Rightarrow> string \<Rightarrow> string" where
  "join_kv S output keyword value = output @ bs_format_kv S keyword value"

definition join_kv_f :: "boost_str \<Rightarrow> num_conv \<Rightarrow> string \<Rightarrow> string \<Rightarrow> float32 \<Rightarrow> string" where
  "join_kv_f S N output keyword value = output @ bs_format_kv S keyword (nc_show_float N value)"

definition compact_base :: "boost_str \<Rightarrow> 'a ascii_proto_base_scheme \<Rightarrow> string" where
  "compact_base S p =
     (let output = ap_type p @ '' '';
          output = (if ap_utc p \<noteq> '''' then join_kv S output ''time'' (ap_utc p) else output);
          output = join_kv S output ''group_id'' (ap_gid p);
          output = join_kv S output ''unit_id'' (ap_uid p)
      in join_kv S output ''cam_id'' (ap_cid p))"

definition compact_cooler_text :: "boost_str \<Rightarrow> num_conv \<Rightarrow> ascii_proto_cooler \<Rightarrow> string" where
  "compact_cooler_text S N p =
     (let output = compact_base S p;
          output = join_kv_f S N output ''voltage'' (pc_voltage p);
          output = join_kv_f S N output ''current'' (pc_current p);
          output = join_kv_f S N output ''hotend'' (pc_hotend p);
          output = join_kv_f S N output ''coolget'' (pc_coolget p)
      in join_kv_f S N output ''coolset'' (pc_coolset p))"

definition compact_vacuum_text :: "boost_str \<Rightarrow> num_conv \<Rightarrow> ascii_proto_vacuum \<Rightarrow> string" where
  "compact_vacuum_text S N p =
     (let output = compact_base S p;
          output = join_kv_f S N output ''voltage'' (pv_voltage p);
          output = join_kv_f S N output ''current'' (pv_current p)
      in join_kv S output ''pressure'' (pv_pressure p))"

text \<open>A null message gives a null result and leaves everything alone.\<close>

definition CompactCooler :: "boost_str \<Rightarrow> num_conv \<Rightarrow> asc_proto \<Rightarrow> ascii_proto_cooler option
    \<Rightarrow> ((nat \<times> int) option \<times> asc_proto) outcome" where
  "CompactCooler S N a proto =
     (case proto of
        None \<Rightarrow> Inr (None, a)
      | Some p \<Rightarrow> and_then (output_compacted S a (compact_cooler_text S N p))
                  (\<lambda>(pos, n, a'). Inr (Some (pos, n), a')))"

definition CompactVacuum :: "boost_str \<Rightarrow> num_conv \<Rightarrow> asc_proto \<Rightarrow> ascii_proto_vacuum option
    \<Rightarrow> ((nat \<times> int) option \<times> asc_proto) outcome" where
  "CompactVacuum S N a proto =
     (case proto of
        None \<Rightarrow> Inr (None, a)
      | Some p \<Rightarrow> and_then (output_compacted S a (compact_vacuum_text S N p))
                  (\<lambda>(pos, n, a'). Inr (Some (pos, n), a')))"

section \<open>Parsing\<close>

definition resolve_kv :: "boost_str \<Rightarrow> string \<Rightarrow> bool \<times> string \<times> string" where
  "resolve_kv S kv =
     (let tokens = bs_split S ''='' kv;
          keyword = (case tokens of [] \<Rightarrow> '''' | k # _ \<Rightarrow> bs_trim S k);
          value = (case tokens of k # v # _ \<Rightarrow> bs_trim S v | _ \<Rightarrow> '''')
      in (\<not> (keyword = '''' \<or> value = ''''), keyword, value))"

definition set_cooler_field ::
  "boost_str \<Rightarrow> num_conv \<Rightarrow> string \<Rightarrow> string \<Rightarrow> ascii_proto_cooler \<Rightarrow> ascii_proto_cooler" where
  "set_cooler_field S N k v p =
     (let num = nc_narrow N (nc_atof N v)
      in if bs_iequals S k ''group_id'' then p\<lparr>ap_gid := v\<rparr>
         else if bs_iequals S k ''unit_id'' then p\<lparr>ap_uid := v\<rparr>
         else if bs_iequals S k ''cam_id'' then p\<lparr>ap_cid := v\<rparr>
         else if bs_iequals S k ''voltage'' then p\<lparr>pc_voltage := num\<rparr>
         else if bs_iequals S k ''current'' then p\<lparr>pc_current := num\<rparr>
         else if bs_iequals S k ''hotend'' then p\<lparr>pc_hotend := num\<rparr>
         else if bs_iequals S k ''coolget'' then p\<lparr>pc_coolget := num\<rparr>
         else if bs_iequals S k ''coolset'' then p\<lparr>pc_coolset := num\<rparr>
         else if bs_iequals S k ''time'' then p\<lparr>ap_utc := v\<rparr>
         else p)"

definition set_vacuum_field ::
  "boost_str \<Rightarrow> num_conv \<Rightarrow> string \<Rightarrow> string \<Rightarrow> ascii_proto_vacuum \<Rightarrow> ascii_proto_vacuum" where
  "set_vacuum_field S N k v p =
     (let num = nc_narrow N (nc_atof N v)
      in if bs_iequals S k ''group_id'' then p\<lparr>ap_gid := v\<rparr>
         else if bs_iequals S k ''unit_id'' then p\<lparr>ap_uid := v\<rparr>
         else if bs_iequals S k ''cam_id'' then p\<lparr>ap_cid := v\<rparr>
         else if bs_iequals S k ''voltage'' then p\<lparr>pv_voltage := num\<rparr>
         else if bs_iequals S k ''current'' then p\<lparr>pv_current := num\<rparr>
         else if bs_iequals S k ''pressure'' then p\<lparr>pv_pressure := v\<rparr>
         else if bs_iequals S k ''time'' then p\<lparr>ap_utc := v\<rparr>
         else p)"

fun resolve_cooler ::
  "boost_str \<Rightarrow> num_conv \<Rightarrow> ascii_proto_cooler \<Rightarrow> string list \<Rightarrow> ascii_proto_cooler" where
  "resolve_cooler S N p [] = p"
| "resolve_cooler S N p (t # ts) =
     (case resolve_kv S t of (ok, k, v) \<Rightarrow>
        resolve_cooler S N (if ok then set_cooler_field S N k v p else p) ts)"

fun resolve_vacuum ::
  "boost_str \<Rightarrow> num_conv \<Rightarrow> ascii_proto_vacuum \<Rightarrow> string list \<Rightarrow> ascii_proto_vacuum" where
  "resolve_vacuum S N p [] = p"
| "resolve_vacuum S N p (t # ts) =
     (case resolve_kv S t of (ok, k, v) \<Rightarrow>
        resolve_vacuum S N (if ok then set_vacuum_field S N k v p else p) ts)"

text \<open>
  \<open>rcvd\<close> is a C string. \<open>type[0]\<close> of an empty \<open>std::string\<close> is the terminator.
\<close>

definition Resolve :: "boost_str \<Rightarrow> num_conv \<Rightarrow> string \<Rightarrow> apbase option" where
  "Resolve S N rcvd =
     (let txt = c_str rcvd;
          type = takeWhile (\<lambda>c. c \<noteq> CHR '' '') txt;
          ptr = dropWhile (\<lambda>c. c = CHR '' '') (dropWhile (\<lambda>c. c \<noteq> CHR '' '') txt);
          tokens = (if ptr \<noteq> [] then bs_split S '','' ptr else []);
          ch = (case type of [] \<Rightarrow> NUL | c # _ \<Rightarrow> c)
      in if ch = CHR ''a'' then None
         else if ch = CHR ''b'' then None
         else if ch = CHR ''c'' then
           (if bs_iequals S type ''cooler'' then Some (Ap_cooler (resolve_cooler S N make_apcooler tokens))
            else None)
         else if ch = CHR ''v'' then
           (if bs_iequals S type ''vacuum'' then Some (Ap_vacuum (resolve_vacuum S N make_apvacuum tokens))
            else None)
         else None)"

section \<open>Round trip\<close>

text \<open>
  A value that survives the text form: no separator and no terminator in it, no blank at its ends.
\<close>

definition wf_value :: "string \<Rightarrow> bool" where
  "wf_value v \<longleftrightarrow> trimmed v \<and> CHR '','' \<notin> set v \<and> CHR ''='' \<notin> set v \<and> NUL \<notin> set v"

definition ends_plain :: "string \<Rightarrow> bool" where
  "ends_plain v \<longleftrightarrow> v \<noteq> [] \<and> \<not> is_punct (last v) \<and> \<not> is_space (last v)"

definition wf_float :: "num_conv \<Rightarrow> float32 \<Rightarrow> bool" where
  "wf_float N f \<longleftrightarrow>
     wf_value (nc_show_float N f) \<and> ends_plain (nc_show_float N f) \<and>
     nc_narrow N (nc_atof N (nc_show_float N f)) = f"

definition wf_base :: "'a ascii_proto_base_scheme \<Rightarrow> bool" where
  "wf_base p \<longleftrightarrow> wf_value (ap_utc p) \<and> wf_value (ap_gid p) \<and> wf_value (ap_uid p) \<and> wf_value (ap_cid p)"

definition wf_cooler :: "num_conv \<Rightarrow> ascii_proto_cooler \<Rightarrow> bool" where
  "wf_cooler N p \<longleftrightarrow>
     ap_type p = ''cooler'' \<and> wf_base p \<and> wf_float N (pc_voltage p) \<and> wf_float N (pc_current p) \<and>
     wf_float N (pc_hotend p) \<and> wf_float N (pc_coolget p) \<and> wf_float N (pc_coolset p)"

definition wf_vacuum :: "num_conv \<Rightarrow> ascii_proto_vacuum \<Rightarrow> bool" where
  "wf_vacuum N p \<longleftrightarrow>
     ap_type p = ''vacuum'' \<and> wf_base p \<and> wf_float N (pv_voltage p) \<and> wf_float N (pv_current p) \<and>
     wf_value (pv_pressure p) \<and> ends_plain (pv_pressure p)"

text \<open>The pairs of a message and the line they make.\<close>

definition kv :: "string \<times> string \<Rightarrow> string" where
  "kv p = fst p @ ''='' @ snd p"

definition base_pairs :: "'a ascii_proto_base_scheme \<Rightarrow> (string \<times> string) list" where
  "base_pairs p = (if ap_utc p \<noteq> '''' then [(''time'', ap_utc p)] else []) @
     [(''group_id'', ap_gid p), (''unit_id'', ap_uid p), (''cam_id'', ap_cid p)]"

definition cooler_pairs :: "num_conv \<Rightarrow> ascii_proto_cooler \<Rightarrow> (string \<times> string) list" where
  "cooler_pairs N p = base_pairs p @
     [(''voltage'', nc_show_float N (pc_voltage p)), (''current'', nc_show_float N (pc_current p)),
      (''hotend'', nc_show_float N (pc_hotend p)), (''coolget'', nc_show_float N (pc_coolget p)),
      (''coolset'', nc_show_float N (pc_coolset p))]"

definition vacuum_pairs :: "num_conv \<Rightarrow> ascii_proto_vacuum \<Rightarrow> (string \<times> string) list" where
  "vacuum_pairs N p = base_pairs p @
     [(''voltage'', nc_show_float N (pv_voltage p)), (''current'', nc_show_float N (pv_current p)),
      (''pressure'', pv_pressure p)]"

definition wf_key :: "string \<Rightarrow> bool" where
  "wf_key k \<longleftrightarrow> k \<noteq> [] \<and> wf_value k"

definition wf_pairs :: "(string \<times> string) list \<Rightarrow> bool" where
  "wf_pairs ps \<longleftrightarrow> ps \<noteq> [] \<and> (\<forall>p\<in>set ps. wf_key (fst p) \<and> wf_value (snd p)) \<and> ends_plain (snd (last ps))"

lemma wf_keys [simp]:
  "wf_key ''time''" "wf_key ''group_id''" "wf_key ''unit_id''" "wf_key ''cam_id''" "wf_key ''voltage''"
  "wf_key ''current''" "wf_key ''hotend''" "wf_key ''coolget''" "wf_key ''coolset''" "wf_key ''pressure''"
  by code_simp+

lemma no_upper_keys [simp]:
  "no_upper ''time''" "no_upper ''group_id''" "no_upper ''unit_id''" "no_upper ''cam_id''"
  "no_upper ''voltage''" "no_upper ''current''" "no_upper ''hotend''" "no_upper ''coolget''"
  "no_upper ''coolset''" "no_upper ''pressure''" "no_upper ''cooler''" "no_upper ''vacuum''"
  by code_simp+

lemma newline_space [simp]: "is_space (CHR 0x0A)"
  by code_simp

lemma blank_space [simp]: "is_space (CHR '' '')"
  by code_simp

lemma comma_punct [simp]: "is_punct (CHR '','')"
  by code_simp

lemma cooler_pairs_wf: "wf_cooler N p \<Longrightarrow> wf_pairs (cooler_pairs N p)"
  by (auto simp: wf_pairs_def cooler_pairs_def base_pairs_def wf_cooler_def wf_base_def wf_float_def)

lemma vacuum_pairs_wf: "wf_vacuum N p \<Longrightarrow> wf_pairs (vacuum_pairs N p)"
  by (auto simp: wf_pairs_def vacuum_pairs_def base_pairs_def wf_vacuum_def wf_base_def wf_float_def)

lemma concat_commas:
  "ts \<noteq> [] \<Longrightarrow> concat (map (\<lambda>t. t @ '','') ts) = join_tokens (CHR '','') ts @ '',''"
  by (induction "CHR '',''" ts rule: join_tokens.induct) auto

lemma join_tokens_last: "join_tokens c (ts @ [t]) @ u = join_tokens c (ts @ [t @ u])"
proof (induction ts)
  case Nil
  then show ?case by simp
next
  case (Cons a ts)
  then show ?case by (cases ts) auto
qed

lemma kv_nonempty: "wf_key (fst p) \<Longrightarrow> kv p \<noteq> []"
  by (simp add: kv_def wf_key_def)

lemma last_kv: "ends_plain (snd p) \<Longrightarrow> last (kv p) = last (snd p)"
  by (simp add: kv_def ends_plain_def)

lemma NUL_notin_kv: "wf_key (fst p) \<Longrightarrow> wf_value (snd p) \<Longrightarrow> NUL \<notin> set (kv p)"
  by (auto simp: kv_def wf_key_def wf_value_def NUL_def)

lemma comma_notin_kv: "wf_key (fst p) \<Longrightarrow> wf_value (snd p) \<Longrightarrow> CHR '','' \<notin> set (kv p)"
  by (auto simp: kv_def wf_key_def wf_value_def)

lemma set_join_tokens: "set (join_tokens c ts) \<subseteq> insert c (\<Union>t\<in>set ts. set t)"
  by (induction c ts rule: join_tokens.induct) auto

context boost_strings
begin

lemma compact_cooler_text_eq:
  "compact_cooler_text S N p = ap_type p @ '' '' @ concat (map (\<lambda>q. kv q @ '','') (cooler_pairs N p))"
  by (simp add: compact_cooler_text_def compact_base_def join_kv_def join_kv_f_def Let_def
      cooler_pairs_def base_pairs_def kv_def format_kv)

lemma compact_vacuum_text_eq:
  "compact_vacuum_text S N p = ap_type p @ '' '' @ concat (map (\<lambda>q. kv q @ '','') (vacuum_pairs N p))"
  by (simp add: compact_vacuum_text_def compact_base_def join_kv_def join_kv_f_def Let_def
      vacuum_pairs_def base_pairs_def kv_def format_kv)

text \<open>The final comma is trimmed and the newline replaces it.\<close>

lemma compacted_pairs:
  assumes ps: "wf_pairs ps" and hd: "NUL \<notin> set type"
  shows "compacted_text S (type @ '' '' @ concat (map (\<lambda>q. kv q @ '','') ps)) =
    type @ '' '' @ join_tokens (CHR '','') (map kv ps) @ [CHR 0x0A]"
proof -
  let ?body = "join_tokens (CHR '','') (map kv ps)"
  obtain qs q where psq: "ps = qs @ [q]"
    using ps by (metis wf_pairs_def append_butlast_last_id)
  have q: "ends_plain (snd q)" "wf_key (fst q)"
    using ps psq by (auto simp: wf_pairs_def)
  have body: "concat (map (\<lambda>q. kv q @ '','') ps) = ?body @ '',''"
    using concat_commas [of "map kv ps"] ps by (simp add: wf_pairs_def comp_def)
  have "?body = join_tokens (CHR '','') (map kv qs @ [[]]) @ kv q"
    using join_tokens_last [of _ "map kv qs" "[]" "kv q"] psq by simp
  then have "last ?body = last (snd q)" and "?body \<noteq> []"
    using q kv_nonempty [of q] last_kv [of q] by simp_all
  then have "bs_trim_right_ps S ((type @ '' '' @ ?body) @ '','') = type @ '' '' @ ?body"
    using q by (intro trim_right) (auto simp: ends_plain_def)
  moreover have "NUL \<notin> set (type @ '' '' @ ?body)"
    using hd set_join_tokens [of "CHR '',''" "map kv ps"] ps NUL_notin_kv
    by (fastforce simp: wf_pairs_def NUL_def)
  then have "c_str (type @ '' '' @ ?body) = type @ '' '' @ ?body"
    unfolding c_str_def by (subst takeWhile_eq_all_conv) auto
  ultimately show ?thesis
    using body by (simp add: compacted_text_def)
qed

lemma resolve_kv_pair:
  assumes "wf_key (fst p)" and "wf_value (snd p)" and "list_all is_space b" and "CHR ''='' \<notin> set b"
  shows "resolve_kv S (kv p @ b) = (snd p \<noteq> '''', fst p, snd p)"
proof -
  have "bs_split S [CHR ''=''] (join_tokens (CHR ''='') [fst p, snd p @ b]) = [fst p, snd p @ b]"
    using assms by (intro split_join) (auto simp: wf_key_def wf_value_def)
  then have "bs_split S ''='' (kv p @ b) = [fst p, snd p @ b]"
    by (simp add: kv_def)
  moreover have "bs_trim S (fst p) = fst p" and "bs_trim S (snd p @ b) = snd p"
    using assms trim_spaces [of "snd p" "[]" b]
    by (simp_all add: wf_key_def wf_value_def trim_trimmed)
  ultimately show ?thesis
    using assms(1) by (auto simp: resolve_kv_def wf_key_def)
qed

text \<open>The tokens the parser sees are the pairs, the last one with the newline.\<close>

lemma split_pairs:
  assumes ps: "wf_pairs (ps @ [p])"
  shows "bs_split S '','' (join_tokens (CHR '','') (map kv (ps @ [p])) @ [CHR 0x0A]) =
    map kv ps @ [kv p @ [CHR 0x0A]]"
proof -
  have "bs_split S [CHR '',''] (join_tokens (CHR '','') (map kv ps @ [kv p @ [CHR 0x0A]])) =
      map kv ps @ [kv p @ [CHR 0x0A]]"
  proof (rule split_join)
    fix t
    have "\<forall>q\<in>set (ps @ [p]). CHR '','' \<notin> set (kv q)"
      using ps comma_notin_kv unfolding wf_pairs_def by blast
    moreover assume "t \<in> set (map kv ps @ [kv p @ [CHR 0x0A]])"
    ultimately show "CHR '','' \<notin> set t"
      by auto
  next
    have "t \<noteq> []" if "t \<in> set (map kv ps)" for t
      using that ps kv_nonempty by (auto simp: wf_pairs_def)
    then show "[] \<notin> set (butlast (tl (map kv ps @ [kv p @ [CHR 0x0A]])))"
      by (cases ps) (auto dest: in_set_butlastD)
  qed simp
  then show ?thesis
    using join_tokens_last [of "CHR '',''" "map kv ps" "kv p" "[CHR 0x0A]"] by simp
qed

text \<open>Both parsers run their field setter over the pairs.\<close>

lemma resolve_cooler_pairs:
  "\<forall>p\<in>set ps. wf_key (fst p) \<and> wf_value (snd p) \<Longrightarrow>
   resolve_cooler S N m (map kv ps @ ts) =
     resolve_cooler S N (foldl (\<lambda>m p. if snd p \<noteq> '''' then set_cooler_field S N (fst p) (snd p) m else m) m ps) ts"
  by (induction ps arbitrary: m) (simp_all add: resolve_kv_pair [of _ "[]", simplified] split_beta)

lemma resolve_vacuum_pairs:
  "\<forall>p\<in>set ps. wf_key (fst p) \<and> wf_value (snd p) \<Longrightarrow>
   resolve_vacuum S N m (map kv ps @ ts) =
     resolve_vacuum S N (foldl (\<lambda>m p. if snd p \<noteq> '''' then set_vacuum_field S N (fst p) (snd p) m else m) m ps) ts"
  by (induction ps arbitrary: m) (simp_all add: resolve_kv_pair [of _ "[]", simplified] split_beta)

lemma resolve_line:
  assumes ps: "wf_pairs ps"
  shows "resolve_cooler S N m (bs_split S '','' (join_tokens (CHR '','') (map kv ps) @ [CHR 0x0A])) =
      foldl (\<lambda>m p. if snd p \<noteq> '''' then set_cooler_field S N (fst p) (snd p) m else m) m ps"
    and "resolve_vacuum S N m' (bs_split S '','' (join_tokens (CHR '','') (map kv ps) @ [CHR 0x0A])) =
      foldl (\<lambda>m p. if snd p \<noteq> '''' then set_vacuum_field S N (fst p) (snd p) m else m) m' ps"
proof -
  obtain qs q where psq: "ps = qs @ [q]"
    using ps by (metis wf_pairs_def append_butlast_last_id)
  have qs: "\<forall>p\<in>set qs. wf_key (fst p) \<and> wf_value (snd p)"
    and kvq: "resolve_kv S (kv q @ [CHR 0x0A]) = (snd q \<noteq> '''', fst q, snd q)"
    using ps psq resolve_kv_pair [of q "[CHR 0x0A]"] by (auto simp: wf_pairs_def)
  show "resolve_cooler S N m (bs_split S '','' (join_tokens (CHR '','') (map kv ps) @ [CHR 0x0A])) =
      foldl (\<lambda>m p. if snd p \<noteq> '''' then set_cooler_field S N (fst p) (snd p) m else m) m ps"
    unfolding psq split_pairs [OF ps [unfolded psq]] resolve_cooler_pairs [OF qs]
    by (simp add: kvq split_beta)
  show "resolve_vacuum S N m' (bs_split S '','' (join_tokens (CHR '','') (map kv ps) @ [CHR 0x0A])) =
      foldl (\<lambda>m p. if snd p \<noteq> '''' then set_vacuum_field S N (fst p) (snd p) m else m) m' ps"
    unfolding psq split_pairs [OF ps [unfolded psq]] resolve_vacuum_pairs [OF qs]
    by (simp add: kvq split_beta)
qed

text \<open>How \<open>Resolve\<close> takes a line apart.\<close>

lemma line_parts:
  assumes "wf_pairs ps" and "type = ''cooler'' \<or> type = ''vacuum''"
    and line: "line = type @ '' '' @ join_tokens (CHR '','') (map kv ps) @ [CHR 0x0A]"
  shows "c_str line = line"
    and "takeWhile (\<lambda>c. c \<noteq> CHR '' '') line = type"
    and "dropWhile (\<lambda>c. c = CHR '' '') (dropWhile (\<lambda>c. c \<noteq> CHR '' '') line) =
      join_tokens (CHR '','') (map kv ps) @ [CHR 0x0A]"
proof -
  have nul: "NUL \<notin> set line"
    using assms set_join_tokens [of "CHR '',''" "map kv ps"] NUL_notin_kv
    by (fastforce simp: wf_pairs_def NUL_def)
  then show "c_str line = line"
    unfolding c_str_def by (subst takeWhile_eq_all_conv) auto
  obtain q qs where psq: "ps = q # qs"
    using assms(1) by (auto simp: wf_pairs_def neq_Nil_conv)
  have "hd (fst q) \<noteq> CHR '' ''"
    using assms(1) psq by (auto simp: wf_pairs_def wf_key_def wf_value_def trimmed_def)
  moreover have "fst q \<noteq> []"
    using assms(1) psq by (auto simp: wf_pairs_def wf_key_def)
  ultimately have hd: "hd (join_tokens (CHR '','') (map kv ps) @ [CHR 0x0A]) \<noteq> CHR '' ''"
    using psq by (cases qs) (auto simp: kv_def hd_append)
  have keep: "dropWhile (\<lambda>c. c = CHR '' '') (join_tokens (CHR '','') (map kv ps) @ [CHR 0x0A]) =
      join_tokens (CHR '','') (map kv ps) @ [CHR 0x0A]"
    using hd by (cases "join_tokens (CHR '','') (map kv ps)") auto
  show "takeWhile (\<lambda>c. c \<noteq> CHR '' '') line = type"
    using assms(2) line by auto
  show "dropWhile (\<lambda>c. c = CHR '' '') (dropWhile (\<lambda>c. c \<noteq> CHR '' '') line) =
      join_tokens (CHR '','') (map kv ps) @ [CHR 0x0A]"
    using assms(2) line keep by auto
qed

lemma resolve_cooler_roundtrip:
  assumes wf: "wf_cooler N p"
  shows "Resolve S N (compacted_text S (compact_cooler_text S N p)) = Some (Ap_cooler p)"
proof -
  let ?line = "ap_type p @ '' '' @ join_tokens (CHR '','') (map kv (cooler_pairs N p)) @ [CHR 0x0A]"
  have ty: "ap_type p = ''cooler''" and ps: "wf_pairs (cooler_pairs N p)"
    using wf cooler_pairs_wf [OF wf] by (auto simp: wf_cooler_def)
  have line: "compacted_text S (compact_cooler_text S N p) = ?line"
    unfolding compact_cooler_text_eq using ty by (intro compacted_pairs ps) (auto simp: NUL_def)
  note parts = line_parts [OF ps disjI1 [OF ty] refl]
  have "foldl (\<lambda>m q. if snd q \<noteq> '''' then set_cooler_field S N (fst q) (snd q) m else m)
      make_apcooler (cooler_pairs N p) = p"
    using wf by (cases p) (auto simp: cooler_pairs_def base_pairs_def make_apcooler_def
        set_cooler_field_def iequals_lower wf_cooler_def wf_float_def ends_plain_def)
  then show ?thesis
    unfolding line Resolve_def parts Let_def
    using ty resolve_line [OF ps] by (simp add: iequals_lower)
qed

lemma resolve_vacuum_roundtrip:
  assumes wf: "wf_vacuum N p"
  shows "Resolve S N (compacted_text S (compact_vacuum_text S N p)) = Some (Ap_vacuum p)"
proof -
  let ?line = "ap_type p @ '' '' @ join_tokens (CHR '','') (map kv (vacuum_pairs N p)) @ [CHR 0x0A]"
  have ty: "ap_type p = ''vacuum''" and ps: "wf_pairs (vacuum_pairs N p)"
    using wf vacuum_pairs_wf [OF wf] by (auto simp: wf_vacuum_def)
  have line: "compacted_text S (compact_vacuum_text S N p) = ?line"
    unfolding compact_vacuum_text_eq using ty by (intro compacted_pairs ps) (auto simp: NUL_def)
  note parts = line_parts [OF ps disjI2 [OF ty] refl]
  have "foldl (\<lambda>m q. if snd q \<noteq> '''' then set_vacuum_field S N (fst q) (snd q) m else m)
      make_apvacuum (vacuum_pairs N p) = p"
    using wf by (cases p) (auto simp: vacuum_pairs_def base_pairs_def make_apvacuum_def
        set_vacuum_field_def iequals_lower wf_vacuum_def wf_float_def ends_plain_def)
  then show ?thesis
    unfolding line Resolve_def parts Let_def
    using ty resolve_line [OF ps] by (simp add: iequals_lower)
qed

end

section \<open>The rotating output buffer\<close>

definition asc_wf :: "asc_proto \<Rightarrow> bool" where
  "asc_wf a \<longleftrightarrow> asc_ibuf a < 10 \<and> length (asc_buff a) = 10240"

definition slot :: "asc_proto \<Rightarrow> nat \<Rightarrow> string" where
  "slot a j = slice (j * 1024) 1024 (asc_buff a)"

definition fits_slot :: "boost_str \<Rightarrow> string \<Rightarrow> bool" where
  "fits_slot S output \<longleftrightarrow> length (compacted_text S output) < 1024"

fun compact_all :: "boost_str \<Rightarrow> asc_proto \<Rightarrow> string list \<Rightarrow> asc_proto outcome" where
  "compact_all S a [] = Inr a"
| "compact_all S a (t # ts) = and_then (output_compacted S a t) (\<lambda>(pos, n, a'). compact_all S a' ts)"

lemma slice_splice_same:
  "pos + length t \<le> length b \<Longrightarrow>
   slice pos m (take pos b @ t @ drop (pos + length t) b) = take m (t @ drop (pos + length t) b)"
  by (simp add: slice_def)

lemma slice_splice_before:
  "i + m \<le> pos \<Longrightarrow> pos + length t \<le> length b \<Longrightarrow>
   slice i m (take pos b @ t @ drop (pos + length t) b) = slice i m b"
  by (simp add: slice_def drop_take)

lemma slice_splice_after:
  "pos + length t \<le> i \<Longrightarrow> pos + length t \<le> length b \<Longrightarrow>
   slice i m (take pos b @ t @ drop (pos + length t) b) = slice i m b"
  by (simp add: slice_def)

lemma c_str_append: "NUL \<in> set xs \<Longrightarrow> c_str (xs @ ys) = c_str xs"
  by (auto simp: c_str_def takeWhile_append1)

lemma c_str_slice: "NUL \<in> set (slice i m xs) \<Longrightarrow> c_str (drop i xs) = c_str (slice i m xs)"
  unfolding slice_def by (metis append_take_drop_id c_str_append)

lemma text_at_slot: "NUL \<in> set (slot a j) \<Longrightarrow> text_at a (j * 1024) = c_str (slot a j)"
  unfolding text_at_def slot_def by (rule c_str_slice)

lemma NUL_notin_compacted: "NUL \<notin> set (compacted_text S t)"
  by (auto simp: compacted_text_def c_str_def NUL_def dest: set_takeWhileD)

lemma compact_step:
  assumes wf: "asc_wf a" and fits: "fits_slot S t"
  shows "\<exists>a'. output_compacted S a t = Inr (asc_ibuf a * 1024, int (length (compacted_text S t)), a') \<and>
    asc_wf a' \<and> asc_ibuf a' = (asc_ibuf a + 1) mod 10 \<and>
    NUL \<in> set (slot a' (asc_ibuf a)) \<and> c_str (slot a' (asc_ibuf a)) = compacted_text S t \<and>
    (\<forall>j<10. j \<noteq> asc_ibuf a \<longrightarrow> slot a' j = slot a j)"
proof -
  let ?t = "compacted_text S t @ [NUL]"
  let ?p = "asc_ibuf a * 1024"
  let ?b = "asc_buff a"
  have len: "length ?t \<le> 1024" and pos: "?p + 1024 \<le> length ?b"
    using wf fits by (auto simp: asc_wf_def fits_slot_def)
  then have bound: "?p + length ?t \<le> length ?b" by linarith
  define a' where "a' = \<lparr>asc_ibuf = (if asc_ibuf a + 1 = 10 then 0 else asc_ibuf a + 1),
    asc_buff = take ?p ?b @ ?t @ drop (?p + length ?t) ?b\<rparr>"
  have out: "output_compacted S a t = Inr (?p, int (length (compacted_text S t)), a')"
    using bound by (simp add: output_compacted_def a'_def Let_def)
  have "asc_wf a'" and "asc_ibuf a' = (asc_ibuf a + 1) mod 10"
    using wf bound by (auto simp: a'_def asc_wf_def)
  moreover have own: "slot a' (asc_ibuf a) = compacted_text S t @ NUL # take (1024 - length ?t) (drop (?p + length ?t) ?b)"
    unfolding slot_def a'_def asc_proto.select_convs slice_splice_same [OF bound]
    using len by (simp add: take_Cons')
  moreover have "c_str (slot a' (asc_ibuf a)) = compacted_text S t"
    unfolding own using NUL_notin_compacted [of S t]
    by (simp add: c_str_def) (metis (mono_tags, lifting) append_Nil2 takeWhile.simps(2) takeWhile_append2)
  moreover have "slot a' j = slot a j" if "j < 10" and "j \<noteq> asc_ibuf a" for j
  proof (cases "j < asc_ibuf a")
    case True
    then show ?thesis
      unfolding slot_def a'_def asc_proto.select_convs
      using bound by (intro slice_splice_before) auto
  next
    case False
    with that have "asc_ibuf a + 1 \<le> j" by simp
    then have "?p + 1024 \<le> j * 1024" by simp
    then show ?thesis
      unfolding slot_def a'_def asc_proto.select_convs
      using bound len by (intro slice_splice_after) linarith+
  qed
  ultimately show ?thesis
    using out by auto
qed

lemma slots_differ:
  assumes "(i::nat) < 10" and "k < 9"
  shows "((i + 1) mod 10 + k) mod 10 \<noteq> i"
proof -
  have "((i + 1) mod 10 + k) mod 10 = (i + 1 + k) mod 10"
    by (rule mod_add_left_eq)
  also have "\<dots> = (if i + 1 + k < 10 then i + 1 + k else i + 1 + k - 10)"
    using assms by (simp add: mod_if)
  finally show ?thesis using assms by (auto split: if_splits)
qed

lemma compact_all_keeps_slot:
  assumes "asc_wf a" and "list_all (fits_slot S) ts" and "j < 10"
    and "\<forall>k<length ts. (asc_ibuf a + k) mod 10 \<noteq> j"
  shows "\<exists>a'. compact_all S a ts = Inr a' \<and> slot a' j = slot a j"
  using assms
proof (induction ts arbitrary: a)
  case Nil
  then show ?case by simp
next
  case (Cons t ts)
  then have "fits_slot S t" by simp
  from compact_step [OF Cons.prems(1) this] obtain a1 n where
    out: "output_compacted S a t = Inr (asc_ibuf a * 1024, n, a1)" and wf: "asc_wf a1"
    and ib: "asc_ibuf a1 = (asc_ibuf a + 1) mod 10"
    and keep: "\<forall>i<10. i \<noteq> asc_ibuf a \<longrightarrow> slot a1 i = slot a i" by blast
  have "j \<noteq> asc_ibuf a"
    using Cons.prems(1,4) by (auto simp: asc_wf_def)
  moreover have "\<forall>k<length ts. (asc_ibuf a1 + k) mod 10 \<noteq> j"
  proof (intro allI impI)
    fix k
    assume "k < length ts"
    then have "(asc_ibuf a + Suc k) mod 10 \<noteq> j"
      using Cons.prems(4) by (metis Suc_less_eq length_Cons)
    then show "(asc_ibuf a1 + k) mod 10 \<noteq> j"
      unfolding ib by (simp add: mod_simps)
  qed
  then obtain a' where "compact_all S a1 ts = Inr a'" and "slot a' j = slot a1 j"
    using Cons.IH [OF wf] Cons.prems(2,3) by auto
  ultimately show ?case
    using out keep Cons.prems(3) by simp
qed

section \<open>Properties\<close>

text \<open>
  C17. Rendering a well-formed temperature message with \<open>CompactCooler\<close> and parsing the resulting
  line with \<open>Resolve\<close> gives the message back: all identifiers, the time tag (which is left out when it
  is empty) and every reading whose decimal text reads back as the same \<open>float\<close>.
\<close>

theorem cooler_message_roundtrip:
  assumes "boost_strings S" and "wf_cooler N p"
    and "CompactCooler S N a (Some p) = Inr (Some (pos, n), a')"
  shows "Resolve S N (compacted_text S (compact_cooler_text S N p)) = Some (Ap_cooler p) \<and>
    n = int (length (compacted_text S (compact_cooler_text S N p))) \<and> pos = asc_ibuf a * 1024"
  using boost_strings.resolve_cooler_roundtrip [OF assms(1,2)] assms(3)
  by (auto simp: CompactCooler_def output_compacted_def Let_def and_then_Inr_iff split: if_splits)

text \<open>Conversions good enough for the samples: a float whose pattern is a small number is its digits.\<close>

definition toy_conv :: num_conv where
  "toy_conv = \<lparr>nc_atof = (\<lambda>s. if s = ''12'' then 12 else if s = ''7'' then 7 else 0),
     nc_narrow = ucast, nc_fmt_1f = (\<lambda>d. show_nat (unat d)), nc_fmt_f = (\<lambda>f. show_nat (unat f)),
     nc_show_float = (\<lambda>f. if f = 12 then ''12'' else if f = 7 then ''7'' else ''0'')\<rparr>"

definition sample_cooler :: ascii_proto_cooler where
  "sample_cooler = \<lparr>ap_type = ''cooler'', ap_utc = ''2018-06-14T08:11:30'', ap_gid = ''001'',
     ap_uid = ''003'', ap_cid = '''', pc_voltage = 12, pc_current = 7, pc_hotend = 0, pc_coolget = 7,
     pc_coolset = 12\<rparr>"

definition sample_asc :: asc_proto where
  "sample_asc = \<lparr>asc_ibuf = 9, asc_buff = replicate 10240 (CHR ''x'')\<rparr>"

lemma sample_cooler_wf: "wf_cooler toy_conv sample_cooler"
  by code_simp

lemma sample_cooler_line:
  "compacted_text boost_ref (compact_cooler_text boost_ref toy_conv sample_cooler) =
   ''cooler time=2018-06-14T08:11:30,group_id=001,unit_id=003,cam_id=,voltage=12,current=7,'' @
   ''hotend=0,coolget=7,coolset=12'' @ [CHR 0x0A]"
  by code_simp

theorem cooler_message_roundtrip_witness:
  "Resolve boost_ref toy_conv
     (''cooler time=2018-06-14T08:11:30,group_id=001,unit_id=003,cam_id=,voltage=12,current=7,'' @
      ''hotend=0,coolget=7,coolset=12'' @ [CHR 0x0A]) = Some (Ap_cooler sample_cooler)"
proof -
  have "CompactCooler boost_ref toy_conv sample_asc (Some sample_cooler) = Inr (Some (9216, 116),
      \<lparr>asc_ibuf = 0, asc_buff = take 9216 (asc_buff sample_asc) @
        compacted_text boost_ref (compact_cooler_text boost_ref toy_conv sample_cooler) @ NUL #
        drop 9333 (asc_buff sample_asc)\<rparr>)"
    by (simp add: CompactCooler_def output_compacted_def sample_asc_def sample_cooler_line)
  from cooler_message_roundtrip [OF boost.boost_strings_axioms sample_cooler_wf this]
  show ?thesis by (simp add: sample_cooler_line)
qed

text \<open>
  The same round trip for the vacuum message, whose pressure is carried as text.
\<close>

theorem vacuum_message_roundtrip:
  assumes "boost_strings S" and "wf_vacuum N p"
    and "CompactVacuum S N a (Some p) = Inr (Some (pos, n), a')"
  shows "Resolve S N (compacted_text S (compact_vacuum_text S N p)) = Some (Ap_vacuum p) \<and>
    n = int (length (compacted_text S (compact_vacuum_text S N p))) \<and> pos = asc_ibuf a * 1024"
  using boost_strings.resolve_vacuum_roundtrip [OF assms(1,2)] assms(3)
  by (auto simp: CompactVacuum_def output_compacted_def Let_def and_then_Inr_iff split: if_splits)

definition sample_vacuum :: ascii_proto_vacuum where
  "sample_vacuum = \<lparr>ap_type = ''vacuum'', ap_utc = '''', ap_gid = ''001'', ap_uid = ''003'',
     ap_cid = ''032'', pv_voltage = 12, pv_current = 7, pv_pressure = ''1.3E-07''\<rparr>"

lemma sample_vacuum_wf: "wf_vacuum toy_conv sample_vacuum"
  by code_simp

lemma sample_vacuum_line:
  "compacted_text boost_ref (compact_vacuum_text boost_ref toy_conv sample_vacuum) =
   ''vacuum group_id=001,unit_id=003,cam_id=032,voltage=12,current=7,pressure=1.3E-07'' @ [CHR 0x0A]"
  by code_simp

theorem vacuum_message_roundtrip_witness:
  "Resolve boost_ref toy_conv
     (''vacuum group_id=001,unit_id=003,cam_id=032,voltage=12,current=7,pressure=1.3E-07'' @ [CHR 0x0A])
   = Some (Ap_vacuum sample_vacuum)"
proof -
  have "CompactVacuum boost_ref toy_conv sample_asc (Some sample_vacuum) = Inr (Some (9216, 81),
      \<lparr>asc_ibuf = 0, asc_buff = take 9216 (asc_buff sample_asc) @
        compacted_text boost_ref (compact_vacuum_text boost_ref toy_conv sample_vacuum) @ NUL #
        drop 9298 (asc_buff sample_asc)\<rparr>)"
    by (simp add: CompactVacuum_def output_compacted_def sample_asc_def sample_vacuum_line)
  from vacuum_message_roundtrip [OF boost.boost_strings_axioms sample_vacuum_wf this]
  show ?thesis by (simp add: sample_vacuum_line)
qed

text \<open>
  C18. A rendered line stays readable through the returned pointer during the next nine renderings:
  while no text exceeds the 1023 characters of its slot, the calls stay inside the buffer and the tenth
  call is the first to reuse the slot.
\<close>

theorem compacted_line_survives:
  assumes "asc_wf a" and "list_all (fits_slot S) (t # ts)" and "length ts \<le> 9"
  shows "\<exists>n a1 a2. output_compacted S a t = Inr (asc_ibuf a * 1024, n, a1) \<and>
    compact_all S a1 ts = Inr a2 \<and> text_at a2 (asc_ibuf a * 1024) = compacted_text S t"
proof -
  have "fits_slot S t" using assms(2) by simp
  from compact_step [OF assms(1) this] obtain a1 n where
    out: "output_compacted S a t = Inr (asc_ibuf a * 1024, n, a1)" and wf: "asc_wf a1"
    and ib: "asc_ibuf a1 = (asc_ibuf a + 1) mod 10" and nul: "NUL \<in> set (slot a1 (asc_ibuf a))"
    and line: "c_str (slot a1 (asc_ibuf a)) = compacted_text S t" by blast
  have i: "asc_ibuf a < 10" using assms(1) by (simp add: asc_wf_def)
  have "(asc_ibuf a1 + k) mod 10 \<noteq> asc_ibuf a" if "k < length ts" for k
    unfolding ib using that assms(3) i by (intro slots_differ) auto
  then obtain a2 where all: "compact_all S a1 ts = Inr a2"
    and same: "slot a2 (asc_ibuf a) = slot a1 (asc_ibuf a)"
    using compact_all_keeps_slot [OF wf _ i, of S ts] assms(2) by auto
  have "text_at a2 (asc_ibuf a * 1024) = compacted_text S t"
    using text_at_slot [of a2 "asc_ibuf a"] nul line by (simp only: same)
  with out all show ?thesis by blast
qed

theorem compacted_line_survives_witness:
  "\<exists>n a1 a2. output_compacted boost_ref sample_asc ''cooler a=1,'' = Inr (9216, n, a1) \<and>
    compact_all boost_ref a1 [''vacuum b=2,'', ''x''] = Inr a2 \<and>
    text_at a2 9216 = ''cooler a=1'' @ [CHR 0x0A]"
proof -
  have wf: "asc_wf sample_asc"
    by (simp add: asc_wf_def sample_asc_def)
  have fits: "list_all (fits_slot boost_ref) [''cooler a=1,'', ''vacuum b=2,'', ''x'']"
    and line: "compacted_text boost_ref ''cooler a=1,'' = ''cooler a=1'' @ [CHR 0x0A]"
    by code_simp+
  have "asc_ibuf sample_asc * 1024 = 9216"
    by (simp add: sample_asc_def)
  then show ?thesis
    using compacted_line_survives [OF wf fits] by (simp add: line)
qed

end
