(* ===== verification/Checksum.thy ===== *)
theory Checksum
  imports Prelude
begin

text \<open>
  The checksum templates of AMath.h and the hexadecimal digits of the serial protocols
  (the digit expressions of the two \<open>encode_data\<close> functions and \<open>ControllerBase::decode_uint8\<close>).
  The templates are written for a word of any width: with \<open>T = char\<close> the sum wraps modulo 256,
  and the promotion of \<open>~lrc + 1\<close> to \<open>int\<close> is undone by the conversion of the result to \<open>T\<close>.
\<close>

section \<open>Sums\<close>

definition Checksum_T :: "'w::len word list \<Rightarrow> nat \<Rightarrow> 'w word" where
  "Checksum_T data n = foldl (+) 0 (take n data)"

definition LRC :: "'w::len word list \<Rightarrow> nat \<Rightarrow> 'w word" where
  "LRC data n = NOT (foldl (+) 0 (take n data)) + 1"

lemma LRC_eq: "LRC data n = - sum_list (take n data)"
  by (simp add: LRC_def foldl_plus_sum minus_eq_not_plus_1)

lemma Checksum_T_eq: "Checksum_T data n = sum_list (take n data)"
  by (simp add: Checksum_T_def foldl_plus_sum)

section \<open>Hexadecimal digits\<close>

text \<open>\<open>(t >= 0x0A) ? (t + base_1) : (t + base_0)\<close>\<close>

definition hex_digit :: "byte \<Rightarrow> byte" where
  "hex_digit t = (if t \<ge> 0x0A then t + 0x37 else t + 0x30)"

definition hex_byte :: "byte \<Rightarrow> bytes" where
  "hex_byte b = [hex_digit (b div 16), hex_digit (b mod 16)]"

text \<open>
  For a \<open>char\<close> operand the quotient and the remainder are those of the promoted signed value,
  truncated towards zero, and converted back to 8 bits.
\<close>

definition hex_schar :: "byte \<Rightarrow> bytes" where
  "hex_schar v =
     [hex_digit (word_of_int (sint v sdiv 16)), hex_digit (word_of_int (sint v smod 16))]"

fun decode_nibble :: "byte \<Rightarrow> byte" where
  "decode_nibble b =
     (if 0x30 \<le> b \<and> b \<le> 0x39 then b - 0x30 else if 0x41 \<le> b \<and> b \<le> 0x46 then b - 0x37 else b)"

definition decode_uint8 :: "byte \<Rightarrow> byte \<Rightarrow> byte" where
  "decode_uint8 b1 b2 = push_bit 4 (decode_nibble b1) + decode_nibble b2"

text \<open>The loop \<open>for (i = first; i <= last; i += 2) strval += decode_uint8(ptr[i], ptr[i + 1])\<close>.\<close>

function decode_pairs :: "bytes \<Rightarrow> int \<Rightarrow> int \<Rightarrow> bytes" where
  "decode_pairs ptr i lim =
     (if i \<le> lim
      then decode_uint8 (ptr ! nat i) (ptr ! nat (i + 1)) # decode_pairs ptr (i + 2) lim
      else [])"
  by pat_completeness auto
termination
  by (relation "measure (\<lambda>(ptr, i, lim). nat (lim + 1 - i))") auto

declare decode_pairs.simps [simp del]

lemma nat_16_cases:
  "(n::nat) < 16 \<Longrightarrow> n \<in> {0, 1, 2, 3, 4, 5, 6, 7, 8, 9, 10, 11, 12, 13, 14, 15}"
  by (auto simp: numeral_eq_Suc less_Suc_eq)

lemma nibble_cases:
  fixes t :: byte
  assumes "t < 16"
  shows "t \<in> {0, 1, 2, 3, 4, 5, 6, 7, 8, 9, 10, 11, 12, 13, 14, 15}"
proof -
  have "unat t < 16"
    using assms by (simp add: word_less_nat_alt)
  from nat_16_cases [OF this] show ?thesis
    by (simp add: word_unat_eq_iff)
qed

lemmas nibble_eval = hex_digit_def word_le_nat_alt word_less_nat_alt

lemma decode_nibble_hex_digit: "t < 16 \<Longrightarrow> decode_nibble (hex_digit t) = t"
  using nibble_cases [of t] by (auto simp: nibble_eval)

lemma hex_digit_ne_separators:
  "t < 16 \<Longrightarrow> hex_digit t \<noteq> 0x3A \<and> hex_digit t \<noteq> 0x0D \<and> hex_digit t \<noteq> 0x0A"
  using nibble_cases [of t] by (auto simp: nibble_eval)

lemma byte_div_16_less: "(b :: byte) div 16 < 16"
proof -
  have "unat b < 2 ^ LENGTH(8)" by (rule unsigned_less)
  then have "unat b < 256" by simp
  then show ?thesis by (simp add: word_less_nat_alt unat_div)
qed

lemma byte_mod_16_less: "(b :: byte) mod 16 < 16"
  by (simp add: word_less_nat_alt unat_mod)

lemma byte_split: "push_bit 4 (b div 16) + b mod 16 = (b :: byte)"
  using div_mult_mod_eq [of b 16] by (simp add: push_bit_eq_mult)

lemma decode_uint8_hex_digits: "decode_uint8 (hex_digit (b div 16)) (hex_digit (b mod 16)) = b"
  using decode_nibble_hex_digit [OF byte_div_16_less, of b]
    decode_nibble_hex_digit [OF byte_mod_16_less, of b] byte_split [of b]
  by (simp add: decode_uint8_def del: decode_nibble.simps)

text \<open>On ASCII characters the signed digits are the unsigned ones.\<close>

lemma hex_schar_ascii:
  assumes "(v :: byte) < 128"
  shows "hex_schar v = hex_byte v"
proof -
  have u: "uint v < 128"
    using assms by (simp add: word_less_def)
  have pos: "uint v = 0 \<or> 0 < uint v"
    using uint_ge_0 [of v] by linarith
  from u have "sint v = uint v"
    by (simp add: sint_uint signed_take_bit_int_eq_self order_trans [OF _ uint_ge_0])
  then have "sint v sdiv 16 = uint (v div 16)" and "sint v smod 16 = uint (v mod 16)"
    using u pos by (auto simp: signed_divide_int_def signed_modulo_int_def uint_div uint_mod sgn_if)
  then show ?thesis
    by (simp add: hex_schar_def hex_byte_def)
qed

lemma length_hex_byte [simp]: "length (hex_byte b) = 2"
  by (simp add: hex_byte_def)

lemma length_hex_schar [simp]: "length (hex_schar b) = 2"
  by (simp add: hex_schar_def)

lemma length_concat_hex_schar [simp]: "length (concat (map hex_schar vs)) = 2 * length vs"
  by (induction vs) auto

lemma length_concat_hex_byte [simp]: "length (concat (map hex_byte vs)) = 2 * length vs"
  by (induction vs) auto

lemma concat_hex_ascii:
  "\<forall>v\<in>set vs. v < 128 \<Longrightarrow> concat (map hex_schar vs) = concat (map hex_byte vs)"
  by (induction vs) (auto simp: hex_schar_ascii)

lemma set_hex_byte:
  "x \<in> set (hex_byte b) \<Longrightarrow> x \<noteq> 0x3A \<and> x \<noteq> 0x0D \<and> x \<noteq> 0x0A"
  using hex_digit_ne_separators [OF byte_div_16_less] hex_digit_ne_separators [OF byte_mod_16_less]
  by (auto simp: hex_byte_def)

text \<open>The decoding loop inverts the digits of a byte sequence wherever they lie in the buffer.\<close>

lemma decode_pairs_hex:
  assumes "slice i (2 * length vs) ptr = concat (map hex_byte vs)"
    and "lim = int i + 2 * int (length vs) - 1 \<or> lim = int i + 2 * int (length vs) - 2 \<and> vs \<noteq> []"
    and "i + 2 * length vs \<le> length ptr"
  shows "decode_pairs ptr (int i) lim = vs"
  using assms
proof (induction vs arbitrary: i)
  case Nil
  then show ?case by (subst decode_pairs.simps) simp
next
  case (Cons v vs)
  from Cons.prems(1,3) have two: "ptr ! i = hex_byte v ! 0" "ptr ! (i + 1) = hex_byte v ! 1"
    using nth_slice [of 0 "2 * length (v # vs)" i ptr] nth_slice [of 1 "2 * length (v # vs)" i ptr]
    by (simp_all add: nth_append)
  have rest: "slice (i + 2) (2 * length vs) ptr = concat (map hex_byte vs)"
  proof -
    have "slice (i + 2) (2 * length vs) ptr = drop 2 (slice i (2 * length (v # vs)) ptr)"
      by (simp add: slice_def drop_take add.commute)
    also have "\<dots> = concat (map hex_byte vs)"
      using Cons.prems(1) by simp
    finally show ?thesis .
  qed
  have IH: "decode_pairs ptr (int i + 2) lim = vs"
  proof (cases "vs = []")
    case True
    then show ?thesis using Cons.prems(2) by (subst decode_pairs.simps) auto
  next
    case False
    then have "decode_pairs ptr (int (i + 2)) lim = vs"
      using Cons.prems rest by (intro Cons.IH) auto
    then show ?thesis by (simp add: add.commute)
  qed
  have "decode_uint8 (ptr ! i) (ptr ! (i + 1)) = v"
    using two decode_uint8_hex_digits [of v] by (simp add: hex_byte_def)
  moreover have "int i \<le> lim" and "nat (int i + 1) = i + 1"
    using Cons.prems(2) by auto
  ultimately show ?case
    using IH by (subst decode_pairs.simps) simp
qed

end
