(* ===== verification/ControllerBase.thy ===== *)
theory ControllerBase
  imports SerialComm AsciiProtocol Checksum
begin

text \<open>
  The base class of the two device controllers (ControllerBase.h, ControllerBase.cpp): the list of
  directives that are sent one at a time over the serial port, the framing of the replies, and the three
  threads that poll the devices, react to a reply and watch the port. The pure virtual functions are the
  fields of the record \<open>methods\<close>, which CoolerCtl and VacuumCtl provide. A thread's loop body
  is one step; a step ends in \<open>Inl\<close> where the code's behaviour is undefined.
\<close>

section \<open>State\<close>

definition MSG_SIZE :: nat where
  "MSG_SIZE = 30"

text \<open>
  \<open>dr_msg\<close> holds the bytes written to \<open>msg\<close>, the terminating zero included.
\<close>

record directive =
  dr_idf :: byte
  dr_len :: int
  dr_msg :: bytes

text \<open>What a controller does to the outside.\<close>

datatype ctl_effect =
    Ser serial_effect
  | To_main int                                      \<comment> \<open>\<open>cbrslt_(this, code)\<close>\<close>
  | Log_text string
  | Log_status byte "double list" string             \<comment> \<open>one line of \<open>write_log\<close>\<close>
  | Db_upload string string string "double list" string
  | Net_write nat bytes                              \<comment> \<open>\<open>tcp_->Write\<close>\<close>
  | Notify                                           \<comment> \<open>\<open>cndDrct_.notify_one()\<close>\<close>

text \<open>
  Network sessions are shared pointers: a handle, or \<open>None\<close>. \<open>'d\<close> is the data kept per device, which
  the derived classes add.
\<close>

record ('b, 'd) controller =
  ct_portname :: string
  ct_serial :: "'b serial_comm option"
  ct_grpid :: string
  ct_allDev :: "byte list"
  ct_tcp :: "nat option"
  ct_ascproto :: asc_proto
  ct_head :: bytes
  ct_tail :: bytes
  ct_nhead :: int
  ct_ntail :: int
  ct_bufrcv :: bytes
  ct_drct :: "directive list"
  ct_cbrslt :: bool
  ct_thrdCycle :: bool
  ct_thrdRespond :: bool
  ct_thrdHB :: bool
  ct_tmlast :: int
  ct_db :: "string option"
  ct_data :: "'d list"

text \<open>What a thread reads from its surroundings: the clocks and the state of the sessions.\<close>

record env =
  env_local :: int                 \<comment> \<open>\<open>second_clock::local_time()\<close>, in seconds\<close>
  env_utc :: string                \<comment> \<open>the universal time as an ISO string\<close>
  env_tcp_open :: "nat \<Rightarrow> bool"
  env_upload :: "nat \<Rightarrow> int"      \<comment> \<open>result of the database upload for the i-th device\<close>

record ('b, 'd) methods =
  vm_check_data :: "nat \<Rightarrow> ('b, 'd) controller \<Rightarrow> ('b, 'd) controller"
  vm_generate_directive :: "byte \<Rightarrow> ('b, 'd) controller \<Rightarrow> ('b, 'd) controller outcome"
  vm_encode_data :: "byte \<Rightarrow> byte \<Rightarrow> bytes option \<Rightarrow> nat \<Rightarrow> int \<times> bytes"
  vm_decode_data :: "int \<Rightarrow> ('b, 'd) controller \<Rightarrow> (int \<times> ('b, 'd) controller) outcome"
  vm_write_log :: "('b, 'd) controller \<Rightarrow> ('b, 'd) controller \<times> ctl_effect list"
  vm_upload_database :: "env \<Rightarrow> ('b, 'd) controller \<Rightarrow> ctl_effect list"
  vm_network_respond ::
    "nat \<Rightarrow> ('b, 'd) controller \<Rightarrow> (('b, 'd) controller \<times> ctl_effect list) outcome"

section \<open>Construction and configuration\<close>

text \<open>The constructor of the base class; \<open>fresh\<close> and \<open>afresh\<close> are uninitialised memory.\<close>

definition new_controller :: "bytes \<Rightarrow> string \<Rightarrow> ('b, 'd) controller" where
  "new_controller fresh afresh = \<lparr>
     ct_portname = '''', ct_serial = None, ct_grpid = '''', ct_allDev = [], ct_tcp = None,
     ct_ascproto = make_ascproto afresh, ct_head = [], ct_tail = [], ct_nhead = 0, ct_ntail = 0,
     ct_bufrcv = take SERIAL_BUFF_SIZE fresh, ct_drct = [], ct_cbrslt = False,
     ct_thrdCycle = False, ct_thrdRespond = False, ct_thrdHB = False, ct_tmlast = 0, ct_db = None,
     ct_data = [] \<rparr>"

definition cb_RegisterResult :: "('b, 'd) controller \<Rightarrow> ('b, 'd) controller" where
  "cb_RegisterResult st = st\<lparr>ct_cbrslt := True\<rparr>"

text \<open>\<open>ec\<close> is what opening the device reports, \<open>fresh\<close> the memory of the new port object.\<close>

definition cb_Start ::
  "'b cb_ops \<Rightarrow> bytes \<Rightarrow> string \<Rightarrow> int \<Rightarrow> error_code \<Rightarrow> ('b, 'd) controller
     \<Rightarrow> int \<times> ('b, 'd) controller \<times> ctl_effect list" where
  "cb_Start B fresh portname baudrate ec st =
     (if portname = '''' then (-1, st, [])
      else let sp = sc_RegisterWrite (sc_RegisterRead (make_serial B fresh))
           in case sc_Open sp baudrate ec of
                (ok, sp', effs) \<Rightarrow>
                  if \<not> ok
                  then (-2, st\<lparr>ct_serial := Some sp'\<rparr>, map Ser effs @ [Log_text (sc_errmsg sp')])
                  else (0, st\<lparr>ct_serial := Some sp', ct_portname := portname, ct_thrdCycle := True,
                              ct_thrdRespond := True, ct_thrdHB := True\<rparr>, map Ser effs))"

definition cb_Stop :: "('b, 'd) controller \<Rightarrow> ('b, 'd) controller" where
  "cb_Stop st = st\<lparr>ct_thrdHB := False, ct_thrdRespond := False, ct_thrdCycle := False\<rparr>"

definition cb_CoupleNetwork :: "nat option \<Rightarrow> string \<Rightarrow> ('b, 'd) controller \<Rightarrow> ('b, 'd) controller" where
  "cb_CoupleNetwork session grpid st =
     (if ct_tcp st = None then st\<lparr>ct_tcp := session\<rparr> else st)\<lparr>ct_grpid := grpid\<rparr>"

definition cb_DecoupleNetwork :: "('b, 'd) controller \<Rightarrow> ('b, 'd) controller" where
  "cb_DecoupleNetwork st = st\<lparr>ct_tcp := None\<rparr>"

definition cb_SetDatabase :: "string \<Rightarrow> ('b, 'd) controller \<Rightarrow> ('b, 'd) controller" where
  "cb_SetDatabase url st = (if url = '''' then st\<lparr>ct_db := None\<rparr> else st\<lparr>ct_db := Some url\<rparr>)"

fun find_index :: "byte \<Rightarrow> byte list \<Rightarrow> nat \<Rightarrow> nat" where
  "find_index idd [] i = i"
| "find_index idd (d # ds) i = (if idd \<noteq> d then find_index idd ds (i + 1) else i)"

definition cb_AddDevice :: "byte \<Rightarrow> ('b, 'd) controller \<Rightarrow> ('b, 'd) controller" where
  "cb_AddDevice idd st =
     (let n = length (ct_allDev st); i = find_index idd (ct_allDev st) 0
      in if i = n then st\<lparr>ct_allDev := ct_allDev st @ [idd]\<rparr> else st)"

section \<open>Directives\<close>

definition append_directive :: "directive \<Rightarrow> ('b, 'd) controller \<Rightarrow> ('b, 'd) controller" where
  "append_directive d st = st\<lparr>ct_drct := ct_drct st @ [d]\<rparr>"

definition remove_directive :: "('b, 'd) controller \<Rightarrow> ('b, 'd) controller outcome" where
  "remove_directive st =
     (case ct_drct st of [] \<Rightarrow> Inl Empty_container | _ # ds \<Rightarrow> Inr (st\<lparr>ct_drct := ds\<rparr>))"

text \<open>
  \<open>Directive one(idf); one.len = encode_data(\<dots>, one.msg)\<close>: the encoder writes into the 30 bytes of
  \<open>msg\<close>.
\<close>

definition new_directive :: "byte \<Rightarrow> int \<times> bytes \<Rightarrow> directive outcome" where
  "new_directive idf enc =
     (if length (snd enc) > MSG_SIZE then Inl Out_of_bounds
      else Inr \<lparr>dr_idf = idf, dr_len = fst enc, dr_msg = snd enc\<rparr>)"

text \<open>The overloads of \<open>encode_data\<close>: no parameter, an integer, a floating point number.\<close>

definition encode_data_none :: "('b, 'd) methods \<Rightarrow> byte \<Rightarrow> byte \<Rightarrow> int \<times> bytes" where
  "encode_data_none M idd idf = vm_encode_data M idd idf None 0"

definition encode_data_int ::
  "boost_str \<Rightarrow> ('b, 'd) methods \<Rightarrow> byte \<Rightarrow> byte \<Rightarrow> int \<Rightarrow> int \<times> bytes" where
  "encode_data_int S M idd idf value =
     (let str = bytes_of (bs_format_d S value)
      in vm_encode_data M idd idf (Some str) (length str))"

definition encode_data_double ::
  "num_conv \<Rightarrow> ('b, 'd) methods \<Rightarrow> byte \<Rightarrow> byte \<Rightarrow> double \<Rightarrow> int \<times> bytes" where
  "encode_data_double N M idd idf value =
     (let str = bytes_of (nc_fmt_1f N value)
      in vm_encode_data M idd idf (Some str) (length str))"

definition cb_Write :: "('b, 'd) methods \<Rightarrow> byte \<Rightarrow> byte \<Rightarrow> ('b, 'd) controller
    \<Rightarrow> ('b, 'd) controller outcome" where
  "cb_Write M idd idf st =
     and_then (new_directive idf (encode_data_none M idd idf)) (\<lambda>one. Inr (append_directive one st))"

definition cb_Write_int :: "boost_str \<Rightarrow> ('b, 'd) methods \<Rightarrow> byte \<Rightarrow> byte \<Rightarrow> int
    \<Rightarrow> ('b, 'd) controller \<Rightarrow> ('b, 'd) controller outcome" where
  "cb_Write_int S M idd idf value st =
     and_then (new_directive idf (encode_data_int S M idd idf value))
       (\<lambda>one. Inr (append_directive one st))"

definition cb_Write_double :: "num_conv \<Rightarrow> ('b, 'd) methods \<Rightarrow> byte \<Rightarrow> byte \<Rightarrow> double
    \<Rightarrow> ('b, 'd) controller \<Rightarrow> ('b, 'd) controller outcome" where
  "cb_Write_double N M idd idf value st =
     and_then (new_directive idf (encode_data_double N M idd idf value))
       (\<lambda>one. Inr (append_directive one st))"

text \<open>
  The serial port is owned by the controller alone, so \<open>serial_.unique()\<close> means it is not null.
\<close>

definition first_send ::
  "'b cb_ops \<Rightarrow> ('b, 'd) controller \<Rightarrow> (('b, 'd) controller \<times> ctl_effect list) outcome" where
  "first_send B st =
     (case ct_serial st of
        None \<Rightarrow> Inr (st, [Log_text ''port is closed''])
      | Some sp \<Rightarrow>
          if sc_is_open sp
          then (case ct_drct st of
                  [] \<Rightarrow> Inl Empty_container
                | one # _ \<Rightarrow>
                    (case sc_Write B sp (Some (dr_msg one)) (dr_len one) of
                       (n, sp', effs) \<Rightarrow> Inr (st\<lparr>ct_serial := Some sp'\<rparr>, map Ser effs)))
          else Inr (st, [Log_text ''port is closed'']))"

section \<open>Callbacks of the serial port\<close>

definition cb_serial_read ::
  "'b cb_ops \<Rightarrow> ('b, 'd) methods \<Rightarrow> int \<Rightarrow> ('b, 'd) controller
     \<Rightarrow> (('b, 'd) controller \<times> ctl_effect list) outcome" where
  "cb_serial_read B M ec st =
     (if ec = 0
      then case ct_serial st of
             None \<Rightarrow> Inl Null_pointer
           | Some sp \<Rightarrow>
               let ihead = (if ct_nhead st \<noteq> 0 then sc_Lookup B sp (Some (ct_head st)) (ct_nhead st) 0 else 0);
                   itail = (if ihead \<ge> 0 then sc_Lookup B sp (Some (ct_tail st)) (ct_ntail st) ihead else 0)
               in if itail > ihead
                  then let len = itail - ihead + ct_ntail st
                       in and_then (sc_Read B sp (Some (ct_bufrcv st)) len ihead)
                            (\<lambda>(n, buf, sp').
                               and_then (vm_decode_data M len
                                           (st\<lparr>ct_serial := Some sp', ct_bufrcv := the buf\<rparr>))
                                 (\<lambda>(r, st'). Inr (st', if r = 0 then [Notify] else [])))
                  else Inr (st, [])
      else Inr (st, if ct_cbrslt st then [To_main 1] else []))"

definition cb_serial_write :: "int \<Rightarrow> ('b, 'd) controller \<Rightarrow> ctl_effect list" where
  "cb_serial_write ec st = (if ec \<noteq> 0 \<and> ct_cbrslt st then [To_main 2] else [])"

section \<open>Threads\<close>

fun generate_all :: "('b, 'd) methods \<Rightarrow> byte list \<Rightarrow> ('b, 'd) controller
    \<Rightarrow> ('b, 'd) controller outcome" where
  "generate_all M [] st = Inr st"
| "generate_all M (d # ds) st = and_then (vm_generate_directive M d st) (generate_all M ds)"

text \<open>One round of \<open>thread_cycle\<close>.\<close>

definition cycle_body ::
  "'b cb_ops \<Rightarrow> ('b, 'd) methods \<Rightarrow> ('b, 'd) controller
     \<Rightarrow> (('b, 'd) controller \<times> ctl_effect list) outcome" where
  "cycle_body B M st =
     (if ct_drct st = []
      then let n = length (ct_allDev st); st1 = vm_check_data M n st
           in and_then (generate_all M (ct_allDev st1) st1) (first_send B)
      else Inr (st, []))"

text \<open>One round of \<open>thread_respond\<close>, from the return of \<open>wait\<close> on.\<close>

definition respond_body ::
  "'b cb_ops \<Rightarrow> ('b, 'd) methods \<Rightarrow> env \<Rightarrow> ('b, 'd) controller
     \<Rightarrow> (('b, 'd) controller \<times> ctl_effect list) outcome" where
  "respond_body B M e st =
     and_then (remove_directive (st\<lparr>ct_tmlast := env_local e\<rparr>))
       (\<lambda>st1. if ct_drct st1 \<noteq> [] then first_send B st1
              else case vm_write_log M st1 of
                     (st2, logs) \<Rightarrow>
                       let ups = (if ct_db st2 \<noteq> None then vm_upload_database M e st2 else [])
                       in case ct_tcp st2 of
                            None \<Rightarrow> Inr (st2, logs @ ups)
                          | Some h \<Rightarrow>
                              if env_tcp_open e h
                              then and_then (vm_network_respond M h st2)
                                     (\<lambda>(st3, nets). Inr (st3, logs @ ups @ nets))
                              else Inr (st2, logs @ ups))"

text \<open>
  One round of \<open>thread_heartbeat\<close> after its sleep: the first component says whether the thread goes on.
\<close>

definition heartbeat_start :: "env \<Rightarrow> ('b, 'd) controller \<Rightarrow> ('b, 'd) controller" where
  "heartbeat_start e st = st\<lparr>ct_tmlast := env_local e\<rparr>"

definition heartbeat_body :: "env \<Rightarrow> ('b, 'd) controller \<Rightarrow> bool \<times> ctl_effect list" where
  "heartbeat_body e st =
     (if env_local e - ct_tmlast st < 30 then (True, [])
      else (False, if ct_cbrslt st then [To_main 3] else []))"

section \<open>The contract of the virtual functions\<close>

text \<open>
  What the base class relies on: the directives generated for a device are a fixed non-empty plan that
  fits the message buffers, and the other functions change nothing but the device data.
\<close>

definition sendable :: "directive \<Rightarrow> bool" where
  "sendable d \<longleftrightarrow> 0 < dr_len d \<and> dr_len d \<le> int (length (dr_msg d)) \<and> length (dr_msg d) \<le> MSG_SIZE"

text \<open>Effects that do not concern the serial port.\<close>

fun off_port :: "ctl_effect \<Rightarrow> bool" where
  "off_port (Ser e) = False"
| "off_port Notify = False"
| "off_port e = True"

locale controller_contract =
  fixes M :: "('b, 'd) methods" and plan :: "byte \<Rightarrow> directive list"
  assumes check_frame: "\<exists>ds. vm_check_data M n st = st\<lparr>ct_data := ds\<rparr>"
    and generate: "vm_generate_directive M idd st = Inr (st\<lparr>ct_drct := ct_drct st @ plan idd\<rparr>)"
    and plan_nonempty: "plan idd \<noteq> []"
    and plan_sendable: "d \<in> set (plan idd) \<Longrightarrow> sendable d"
    and decode_frame: "vm_decode_data M len st = Inr (r, st') \<Longrightarrow> \<exists>ds. st' = st\<lparr>ct_data := ds\<rparr>"
    and log_frame: "\<exists>ds logs. vm_write_log M st = (st\<lparr>ct_data := ds\<rparr>, logs)"
    and respond_frame:
      "vm_network_respond M h st = Inr (st', effs) \<Longrightarrow> \<exists>a. st' = st\<lparr>ct_ascproto := a\<rparr>"
    and log_quiet: "vm_write_log M st = (st', logs) \<Longrightarrow> list_all off_port logs"
    and upload_quiet: "list_all off_port (vm_upload_database M e st)"
    and respond_quiet: "vm_network_respond M h st = Inr (st', effs) \<Longrightarrow> list_all off_port effs"
begin

lemma generate_all_eq:
  "generate_all M devs st = Inr (st\<lparr>ct_drct := ct_drct st @ concat (map plan devs)\<rparr>)"
  by (induction devs arbitrary: st) (simp_all add: generate)

text \<open>A polling round generates the plan of every device, in order, and submits the first directive.\<close>

lemma cycle_polls:
  assumes idle: "ct_drct st = []" and devs: "ct_allDev st = dev # devs"
    and port: "ct_serial st = Some sp" "sc_is_open sp"
  shows "\<exists>ds d rest. plan dev = d # rest \<and>
    cycle_body B M st = (case sc_Write B sp (Some (dr_msg d)) (dr_len d) of (n, sp', effs) \<Rightarrow>
      Inr (st\<lparr>ct_data := ds, ct_drct := concat (map plan (ct_allDev st)), ct_serial := Some sp'\<rparr>,
           map Ser effs))"
proof -
  obtain ds where ds: "vm_check_data M (length (ct_allDev st)) st = st\<lparr>ct_data := ds\<rparr>"
    using check_frame by blast
  obtain d rest where plan: "plan dev = d # rest"
    using plan_nonempty [of dev] by (cases "plan dev") auto
  show ?thesis
    using assms ds plan
    by (intro exI [of _ ds] exI [of _ d] exI [of _ rest])
      (auto simp: cycle_body_def Let_def generate_all_eq first_send_def split: prod.splits)
qed

lemma cycle_busy: "ct_drct st \<noteq> [] \<Longrightarrow> cycle_body B M st = Inr (st, [])"
  by (simp add: cycle_body_def)

text \<open>With no device configured the round sends the front of an empty list.\<close>

lemma cycle_without_devices:
  assumes "ct_drct st = []" and "ct_allDev st = []" and "ct_serial st = Some sp" and "sc_is_open sp"
  shows "cycle_body B M st = Inl Empty_container"
proof -
  obtain ds where "vm_check_data M 0 st = st\<lparr>ct_data := ds\<rparr>"
    using check_frame by blast
  then show ?thesis
    using assms by (simp add: cycle_body_def Let_def first_send_def)
qed

text \<open>A reply retires the directive in front and submits the next one.\<close>

lemma respond_next:
  assumes "ct_drct st = d0 # d # ds" and port: "ct_serial st = Some sp" "sc_is_open sp"
  shows "respond_body B M e st = (case sc_Write B sp (Some (dr_msg d)) (dr_len d) of (n, sp', effs) \<Rightarrow>
      Inr (st\<lparr>ct_tmlast := env_local e, ct_drct := d # ds, ct_serial := Some sp'\<rparr>, map Ser effs))"
  using assms by (auto simp: respond_body_def remove_directive_def first_send_def split: prod.splits)

lemma respond_done:
  "vm_network_respond M h st = Inr (st', effs) \<Longrightarrow>
   (\<exists>a. st' = st\<lparr>ct_ascproto := a\<rparr>) \<and> list_all off_port effs"
  using respond_frame respond_quiet by blast

lemma respond_last:
  assumes "ct_drct st = [d0]" and "respond_body B M e st = Inr (st', effs)"
  shows "ct_drct st' = [] \<and> ct_serial st' = ct_serial st \<and> ct_allDev st' = ct_allDev st \<and>
    ct_tmlast st' = env_local e \<and> list_all off_port effs"
proof -
  let ?st1 = "st\<lparr>ct_tmlast := env_local e, ct_drct := []\<rparr>"
  obtain ds logs where w: "vm_write_log M ?st1 = (?st1\<lparr>ct_data := ds\<rparr>, logs)"
    using log_frame [of ?st1] by blast
  then show ?thesis
    using assms log_quiet [OF w] upload_quiet
    by (auto simp: respond_body_def remove_directive_def Let_def and_then_Inr_iff
        dest!: respond_done split: option.splits if_splits)
qed

lemma respond_empty: "ct_drct st = [] \<Longrightarrow> respond_body B M e st = Inl Empty_container"
  by (simp add: respond_body_def remove_directive_def)

end

section \<open>Shared by the two controllers\<close>

text \<open>The loop of both \<open>generate_directive\<close> functions over their table of function codes.\<close>

fun append_monitors :: "(byte \<Rightarrow> int \<times> bytes) \<Rightarrow> byte list \<Rightarrow> ('b, 'd) controller
    \<Rightarrow> ('b, 'd) controller outcome" where
  "append_monitors enc [] st = Inr st"
| "append_monitors enc (idf # fs) st =
     and_then (new_directive idf (enc idf)) (\<lambda>one. append_monitors enc fs (append_directive one st))"

lemma append_monitors_eq:
  assumes "\<forall>idf\<in>set fs. length (snd (enc idf)) \<le> MSG_SIZE"
  shows "append_monitors enc fs st = Inr (st\<lparr>ct_drct := ct_drct st @
     map (\<lambda>idf. case enc idf of (n, msg) \<Rightarrow> \<lparr>dr_idf = idf, dr_len = n, dr_msg = msg\<rparr>) fs\<rparr>)"
  using assms
  by (induction fs arbitrary: st)
    (auto simp: new_directive_def append_directive_def split: prod.splits)

text \<open>The characters of a decoded payload.\<close>

definition string_of :: "bytes \<Rightarrow> string" where
  "string_of bs = map (\<lambda>b. char_of (unat b)) bs"

definition plain_text :: "string \<Rightarrow> bool" where
  "plain_text s \<longleftrightarrow> list_all (\<lambda>c. 0 < code_of c \<and> code_of c < 128) s"

lemma unat_of_char [simp]: "unat (of_char c :: byte) = of_char c"
proof -
  have "unat (of_nat (of_char c) :: byte) = of_char c mod 256"
    by (simp add: unat_of_nat del: of_nat_of_char)
  also have "\<dots> = of_char c"
    using of_char_of [of "of_char c :: nat"] by simp
  finally show ?thesis by (simp add: of_nat_of_char)
qed

lemma string_of_bytes [simp]: "string_of (bytes_of s) = s"
  by (induction s) (simp_all add: string_of_def bytes_of_def)

lemma code_of_NUL: "code_of NUL = 0"
  by code_simp

lemma plain_no_nul: "plain_text s \<Longrightarrow> c_str s = s"
  by (induction s) (auto simp: plain_text_def c_str_def code_of_NUL)

lemma plain_bytes:
  assumes "plain_text s"
  shows "\<forall>v\<in>set (bytes_of s). v < 128"
proof
  fix v
  assume "v \<in> set (bytes_of s)"
  then obtain c where "c \<in> set s" and v: "v = of_char c"
    by (auto simp: bytes_of_def)
  then have "code_of c < 128"
    using assms by (simp add: plain_text_def list_all_iff)
  then show "v < 128"
    by (simp add: v code_of_def word_less_nat_alt)
qed

lemma occurs_at_hd: "occurs_at (x # xs) s q \<Longrightarrow> q < length s \<and> s ! q = x"
  unfolding occurs_at_nth by force

text \<open>The decoding loop reads no byte beyond the last complete pair.\<close>

lemma decode_pairs_cong:
  assumes "\<And>k. nat i \<le> k \<Longrightarrow> int k \<le> lim + (if even (lim - i) then 1 else 0) \<Longrightarrow> f ! k = g ! k"
    and "0 \<le> i"
  shows "decode_pairs f i lim = decode_pairs g i lim"
  using assms
proof (induction f i lim rule: decode_pairs.induct)
  case (1 f i lim)
  show ?case
  proof (cases "i \<le> lim")
    case True
    then have "decode_pairs f (i + 2) lim = decode_pairs g (i + 2) lim"
      using "1.prems" by (intro "1.IH") auto
    moreover have "f ! nat i = g ! nat i"
      using True "1.prems" by auto
    moreover have "f ! nat (i + 1) = g ! nat (i + 1)"
    proof (cases "i = lim")
      case False
      then show ?thesis using True "1.prems" by auto
    qed (use "1.prems" in auto)
    ultimately show ?thesis
      using True by (subst (1 2) decode_pairs.simps) simp
  next
    case False
    then show ?thesis by (subst (1 2) decode_pairs.simps) simp
  qed
qed

section \<open>Cutting a reply out of the receive buffer\<close>

text \<open>
  A frame in the sense of \<open>serial_read\<close>: the buffer starts with noise that contains no head flag,
  then follow a body that starts with the head flag and contains no tail flag, the tail flag, and the
  beginning of later input. A controller without a head flag takes everything up to the tail.
\<close>

definition one_frame :: "bytes \<Rightarrow> bytes \<Rightarrow> bytes \<Rightarrow> bytes \<Rightarrow> bytes \<Rightarrow> bytes \<Rightarrow> bool" where
  "one_frame hd_flag tail s noise body rest \<longleftrightarrow>
     s = noise @ body @ tail @ rest \<and> body \<noteq> [] \<and> tail \<noteq> [] \<and>
     (if hd_flag = [] then noise = []
      else occurs_at hd_flag s (length noise) \<and>
           list_all (\<lambda>q. \<not> occurs_at hd_flag s q) [0..<length noise]) \<and>
     list_all (\<lambda>q. \<not> occurs_at tail s q) [length noise..<length noise + length body]"

definition flags_of :: "('b, 'd) controller \<Rightarrow> bytes \<Rightarrow> bytes \<Rightarrow> bool" where
  "flags_of st hd_flag tail \<longleftrightarrow> ct_head st = hd_flag \<and> ct_tail st = tail \<and>
     ct_nhead st = int (length hd_flag) \<and> ct_ntail st = int (length tail)"

context circular_buffer
begin

lemma sc_Read_frame:
  "sc_Read B sp buf len from = Inr (n, b, sp') \<Longrightarrow>
   \<exists>c. sp' = sp\<lparr>sc_crcrcv := c\<rparr> \<and> cb_capacity B c = cb_capacity B (sc_crcrcv sp)"
  by (cases buf; cases sp) (auto simp: sc_Read_def Let_def nat_le_iff split: if_splits
      intro!: capacity_erase_begin)

lemma frame_lookups:
  assumes port: "ct_serial st = Some sp" and flags: "flags_of st hd_flag tail"
    and frame: "one_frame hd_flag tail (sc_received B sp) noise body rest"
  shows "(if ct_nhead st \<noteq> 0 then sc_Lookup B sp (Some (ct_head st)) (ct_nhead st) 0 else 0) = int (length noise)"
    and "sc_Lookup B sp (Some (ct_tail st)) (ct_ntail st) (int (length noise)) = int (length noise + length body)"
proof -
  have s: "sc_received B sp = noise @ body @ tail @ rest" and ne: "body \<noteq> []" "tail \<noteq> []"
    and no_t: "\<And>q. length noise \<le> q \<Longrightarrow> q < length noise + length body \<Longrightarrow>
      \<not> occurs_at tail (sc_received B sp) q"
    using frame by (auto simp: one_frame_def list_all_iff)
  show "(if ct_nhead st \<noteq> 0 then sc_Lookup B sp (Some (ct_head st)) (ct_nhead st) 0 else 0)
      = int (length noise)"
  proof (cases "hd_flag = []")
    case True
    then show ?thesis using flags frame by (simp add: flags_of_def one_frame_def)
  next
    case False
    then show ?thesis
      using serial.frame_located(1) [OF s False ne(2) _ _ no_t] flags frame
      by (auto simp: flags_of_def one_frame_def list_all_iff)
  qed
  have "occurs_at tail (sc_received B sp) (length noise + length body)"
    using occurs_at_middle [of tail "noise @ body" rest] s by simp
  then show "sc_Lookup B sp (Some (ct_tail st)) (ct_ntail st) (int (length noise))
      = int (length noise + length body)"
    using serial.lookup_eq [of "int (length noise)" tail "length noise + length body" sp]
      ne no_t flags by (simp add: flags_of_def)
qed

lemma serial_read_frame:
  assumes port: "ct_serial st = Some sp" and flags: "flags_of st hd_flag tail"
    and frame: "one_frame hd_flag tail (sc_received B sp) noise body rest"
    and fits: "length body + length tail \<le> length (ct_bufrcv st)"
  shows "\<exists>c. cb_list B c = rest \<and> cb_capacity B c = cb_capacity B (sc_crcrcv sp) \<and>
    cb_serial_read B M 0 st =
    and_then (vm_decode_data M (int (length body + length tail))
        (st\<lparr>ct_serial := Some (sp\<lparr>sc_crcrcv := c\<rparr>),
            ct_bufrcv := body @ tail @ drop (length body + length tail) (ct_bufrcv st)\<rparr>))
      (\<lambda>(r, st'). Inr (st', if r = 0 then [Notify] else []))"
proof -
  have s: "sc_received B sp = noise @ body @ tail @ rest" and ne: "body \<noteq> []" "tail \<noteq> []"
    using frame by (auto simp: one_frame_def)
  obtain sp' where rd: "sc_Read B sp (Some (ct_bufrcv st)) (int (length body + length tail)) (int (length noise))
      = Inr (int (length body + length tail),
             Some (body @ tail @ drop (length body + length tail) (ct_bufrcv st)), sp')"
    and rest: "sc_received B sp' = rest"
    using serial.frame_read [OF s ne(2) fits] by blast
  obtain c where c: "sp' = sp\<lparr>sc_crcrcv := c\<rparr>" "cb_capacity B c = cb_capacity B (sc_crcrcv sp)"
    using sc_Read_frame [OF rd] by blast
  have len: "int (length noise + length body) - int (length noise) + ct_ntail st
      = int (length body + length tail)" and gt: "int (length noise) < int (length noise + length body)"
    using flags ne by (auto simp: flags_of_def)
  show ?thesis
    unfolding cb_serial_read_def port Let_def option.case frame_lookups(1) [OF port flags frame]
    using rest rd gt len
    by (intro exI [of _ c]) (simp add: frame_lookups(2) [OF port flags frame] c del: of_nat_add)
qed

text \<open>A frame that is longer than \<open>bufrcv_\<close> is copied past the end of the array.\<close>

lemma serial_read_long:
  assumes port: "ct_serial st = Some sp" and flags: "flags_of st hd_flag tail"
    and frame: "one_frame hd_flag tail (sc_received B sp) noise body rest"
    and long: "length (ct_bufrcv st) < length body + length tail"
  shows "cb_serial_read B M 0 st = Inl Out_of_bounds"
proof -
  have s: "sc_received B sp = noise @ body @ tail @ rest" and ne: "body \<noteq> []"
    using frame by (auto simp: one_frame_def)
  have "slice (length noise) (length body + length tail) (sc_received B sp) = body @ tail"
    using slice_mid [of noise "body @ tail" rest] s by simp
  then have copied: "map (cb_at B (sc_crcrcv sp)) [nat (int (length noise))..<nat (min (int (cb_size B (sc_crcrcv sp)))
      (int (length noise) + int (length body + length tail)))] = body @ tail"
    using sc_Read_copied [of "int (length body + length tail)" "int (length noise)" B sp] long ne
    by (simp del: of_nat_add)
  have "0 < int (length body + length tail)"
    using long by linarith
  then have "sc_Read B sp (Some (ct_bufrcv st)) (int (length body + length tail)) (int (length noise))
      = Inl Out_of_bounds"
    unfolding sc_Read_def Let_def copied using long by simp
  moreover have "int (length noise + length body) - int (length noise) + ct_ntail st
      = int (length body + length tail)" and "int (length noise) < int (length noise + length body)"
    using flags ne by (auto simp: flags_of_def)
  ultimately show ?thesis
    unfolding cb_serial_read_def port Let_def option.case frame_lookups(1) [OF port flags frame]
    by (simp add: frame_lookups(2) [OF port flags frame] del: of_nat_add)
qed

text \<open>Without a head flag in the buffer nothing is read, whatever tails it contains.\<close>

lemma serial_read_no_head:
  assumes port: "ct_serial st = Some sp" and flags: "flags_of st hd_flag tail" and "hd_flag \<noteq> []"
    and "\<And>q. \<not> occurs_at hd_flag (sc_received B sp) q"
  shows "sc_Lookup B sp (Some (ct_head st)) (ct_nhead st) 0 = -1"
  using serial.lookup_absent [of 0 hd_flag sp] assms by (simp add: flags_of_def)

end

end
