(* ===== verification/CoolerCtl.thy ===== *)
theory CoolerCtl
  imports ControllerBase
begin

text \<open>
  The temperature controller (CoolerCtl.h, CoolerCtl.cpp): the readings kept per device, the encoding of
  a directive and the decoding of a reply in the ASCII frames of the serial protocol, the data upload
  and the network report. \<open>cooler_methods\<close> collects its virtual functions, and the
  interpretation \<open>cooler\<close> shows that they keep the contract of the base class.
\<close>

section \<open>Data of a device\<close>

definition CFID_READ_CUR :: byte where "CFID_READ_CUR = 0x21"
definition CFID_READ_VOL :: byte where "CFID_READ_VOL = 0x22"
definition CFID_READ_T1 :: byte where "CFID_READ_T1 = 0x23"
definition CFID_READ_T2 :: byte where "CFID_READ_T2 = 0x24"
definition CFID_READ_COOLSET :: byte where "CFID_READ_COOLSET = 0x15"
definition CFID_WRITE_COOLSET :: byte where "CFID_WRITE_COOLSET = 0x16"

lemmas cooler_function_ids = CFID_READ_CUR_def CFID_READ_VOL_def CFID_READ_T1_def CFID_READ_T2_def
  CFID_READ_COOLSET_def CFID_WRITE_COOLSET_def

record cooler_data =
  cd_dirty :: bool
  cd_idd :: byte
  cd_vol :: double
  cd_cur :: double
  cd_thot :: double
  cd_coolset :: double
  cd_coolget :: double

definition zero_cooler_data :: cooler_data where
  "zero_cooler_data = \<lparr>cd_dirty = False, cd_idd = 0, cd_vol = 0, cd_cur = 0, cd_thot = 0,
     cd_coolset = 0, cd_coolget = 0\<rparr>"

definition cooler_set_voltage :: "double \<Rightarrow> cooler_data \<Rightarrow> cooler_data" where
  "cooler_set_voltage value d =
     (if dbl_ne (cd_vol d) value then d\<lparr>cd_vol := value, cd_dirty := True\<rparr> else d)"

definition cooler_set_current :: "double \<Rightarrow> cooler_data \<Rightarrow> cooler_data" where
  "cooler_set_current value d =
     (if dbl_ne (cd_cur d) value then d\<lparr>cd_cur := value, cd_dirty := True\<rparr> else d)"

definition cooler_set_thot :: "double \<Rightarrow> cooler_data \<Rightarrow> cooler_data" where
  "cooler_set_thot value d =
     (if dbl_ne (cd_thot d) value then d\<lparr>cd_thot := value, cd_dirty := True\<rparr> else d)"

definition cooler_set_coolset :: "double \<Rightarrow> cooler_data \<Rightarrow> cooler_data" where
  "cooler_set_coolset value d =
     (if dbl_ne (cd_coolset d) value then d\<lparr>cd_coolset := value, cd_dirty := True\<rparr> else d)"

definition cooler_set_coolget :: "double \<Rightarrow> cooler_data \<Rightarrow> cooler_data" where
  "cooler_set_coolget value d =
     (if dbl_ne (cd_coolget d) value then d\<lparr>cd_coolget := value, cd_dirty := True\<rparr> else d)"

lemmas cooler_setters = cooler_set_voltage_def cooler_set_current_def cooler_set_thot_def
  cooler_set_coolset_def cooler_set_coolget_def

section \<open>Storage\<close>

text \<open>\<open>data_.resize(nDev)\<close> and the assignment of the device numbers.\<close>

definition resize_cooler :: "nat \<Rightarrow> cooler_data list \<Rightarrow> cooler_data list" where
  "resize_cooler n xs = take n xs @ replicate (n - length xs) zero_cooler_data"

definition cooler_check_data :: "nat \<Rightarrow> ('b, cooler_data) controller \<Rightarrow> ('b, cooler_data) controller" where
  "cooler_check_data nDev st =
     (if nDev \<noteq> length (ct_data st)
      then st\<lparr>ct_data := map (\<lambda>(i, d). d\<lparr>cd_idd := ct_allDev st ! i\<rparr>)
                              (enumerate 0 (resize_cooler nDev (ct_data st)))\<rparr>
      else st)"

text \<open>The position of the device's storage, which the code returns as a pointer into the vector.\<close>

fun find_cooler :: "byte \<Rightarrow> cooler_data list \<Rightarrow> nat \<Rightarrow> nat option" where
  "find_cooler idd [] i = None"
| "find_cooler idd (d # ds) i = (if cd_idd d = idd then Some i else find_cooler idd ds (i + 1))"

section \<open>Encoding\<close>

definition cooler_encode_data :: "byte \<Rightarrow> byte \<Rightarrow> bytes option \<Rightarrow> nat \<Rightarrow> int \<times> bytes" where
  "cooler_encode_data idd idf value len =
     (let src = (case value of None \<Rightarrow> [] | Some v \<Rightarrow> v);
          output = [0x3A] @ hex_byte idd @ hex_byte idf @ concat (map hex_schar (take len src))
                   @ [0, 0, 0x0D, 0x0A, 0];
          i = length output - 1;
          lrc = LRC output i
      in (int i, output[i - 4 := hex_digit (lrc div 16), i - 3 := hex_digit (lrc mod 16)]))"

text \<open>\<open>COOLER_MONITOR\<close>, the functions polled in this order.\<close>

definition COOLER_MONITOR :: "byte list" where
  "COOLER_MONITOR = [CFID_READ_VOL, CFID_READ_CUR, CFID_READ_T1, CFID_READ_T2, CFID_READ_COOLSET]"

definition cooler_generate_directive ::
  "byte \<Rightarrow> ('b, cooler_data) controller \<Rightarrow> ('b, cooler_data) controller outcome" where
  "cooler_generate_directive idd st =
     append_monitors (\<lambda>idf. cooler_encode_data idd idf None 0) COOLER_MONITOR st"

section \<open>Decoding\<close>

text \<open>The value goes to the reading that the function code names.\<close>

definition cooler_store :: "byte \<Rightarrow> double \<Rightarrow> cooler_data \<Rightarrow> cooler_data" where
  "cooler_store idf value d =
     (if idf = CFID_READ_VOL then cooler_set_voltage value d
      else if idf = CFID_READ_CUR then cooler_set_current value d
      else if idf = CFID_READ_T1 then cooler_set_coolget value d
      else if idf = CFID_READ_T2 then cooler_set_thot value d
      else if idf = CFID_READ_COOLSET then cooler_set_coolset value d
      else d)"

text \<open>
  \<open>strval.c_str()\<close> ends at the first zero byte. Without data bytes \<open>value\<close> keeps the indeterminate
  value \<open>ind\<close> of an uninitialised variable.
\<close>

definition cooler_decode_data ::
  "num_conv \<Rightarrow> double \<Rightarrow> int \<Rightarrow> ('b, cooler_data) controller
     \<Rightarrow> (int \<times> ('b, cooler_data) controller) outcome" where
  "cooler_decode_data N ind len st =
     (if len < 9 then Inr (-1, st)
      else if (len - 9) mod 2 \<noteq> 0 then Inr (-2, st)
      else let ptr = ct_bufrcv st;
               idd = decode_uint8 (ptr ! 1) (ptr ! 2);
               idf = decode_uint8 (ptr ! 3) (ptr ! 4);
               value = (if len > 9
                        then nc_atof N (c_str (string_of (decode_pairs ptr 5 (len - 5))))
                        else ind)
           in case find_cooler idd (ct_data st) 0 of
                None \<Rightarrow> Inr (0, st)
              | Some i \<Rightarrow>
                  Inr (0, st\<lparr>ct_data := (ct_data st)[i := cooler_store idf value (ct_data st ! i)]\<rparr>))"

section \<open>Reports\<close>

definition cooler_log_line :: "cooler_data \<Rightarrow> ctl_effect" where
  "cooler_log_line d = Log_status (cd_idd d) [cd_vol d, cd_cur d, cd_thot d, cd_coolget d, cd_coolset d]
     ''Cooler''"

definition cooler_write_log ::
  "('b, cooler_data) controller \<Rightarrow> ('b, cooler_data) controller \<times> ctl_effect list" where
  "cooler_write_log st =
     (st\<lparr>ct_data := map (\<lambda>d. d\<lparr>cd_dirty := False\<rparr>) (ct_data st)\<rparr>,
      map cooler_log_line (filter cd_dirty (ct_data st)))"

text \<open>C's \<open>sprintf("%03d")\<close> of a number that is not negative.\<close>

definition sprintf_03d :: "nat \<Rightarrow> string" where
  "sprintf_03d n = replicate (3 - length (show_nat n)) (CHR ''0'') @ show_nat n"

fun cooler_upload_from :: "env \<Rightarrow> string \<Rightarrow> nat \<Rightarrow> cooler_data list \<Rightarrow> ctl_effect list" where
  "cooler_upload_from e gid i [] = []"
| "cooler_upload_from e gid i (x # xs) =
     (let uid = sprintf_03d (unat (cd_idd x) div 10); cid = sprintf_03d (unat (cd_idd x))
      in Db_upload gid uid cid [cd_vol x, cd_cur x, cd_thot x, cd_coolget x, cd_coolset x] (env_utc e)
         # (if env_upload e i \<noteq> 0 then [Log_text (''cooler['' @ cid @ ''] upload to database failed'')]
            else [])
         @ cooler_upload_from e gid (i + 1) xs)"

definition cooler_upload_database :: "env \<Rightarrow> ('b, cooler_data) controller \<Rightarrow> ctl_effect list" where
  "cooler_upload_database e st = cooler_upload_from e (ct_grpid st) 0 (ct_data st)"

definition cooler_message ::
  "boost_str \<Rightarrow> num_conv \<Rightarrow> string \<Rightarrow> cooler_data \<Rightarrow> ascii_proto_cooler \<Rightarrow> ascii_proto_cooler" where
  "cooler_message S N gid d p =
     p\<lparr>ap_gid := gid, ap_uid := bs_format_03d S (unat (cd_idd d) div 10),
       ap_cid := bs_format_03d S (unat (cd_idd d)),
       pc_voltage := nc_narrow N (cd_vol d), pc_current := nc_narrow N (cd_cur d),
       pc_hotend := nc_narrow N (cd_thot d), pc_coolget := nc_narrow N (cd_coolget d),
       pc_coolset := nc_narrow N (cd_coolset d)\<rparr>"

text \<open>
  One message per device; the message object is reused, and the pointer that \<open>CompactCooler\<close> returns
  is read at once.
\<close>

fun cooler_respond_from ::
  "boost_str \<Rightarrow> num_conv \<Rightarrow> nat \<Rightarrow> string \<Rightarrow> ascii_proto_cooler \<Rightarrow> cooler_data list \<Rightarrow> asc_proto
     \<Rightarrow> (asc_proto \<times> ctl_effect list) outcome" where
  "cooler_respond_from S N h gid p [] a = Inr (a, [])"
| "cooler_respond_from S N h gid p (d # ds) a =
     (let p' = cooler_message S N gid d p
      in and_then (CompactCooler S N a (Some p'))
           (\<lambda>(r, a').
              let (pos, n) = the r
              in and_then (cooler_respond_from S N h gid p' ds a')
                   (\<lambda>(a'', effs).
                      Inr (a'', Net_write h (bytes_of (take (nat n) (drop pos (asc_buff a')))) # effs))))"

definition cooler_network_respond ::
  "boost_str \<Rightarrow> num_conv \<Rightarrow> nat \<Rightarrow> ('b, cooler_data) controller
     \<Rightarrow> (('b, cooler_data) controller \<times> ctl_effect list) outcome" where
  "cooler_network_respond S N h st =
     and_then (cooler_respond_from S N h (ct_grpid st) make_apcooler (ct_data st) (ct_ascproto st))
       (\<lambda>(a, effs). Inr (st\<lparr>ct_ascproto := a\<rparr>, effs))"

section \<open>The class\<close>

definition make_cooler :: "bytes \<Rightarrow> string \<Rightarrow> ('b, cooler_data) controller" where
  "make_cooler fresh afresh = (new_controller fresh afresh)
     \<lparr>ct_head := [0x3A], ct_tail := [0x0D, 0x0A], ct_nhead := 1, ct_ntail := 2\<rparr>"

definition cooler_methods :: "boost_str \<Rightarrow> num_conv \<Rightarrow> double \<Rightarrow> ('b, cooler_data) methods" where
  "cooler_methods S N ind = \<lparr>
     vm_check_data = cooler_check_data,
     vm_generate_directive = cooler_generate_directive,
     vm_encode_data = cooler_encode_data,
     vm_decode_data = cooler_decode_data N ind,
     vm_write_log = cooler_write_log,
     vm_upload_database = cooler_upload_database,
     vm_network_respond = cooler_network_respond S N\<rparr>"

section \<open>The contract of the base class\<close>

definition cooler_plan :: "byte \<Rightarrow> directive list" where
  "cooler_plan idd = map (\<lambda>idf. case cooler_encode_data idd idf None 0 of
     (n, msg) \<Rightarrow> \<lparr>dr_idf = idf, dr_len = n, dr_msg = msg\<rparr>) COOLER_MONITOR"

text \<open>The bytes between the frame's start and its checksum.\<close>

definition cooler_body :: "byte \<Rightarrow> byte \<Rightarrow> bytes \<Rightarrow> bytes" where
  "cooler_body idd idf v = [0x3A] @ hex_byte idd @ hex_byte idf @ concat (map hex_schar v)"

definition cooler_lrc :: "byte \<Rightarrow> byte \<Rightarrow> bytes \<Rightarrow> byte" where
  "cooler_lrc idd idf v = - (sum_list (cooler_body idd idf v) + 0x17)"

lemma length_cooler_body [simp]: "length (cooler_body idd idf v) = 5 + 2 * length v"
  by (simp add: cooler_body_def)

lemma cooler_encode_eq:
  "cooler_encode_data idd idf value n =
     (let v = take n (case value of None \<Rightarrow> [] | Some v \<Rightarrow> v)
      in (9 + 2 * int (length v),
          cooler_body idd idf v @ hex_byte (cooler_lrc idd idf v) @ [0x0D, 0x0A, 0]))"
proof -
  define v where "v = take n (case value of None \<Rightarrow> [] | Some v \<Rightarrow> v)"
  define b where "b = cooler_body idd idf v"
  let ?out = "b @ [0, 0, 0x0D, 0x0A, 0]"
  have "LRC ?out (length ?out - 1) = cooler_lrc idd idf v"
    by (simp add: LRC_eq cooler_lrc_def b_def algebra_simps)
  moreover have "?out[length b := x, length b + 1 := y] = b @ [x, y, 0x0D, 0x0A, 0]" for x y
    by (simp add: list_update_append)
  moreover have "length ?out - 1 = 9 + 2 * length v" and "length b = 5 + 2 * length v"
    by (simp_all add: b_def)
  ultimately show ?thesis
    unfolding cooler_encode_data_def Let_def
    by (simp add: v_def [symmetric] b_def cooler_body_def hex_byte_def)
qed

lemma length_cooler_msg: "length (snd (cooler_encode_data idd idf value n)) =
    10 + 2 * length (take n (case value of None \<Rightarrow> [] | Some v \<Rightarrow> v))"
  by (simp add: cooler_encode_eq Let_def)

lemma cooler_generate_eq:
  "cooler_generate_directive idd st = Inr (st\<lparr>ct_drct := ct_drct st @ cooler_plan idd\<rparr>)"
  unfolding cooler_generate_directive_def cooler_plan_def
  by (rule append_monitors_eq) (simp add: length_cooler_msg MSG_SIZE_def)

lemma cooler_decode_frame:
  "cooler_decode_data N ind len st = Inr (r, st') \<Longrightarrow> \<exists>ds. st' = st\<lparr>ct_data := ds\<rparr>"
  by (auto simp: cooler_decode_data_def Let_def split: if_splits option.splits)
    (metis controller.surjective controller.update_convs(19))+

lemma cooler_respond_frame:
  "cooler_network_respond S N h st = Inr (st', effs) \<Longrightarrow> \<exists>a. st' = st\<lparr>ct_ascproto := a\<rparr>"
  by (auto simp: cooler_network_respond_def and_then_Inr_iff)

lemma cooler_upload_quiet: "list_all off_port (cooler_upload_from e gid i xs)"
  by (induction e gid i xs rule: cooler_upload_from.induct) (auto simp: Let_def)

lemma cooler_respond_quiet:
  "cooler_respond_from S N h gid p ds a = Inr (a', effs) \<Longrightarrow> list_all off_port effs"
  by (induction ds arbitrary: p a a' effs) (auto simp: Let_def and_then_Inr_iff case_prod_beta)

interpretation cooler: controller_contract "cooler_methods S N ind" cooler_plan
proof unfold_locales
  show "sendable d" if "d \<in> set (cooler_plan idd)" for d idd
    using that by (auto simp: cooler_plan_def sendable_def cooler_encode_eq MSG_SIZE_def Let_def)
  show "\<exists>ds. vm_check_data (cooler_methods S N ind) n st = st\<lparr>ct_data := ds\<rparr>"
    for n and st :: "('b, cooler_data) controller"
    by (auto simp: cooler_methods_def cooler_check_data_def intro: exI [of _ "ct_data st"])
qed (auto simp: cooler_methods_def cooler_generate_eq cooler_plan_def COOLER_MONITOR_def
    cooler_write_log_def cooler_log_line_def list_all_iff cooler_upload_database_def
    cooler_upload_quiet [unfolded list_all_iff] cooler_network_respond_def and_then_Inr_iff
    dest: cooler_decode_frame cooler_respond_quiet [unfolded list_all_iff])

section \<open>Frames and their decoding\<close>

text \<open>The frame as it travels: the encoded message without the terminating zero.\<close>

definition cooler_frame :: "byte \<Rightarrow> byte \<Rightarrow> bytes \<Rightarrow> bytes" where
  "cooler_frame idd idf v =
     cooler_body idd idf v @ hex_byte (cooler_lrc idd idf v) @ [0x0D, 0x0A]"

lemma cooler_encode_frame:
  "cooler_encode_data idd idf (Some v) (length v) =
     (int (length (cooler_frame idd idf v)), cooler_frame idd idf v @ [0])"
  by (simp add: cooler_encode_eq Let_def cooler_frame_def)

text \<open>The part of the frame in front of its tail.\<close>

definition cooler_front :: "byte \<Rightarrow> byte \<Rightarrow> bytes \<Rightarrow> bytes" where
  "cooler_front idd idf v = cooler_body idd idf v @ hex_byte (cooler_lrc idd idf v)"

lemma cooler_frame_split: "cooler_frame idd idf v = cooler_front idd idf v @ [0x0D, 0x0A]"
  by (simp add: cooler_frame_def cooler_front_def)

lemma length_cooler_front [simp]: "length (cooler_front idd idf v) = 7 + 2 * length v"
  by (simp add: cooler_front_def)

lemma length_cooler_frame [simp]: "length (cooler_frame idd idf v) = 9 + 2 * length v"
  by (simp add: cooler_frame_split)

lemma cooler_front_digits:
  assumes "\<forall>x\<in>set v. x < 128"
  shows "\<exists>ds. cooler_front idd idf v = 0x3A # ds \<and> 0x3A \<notin> set ds \<and> 0x0D \<notin> set ds"
  using set_hex_byte [of "0x3A"] set_hex_byte [of "0x0D"]
  by (force simp: cooler_front_def cooler_body_def concat_hex_ascii [OF assms])

lemma cooler_front_no_cr:
  assumes "\<forall>x\<in>set v. x < 128"
  shows "0x0D \<notin> set (cooler_front idd idf v)"
  using cooler_front_digits [OF assms, of idd idf] by auto

lemma cooler_one_frame:
  assumes "\<forall>x\<in>set v. x < 128" and "0x3A \<notin> set noise"
  shows "one_frame [0x3A] [0x0D, 0x0A] (noise @ cooler_frame idd idf v @ rest)
    noise (cooler_front idd idf v) rest"
proof -
  let ?s = "noise @ cooler_front idd idf v @ [0x0D, 0x0A] @ rest"
  obtain ds where ds: "cooler_front idd idf v = 0x3A # ds"
    using cooler_front_digits [OF assms(1)] by blast
  have "occurs_at [0x3A] ?s (length noise)"
    using occurs_at_middle [of "[0x3A]" noise "ds @ [0x0D, 0x0A] @ rest"] by (simp add: ds)
  moreover have "\<not> occurs_at [0x3A] ?s q" if "q < length noise" for q
    using that assms(2) occurs_at_hd [of "0x3A" "[]" ?s q] by (simp add: nth_append) (metis nth_mem)
  moreover have "\<not> occurs_at [0x0D, 0x0A] ?s q"
    if q: "length noise \<le> q" "q < length noise + length (cooler_front idd idf v)" for q
  proof
    assume "occurs_at [0x0D, 0x0A] ?s q"
    then have "?s ! q = 0x0D"
      by (blast dest: occurs_at_hd)
    moreover have "?s ! q = cooler_front idd idf v ! (q - length noise)"
      using q by (auto simp: nth_append)
    ultimately have "0x0D \<in> set (cooler_front idd idf v)"
      using q by (metis add.commute less_diff_conv2 nth_mem)
    then show False
      using cooler_front_no_cr [OF assms(1)] by blast
  qed
  ultimately show ?thesis
    by (auto simp: one_frame_def cooler_frame_split ds list_all_iff)
qed

lemma cooler_fields:
  assumes "\<forall>x\<in>set v. x < 128" and f_def: "f = cooler_frame idd idf v @ junk"
  shows "decode_uint8 (f ! 1) (f ! 2) = idd"
    and "decode_uint8 (f ! 3) (f ! 4) = idf"
    and "decode_pairs f 5 (4 + 2 * int (length v)) = v"
proof -
  have f: "f = 0x3A # hex_byte idd @ hex_byte idf @ concat (map hex_byte v) @
      hex_byte (cooler_lrc idd idf v) @ [0x0D, 0x0A] @ junk"
    by (simp add: f_def cooler_frame_def cooler_body_def concat_hex_ascii [OF assms(1)])
  then show "decode_uint8 (f ! 1) (f ! 2) = idd" and "decode_uint8 (f ! 3) (f ! 4) = idf"
    by (simp_all add: hex_byte_def decode_uint8_hex_digits nth_append del: nth_Cons_numeral)
  have "slice 5 (2 * length v) f = concat (map hex_byte v)"
    using slice_mid [of "0x3A # hex_byte idd @ hex_byte idf" "concat (map hex_byte v)"] by (simp add: f)
  then show "decode_pairs f 5 (4 + 2 * int (length v)) = v"
    using decode_pairs_hex [of 5 v f "4 + 2 * int (length v)"] by (simp add: f_def)
qed

text \<open>Decoding a frame that carries a reading: the text after the function code is the number.\<close>

lemma cooler_decode_reading:
  assumes "plain_text s" and buf: "ct_bufrcv st = cooler_frame idd idf (bytes_of s) @ junk"
    and "find_cooler idd (ct_data st) 0 = Some i"
  shows "cooler_decode_data N ind (9 + 2 * int (length s)) st = Inr (0, st\<lparr>ct_data := (ct_data st)
      [i := cooler_store idf (if s = '''' then ind else nc_atof N s) (ct_data st ! i)]\<rparr>)"
proof -
  let ?f = "cooler_frame idd idf (bytes_of s) @ junk"
  note fields = cooler_fields [OF plain_bytes [OF assms(1)] refl, of idd idf junk]
  have "4 + 2 * int (length s) = 9 + 2 * int (length s) - 5" by simp
  then have "decode_pairs ?f 5 (9 + 2 * int (length s) - 5) = bytes_of s"
    using fields(3) by (metis length_bytes_of)
  moreover have "(9 + 2 * int (length s) - 9) mod 2 = 0" by simp
  ultimately show ?thesis
    using fields(1,2) assms(3) plain_no_nul [OF assms(1)]
    by (simp add: cooler_decode_data_def Let_def buf)
qed

text \<open>What a reply of acceptable length does to the device data.\<close>

definition reply_value :: "num_conv \<Rightarrow> double \<Rightarrow> int \<Rightarrow> bytes \<Rightarrow> double" where
  "reply_value N ind len f =
     (if len > 9 then nc_atof N (c_str (string_of (decode_pairs f 5 (len - 5)))) else ind)"

definition store_reply :: "int \<Rightarrow> num_conv \<Rightarrow> double \<Rightarrow> bytes \<Rightarrow> cooler_data list \<Rightarrow> cooler_data list" where
  "store_reply len N ind f ds =
     (case find_cooler (decode_uint8 (f ! 1) (f ! 2)) ds 0 of
        None \<Rightarrow> ds
      | Some i \<Rightarrow> ds[i := cooler_store (decode_uint8 (f ! 3) (f ! 4)) (reply_value N ind len f) (ds ! i)])"

lemma cooler_decode_stores:
  assumes "\<not> len < 9" and "(len - 9) mod 2 = 0"
  shows "cooler_decode_data N ind len (st\<lparr>ct_bufrcv := f\<rparr>) =
    Inr (0, st\<lparr>ct_bufrcv := f, ct_data := store_reply len N ind f (ct_data st)\<rparr>)"
  using assms by (simp add: cooler_decode_data_def Let_def store_reply_def reply_value_def split: option.split)

lemma cooler_decode_short: "len < 9 \<Longrightarrow> cooler_decode_data N ind len st = Inr (-1, st)"
  unfolding cooler_decode_data_def by (rule if_P)

lemma cooler_decode_odd:
  "\<not> len < 9 \<Longrightarrow> (len - 9) mod 2 \<noteq> 0 \<Longrightarrow> cooler_decode_data N ind len st = Inr (-2, st)"
  unfolding cooler_decode_data_def by (rule trans [OF if_not_P if_P])

section \<open>Storage of the devices\<close>

text \<open>Every device has one slot, in the order of configuration, once a polling round has begun.\<close>

definition cooler_slots :: "('b, cooler_data) controller \<Rightarrow> bool" where
  "cooler_slots st \<longleftrightarrow> distinct (ct_allDev st) \<and>
     map cd_idd (ct_data st) = take (length (ct_data st)) (ct_allDev st)"

lemma find_index_absent: "find_index idd ds i = i + length ds \<longleftrightarrow> idd \<notin> set ds"
proof (induction ds arbitrary: i)
  case Nil
  then show ?case by simp
next
  case (Cons d ds)
  from Cons [of "i + 1"] show ?case by auto
qed

lemma cb_AddDevice_eq:
  "cb_AddDevice idd st =
     (if idd \<in> set (ct_allDev st) then st else st\<lparr>ct_allDev := ct_allDev st @ [idd]\<rparr>)"
  using find_index_absent [of idd "ct_allDev st" 0] by (simp add: cb_AddDevice_def Let_def)

lemma find_cooler_Some:
  "find_cooler idd ds i = Some k \<Longrightarrow> i \<le> k \<and> k - i < length ds \<and> cd_idd (ds ! (k - i)) = idd"
  by (induction idd ds i rule: find_cooler.induct) (auto split: if_splits simp: nth_Cons' Suc_diff_le)

lemma find_cooler_None: "find_cooler idd ds i = None \<longleftrightarrow> idd \<notin> cd_idd ` set ds"
  by (induction idd ds i rule: find_cooler.induct) auto

lemma cd_idd_store [simp]: "cd_idd (cooler_store idf value d) = cd_idd d"
  by (simp add: cooler_store_def cooler_setters)

lemma map_idd_store [simp]:
  "map cd_idd (ds[i := cooler_store idf value (ds ! i)]) = map cd_idd ds"
  by (cases "i < length ds") (auto intro!: nth_equalityI simp: nth_list_update)

lemma map_idd_check:
  assumes "n = length (ct_allDev st)" and "cooler_slots st"
  shows "map cd_idd (ct_data (cooler_check_data n st)) = ct_allDev st"
proof (cases "n = length (ct_data st)")
  case True
  then show ?thesis using assms by (simp add: cooler_check_data_def cooler_slots_def)
next
  case False
  have "length (resize_cooler n (ct_data st)) = n"
    by (simp add: resize_cooler_def)
  then show ?thesis
    using False assms(1) by (auto simp: cooler_check_data_def intro!: nth_equalityI simp: nth_enumerate_eq)
qed

section \<open>Properties\<close>

text \<open>
  C2. A reply of the temperature controller is recorded. When the receive buffer holds noise without a
  colon followed by a frame that carries the text of a number, \<open>serial_read\<close> cuts exactly this frame
  out of the buffer, writes \<open>atof\<close> of the text to the reading that the function code names, in the slot
  of the device that the frame names and nowhere else, and wakes the responding thread.
\<close>

theorem cooler_reply_recorded:
  assumes "circular_buffer B" and "ct_serial st = Some sp" and "flags_of st [0x3A] [0x0D, 0x0A]"
    and "sc_received B sp = noise @ cooler_frame idd idf (bytes_of s) @ rest" and "0x3A \<notin> set noise"
    and "plain_text s" and "s \<noteq> ''''" and "9 + 2 * length s \<le> length (ct_bufrcv st)"
    and "find_cooler idd (ct_data st) 0 = Some i"
  shows "\<exists>c buf. cb_list B c = rest \<and>
    cb_serial_read B (cooler_methods S N ind) 0 st =
      Inr (st\<lparr>ct_serial := Some (sp\<lparr>sc_crcrcv := c\<rparr>), ct_bufrcv := buf,
              ct_data := (ct_data st)[i := cooler_store idf (nc_atof N s) (ct_data st ! i)]\<rparr>, [Notify])"
proof -
  let ?v = "bytes_of s"
  have frame: "one_frame [0x3A] [0x0D, 0x0A] (sc_received B sp) noise (cooler_front idd idf ?v) rest"
    using cooler_one_frame [OF plain_bytes [OF assms(6)] assms(5)] by (simp add: assms(4))
  obtain c where c: "cb_list B c = rest" and eq: "cb_serial_read B (cooler_methods S N ind) 0 st =
      and_then (cooler_decode_data N ind (9 + 2 * int (length s))
        (st\<lparr>ct_serial := Some (sp\<lparr>sc_crcrcv := c\<rparr>),
            ct_bufrcv := cooler_frame idd idf ?v @ drop (9 + 2 * length s) (ct_bufrcv st)\<rparr>))
      (\<lambda>(r, st'). Inr (st', if r = 0 then [Notify] else []))"
    using circular_buffer.serial_read_frame [OF assms(1-3) frame, of "cooler_methods S N ind"] assms(8)
    by (auto simp: cooler_methods_def cooler_frame_split)
  show ?thesis
    using c assms(7,9) by (auto simp: eq cooler_decode_reading [OF assms(6)])
qed

definition sample_cooler_data :: "byte \<Rightarrow> cooler_data" where
  "sample_cooler_data n = zero_cooler_data\<lparr>cd_idd := n\<rparr>"

definition sample_cooler_ctl :: "bytes \<Rightarrow> (ring, cooler_data) controller" where
  "sample_cooler_ctl received = (make_cooler (replicate 512 0) (replicate 10240 NUL))
     \<lparr>ct_serial := Some (sample_port\<lparr>sc_crcrcv := (5120, received), sc_crcsnd := (5120, [])\<rparr>),
      ct_allDev := [31, 32], ct_data := [sample_cooler_data 31, sample_cooler_data 32]\<rparr>"

lemmas sample_cooler_simps = sample_cooler_ctl_def make_cooler_def new_controller_def sample_port_def
  sample_cooler_data_def zero_cooler_data_def

text \<open>The reply ``12'' of device 32 to the request of the voltage, with a byte of noise in front.\<close>

theorem cooler_reply_recorded_witness:
  "\<exists>st'. cb_serial_read ring_ops (cooler_methods boost_ref toy_conv 99) 0
       (sample_cooler_ctl (7 # cooler_frame 32 0x22 (bytes_of ''12'') @ [58])) = Inr (st', [Notify]) \<and>
     map cd_vol (ct_data st') = [0, 12] \<and> map cd_dirty (ct_data st') = [False, True]"
proof -
  define st where "st = sample_cooler_ctl (7 # cooler_frame 32 0x22 (bytes_of ''12'') @ [58])"
  have "plain_text ''12''" by code_simp
  moreover have "flags_of st [0x3A] [0x0D, 0x0A]"
    by (simp add: st_def sample_cooler_simps flags_of_def)
  moreover have "ct_serial st = Some (the (ct_serial st))"
    and "sc_received ring_ops (the (ct_serial st)) = [7] @ cooler_frame 32 0x22 (bytes_of ''12'') @ [58]"
    and "9 + 2 * length ''12'' \<le> length (ct_bufrcv st)"
    and "find_cooler 32 (ct_data st) 0 = Some 1"
    by (simp_all add: st_def sample_cooler_simps SERIAL_BUFF_SIZE_def)
  ultimately obtain c buf where
    "cb_serial_read ring_ops (cooler_methods boost_ref toy_conv 99) 0 st =
      Inr (st\<lparr>ct_serial := Some (the (ct_serial st)\<lparr>sc_crcrcv := c\<rparr>), ct_bufrcv := buf,
              ct_data := (ct_data st)[1 := cooler_store 0x22 (nc_atof toy_conv ''12'') (ct_data st ! 1)]\<rparr>,
           [Notify])"
    using cooler_reply_recorded [OF ring.circular_buffer_axioms, of st "the (ct_serial st)" "[7]" 32
        "0x22" "''12''" "[58]" 1 boost_ref toy_conv 99] by auto
  moreover have "cooler_store 0x22 (nc_atof toy_conv ''12'') (sample_cooler_data 32)
      = (sample_cooler_data 32)\<lparr>cd_vol := 12, cd_dirty := True\<rparr>"
    by (simp add: sample_cooler_simps cooler_store_def cooler_setters cooler_function_ids
        toy_conv_def dbl_ne_def dbl_nan_def dbl_abs_bits_def)
  ultimately show ?thesis
    by (simp add: st_def [symmetric]) (simp add: st_def sample_cooler_simps)
qed
text \<open>
  C11. The frame that \<open>encode_data\<close> builds for a printable parameter: its length is 9 plus two digits
  per character, it starts with a colon, ends with carriage return, line feed and a terminating zero
  that is not counted, has no colon or carriage return in between, and the byte that the two checksum
  digits denote makes the sum of the other transmitted bytes zero modulo 256.
\<close>

theorem cooler_frame_wellformed:
  assumes "plain_text s"
  shows "\<exists>ds c1 c2. cooler_encode_data idd idf (Some (bytes_of s)) (length s) =
      (9 + 2 * int (length s), 0x3A # ds @ [c1, c2, 0x0D, 0x0A, 0]) \<and>
    length ds = 4 + 2 * length s \<and> 0x3A \<notin> set (ds @ [c1, c2]) \<and> 0x0D \<notin> set (ds @ [c1, c2]) \<and>
    sum_list (0x3A # ds @ [0x0D, 0x0A]) + decode_uint8 c1 c2 = 0"
proof -
  let ?v = "bytes_of s"
  let ?c = "cooler_lrc idd idf ?v"
  let ?ds = "tl (cooler_body idd idf ?v)"
  have body: "cooler_body idd idf ?v = 0x3A # ?ds"
    by (simp add: cooler_body_def)
  have "cooler_encode_data idd idf (Some ?v) (length s) =
      (9 + 2 * int (length s), 0x3A # ?ds @ hex_byte ?c @ [0x0D, 0x0A, 0])"
    using body by (simp add: cooler_encode_eq Let_def)
  moreover have "0x3A \<notin> set (?ds @ hex_byte ?c) \<and> 0x0D \<notin> set (?ds @ hex_byte ?c)"
    using cooler_front_digits [OF plain_bytes [OF assms], of idd idf] body
    unfolding cooler_front_def by (metis append_Cons list.inject)
  moreover have "sum_list (0x3A # ?ds @ [0x0D, 0x0A]) + ?c = 0"
  proof -
    have "sum_list (cooler_body idd idf ?v) = 0x3A + sum_list ?ds"
      by (subst body) simp
    then show ?thesis by (simp add: cooler_lrc_def algebra_simps)
  qed
  moreover have "length ?ds = 4 + 2 * length s"
    by simp
  ultimately show ?thesis
    by (intro exI [of _ ?ds] exI [of _ "hex_digit (?c div 16)"] exI [of _ "hex_digit (?c mod 16)"])
      (simp add: hex_byte_def decode_uint8_hex_digits del: length_tl)
qed

theorem cooler_frame_wellformed_witness:
  "\<exists>ds c1 c2. cooler_encode_data 32 0x16 (Some [0x2D, 0x38]) 2 = (13, 0x3A # ds @ [c1, c2, 0x0D, 0x0A, 0]) \<and>
     0x0D \<notin> set (ds @ [c1, c2]) \<and> sum_list (0x3A # ds @ [0x0D, 0x0A]) + decode_uint8 c1 c2 = 0"
proof -
  have "plain_text ''-8''" by code_simp
  moreover have "bytes_of ''-8'' = [0x2D, 0x38]" by code_simp
  ultimately show ?thesis
    using cooler_frame_wellformed [of "''-8''" 32 "0x16"] by (auto simp: numeral_2_eq_2)
qed

text \<open>
  The directive buffer of 30 bytes holds the commands with a parameter of at most ten characters;
  \<open>Write\<close> of an integer whose decimal text is longer writes past its end, and so does \<open>Write\<close> of a
  floating point number whose text with one decimal is longer.
\<close>

theorem cooler_write_fits:
  "(cb_Write_int S (cooler_methods S N ind) idd idf value st = Inl Out_of_bounds \<longleftrightarrow>
      10 < length (bs_format_d S value)) \<and>
   (cb_Write_double N (cooler_methods S N ind) idd idf x st = Inl Out_of_bounds \<longleftrightarrow>
      10 < length (nc_fmt_1f N x))"
proof -
  have "length (snd (cooler_encode_data idd idf (Some (bytes_of t)) (length t))) = 10 + 2 * length t" for t
    by (simp add: length_cooler_msg)
  then show ?thesis
    by (auto simp: cb_Write_int_def cb_Write_double_def encode_data_int_def encode_data_double_def Let_def
        new_directive_def cooler_methods_def MSG_SIZE_def)
qed

text \<open>
  C12. Every configured device has a slot of its own. The slots follow the configured device numbers
  through \<open>AddDevice\<close>, the check at the start of a polling round, the decoding of any reply and the
  log report, and after the check every configured device is found in a slot with its number, at a
  position of its own.
\<close>

theorem cooler_devices_have_slots:
  assumes "cooler_slots st"
  shows "cooler_slots (cb_AddDevice idd st) \<and>
    cooler_slots (cooler_check_data (length (ct_allDev st)) st) \<and>
    (\<forall>r st'. cooler_decode_data N ind len st = Inr (r, st') \<longrightarrow> cooler_slots st') \<and>
    cooler_slots (fst (cooler_write_log st)) \<and>
    (\<forall>k<length (ct_allDev st).
       find_cooler (ct_allDev st ! k) (ct_data (cooler_check_data (length (ct_allDev st)) st)) 0 = Some k)"
proof -
  let ?chk = "cooler_check_data (length (ct_allDev st)) st"
  have all: "map cd_idd (ct_data ?chk) = ct_allDev st" and dist: "distinct (ct_allDev st)"
    using map_idd_check [OF refl assms] assms by (auto simp: cooler_slots_def)
  have len: "length (ct_data st) \<le> length (ct_allDev st)"
    using assms unfolding cooler_slots_def by (metis length_map length_take min.cobounded1 min.commute nat_le_linear min_def)
  have dev: "ct_allDev ?chk = ct_allDev st"
    by (simp add: cooler_check_data_def)
  have "find_cooler (ct_allDev st ! k) (ct_data ?chk) 0 = Some k" if k: "k < length (ct_allDev st)" for k
  proof -
    have "ct_allDev st ! k \<in> cd_idd ` set (ct_data ?chk)"
      using k all by (metis nth_mem set_map)
    then obtain j where j: "find_cooler (ct_allDev st ! k) (ct_data ?chk) 0 = Some j"
      using find_cooler_None [of "ct_allDev st ! k" "ct_data ?chk" 0] by (cases "find_cooler (ct_allDev st ! k) (ct_data ?chk) 0") auto
    from find_cooler_Some [OF this] have "j < length (ct_data ?chk)"
      and "cd_idd (ct_data ?chk ! j) = ct_allDev st ! k" by auto
    then have "j = k"
      using k all dist by (metis length_map nth_eq_iff_index_eq nth_map)
    then show ?thesis using j by simp
  qed
  moreover have "cooler_slots st'" if "cooler_decode_data N ind len st = Inr (r, st')" for r st'
    using that assms
    by (auto simp: cooler_decode_data_def Let_def cooler_slots_def split: if_splits option.splits)
  moreover have "cooler_slots ?chk"
    using all dist dev by (metis cooler_slots_def length_map order_refl take_all)
  ultimately show ?thesis
    using assms len by (auto simp: cooler_slots_def cb_AddDevice_eq cooler_write_log_def comp_def)
qed

theorem cooler_devices_have_slots_witness:
  "find_cooler 32 (ct_data (cooler_check_data 3 (cb_AddDevice 35 (sample_cooler_ctl [])))) 0 = Some 1"
proof -
  have "cooler_slots (cb_AddDevice 35 (sample_cooler_ctl []))"
    by (simp add: cb_AddDevice_eq cooler_slots_def sample_cooler_simps)
  then have "\<forall>k<3. find_cooler ([31, 32, 35] ! k)
      (ct_data (cooler_check_data 3 (cb_AddDevice 35 (sample_cooler_ctl [])))) 0 = Some k"
    using cooler_devices_have_slots [of "cb_AddDevice 35 (sample_cooler_ctl [])" 0 toy_conv 0 0]
    by (simp add: cb_AddDevice_eq sample_cooler_ctl_def numeral_3_eq_3)
  from this [rule_format, of 1] show ?thesis by simp
qed

definition cooler_reading :: "byte \<Rightarrow> cooler_data \<Rightarrow> double option" where
  "cooler_reading idf d =
     (if idf = CFID_READ_VOL then Some (cd_vol d) else if idf = CFID_READ_CUR then Some (cd_cur d)
      else if idf = CFID_READ_T1 then Some (cd_coolget d) else if idf = CFID_READ_T2 then Some (cd_thot d)
      else if idf = CFID_READ_COOLSET then Some (cd_coolset d) else None)"

lemma filter_single_update:
  "i < length xs \<Longrightarrow> \<forall>x\<in>set xs. \<not> P x \<Longrightarrow> filter P (xs[i := y]) = (if P y then [y] else [])"
  by (induction xs arbitrary: i) (auto split: nat.splits)

lemma cooler_store_dirty:
  "\<not> cd_dirty d \<Longrightarrow> cooler_reading idf d = Some old \<Longrightarrow>
   cd_dirty (cooler_store idf v d) \<longleftrightarrow> dbl_ne old v"
  by (auto simp: cooler_reading_def cooler_store_def cooler_setters split: if_splits)

text \<open>
  The log reports exactly the changes: after a report, a reading that is stored again is reported
  by the next one if and only if its value differs (in the sense of \<open>!=\<close> on doubles) from the old one,
  and then only the line of that device is written.
\<close>

theorem cooler_log_reports_changes:
  assumes "cooler_write_log st0 = (st, logs)" and "i < length (ct_data st)"
    and "cooler_reading idf (ct_data st ! i) = Some old"
  shows "snd (cooler_write_log (st\<lparr>ct_data := (ct_data st)[i := cooler_store idf v (ct_data st ! i)]\<rparr>)) =
    (if dbl_ne old v then [cooler_log_line (cooler_store idf v (ct_data st ! i))] else [])"
proof -
  have clean: "\<forall>d\<in>set (ct_data st). \<not> cd_dirty d"
    using assms(1) by (auto simp: cooler_write_log_def)
  moreover have "\<not> cd_dirty (ct_data st ! i)"
    using clean assms(2) by simp
  from cooler_store_dirty [OF this assms(3)] show ?thesis
    using filter_single_update [OF assms(2) clean] by (simp add: cooler_write_log_def)
qed

theorem cooler_log_reports_changes_witness:
  "snd (cooler_write_log ((sample_cooler_ctl [])\<lparr>ct_data :=
      [sample_cooler_data 31, cooler_store 0x24 7 (sample_cooler_data 32)]\<rparr>)) =
   [Log_status 32 [0, 0, 7, 0, 0] ''Cooler'']"
proof -
  have "cooler_write_log (sample_cooler_ctl []) = (sample_cooler_ctl [], [])"
    by (simp add: cooler_write_log_def sample_cooler_simps)
  from cooler_log_reports_changes [OF this, of 1 "0x24" 0 7] show ?thesis
    by (simp add: sample_cooler_simps cooler_reading_def cooler_store_def cooler_setters
        cooler_function_ids cooler_log_line_def dbl_ne_def dbl_nan_def dbl_abs_bits_def)
qed

text \<open>
  A reply without a parameter is accepted too, and what it stores in the reading is the
  indeterminate value of the local variable \<open>value\<close>: the reading becomes whatever that variable held.
\<close>

theorem cooler_empty_reply_stores_indeterminate:
  assumes "ct_bufrcv st = cooler_frame idd idf [] @ junk" and "find_cooler idd (ct_data st) 0 = Some i"
  shows "cooler_decode_data N ind 9 st =
    Inr (0, st\<lparr>ct_data := (ct_data st)[i := cooler_store idf ind (ct_data st ! i)]\<rparr>)"
  using cooler_decode_reading [of "''''" st idd idf junk i N ind] assms
  by (simp add: plain_text_def bytes_of_def)

theorem cooler_empty_reply_stores_indeterminate_witness:
  "cooler_decode_data toy_conv 77 9 ((sample_cooler_ctl [])\<lparr>ct_bufrcv := cooler_frame 31 0x22 []\<rparr>) =
   Inr (0, (sample_cooler_ctl [])\<lparr>ct_bufrcv := cooler_frame 31 0x22 [],
     ct_data := [cooler_store 0x22 77 (sample_cooler_data 31), sample_cooler_data 32]\<rparr>)"
  using cooler_empty_reply_stores_indeterminate [of
      "(sample_cooler_ctl [])\<lparr>ct_bufrcv := cooler_frame 31 0x22 []\<rparr>" 31 "0x22" "[]" 0 toy_conv 77]
  by (simp add: sample_cooler_simps)

text \<open>
  The checksum of a reply is not verified: two replies of the same length that differ only in the
  two checksum digits are decoded to the same result and the same device data.
\<close>

theorem cooler_decode_ignores_checksum:
  assumes "\<forall>j<n. j + 4 \<noteq> n \<and> j + 3 \<noteq> n \<longrightarrow> f ! j = g ! j"
  shows "\<exists>r ds. cooler_decode_data N ind (int n) (st\<lparr>ct_bufrcv := f\<rparr>) = Inr (r, st\<lparr>ct_bufrcv := f, ct_data := ds\<rparr>) \<and>
    cooler_decode_data N ind (int n) (st\<lparr>ct_bufrcv := g\<rparr>) = Inr (r, st\<lparr>ct_bufrcv := g, ct_data := ds\<rparr>)"
proof (cases "9 \<le> n \<and> (n - 9) mod 2 = 0")
  case True
  have "decode_pairs f 5 (int n - 5) = decode_pairs g 5 (int n - 5)" if "9 < n"
  proof (rule decode_pairs_cong)
    have "odd n"
      using True that by presburger
    then show "f ! k = g ! k"
      if "nat 5 \<le> k" "int k \<le> int n - 5 + (if even (int n - 5 - 5) then 1 else 0)" for k
      using that assms by simp
  qed simp
  then have same: "reply_value N ind (int n) f = reply_value N ind (int n) g"
    by (simp add: reply_value_def)
  have "f ! 1 = g ! 1" and "f ! 2 = g ! 2" and "f ! 3 = g ! 3" and "f ! 4 = g ! 4"
    using assms True by auto
  then have "store_reply (int n) N ind f ds = store_reply (int n) N ind g ds" for ds
    by (simp only: store_reply_def same)
  moreover have "\<not> int n < 9" and "(int n - 9) mod 2 = 0"
    using True by presburger+
  ultimately show ?thesis
    using cooler_decode_stores [of "int n" N ind _ st] by metis
next
  case False
  then have "int n < 9 \<or> (int n - 9) mod 2 \<noteq> 0"
    by presburger
  then have "cooler_decode_data N ind (int n) s = Inr (if int n < 9 then -1 else -2, s)"
    for s :: "('a, cooler_data) controller"
    using cooler_decode_short [of "int n" N ind s] cooler_decode_odd [of "int n" N ind s] by auto
  then show ?thesis
    by (intro exI [of _ "if int n < 9 then -1 else -2"] exI [of _ "ct_data st"]) simp
qed

theorem cooler_decode_ignores_checksum_witness:
  "\<exists>r ds. cooler_decode_data toy_conv 0 9 ((sample_cooler_ctl [])\<lparr>ct_bufrcv := [58, 50, 48, 50, 50, 49, 50, 13, 10]\<rparr>)
      = Inr (r, (sample_cooler_ctl [])\<lparr>ct_bufrcv := [58, 50, 48, 50, 50, 49, 50, 13, 10], ct_data := ds\<rparr>) \<and>
    cooler_decode_data toy_conv 0 9 ((sample_cooler_ctl [])\<lparr>ct_bufrcv := [58, 50, 48, 50, 50, 70, 70, 13, 10]\<rparr>)
      = Inr (r, (sample_cooler_ctl [])\<lparr>ct_bufrcv := [58, 50, 48, 50, 50, 70, 70, 13, 10], ct_data := ds\<rparr>)"
proof -
  let ?f = "[58, 50, 48, 50, 50, 49, 50, 13, 10] :: bytes"
  have upd: "\<forall>j<9. j + 4 \<noteq> 9 \<and> j + 3 \<noteq> 9 \<longrightarrow> f ! j = f[5 := 70, 6 := 70] ! j" for f :: bytes
    by simp
  from cooler_decode_ignores_checksum [OF upd [of ?f], of toy_conv 0 "sample_cooler_ctl []"]
  show ?thesis by simp
qed

end
