(* ===== verification/VacuumCtl.thy ===== *)
theory VacuumCtl
  imports ControllerBase
begin

text \<open>
  The ion pump controller (VacuumCtl.h, VacuumCtl.cpp). Its requests carry an additive checksum and no
  parameter, its replies have no head flag and do not name the function they answer: the decoder takes
  it from the directive in front of the list. The interpretation \<open>vacuum\<close> shows that the class
  keeps the contract of the base class.
\<close>

section \<open>Data of a device\<close>

definition VFID_RESET :: byte where "VFID_RESET = 0x07"
definition VFID_READ_CUR :: byte where "VFID_READ_CUR = 0x0A"
definition VFID_READ_PRES :: byte where "VFID_READ_PRES = 0x0B"
definition VFID_READ_VOL :: byte where "VFID_READ_VOL = 0x0C"

lemmas vacuum_function_ids = VFID_READ_CUR_def VFID_READ_PRES_def VFID_READ_VOL_def

record vacuum_data =
  vd_dirty :: bool
  vd_idd :: byte
  vd_cur :: double
  vd_pres :: string
  vd_vol :: double

definition zero_vacuum_data :: vacuum_data where
  "zero_vacuum_data = \<lparr>vd_dirty = False, vd_idd = 0, vd_cur = 0, vd_pres = '''', vd_vol = 0\<rparr>"

definition vacuum_set_current :: "double \<Rightarrow> vacuum_data \<Rightarrow> vacuum_data" where
  "vacuum_set_current value d =
     (if dbl_ne value (vd_cur d) then d\<lparr>vd_cur := value, vd_dirty := True\<rparr> else d)"

definition vacuum_set_pressure :: "string \<Rightarrow> vacuum_data \<Rightarrow> vacuum_data" where
  "vacuum_set_pressure value d =
     (if value \<noteq> vd_pres d then d\<lparr>vd_pres := value, vd_dirty := True\<rparr> else d)"

definition vacuum_set_voltage :: "double \<Rightarrow> vacuum_data \<Rightarrow> vacuum_data" where
  "vacuum_set_voltage value d =
     (if dbl_ne value (vd_vol d) then d\<lparr>vd_vol := value, vd_dirty := True\<rparr> else d)"

lemmas vacuum_setters = vacuum_set_current_def vacuum_set_pressure_def vacuum_set_voltage_def

section \<open>Storage\<close>

definition resize_vacuum :: "nat \<Rightarrow> vacuum_data list \<Rightarrow> vacuum_data list" where
  "resize_vacuum n xs = take n xs @ replicate (n - length xs) zero_vacuum_data"

definition vacuum_check_data :: "nat \<Rightarrow> ('b, vacuum_data) controller \<Rightarrow> ('b, vacuum_data) controller" where
  "vacuum_check_data nDev st =
     (if nDev \<noteq> length (ct_data st)
      then st\<lparr>ct_data := map (\<lambda>(i, d). d\<lparr>vd_idd := ct_allDev st ! i\<rparr>)
                              (enumerate 0 (resize_vacuum nDev (ct_data st)))\<rparr>
      else st)"

fun find_vacuum :: "byte \<Rightarrow> vacuum_data list \<Rightarrow> nat \<Rightarrow> nat option" where
  "find_vacuum idd [] i = None"
| "find_vacuum idd (d # ds) i = (if vd_idd d = idd then Some i else find_vacuum idd ds (i + 1))"

section \<open>Encoding\<close>

text \<open>The checksum adds up the bytes between the leading tilde and itself; the parameter is not used.\<close>

definition vacuum_encode_data :: "byte \<Rightarrow> byte \<Rightarrow> bytes option \<Rightarrow> nat \<Rightarrow> int \<times> bytes" where
  "vacuum_encode_data idd idf value n =
     (let summed = [0x20] @ hex_byte idd @ [0x20] @ hex_byte idf @ [0x20];
          lrc = foldl (+) 0 summed;
          output = [0x7E] @ summed @ [0, 0, 0x0D, 0];
          i = length output - 1
      in (int i, output[i - 3 := hex_digit (lrc div 16), i - 2 := hex_digit (lrc mod 16)]))"

definition VACUUM_MONITOR :: "byte list" where
  "VACUUM_MONITOR = [VFID_READ_CUR, VFID_READ_PRES, VFID_READ_VOL]"

definition vacuum_generate_directive ::
  "byte \<Rightarrow> ('b, vacuum_data) controller \<Rightarrow> ('b, vacuum_data) controller outcome" where
  "vacuum_generate_directive idd st =
     append_monitors (\<lambda>idf. vacuum_encode_data idd idf None 0) VACUUM_MONITOR st"

section \<open>Decoding\<close>

definition vacuum_store :: "num_conv \<Rightarrow> byte \<Rightarrow> string \<Rightarrow> vacuum_data \<Rightarrow> vacuum_data" where
  "vacuum_store N idf strval d =
     (if idf = VFID_READ_CUR then vacuum_set_current (nc_atof N (c_str strval)) d
      else if idf = VFID_READ_VOL then vacuum_set_voltage (nc_atof N (c_str strval)) d
      else if idf = VFID_READ_PRES then vacuum_set_pressure strval d
      else d)"

definition vacuum_decode_data ::
  "num_conv \<Rightarrow> int \<Rightarrow> ('b, vacuum_data) controller \<Rightarrow> (int \<times> ('b, vacuum_data) controller) outcome" where
  "vacuum_decode_data N len st =
     (if len < 12 then Inr (-1, st)
      else case ct_drct st of
             [] \<Rightarrow> Inl Empty_container
           | one # _ \<Rightarrow>
               let ptr = ct_bufrcv st;
                   idd = decode_uint8 (ptr ! 0) (ptr ! 1);
                   strval = string_of (decode_pairs ptr 6 (len - 5))
               in case find_vacuum idd (ct_data st) 0 of
                    None \<Rightarrow> Inr (0, st)
                  | Some i \<Rightarrow>
                      Inr (0, st\<lparr>ct_data := (ct_data st)
                        [i := vacuum_store N (dr_idf one) strval (ct_data st ! i)]\<rparr>))"

section \<open>Reports\<close>

text \<open>The log line calls the device a cooler; its pressure is logged as text.\<close>

definition vacuum_log_line :: "vacuum_data \<Rightarrow> ctl_effect" where
  "vacuum_log_line d = Log_status (vd_idd d) [vd_vol d, vd_cur d] (''Cooler '' @ c_str (vd_pres d))"

definition vacuum_write_log ::
  "('b, vacuum_data) controller \<Rightarrow> ('b, vacuum_data) controller \<times> ctl_effect list" where
  "vacuum_write_log st =
     (st\<lparr>ct_data := map (\<lambda>d. d\<lparr>vd_dirty := False\<rparr>) (ct_data st)\<rparr>,
      map vacuum_log_line (filter vd_dirty (ct_data st)))"

definition vacuum_upload_database :: "env \<Rightarrow> ('b, vacuum_data) controller \<Rightarrow> ctl_effect list" where
  "vacuum_upload_database e st = []"

definition vacuum_message ::
  "boost_str \<Rightarrow> num_conv \<Rightarrow> string \<Rightarrow> vacuum_data \<Rightarrow> ascii_proto_vacuum \<Rightarrow> ascii_proto_vacuum" where
  "vacuum_message S N gid d p =
     p\<lparr>ap_gid := gid, ap_uid := bs_format_03d S (unat (vd_idd d) div 10),
       ap_cid := bs_format_03d S (unat (vd_idd d)),
       pv_voltage := nc_narrow N (vd_vol d), pv_current := nc_narrow N (vd_cur d),
       pv_pressure := vd_pres d\<rparr>"

fun vacuum_respond_from ::
  "boost_str \<Rightarrow> num_conv \<Rightarrow> nat \<Rightarrow> string \<Rightarrow> ascii_proto_vacuum \<Rightarrow> vacuum_data list \<Rightarrow> asc_proto
     \<Rightarrow> (asc_proto \<times> ctl_effect list) outcome" where
  "vacuum_respond_from S N h gid p [] a = Inr (a, [])"
| "vacuum_respond_from S N h gid p (d # ds) a =
     (let p' = vacuum_message S N gid d p
      in and_then (CompactVacuum S N a (Some p'))
           (\<lambda>(r, a').
              let (pos, n) = the r
              in and_then (vacuum_respond_from S N h gid p' ds a')
                   (\<lambda>(a'', effs).
                      Inr (a'', Net_write h (bytes_of (take (nat n) (drop pos (asc_buff a')))) # effs))))"

definition vacuum_network_respond ::
  "boost_str \<Rightarrow> num_conv \<Rightarrow> nat \<Rightarrow> ('b, vacuum_data) controller
     \<Rightarrow> (('b, vacuum_data) controller \<times> ctl_effect list) outcome" where
  "vacuum_network_respond S N h st =
     and_then (vacuum_respond_from S N h (ct_grpid st) make_apvacuum (ct_data st) (ct_ascproto st))
       (\<lambda>(a, effs). Inr (st\<lparr>ct_ascproto := a\<rparr>, effs))"

section \<open>The class\<close>

definition make_vacuum :: "bytes \<Rightarrow> string \<Rightarrow> ('b, vacuum_data) controller" where
  "make_vacuum fresh afresh = (new_controller fresh afresh)\<lparr>ct_tail := [0x0D], ct_ntail := 1\<rparr>"

definition vacuum_methods :: "boost_str \<Rightarrow> num_conv \<Rightarrow> ('b, vacuum_data) methods" where
  "vacuum_methods S N = \<lparr>
     vm_check_data = vacuum_check_data,
     vm_generate_directive = vacuum_generate_directive,
     vm_encode_data = vacuum_encode_data,
     vm_decode_data = vacuum_decode_data N,
     vm_write_log = vacuum_write_log,
     vm_upload_database = vacuum_upload_database,
     vm_network_respond = vacuum_network_respond S N\<rparr>"

section \<open>The contract of the base class\<close>

definition vacuum_sum :: "byte \<Rightarrow> byte \<Rightarrow> byte" where
  "vacuum_sum idd idf = sum_list ([0x20] @ hex_byte idd @ [0x20] @ hex_byte idf @ [0x20])"

lemma vacuum_encode_eq:
  "vacuum_encode_data idd idf value n =
     (11, 0x7E # 0x20 # hex_byte idd @ [0x20] @ hex_byte idf @ [0x20] @
          hex_byte (vacuum_sum idd idf) @ [0x0D, 0])"
  by (simp add: vacuum_encode_data_def vacuum_sum_def Let_def hex_byte_def foldl_plus_sum add.assoc)

definition vacuum_plan :: "byte \<Rightarrow> directive list" where
  "vacuum_plan idd = map (\<lambda>idf. case vacuum_encode_data idd idf None 0 of
     (n, msg) \<Rightarrow> \<lparr>dr_idf = idf, dr_len = n, dr_msg = msg\<rparr>) VACUUM_MONITOR"

lemma vacuum_generate_eq:
  "vacuum_generate_directive idd st = Inr (st\<lparr>ct_drct := ct_drct st @ vacuum_plan idd\<rparr>)"
  unfolding vacuum_generate_directive_def vacuum_plan_def
  by (rule append_monitors_eq) (simp add: vacuum_encode_eq MSG_SIZE_def)

lemma vacuum_decode_frame:
  "vacuum_decode_data N len st = Inr (r, st') \<Longrightarrow> \<exists>ds. st' = st\<lparr>ct_data := ds\<rparr>"
  by (auto simp: vacuum_decode_data_def Let_def split: if_splits option.splits list.splits)
    (metis controller.surjective controller.update_convs(19))+

lemma vacuum_respond_frame:
  "vacuum_network_respond S N h st = Inr (st', effs) \<Longrightarrow> \<exists>a. st' = st\<lparr>ct_ascproto := a\<rparr>"
  by (auto simp: vacuum_network_respond_def and_then_Inr_iff)

lemma vacuum_respond_quiet:
  "vacuum_respond_from S N h gid p ds a = Inr (a', effs) \<Longrightarrow> list_all off_port effs"
  by (induction ds arbitrary: p a a' effs) (auto simp: Let_def and_then_Inr_iff case_prod_beta)

interpretation vacuum: controller_contract "vacuum_methods S N" vacuum_plan
proof unfold_locales
  show "sendable d" if "d \<in> set (vacuum_plan idd)" for d idd
    using that by (auto simp: vacuum_plan_def sendable_def vacuum_encode_eq MSG_SIZE_def)
  show "\<exists>ds. vm_check_data (vacuum_methods S N) n st = st\<lparr>ct_data := ds\<rparr>"
    for n and st :: "('b, vacuum_data) controller"
    by (auto simp: vacuum_methods_def vacuum_check_data_def intro: exI [of _ "ct_data st"])
qed (auto simp: vacuum_methods_def vacuum_generate_eq vacuum_plan_def VACUUM_MONITOR_def
    vacuum_write_log_def vacuum_log_line_def list_all_iff vacuum_upload_database_def
    vacuum_network_respond_def and_then_Inr_iff
    dest: vacuum_decode_frame vacuum_respond_quiet [unfolded list_all_iff])

section \<open>Replies\<close>

text \<open>
  The layout that \<open>decode_data\<close> assumes of a reply, up to the carriage return: two digits of the
  device number, four characters it does not look at, the payload in hexadecimal digits, and two or
  three characters at the end.
\<close>

definition vacuum_reply :: "byte \<Rightarrow> bytes \<Rightarrow> bytes \<Rightarrow> bytes \<Rightarrow> bytes" where
  "vacuum_reply idd mid v trail = hex_byte idd @ mid @ concat (map hex_byte v) @ trail"

definition reply_layout :: "bytes \<Rightarrow> bytes \<Rightarrow> bytes \<Rightarrow> bool" where
  "reply_layout mid v trail \<longleftrightarrow> length mid = 4 \<and> v \<noteq> [] \<and>
     (length trail = 3 \<or> length trail = 2 \<and> 2 \<le> length v) \<and> 0x0D \<notin> set mid \<and> 0x0D \<notin> set trail"

lemma reply_no_cr: "reply_layout mid v trail \<Longrightarrow> 0x0D \<notin> set (vacuum_reply idd mid v trail)"
  using set_hex_byte [of "0x0D"] by (force simp: vacuum_reply_def reply_layout_def)

lemma length_vacuum_reply:
  "reply_layout mid v trail \<Longrightarrow> length (vacuum_reply idd mid v trail) = 6 + 2 * length v + length trail"
  by (simp add: vacuum_reply_def reply_layout_def)

lemma vacuum_one_frame:
  assumes "reply_layout mid v trail"
  shows "one_frame [] [0x0D] (vacuum_reply idd mid v trail @ [0x0D] @ rest) []
    (vacuum_reply idd mid v trail) rest"
proof -
  let ?r = "vacuum_reply idd mid v trail"
  have "\<not> occurs_at [0x0D] (?r @ [0x0D] @ rest) q" if "q < length ?r" for q
    using that reply_no_cr [OF assms, of idd] occurs_at_hd [of "0x0D" "[]" "?r @ [0x0D] @ rest" q]
    by (auto simp: nth_append) (metis nth_mem)
  then show ?thesis
    by (simp add: one_frame_def list_all_iff vacuum_reply_def hex_byte_def)
qed

lemma vacuum_fields:
  assumes "reply_layout mid v trail" and f: "f = vacuum_reply idd mid v trail @ [0x0D] @ junk"
  defines "n \<equiv> int (length (vacuum_reply idd mid v trail) + 1)"
  shows "decode_uint8 (f ! 0) (f ! 1) = idd" and "decode_pairs f 6 (n - 5) = v" and "\<not> n < 12"
proof -
  show "decode_uint8 (f ! 0) (f ! 1) = idd"
    by (simp add: f vacuum_reply_def hex_byte_def decode_uint8_hex_digits)
  show "\<not> n < 12"
    using assms(1) unfolding n_def length_vacuum_reply [OF assms(1)]
    by (cases v) (auto simp: reply_layout_def)
  have mid: "length (hex_byte idd @ mid) = 6"
    using assms(1) by (simp add: reply_layout_def)
  have "slice 6 (2 * length v) f = concat (map hex_byte v)"
    using slice_mid [of "hex_byte idd @ mid" "concat (map hex_byte v)" "trail @ [0x0D] @ junk"]
    unfolding mid by (simp add: f vacuum_reply_def)
  moreover have "n - 5 = 6 + 2 * int (length v) - 1 \<or> n - 5 = 6 + 2 * int (length v) - 2 \<and> v \<noteq> []"
    using assms(1) unfolding n_def length_vacuum_reply [OF assms(1)] by (auto simp: reply_layout_def)
  ultimately show "decode_pairs f 6 (n - 5) = v"
    using decode_pairs_hex [of 6 v f "n - 5"] length_vacuum_reply [OF assms(1), of idd] by (simp add: f)
qed

lemma vacuum_read_reply:
  assumes "circular_buffer B" and "ct_serial st = Some sp" and "flags_of st [] [0x0D]"
    and "sc_received B sp = vacuum_reply idd mid v trail @ [0x0D] @ rest"
    and "reply_layout mid v trail" and "length (vacuum_reply idd mid v trail) < length (ct_bufrcv st)"
  shows "\<exists>c buf. cb_list B c = rest \<and>
    cb_serial_read B (vacuum_methods S N) 0 st =
      (case ct_drct st of [] \<Rightarrow> Inl Empty_container
       | one # _ \<Rightarrow> Inr (st\<lparr>ct_serial := Some (sp\<lparr>sc_crcrcv := c\<rparr>), ct_bufrcv := buf,
           ct_data := (case find_vacuum idd (ct_data st) 0 of None \<Rightarrow> ct_data st
             | Some i \<Rightarrow> (ct_data st)[i := vacuum_store N (dr_idf one) (string_of v) (ct_data st ! i)])\<rparr>,
           [Notify]))"
proof -
  let ?r = "vacuum_reply idd mid v trail"
  have frame: "one_frame [] [0x0D] (sc_received B sp) [] ?r rest"
    using vacuum_one_frame [OF assms(5)] assms(4) by simp
  obtain c where c: "cb_list B c = rest" and eq: "cb_serial_read B (vacuum_methods S N) 0 st =
      and_then (vacuum_decode_data N (int (length ?r + 1))
        (st\<lparr>ct_serial := Some (sp\<lparr>sc_crcrcv := c\<rparr>),
            ct_bufrcv := ?r @ [0x0D] @ drop (length ?r + 1) (ct_bufrcv st)\<rparr>))
      (\<lambda>(r, st'). Inr (st', if r = 0 then [Notify] else []))"
    using circular_buffer.serial_read_frame [OF assms(1-3) frame, of "vacuum_methods S N"] assms(6)
    by (auto simp: vacuum_methods_def)
  note fields = vacuum_fields(1,2) [OF assms(5) refl, of idd "drop (length ?r + 1) (ct_bufrcv st)"]
    vacuum_fields(3) [OF assms(5) refl, of idd]
  show ?thesis
    using fields c unfolding eq vacuum_decode_data_def Let_def
    by (intro exI [of _ c]) (auto split: list.splits option.splits)
qed

section \<open>Properties\<close>

text \<open>
  C4. A reply of the ion pump controller is recorded. Everything up to the first carriage return is cut
  out of the buffer; the payload goes, as a number or as the pressure text, to the reading asked for by
  the directive in front of the list, in the slot of the device the reply names, and the responding
  thread is woken.
\<close>

theorem vacuum_reply_recorded:
  assumes "circular_buffer B" and "ct_serial st = Some sp" and "flags_of st [] [0x0D]"
    and "sc_received B sp = vacuum_reply idd mid v trail @ [0x0D] @ rest"
    and "reply_layout mid v trail" and "length (vacuum_reply idd mid v trail) < length (ct_bufrcv st)"
    and "ct_drct st = one # later" and "find_vacuum idd (ct_data st) 0 = Some i"
  shows "\<exists>c buf. cb_list B c = rest \<and>
    cb_serial_read B (vacuum_methods S N) 0 st =
      Inr (st\<lparr>ct_serial := Some (sp\<lparr>sc_crcrcv := c\<rparr>), ct_bufrcv := buf,
              ct_data := (ct_data st)[i := vacuum_store N (dr_idf one) (string_of v) (ct_data st ! i)]\<rparr>,
           [Notify])"
  using vacuum_read_reply [OF assms(1-6), of S N] assms(7,8) by simp

definition sample_vacuum_ctl :: "directive list \<Rightarrow> (ring, vacuum_data) controller" where
  "sample_vacuum_ctl ds = (make_vacuum (replicate 512 0) (replicate 10240 NUL))
     \<lparr>ct_serial := Some (sample_port\<lparr>sc_crcrcv := (5120,
        vacuum_reply 1 [32, 79, 75, 32] [0x31, 0x32] [32, 65, 66] @ [13] @ [9])\<rparr>),
      ct_allDev := [1], ct_drct := ds, ct_data := [zero_vacuum_data\<lparr>vd_idd := 1\<rparr>]\<rparr>"

lemmas sample_vacuum_simps = sample_vacuum_ctl_def make_vacuum_def new_controller_def sample_port_def
  zero_vacuum_data_def

lemma sample_vacuum_layout: "reply_layout [32, 79, 75, 32] [0x31, 0x32] [32, 65, 66]"
  by (simp add: reply_layout_def)

lemma sample_vacuum_facts:
  "flags_of (sample_vacuum_ctl ds) [] [0x0D]"
  "ct_serial (sample_vacuum_ctl ds) = Some (the (ct_serial (sample_vacuum_ctl ds)))"
  "sc_received ring_ops (the (ct_serial (sample_vacuum_ctl ds))) =
     vacuum_reply 1 [32, 79, 75, 32] [0x31, 0x32] [32, 65, 66] @ [0x0D] @ [9]"
  "length (vacuum_reply 1 [32, 79, 75, 32] [0x31, 0x32] [32, 65, 66]) < length (ct_bufrcv (sample_vacuum_ctl ds))"
  "find_vacuum 1 (ct_data (sample_vacuum_ctl ds)) 0 = Some 0"
  "ct_drct (sample_vacuum_ctl ds) = ds"
  by (simp_all add: sample_vacuum_simps flags_of_def SERIAL_BUFF_SIZE_def
      length_vacuum_reply [OF sample_vacuum_layout])

theorem vacuum_reply_recorded_witness:
  "\<exists>st'. cb_serial_read ring_ops (vacuum_methods boost_ref toy_conv) 0
       (sample_vacuum_ctl [\<lparr>dr_idf = VFID_READ_PRES, dr_len = 11, dr_msg = []\<rparr>]) = Inr (st', [Notify]) \<and>
     map vd_pres (ct_data st') = [''12'']"
proof -
  let ?one = "\<lparr>dr_idf = VFID_READ_PRES, dr_len = 11, dr_msg = []\<rparr>"
  have "string_of [0x31, 0x32] = ''12''"
    by code_simp
  then have "vacuum_store toy_conv (dr_idf ?one) (string_of [0x31, 0x32]) (ct_data (sample_vacuum_ctl [?one]) ! 0)
      = \<lparr>vd_dirty = True, vd_idd = 1, vd_cur = 0, vd_pres = ''12'', vd_vol = 0\<rparr>"
    by (simp add: sample_vacuum_simps vacuum_store_def vacuum_setters vacuum_function_ids)
  moreover have "length (ct_data (sample_vacuum_ctl [?one])) = Suc 0"
    by (simp add: sample_vacuum_simps)
  ultimately show ?thesis
    using vacuum_reply_recorded [OF ring.circular_buffer_axioms sample_vacuum_facts(2,1,3)
        sample_vacuum_layout sample_vacuum_facts(4) sample_vacuum_facts(6,5), of boost_ref toy_conv]
    by (fastforce simp: length_Suc_conv)
qed

text \<open>
  A reply that no directive is waiting for makes \<open>decode_data\<close> read the front of an empty list:
  whenever a complete reply arrives while the list is empty, the behaviour is undefined.
\<close>

theorem vacuum_unsolicited_reply_undefined:
  assumes "circular_buffer B" and "ct_serial st = Some sp" and "flags_of st [] [0x0D]"
    and "sc_received B sp = vacuum_reply idd mid v trail @ [0x0D] @ rest"
    and "reply_layout mid v trail" and "length (vacuum_reply idd mid v trail) < length (ct_bufrcv st)"
    and "ct_drct st = []"
  shows "cb_serial_read B (vacuum_methods S N) 0 st = Inl Empty_container"
  using vacuum_read_reply [OF assms(1-6), of S N] assms(7) by simp

theorem vacuum_unsolicited_reply_undefined_witness:
  "cb_serial_read ring_ops (vacuum_methods boost_ref toy_conv) 0 (sample_vacuum_ctl []) = Inl Empty_container"
  by (rule vacuum_unsolicited_reply_undefined [OF ring.circular_buffer_axioms sample_vacuum_facts(2,1,3)
        sample_vacuum_layout sample_vacuum_facts(4,6)])

text \<open>
  Every request to the ion pump controller is the 11 bytes of a frame with the device and the
  function in hexadecimal digits, closed by two digits of the sum of all bytes after the tilde and a
  carriage return; a parameter never reaches the wire.
\<close>

theorem vacuum_request_wellformed:
  "\<exists>c1 c2. vacuum_encode_data idd idf value n =
     (11, 0x7E # (0x20 # hex_byte idd @ 0x20 # hex_byte idf @ [0x20]) @ [c1, c2, 0x0D, 0]) \<and>
   decode_uint8 c1 c2 = sum_list (0x20 # hex_byte idd @ 0x20 # hex_byte idf @ [0x20]) \<and>
   c1 \<noteq> 0x0D \<and> c2 \<noteq> 0x0D"
  using hex_digit_ne_separators [OF byte_div_16_less, of "vacuum_sum idd idf"]
    hex_digit_ne_separators [OF byte_mod_16_less, of "vacuum_sum idd idf"]
  by (intro exI [of _ "hex_digit (vacuum_sum idd idf div 16)"] exI [of _ "hex_digit (vacuum_sum idd idf mod 16)"])
    (simp add: vacuum_encode_eq hex_byte_def decode_uint8_hex_digits vacuum_sum_def)

end
