(* ===== verification/ControllerRun.thy ===== *)
theory ControllerRun
  imports CoolerCtl VacuumCtl
begin

text \<open>
  A running controller: the object of ControllerBase with its serial port, the three threads and the
  completions of boost::asio as a machine that reacts to events. One event is one completion handler
  with the slot it calls, or one round of a thread; the mutexes are not modelled, so an event is atomic.
  The condition variable keeps no memory: a notification sets \<open>sy_woken\<close>, and a further one before the
  responding thread has run is lost. The lemmas of \<open>polled_controller\<close> follow one polling round
  through requests, replies and responses for any derived class; the properties instantiate them.
\<close>

section \<open>The machine\<close>

record ('b, 'd) sys =
  sy_ctl :: "('b, 'd) controller"
  sy_reading :: bool          \<comment> \<open>an \<open>async_read_some\<close> is outstanding\<close>
  sy_woken :: bool            \<comment> \<open>the responding thread has been notified\<close>
  sy_alive :: bool            \<comment> \<open>the heartbeat thread has not ended\<close>
  sy_out :: "ctl_effect list" \<comment> \<open>everything that has been requested of the outside\<close>

datatype sys_event =
    Cycle                     \<comment> \<open>a round of \<open>thread_cycle\<close>\<close>
  | Bytes bytes               \<comment> \<open>the outstanding read completes with these bytes\<close>
  | Receive_error error_code
  | Sent nat                  \<comment> \<open>a write completes after so many bytes\<close>
  | Send_error error_code
  | Respond env               \<comment> \<open>a round of \<open>thread_respond\<close> after its wait\<close>
  | Heartbeat env             \<comment> \<open>a round of \<open>thread_heartbeat\<close> after its sleep\<close>

fun is_read_request :: "ctl_effect \<Rightarrow> bool" where
  "is_read_request (Ser (Async_read n)) = True"
| "is_read_request e = False"

definition sys_emit :: "ctl_effect list \<Rightarrow> ('b, 'd) sys \<Rightarrow> ('b, 'd) sys" where
  "sys_emit effs s = s\<lparr>sy_out := sy_out s @ effs, sy_woken := sy_woken s \<or> Notify \<in> set effs,
     sy_reading := sy_reading s \<or> list_ex is_read_request effs\<rparr>"

lemma sys_emit_Nil: "sys_emit [] s = s"
  by (cases s) (simp add: sys_emit_def)

text \<open>The slot that the controller connects to a signal of its port, run inside the port's handler.\<close>

definition on_serial ::
  "(int \<Rightarrow> ('b, 'd) controller \<Rightarrow> (('b, 'd) controller \<times> ctl_effect list) outcome) \<Rightarrow> int
     \<Rightarrow> 'b serial_comm \<times> (('b, 'd) controller \<times> ctl_effect list) outcome
     \<Rightarrow> 'b serial_comm \<times> (('b, 'd) controller \<times> ctl_effect list) outcome" where
  "on_serial f ec pr =
     (case and_then (snd pr) (\<lambda>(ct, es).
             and_then (f ec (ct\<lparr>ct_serial := Some (fst pr)\<rparr>)) (\<lambda>(ct', es'). Inr (ct', es @ es'))) of
        Inl u \<Rightarrow> (fst pr, Inl u)
      | Inr (ct', es) \<Rightarrow> (case ct_serial ct' of Some sp \<Rightarrow> sp | None \<Rightarrow> fst pr, Inr (ct', es)))"

definition sys_port ::
  "('b serial_comm \<times> (('b, 'd) controller \<times> ctl_effect list) outcome
      \<Rightarrow> ('b serial_comm \<times> (('b, 'd) controller \<times> ctl_effect list) outcome) \<times> serial_effect list)
     \<Rightarrow> ('b, 'd) sys \<Rightarrow> ('b, 'd) sys outcome" where
  "sys_port h s =
     (case ct_serial (sy_ctl s) of
        None \<Rightarrow> Inr s
      | Some sp \<Rightarrow>
          (case h (sp, Inr (sy_ctl s, [])) of
             ((sp', r), effs) \<Rightarrow>
               and_then r (\<lambda>(ct, es).
                 Inr (sys_emit (es @ map Ser effs) (s\<lparr>sy_ctl := ct\<lparr>ct_serial := Some sp'\<rparr>\<rparr>)))))"

definition read_slot ::
  "'b cb_ops \<Rightarrow> ('b, 'd) methods \<Rightarrow> int
     \<Rightarrow> 'b serial_comm \<times> (('b, 'd) controller \<times> ctl_effect list) outcome
     \<Rightarrow> 'b serial_comm \<times> (('b, 'd) controller \<times> ctl_effect list) outcome" where
  "read_slot B M = on_serial (cb_serial_read B M)"

definition write_slot ::
  "int \<Rightarrow> 'b serial_comm \<times> (('b, 'd) controller \<times> ctl_effect list) outcome
     \<Rightarrow> 'b serial_comm \<times> (('b, 'd) controller \<times> ctl_effect list) outcome" where
  "write_slot = on_serial (\<lambda>ec ct. Inr (ct, cb_serial_write ec ct))"

text \<open>The operating system stores the received bytes at the start of \<open>bufrcv_\<close>.\<close>

definition os_fill :: "bytes \<Rightarrow> 'b serial_comm \<Rightarrow> 'b serial_comm" where
  "os_fill d sp = sp\<lparr>sc_bufrcv := d @ drop (length d) (sc_bufrcv sp)\<rparr>"

fun sys_step :: "'b cb_ops \<Rightarrow> ('b, 'd) methods \<Rightarrow> sys_event \<Rightarrow> ('b, 'd) sys \<Rightarrow> ('b, 'd) sys outcome" where
  "sys_step B M Cycle s =
     and_then (cycle_body B M (sy_ctl s)) (\<lambda>(ct, es). Inr (sys_emit es (s\<lparr>sy_ctl := ct\<rparr>)))"
| "sys_step B M (Bytes d) s =
     (if sy_reading s
      then sys_port (\<lambda>(sp, r). sc_handle_read B (read_slot B M) (os_fill d sp, r) (0, '''') (length d))
             (s\<lparr>sy_reading := False\<rparr>)
      else Inr s)"
| "sys_step B M (Receive_error ec) s =
     (if sy_reading s
      then sys_port (\<lambda>pr. sc_handle_read B (read_slot B M) pr ec 0) (s\<lparr>sy_reading := False\<rparr>)
      else Inr s)"
| "sys_step B M (Sent n) s = sys_port (\<lambda>pr. sc_handle_write B write_slot pr (0, '''') n) s"
| "sys_step B M (Send_error ec) s = sys_port (\<lambda>pr. sc_handle_write B write_slot pr ec 0) s"
| "sys_step B M (Respond e) s =
     (if sy_woken s
      then and_then (respond_body B M e (sy_ctl s))
             (\<lambda>(ct, es). Inr (sys_emit es (s\<lparr>sy_ctl := ct, sy_woken := False\<rparr>)))
      else Inr s)"
| "sys_step B M (Heartbeat e) s =
     (if sy_alive s
      then case heartbeat_body e (sy_ctl s) of
             (goes_on, es) \<Rightarrow> Inr (sys_emit es (s\<lparr>sy_alive := goes_on\<rparr>))
      else Inr s)"

fun sys_run :: "'b cb_ops \<Rightarrow> ('b, 'd) methods \<Rightarrow> sys_event list \<Rightarrow> ('b, 'd) sys \<Rightarrow> ('b, 'd) sys outcome" where
  "sys_run B M [] s = Inr s"
| "sys_run B M (e # es) s = and_then (sys_step B M e s) (sys_run B M es)"

lemma sys_run_append:
  "sys_run B M (xs @ ys) s = and_then (sys_run B M xs s) (sys_run B M ys)"
proof (induction xs arbitrary: s)
  case Nil
  then show ?case by simp
next
  case (Cons x xs)
  then have "sys_run B M (xs @ ys) = (\<lambda>s. and_then (sys_run B M xs s) (sys_run B M ys))"
    by (intro ext)
  then show ?case by (simp add: and_then_assoc)
qed

text \<open>The byte sequences handed to the port for transmission, in order.\<close>

fun sent_msgs :: "ctl_effect list \<Rightarrow> bytes list" where
  "sent_msgs [] = []"
| "sent_msgs (Ser (Async_write d) # es) = d # sent_msgs es"
| "sent_msgs (e # es) = sent_msgs es"

lemma sent_msgs_append [simp]: "sent_msgs (xs @ ys) = sent_msgs xs @ sent_msgs ys"
  by (induction xs rule: sent_msgs.induct) auto

text \<open>A system right after \<open>Start\<close>, or between two polling rounds.\<close>

definition port_ready :: "'b cb_ops \<Rightarrow> ('b, 'd) sys \<Rightarrow> 'b serial_comm \<Rightarrow> bytes \<Rightarrow> bool" where
  "port_ready B s sp queued \<longleftrightarrow> ct_serial (sy_ctl s) = Some sp \<and> sc_is_open sp \<and> sc_cbrcv sp \<and> sc_cbsnd sp \<and>
     sc_received B sp = [] \<and> cb_list B (sc_crcsnd sp) = queued \<and>
     cb_capacity B (sc_crcsnd sp) = SERIAL_BUFF_SIZE * 10 \<and>
     cb_capacity B (sc_crcrcv sp) = SERIAL_BUFF_SIZE * 10 \<and> sy_reading s"

text \<open>The part of a directive that is handed to the port.\<close>

definition wire_msg :: "directive \<Rightarrow> bytes" where
  "wire_msg d = take (nat (dr_len d)) (dr_msg d)"

context circular_buffer
begin

text \<open>Sending a directive into an empty transmit buffer.\<close>

lemma port_send:
  assumes "port_ready B s sp []" and "sendable d"
  shows "\<exists>sp'. sc_Write B sp (Some (dr_msg d)) (dr_len d) = (dr_len d, sp', [Async_write (wire_msg d)]) \<and>
    (\<forall>s'. ct_serial (sy_ctl s') = Some sp' \<longrightarrow> sy_reading s' \<longrightarrow> port_ready B s' sp' (wire_msg d))"
proof -
  let ?b = "sc_crcsnd sp"
  have len: "0 < dr_len d" "dr_len d \<le> int (length (dr_msg d))" "length (dr_msg d) \<le> 30"
    using assms(2) by (auto simp: sendable_def MSG_SIZE_def)
  have empty: "cb_size B ?b = 0" and cap: "cb_capacity B ?b = 5120"
    using assms(1) by (auto simp: port_ready_def SERIAL_BUFF_SIZE_def empty_iff)
  have n: "min (int SERIAL_BUFF_SIZE * 10) (dr_len d) = dr_len d"
    using len by (simp add: SERIAL_BUFF_SIZE_def)
  let ?sp' = "sp\<lparr>sc_crcsnd := cb_push_all B ?b (wire_msg d)\<rparr>"
  have list: "cb_list B (cb_push_all B ?b (wire_msg d)) = wire_msg d"
    using assms(1) cap len by (subst list_push_all_fits) (auto simp: empty wire_msg_def port_ready_def)
  moreover have "wire_msg d \<noteq> []"
    using len by (auto simp: wire_msg_def)
  ultimately have size: "cb_size B (cb_push_all B ?b (wire_msg d)) \<noteq> 0"
    by (simp add: size_eq_length del: length_cb_list)
  have "sc_Write B sp (Some (dr_msg d)) (dr_len d) = (dr_len d, ?sp', sc_start_write B ?sp')"
    using assms(1) len unfolding sc_Write_def Let_def wire_msg_def empty
    by (simp add: port_ready_def n)
  then have "sc_Write B sp (Some (dr_msg d)) (dr_len d) = (dr_len d, ?sp', [Async_write (wire_msg d)])"
    using size list by (simp add: sc_start_write_def)
  then show ?thesis
    using assms(1) list by (intro exI [of _ ?sp']) (auto simp: port_ready_def capacity_push_all)
qed

end

section \<open>One event at a time\<close>

text \<open>
  What an event leaves of the system: the port (with \<open>queued\<close> bytes waiting), the directives, and the
  members that only configuration changes.
\<close>

definition after_event ::
  "'b cb_ops \<Rightarrow> ('b, 'd) sys \<Rightarrow> bytes \<Rightarrow> directive list \<Rightarrow> ctl_effect list \<Rightarrow> ('b, 'd) sys \<Rightarrow> bool" where
  "after_event B s queued ds effs s' \<longleftrightarrow>
     (\<exists>sp'. port_ready B s' sp' queued) \<and> ct_drct (sy_ctl s') = ds \<and>
     sy_out s' = sy_out s @ effs \<and> sy_alive s' = sy_alive s \<and>
     length (ct_bufrcv (sy_ctl s')) = length (ct_bufrcv (sy_ctl s)) \<and>
     ct_head (sy_ctl s') = ct_head (sy_ctl s) \<and> ct_tail (sy_ctl s') = ct_tail (sy_ctl s) \<and>
     ct_nhead (sy_ctl s') = ct_nhead (sy_ctl s) \<and> ct_ntail (sy_ctl s') = ct_ntail (sy_ctl s) \<and>
     ct_allDev (sy_ctl s') = ct_allDev (sy_ctl s)"

text \<open>
  A chunk of input that is one whole frame, which the virtual \<open>decode_data\<close> accepts; \<open>pending\<close> says
  whether it does so only while a directive is pending.
\<close>

definition good_reply :: "bool \<Rightarrow> ('b, 'd) methods \<Rightarrow> bytes \<Rightarrow> bytes \<Rightarrow> bytes \<Rightarrow> bool" where
  "good_reply pending M hd_flag tail r \<longleftrightarrow> length r \<le> SERIAL_BUFF_SIZE \<and>
     (\<exists>body. one_frame hd_flag tail r [] body []) \<and>
     (\<forall>ct. (pending \<longrightarrow> ct_drct ct \<noteq> []) \<longrightarrow> take (length r) (ct_bufrcv ct) = r \<longrightarrow>
        (\<exists>ct'. vm_decode_data M (int (length r)) ct = Inr (0, ct')))"

context circular_buffer
begin

text \<open>The completion of a write of the whole queue.\<close>

lemma sent_step:
  assumes "port_ready B s sp queued" and "ct_drct (sy_ctl s) = ds"
  shows "\<exists>s'. sys_step B M (Sent (length queued)) s = Inr s' \<and> after_event B s [] ds [] s' \<and>
    sy_woken s' = sy_woken s \<and> (\<exists>sp'. sy_ctl s' = (sy_ctl s)\<lparr>ct_serial := Some sp'\<rparr>)"
proof -
  let ?sp' = "sp\<lparr>sc_crcsnd := cb_erase_begin B (sc_crcsnd sp) (length queued)\<rparr>"
  have size: "length queued \<le> cb_size B (sc_crcsnd sp)" and q: "cb_list B (sc_crcsnd sp) = queued"
    using assms(1) by (auto simp: port_ready_def)
  have list: "cb_list B (cb_erase_begin B (sc_crcsnd sp) (length queued)) = []"
    using list_erase_begin [OF size] q by simp
  then have zero: "cb_size B (cb_erase_begin B (sc_crcsnd sp) (length queued)) = 0"
    by (simp add: empty_iff)
  let ?s' = "s\<lparr>sy_ctl := (sy_ctl s)\<lparr>ct_serial := Some ?sp'\<rparr>\<rparr>"
  have "sys_step B M (Sent (length queued)) s = Inr ?s'"
    using assms(1) by (simp add: sys_port_def sc_handle_write_def write_slot_def on_serial_def
        cb_serial_write_def port_ready_def sys_emit_Nil sc_start_write_def zero Let_def)
  moreover have "port_ready B ?s' ?sp' []"
    using assms(1) size list by (simp add: port_ready_def capacity_erase_begin)
  ultimately show ?thesis
    using assms(2) by (intro exI [of _ ?s']) (auto simp: after_event_def)
qed

text \<open>The arrival of a good reply.\<close>

lemma reply_step:
  assumes "port_ready B s sp []" and ds: "ct_drct (sy_ctl s) = ds" "pending \<longrightarrow> ds \<noteq> []"
    and flags: "flags_of (sy_ctl s) hd_flag tail"
    and buf: "length (ct_bufrcv (sy_ctl s)) = SERIAL_BUFF_SIZE"
    and good: "good_reply pending M hd_flag tail r"
    and frame: "\<And>ct n k ct'. vm_decode_data M n ct = Inr (k, ct') \<Longrightarrow> \<exists>ds. ct' = ct\<lparr>ct_data := ds\<rparr>"
  shows "\<exists>s'. sys_step B M (Bytes r) s = Inr s' \<and>
    after_event B s [] ds [Notify, Ser (Async_read SERIAL_BUFF_SIZE)] s' \<and> sy_woken s'"
proof -
  obtain body where body: "one_frame hd_flag tail r [] body []"
    using good by (auto simp: good_reply_def)
  then have r: "r = body @ tail" by (simp add: one_frame_def)
  let ?b = "cb_push_all B (sc_crcrcv sp) r"
  let ?sp1 = "(os_fill r sp)\<lparr>sc_crcrcv := ?b\<rparr>"
  let ?ct = "sy_ctl s"
  let ?ct1 = "?ct\<lparr>ct_serial := Some ?sp1\<rparr>"
  have size: "cb_size B (sc_crcrcv sp) = 0" and cap: "cb_capacity B (sc_crcrcv sp) = SERIAL_BUFF_SIZE * 10"
    and short: "length r \<le> SERIAL_BUFF_SIZE"
    using assms(1) good by (auto simp: port_ready_def empty_iff good_reply_def)
  have rcv: "cb_list B ?b = r"
    using assms(1) size cap short by (subst list_push_all_fits) (auto simp: port_ready_def)
  have "\<exists>c. cb_list B c = [] \<and> cb_capacity B c = cb_capacity B (sc_crcrcv ?sp1) \<and>
    cb_serial_read B M 0 ?ct1 =
    and_then (vm_decode_data M (int (length body + length tail))
        (?ct1\<lparr>ct_serial := Some (?sp1\<lparr>sc_crcrcv := c\<rparr>),
            ct_bufrcv := body @ tail @ drop (length body + length tail) (ct_bufrcv ?ct1)\<rparr>))
      (\<lambda>(k, st'). Inr (st', if k = 0 then [Notify] else []))"
    by (rule serial_read_frame) (use flags body rcv buf short r in \<open>simp_all add: flags_of_def\<close>)
  then obtain c where c: "cb_list B c = []" "cb_capacity B c = SERIAL_BUFF_SIZE * 10"
    and rd: "cb_serial_read B M 0 ?ct1 = and_then (vm_decode_data M (int (length r))
        (?ct\<lparr>ct_serial := Some (?sp1\<lparr>sc_crcrcv := c\<rparr>),
            ct_bufrcv := r @ drop (length r) (ct_bufrcv ?ct)\<rparr>))
      (\<lambda>(k, st'). Inr (st', if k = 0 then [Notify] else []))"
    using cap by (auto simp: capacity_push_all r)
  let ?ct2 = "?ct\<lparr>ct_serial := Some (?sp1\<lparr>sc_crcrcv := c\<rparr>),
            ct_bufrcv := r @ drop (length r) (ct_bufrcv ?ct)\<rparr>"
  have "pending \<longrightarrow> ct_drct ?ct2 \<noteq> []" and "take (length r) (ct_bufrcv ?ct2) = r"
    using ds by simp_all
  then obtain ct' where dec: "vm_decode_data M (int (length r)) ?ct2 = Inr (0, ct')"
    using good unfolding good_reply_def by blast
  then obtain data where ct': "ct' = ?ct2\<lparr>ct_data := data\<rparr>"
    using frame by blast
  let ?s' = "s\<lparr>sy_ctl := ct', sy_reading := True, sy_woken := True,
    sy_out := sy_out s @ [Notify, Ser (Async_read SERIAL_BUFF_SIZE)]\<rparr>"
  have "sys_step B M (Bytes r) s = Inr ?s'"
    using assms(1) rd dec
    by (simp add: sys_port_def sc_handle_read_def Let_def read_slot_def on_serial_def port_ready_def
        os_fill_def ct' sys_emit_def sc_start_read_def)
  moreover have "port_ready B ?s' (?sp1\<lparr>sc_crcrcv := c\<rparr>) []"
    using assms(1) c by (simp add: port_ready_def ct' os_fill_def)
  ultimately show ?thesis
    using ds buf short by (intro exI [of _ ?s']) (auto simp: after_event_def ct')
qed

end

section \<open>A polling round\<close>

lemma after_event_trans:
  "after_event B s q ds e s' \<Longrightarrow> after_event B s' q' ds' e' s'' \<Longrightarrow> after_event B s q' ds' (e @ e') s''"
  by (simp add: after_event_def)

lemma after_event_flags:
  "after_event B s q ds e s' \<Longrightarrow> flags_of (sy_ctl s) h t \<Longrightarrow> flags_of (sy_ctl s') h t"
  by (simp add: after_event_def flags_of_def)

text \<open>One request and its reply, up to the round of the responding thread.\<close>

definition exchange :: "directive \<Rightarrow> bytes \<Rightarrow> env \<Rightarrow> sys_event list" where
  "exchange d r e = [Sent (length (wire_msg d)), Bytes r, Respond e]"

definition exchanges :: "directive list \<Rightarrow> (bytes \<times> env) list \<Rightarrow> sys_event list" where
  "exchanges ds xs = concat (map (\<lambda>(d, r, e). exchange d r e) (zip ds xs))"

lemma exchanges_Nil [simp]: "exchanges ds [] = []"
  by (simp add: exchanges_def)

lemma exchanges_Cons [simp]: "exchanges (d # ds) ((r, e) # xs) = exchange d r e @ exchanges ds xs"
  by (simp add: exchanges_def)

locale polled_controller = controller_contract M plan + circular_buffer B
  for M :: "('b, 'd) methods" and plan :: "byte \<Rightarrow> directive list" and B :: "'b cb_ops"
begin

lemma cycle_step:
  assumes ready: "port_ready B s sp []" and idle: "ct_drct (sy_ctl s) = []"
    and devs: "ct_allDev (sy_ctl s) = dev # devs" and d: "concat (map plan (dev # devs)) = d # rest"
  shows "\<exists>s'. sys_step B M Cycle s = Inr s' \<and>
    after_event B s (wire_msg d) (d # rest) [Ser (Async_write (wire_msg d))] s' \<and> sy_woken s' = sy_woken s"
proof -
  obtain rest' where plan: "plan dev = d # rest'"
    using d plan_nonempty [of dev] by (cases "plan dev") auto
  then have "sendable d"
    using plan_sendable [of d dev] by simp
  then obtain sp' where w: "sc_Write B sp (Some (dr_msg d)) (dr_len d) = (dr_len d, sp', [Async_write (wire_msg d)])"
    and ready': "\<And>s' :: ('b, 'd) sys.
      ct_serial (sy_ctl s') = Some sp' \<Longrightarrow> sy_reading s' \<Longrightarrow> port_ready B s' sp' (wire_msg d)"
    using port_send [OF ready] by blast
  have "ct_serial (sy_ctl s) = Some sp" and "sc_is_open sp"
    using ready by (auto simp: port_ready_def)
  from cycle_polls [OF idle devs this, of B] obtain data where
    "cycle_body B M (sy_ctl s) = Inr ((sy_ctl s)\<lparr>ct_data := data, ct_drct := d # rest,
       ct_serial := Some sp'\<rparr>, [Ser (Async_write (wire_msg d))])"
    using plan w d devs by auto
  then have "sys_step B M Cycle s = Inr (sys_emit [Ser (Async_write (wire_msg d))]
      (s\<lparr>sy_ctl := (sy_ctl s)\<lparr>ct_data := data, ct_drct := d # rest, ct_serial := Some sp'\<rparr>\<rparr>))"
    by simp
  moreover let ?s' = "sys_emit [Ser (Async_write (wire_msg d))] (s\<lparr>sy_ctl := (sy_ctl s)\<lparr>ct_data := data, ct_drct := d # rest,
      ct_serial := Some sp'\<rparr>\<rparr>)"
  have "port_ready B ?s' sp' (wire_msg d)"
    using ready by (intro ready') (simp_all add: sys_emit_def port_ready_def)
  then have "after_event B s (wire_msg d) (d # rest) [Ser (Async_write (wire_msg d))] ?s'"
    by (auto simp: after_event_def sys_emit_def)
  moreover have "sy_woken ?s' = sy_woken s"
    by (simp add: sys_emit_def)
  ultimately show ?thesis by blast
qed

lemma respond_step:
  assumes ready: "port_ready B s sp []" and woken: "sy_woken s"
    and ds: "ct_drct (sy_ctl s) = d0 # d # ds" and send: "sendable d"
  shows "\<exists>s'. sys_step B M (Respond e) s = Inr s' \<and>
    after_event B s (wire_msg d) (d # ds) [Ser (Async_write (wire_msg d))] s' \<and> \<not> sy_woken s' \<and>
    (\<exists>sp'. sy_ctl s' = (sy_ctl s)\<lparr>ct_tmlast := env_local e, ct_drct := d # ds, ct_serial := Some sp'\<rparr>)"
proof -
  obtain sp' where w: "sc_Write B sp (Some (dr_msg d)) (dr_len d) = (dr_len d, sp', [Async_write (wire_msg d)])"
    and ready': "\<And>s' :: ('b, 'd) sys.
      ct_serial (sy_ctl s') = Some sp' \<Longrightarrow> sy_reading s' \<Longrightarrow> port_ready B s' sp' (wire_msg d)"
    using port_send [OF ready send] by blast
  have "ct_serial (sy_ctl s) = Some sp" and "sc_is_open sp"
    using ready by (auto simp: port_ready_def)
  from respond_next [OF ds this, of B e] have "sys_step B M (Respond e) s =
      Inr (sys_emit [Ser (Async_write (wire_msg d))] (s\<lparr>sy_ctl := (sy_ctl s)\<lparr>ct_tmlast := env_local e,
        ct_drct := d # ds, ct_serial := Some sp'\<rparr>, sy_woken := False\<rparr>))"
    using w woken by simp
  moreover let ?s' = "sys_emit [Ser (Async_write (wire_msg d))] (s\<lparr>sy_ctl := (sy_ctl s)\<lparr>ct_tmlast := env_local e, ct_drct := d # ds,
      ct_serial := Some sp'\<rparr>, sy_woken := False\<rparr>)"
  have "port_ready B ?s' sp' (wire_msg d)"
    using ready by (intro ready') (simp_all add: sys_emit_def port_ready_def)
  then have "after_event B s (wire_msg d) (d # ds) [Ser (Async_write (wire_msg d))] ?s'"
    by (auto simp: after_event_def sys_emit_def)
  moreover have "\<not> sy_woken ?s'" and
    "sy_ctl ?s' = (sy_ctl s)\<lparr>ct_tmlast := env_local e, ct_drct := d # ds, ct_serial := Some sp'\<rparr>"
    by (simp_all add: sys_emit_def)
  ultimately show ?thesis by blast
qed

lemma reply_arrives:
  assumes "port_ready B s sp []" and "ct_drct (sy_ctl s) = ds" and "pending \<longrightarrow> ds \<noteq> []"
    and "flags_of (sy_ctl s) h t" and "length (ct_bufrcv (sy_ctl s)) = SERIAL_BUFF_SIZE"
    and "good_reply pending M h t r"
  shows "\<exists>s'. sys_step B M (Bytes r) s = Inr s' \<and>
    after_event B s [] ds [Notify, Ser (Async_read SERIAL_BUFF_SIZE)] s' \<and> sy_woken s'"
  using assms by (rule reply_step) (rule decode_frame)

lemma exchange_run:
  assumes "port_ready B s sp (wire_msg d)" and "ct_drct (sy_ctl s) = d # d' # ds" and "sendable d'"
    and "flags_of (sy_ctl s) h t" and "length (ct_bufrcv (sy_ctl s)) = SERIAL_BUFF_SIZE"
    and "good_reply pending M h t r"
  shows "\<exists>s' effs. sys_run B M (exchange d r e) s = Inr s' \<and>
    after_event B s (wire_msg d') (d' # ds) effs s' \<and> sent_msgs effs = [wire_msg d'] \<and> \<not> sy_woken s'"
proof -
  obtain s1 where s1: "sys_step B M (Sent (length (wire_msg d))) s = Inr s1"
    and a1: "after_event B s [] (d # d' # ds) [] s1"
    using sent_step [OF assms(1,2)] by blast
  obtain sp1 where p1: "port_ready B s1 sp1 []" "ct_drct (sy_ctl s1) = d # d' # ds"
      "length (ct_bufrcv (sy_ctl s1)) = SERIAL_BUFF_SIZE" "flags_of (sy_ctl s1) h t"
    using a1 assms(4,5) after_event_flags [OF a1] by (auto simp: after_event_def)
  obtain s2 where s2: "sys_step B M (Bytes r) s1 = Inr s2" and w2: "sy_woken s2"
    and a2: "after_event B s1 [] (d # d' # ds) [Notify, Ser (Async_read SERIAL_BUFF_SIZE)] s2"
    using reply_arrives [OF p1(1,2) _ p1(4,3) assms(6)] by blast
  obtain sp2 where p2: "port_ready B s2 sp2 []" "ct_drct (sy_ctl s2) = d # d' # ds"
    using a2 by (auto simp: after_event_def)
  obtain s3 where s3: "sys_step B M (Respond e) s2 = Inr s3" and w3: "\<not> sy_woken s3"
    and a3: "after_event B s2 (wire_msg d') (d' # ds) [Ser (Async_write (wire_msg d'))] s3"
    using respond_step [OF p2(1) w2 p2(2) assms(3), of e] by blast
  have "sys_run B M (exchange d r e) s = Inr s3"
    by (simp only: exchange_def sys_run.simps s1 s2 s3 and_then.simps)
  moreover note after_event_trans [OF after_event_trans [OF a1 a2] a3]
  ultimately show ?thesis
    using w3 by (intro exI conjI) (assumption | simp)+
qed

lemma exchanges_run:
  assumes "port_ready B s sp (wire_msg d)" and "ct_drct (sy_ctl s) = d # ds"
    and "list_all sendable ds" and "flags_of (sy_ctl s) h t"
    and "length (ct_bufrcv (sy_ctl s)) = SERIAL_BUFF_SIZE"
    and "length xs \<le> length ds" and "list_all (good_reply pending M h t) (map fst xs)"
  shows "\<exists>s' effs. sys_run B M (exchanges (d # ds) xs) s = Inr s' \<and>
    after_event B s (wire_msg ((d # ds) ! length xs)) (drop (length xs) (d # ds)) effs s' \<and>
    sent_msgs effs = map wire_msg (take (length xs) ds)"
  using assms
proof (induction xs arbitrary: s sp d ds)
  case Nil
  then have "after_event B s (wire_msg d) (d # ds) [] s"
    by (auto simp: after_event_def)
  with Nil show ?case
    by (intro exI [of _ s] exI [of _ "[]"]) simp
next
  case (Cons x ys)
  obtain r e where x: "x = (r, e)" by (cases x)
  obtain d' ds' where ds: "ds = d' # ds'"
    using Cons.prems(6) by (cases ds) auto
  obtain s1 e1 where run1: "sys_run B M (exchange d r e) s = Inr s1"
    and a1: "after_event B s (wire_msg d') (d' # ds') e1 s1" and e1: "sent_msgs e1 = [wire_msg d']"
    using exchange_run [OF Cons.prems(1) Cons.prems(2) [unfolded ds] _ Cons.prems(4,5), of pending r e] Cons.prems(3,7) x ds by auto
  obtain sp1 where "port_ready B s1 sp1 (wire_msg d')" "ct_drct (sy_ctl s1) = d' # ds'"
      "length (ct_bufrcv (sy_ctl s1)) = SERIAL_BUFF_SIZE" "flags_of (sy_ctl s1) h t"
    using a1 Cons.prems(4,5) after_event_flags [OF a1] by (auto simp: after_event_def)
  from Cons.IH [OF this(1,2) _ this(4,3)] obtain s2 e2 where
    run2: "sys_run B M (exchanges (d' # ds') ys) s1 = Inr s2"
    and a2: "after_event B s1 (wire_msg ((d' # ds') ! length ys)) (drop (length ys) (d' # ds')) e2 s2"
    and e2: "sent_msgs e2 = map wire_msg (take (length ys) ds')"
    using Cons.prems(3,6,7) x ds by auto
  have "sys_run B M (exchanges (d # ds) (x # ys)) s = Inr s2"
    using run1 run2 by (simp add: x ds sys_run_append)
  moreover have "sent_msgs (e1 @ e2) = map wire_msg (take (length (x # ys)) ds)"
    using e1 e2 ds by simp
  ultimately show ?case
    using after_event_trans [OF a1 a2] ds by (intro exI [of _ s2] exI [of _ "e1 @ e2"]) simp
qed

lemma drop_to_last: "drop (length ds) (d # ds) = [last (d # ds)]" "(d # ds) ! length ds = last (d # ds)"
  by (induction ds arbitrary: d) simp_all

text \<open>A round up to some reply before the last: the next request has just been submitted.\<close>

lemma poll_prefix:
  assumes ready: "port_ready B s sp []" and idle: "ct_drct (sy_ctl s) = []"
    and devs: "ct_allDev (sy_ctl s) \<noteq> []" and flags: "flags_of (sy_ctl s) h t"
    and buf: "length (ct_bufrcv (sy_ctl s)) = SERIAL_BUFF_SIZE"
    and ds: "ds = concat (map plan (ct_allDev (sy_ctl s)))"
    and len: "length xs < length ds" and good: "list_all (good_reply pending M h t) (map fst xs)"
  shows "\<exists>s' effs. sys_run B M (Cycle # exchanges ds xs) s = Inr s' \<and>
    after_event B s (wire_msg (ds ! length xs)) (drop (length xs) ds) effs s' \<and>
    sent_msgs effs = map wire_msg (take (length xs + 1) ds)"
proof -
  obtain dev devs' where dv: "ct_allDev (sy_ctl s) = dev # devs'"
    using devs by (cases "ct_allDev (sy_ctl s)") auto
  obtain d rest where d: "ds = d # rest"
    using len by (cases ds) auto
  have sendable: "list_all sendable rest"
  proof -
    have "\<forall>x\<in>set ds. sendable x"
      unfolding ds using plan_sendable by auto
    then show ?thesis by (simp add: d list_all_iff)
  qed
  obtain s1 where s1: "sys_step B M Cycle s = Inr s1"
    and a1: "after_event B s (wire_msg d) (d # rest) [Ser (Async_write (wire_msg d))] s1"
    using cycle_step [OF ready idle dv] ds d dv by force
  obtain sp1 where "port_ready B s1 sp1 (wire_msg d)" "ct_drct (sy_ctl s1) = d # rest"
      "length (ct_bufrcv (sy_ctl s1)) = SERIAL_BUFF_SIZE" "flags_of (sy_ctl s1) h t"
    using a1 flags buf after_event_flags [OF a1] by (auto simp: after_event_def)
  from exchanges_run [OF this(1,2) sendable this(4,3), of xs pending] obtain s2 e2 where
    run2: "sys_run B M (exchanges ds xs) s1 = Inr s2"
    and a2: "after_event B s1 (wire_msg (ds ! length xs)) (drop (length xs) ds) e2 s2"
    and e2: "sent_msgs e2 = map wire_msg (take (length xs) rest)"
    using len good d by auto
  have "sys_run B M (Cycle # exchanges ds xs) s = Inr s2"
    by (simp only: sys_run.simps s1 run2 and_then.simps)
  with after_event_trans [OF a1 a2] e2 d show ?thesis
    by (intro exI conjI) (assumption | simp)+
qed

text \<open>
  The last request of a round and its reply: afterwards the responding thread has been woken with one
  directive left to retire.
\<close>

lemma last_exchange:
  assumes ready: "port_ready B s sp (wire_msg d)" and ds: "ct_drct (sy_ctl s) = [d]"
    and flags: "flags_of (sy_ctl s) h t" and buf: "length (ct_bufrcv (sy_ctl s)) = SERIAL_BUFF_SIZE"
    and good: "good_reply pending M h t r"
  shows "\<exists>s'. sys_run B M [Sent (length (wire_msg d)), Bytes r] s = Inr s' \<and>
    after_event B s [] [d] [Notify, Ser (Async_read SERIAL_BUFF_SIZE)] s' \<and> sy_woken s'"
proof -
  obtain s1 where s1: "sys_step B M (Sent (length (wire_msg d))) s = Inr s1"
    and a1: "after_event B s [] [d] [] s1"
    using sent_step [OF ready ds] by blast
  obtain sp1 where "port_ready B s1 sp1 []" "ct_drct (sy_ctl s1) = [d]"
      "length (ct_bufrcv (sy_ctl s1)) = SERIAL_BUFF_SIZE" "flags_of (sy_ctl s1) h t"
    using a1 flags buf after_event_flags [OF a1] by (auto simp: after_event_def)
  from reply_arrives [OF this(1,2) _ this(4,3) good] obtain s2 where
    s2: "sys_step B M (Bytes r) s1 = Inr s2" and woken: "sy_woken s2"
    and a2: "after_event B s1 [] [d] [Notify, Ser (Async_read SERIAL_BUFF_SIZE)] s2"
    by auto
  have "sys_run B M [Sent (length (wire_msg d)), Bytes r] s = Inr s2"
    by (simp only: sys_run.simps s1 s2 and_then.simps)
  with woken after_event_trans [OF a1 a2] show ?thesis by auto
qed

text \<open>
  The whole round: the cycle thread sends the first request, every good reply brings the next one, and
  after the last reply the responding thread has been woken with one directive left to retire.
\<close>

lemma poll_round:
  assumes "port_ready B s sp []" and "ct_drct (sy_ctl s) = []"
    and "ct_allDev (sy_ctl s) \<noteq> []" and flags: "flags_of (sy_ctl s) h t"
    and buf: "length (ct_bufrcv (sy_ctl s)) = SERIAL_BUFF_SIZE"
    and "ds = concat (map plan (ct_allDev (sy_ctl s)))"
    and len: "length xs + 1 = length ds" and good: "list_all (good_reply pending M h t) (r # map fst xs)"
  shows "\<exists>s' effs. sys_run B M (Cycle # exchanges ds xs @ [Sent (length (wire_msg (last ds))), Bytes r]) s = Inr s' \<and>
    after_event B s [] [last ds] effs s' \<and> sent_msgs effs = map wire_msg ds \<and> sy_woken s'"
proof -
  have "ds ! length xs = last ds" and "drop (length xs) ds = [last ds]" and "take (length xs + 1) ds = ds"
    using len drop_to_last [where ds = "tl ds" and d = "hd ds"] by (cases ds; simp)+
  with poll_prefix [OF assms(1-6), of xs pending] len good obtain s1 e1 where
    run1: "sys_run B M (Cycle # exchanges ds xs) s = Inr s1"
    and a1: "after_event B s (wire_msg (last ds)) [last ds] e1 s1" and e1: "sent_msgs e1 = map wire_msg ds"
    by auto
  obtain sp1 where "port_ready B s1 sp1 (wire_msg (last ds))" "ct_drct (sy_ctl s1) = [last ds]"
      "length (ct_bufrcv (sy_ctl s1)) = SERIAL_BUFF_SIZE" "flags_of (sy_ctl s1) h t"
    using a1 flags buf after_event_flags [OF a1] by (auto simp: after_event_def)
  from last_exchange [OF this(1,2) this(4,3), of pending r] good obtain s2 where
    run2: "sys_run B M [Sent (length (wire_msg (last ds))), Bytes r] s1 = Inr s2" and woken: "sy_woken s2"
    and a2: "after_event B s1 [] [last ds] [Notify, Ser (Async_read SERIAL_BUFF_SIZE)] s2"
    by auto
  have "sys_run B M ((Cycle # exchanges ds xs) @ [Sent (length (wire_msg (last ds))), Bytes r]) s = Inr s2"
    by (simp only: sys_run_append run1 run2 and_then.simps)
  with woken e1 after_event_trans [OF a1 a2] show ?thesis
    by (intro exI [of _ s2] exI [of _ "e1 @ [Notify, Ser (Async_read SERIAL_BUFF_SIZE)]"]) simp
qed

text \<open>Retiring the last directive.\<close>

lemma sent_msgs_off_port: "list_all off_port es \<Longrightarrow> sent_msgs es = []"
  by (induction es rule: sent_msgs.induct) auto

lemma last_respond:
  assumes "sys_step B M (Respond e) s = Inr s'" and "sy_woken s" and "ct_drct (sy_ctl s) = [d]"
  shows "ct_drct (sy_ctl s') = [] \<and> sent_msgs (sy_out s') = sent_msgs (sy_out s) \<and>
    ct_serial (sy_ctl s') = ct_serial (sy_ctl s)"
  using assms by (auto simp: and_then_Inr_iff sys_emit_def dest!: respond_last sent_msgs_off_port)

end

section \<open>The derived classes\<close>

lemma polled_cooler: "circular_buffer B \<Longrightarrow> polled_controller (cooler_methods S N ind) cooler_plan B"
  by (intro polled_controller.intro cooler.controller_contract_axioms)

lemma polled_vacuum: "circular_buffer B \<Longrightarrow> polled_controller (vacuum_methods S N) vacuum_plan B"
  by (intro polled_controller.intro vacuum.controller_contract_axioms)

interpretation cooler_ring: polled_controller "cooler_methods S N ind" cooler_plan ring_ops
  by (rule polled_cooler [OF ring.circular_buffer_axioms])

interpretation vacuum_ring: polled_controller "vacuum_methods S N" vacuum_plan ring_ops
  by (rule polled_vacuum [OF ring.circular_buffer_axioms])

definition cooler_reply_ok :: "bytes \<Rightarrow> bool" where
  "cooler_reply_ok r \<longleftrightarrow>
     (\<exists>idd idf s. r = cooler_frame idd idf (bytes_of s) \<and> plain_text s \<and> 9 + 2 * length s \<le> SERIAL_BUFF_SIZE)"

definition vacuum_reply_ok :: "bytes \<Rightarrow> bool" where
  "vacuum_reply_ok r \<longleftrightarrow>
     (\<exists>idd mid v trail. r = vacuum_reply idd mid v trail @ [0x0D] \<and> reply_layout mid v trail \<and>
        length r \<le> SERIAL_BUFF_SIZE)"

lemma cooler_reply_good:
  assumes "cooler_reply_ok r"
  shows "good_reply False (cooler_methods S N ind) [0x3A] [0x0D, 0x0A] r"
proof -
  obtain idd idf s where r: "r = cooler_frame idd idf (bytes_of s)" and s: "plain_text s"
    and len: "9 + 2 * length s \<le> SERIAL_BUFF_SIZE"
    using assms by (auto simp: cooler_reply_ok_def)
  have "one_frame [0x3A] [0x0D, 0x0A] r [] (cooler_front idd idf (bytes_of s)) []"
    using cooler_one_frame [OF plain_bytes [OF s], of "[]" idd idf "[]"] by (simp add: r)
  moreover have "\<exists>ct'. cooler_decode_data N ind (int (length r)) ct = Inr (0, ct')"
    for ct :: "('b, cooler_data) controller"
    by (simp add: cooler_decode_data_def r Let_def split: option.split)
  ultimately show ?thesis
    using len by (auto simp: good_reply_def cooler_methods_def r)
qed

lemma vacuum_reply_good:
  assumes "vacuum_reply_ok r"
  shows "good_reply True (vacuum_methods S N) [] [0x0D] r"
proof -
  obtain idd mid v trail where r: "r = vacuum_reply idd mid v trail @ [0x0D]"
    and layout: "reply_layout mid v trail" and len: "length r \<le> SERIAL_BUFF_SIZE"
    using assms by (auto simp: vacuum_reply_ok_def)
  have "one_frame [] [0x0D] r [] (vacuum_reply idd mid v trail) []"
    using vacuum_one_frame [OF layout, of idd "[]"] by (simp add: r)
  moreover have "\<exists>ct'. vacuum_decode_data N (int (length r)) ct = Inr (0, ct')"
    if "ct_drct ct \<noteq> []" for ct :: "('b, vacuum_data) controller"
    using that vacuum_fields(3) [OF layout refl, of idd]
    by (auto simp: vacuum_decode_data_def r Let_def neq_Nil_conv split: option.split)
  ultimately show ?thesis
    using len by (auto simp: good_reply_def vacuum_methods_def)
qed

section \<open>Silence\<close>

text \<open>The rounds of the three threads, without any event of the port.\<close>

fun thread_round :: "sys_event \<Rightarrow> bool" where
  "thread_round Cycle = True"
| "thread_round (Respond e) = True"
| "thread_round (Heartbeat e) = True"
| "thread_round e = False"

lemma silent_run:
  assumes "list_all thread_round es" and "ct_drct (sy_ctl s) \<noteq> []" and "\<not> sy_woken s"
  shows "\<exists>s' outs. sys_run B M es s = Inr s' \<and> sy_ctl s' = sy_ctl s \<and> \<not> sy_woken s' \<and>
    sy_out s' = sy_out s @ outs \<and> set outs \<subseteq> {To_main 3} \<and>
    (sy_alive s \<longrightarrow> ct_cbrslt (sy_ctl s) \<longrightarrow>
       list_ex (\<lambda>ev. case ev of Heartbeat e \<Rightarrow> 30 \<le> env_local e - ct_tmlast (sy_ctl s) | _ \<Rightarrow> False) es \<longrightarrow>
       outs = [To_main 3]) \<and> (\<not> sy_alive s \<longrightarrow> outs = [])"
  using assms
proof (induction es arbitrary: s)
  case Nil
  then show ?case by simp
next
  case (Cons ev es)
  show ?case
  proof (cases ev)
    case Cycle
    then show ?thesis
      using Cons.IH [of s] Cons.prems by (simp add: cycle_body_def sys_emit_Nil)
  next
    case (Respond e)
    then show ?thesis
      using Cons.IH [of s] Cons.prems by simp
  next
    case (Heartbeat e)
    show ?thesis
    proof (cases "sy_alive s \<and> 30 \<le> env_local e - ct_tmlast (sy_ctl s)")
      case True
      let ?r = "if ct_cbrslt (sy_ctl s) then [To_main 3] else []"
      let ?s1 = "sys_emit ?r (s\<lparr>sy_alive := False\<rparr>)"
      have s1: "sys_step B M ev s = Inr ?s1"
        using True Heartbeat by (simp add: heartbeat_body_def)
      have "ct_drct (sy_ctl ?s1) \<noteq> []" and "\<not> sy_woken ?s1" and dead: "\<not> sy_alive ?s1"
        and same: "sy_ctl ?s1 = sy_ctl s" "sy_out ?s1 = sy_out s @ ?r"
        using Cons.prems by (auto simp: sys_emit_def)
      with Cons.IH [of ?s1] Cons.prems(1) obtain s' where "sys_run B M es ?s1 = Inr s'"
        "sy_ctl s' = sy_ctl s" "\<not> sy_woken s'" "sy_out s' = sy_out s @ ?r"
        by auto
      then show ?thesis
        using s1 True by (intro exI [of _ s'] exI [of _ ?r]) auto
    next
      case False
      then have "sys_step B M ev s = Inr s"
        using Heartbeat by (auto simp: heartbeat_body_def sys_emit_Nil)
      then show ?thesis
        using Cons.IH [of s] Cons.prems Heartbeat False by auto
    qed
  qed (use Cons.prems in simp_all)
qed


section \<open>Properties\<close>

text \<open>The system after \<open>Start\<close>.\<close>

definition started :: "('b, 'd) controller \<Rightarrow> ctl_effect list \<Rightarrow> ('b, 'd) sys" where
  "started st effs = \<lparr>sy_ctl = st, sy_reading = list_ex is_read_request effs, sy_woken = False,
     sy_alive = True, sy_out = effs\<rparr>"

lemma start_ready:
  assumes "circular_buffer B" and "cb_Start B fresh portname baud ec st = (0, st', effs)"
  shows "(\<exists>sp. port_ready B (started st' effs) sp []) \<and> sent_msgs effs = [] \<and>
    ct_portname st' = portname \<and> portname \<noteq> '''' \<and> ct_thrdCycle st' \<and> ct_thrdRespond st' \<and> ct_thrdHB st' \<and>
    ct_drct st' = ct_drct st \<and> ct_allDev st' = ct_allDev st"
  using assms(2) circular_buffer.make_serial_empty [OF assms(1), of fresh]
  by (auto simp: cb_Start_def Let_def sc_Open_def sc_RegisterRead_def sc_RegisterWrite_def
      sc_start_read_def started_def port_ready_def make_serial_def split: if_splits)

text \<open>
  A successful \<open>Start\<close> leaves a controller ready to poll: the port is open with both slots
  registered, empty buffers of 5120 bytes, one read outstanding and nothing to transmit, all three
  threads run, and no directive is pending that was not pending before.
\<close>

theorem start_makes_ready:
  assumes "circular_buffer B" and "cb_Start B fresh portname baud ec st = (0, st', effs)"
  shows "(\<exists>sp. port_ready B (started st' effs) sp []) \<and> sent_msgs effs = [] \<and>
    ct_portname st' = portname \<and> portname \<noteq> '''' \<and> ct_thrdCycle st' \<and> ct_thrdRespond st' \<and> ct_thrdHB st' \<and>
    ct_drct st' = ct_drct st \<and> ct_allDev st' = ct_allDev st"
  using assms by (rule start_ready)

theorem start_makes_ready_witness:
  "\<exists>st' effs sp. cb_Start ring_ops [] ''/dev/ttyS0'' 9600 (0, '''') (sample_cooler_ctl []) = (0, st', effs) \<and>
     port_ready ring_ops (started st' effs) sp [] \<and> ct_allDev st' = [31, 32]"
proof -
  obtain st' effs where st: "cb_Start ring_ops [] ''/dev/ttyS0'' 9600 (0, '''') (sample_cooler_ctl []) = (0, st', effs)"
    by (simp add: cb_Start_def sc_Open_def make_serial_def sc_RegisterRead_def sc_RegisterWrite_def Let_def)
  from start_makes_ready [OF ring.circular_buffer_axioms st] st show ?thesis
    by (auto simp: sample_cooler_simps)
qed

lemma wire_cooler_plan:
  "map wire_msg (cooler_plan idd) = map (\<lambda>idf. cooler_frame idd idf []) COOLER_MONITOR"
  by (simp add: cooler_plan_def wire_msg_def COOLER_MONITOR_def cooler_encode_eq Let_def cooler_frame_def)

lemma length_cooler_plans: "length (concat (map cooler_plan devs)) = 5 * length devs"
  by (induction devs) (simp_all add: cooler_plan_def COOLER_MONITOR_def)

text \<open>
  C1. A polling round of the temperature controllers sends every request and collects every reply. From
  an idle system with at least one device, the cycle thread sends the first of five requests per
  device; while each reply is a well-formed frame, every reply makes the responding thread retire the
  request and send the next one, so that the requests go out one at a time, each once, device by device
  in the order of configuration; after the last reply one directive is left and the responding thread
  has been woken, and its round, if it ends, empties the list without sending anything.
\<close>

theorem cooler_polling_round:
  assumes "circular_buffer B" and "port_ready B s sp []" and "ct_drct (sy_ctl s) = []"
    and "ct_allDev (sy_ctl s) \<noteq> []" and "flags_of (sy_ctl s) [0x3A] [0x0D, 0x0A]"
    and "length (ct_bufrcv (sy_ctl s)) = SERIAL_BUFF_SIZE"
    and "ds = concat (map cooler_plan (ct_allDev (sy_ctl s)))"
    and "length xs + 1 = 5 * length (ct_allDev (sy_ctl s))" and "list_all cooler_reply_ok (r # map fst xs)"
  shows "\<exists>s' effs. sys_run B (cooler_methods S N ind)
      (Cycle # exchanges ds xs @ [Sent (length (wire_msg (last ds))), Bytes r]) s = Inr s' \<and>
    sy_out s' = sy_out s @ effs \<and>
    sent_msgs effs = concat (map (\<lambda>idd. map (\<lambda>idf. cooler_frame idd idf []) COOLER_MONITOR)
      (ct_allDev (sy_ctl s))) \<and>
    ct_drct (sy_ctl s') = [last ds] \<and> sy_woken s' \<and>
    (\<forall>e s''. sys_step B (cooler_methods S N ind) (Respond e) s' = Inr s'' \<longrightarrow>
       ct_drct (sy_ctl s'') = [] \<and> sent_msgs (sy_out s'') = sent_msgs (sy_out s'))"
proof -
  let ?M = "cooler_methods S N ind"
  note polled = polled_cooler [OF assms(1), of S N ind]
  have "list_all (good_reply False ?M [0x3A] [0x0D, 0x0A]) (r # map fst xs)"
    using assms(9) cooler_reply_good by (auto simp: list_all_iff)
  then obtain s' effs where run: "sys_run B ?M (Cycle # exchanges ds xs @ [Sent (length (wire_msg (last ds))), Bytes r]) s = Inr s'"
    and after: "after_event B s [] [last ds] effs s'" and sent: "sent_msgs effs = map wire_msg ds"
    and woken: "sy_woken s'"
    using polled_controller.poll_round [OF polled assms(2-7), of xs False r] assms(8)
    by (auto simp: assms(7) length_cooler_plans)
  have drct: "ct_drct (sy_ctl s') = [last ds]"
    using after by (simp add: after_event_def)
  have "map wire_msg ds = concat (map (\<lambda>idd. map (\<lambda>idf. cooler_frame idd idf []) COOLER_MONITOR)
      (ct_allDev (sy_ctl s)))"
    by (simp add: assms(7) map_concat comp_def wire_cooler_plan)
  moreover have "ct_drct (sy_ctl s'') = [] \<and> sent_msgs (sy_out s'') = sent_msgs (sy_out s')"
    if "sys_step B ?M (Respond e) s' = Inr s''" for e s''
    using polled_controller.last_respond [OF polled that woken drct] by simp
  moreover have "sy_out s' = sy_out s @ effs"
    using after by (simp add: after_event_def)
  ultimately show ?thesis
    using run drct sent woken by (intro exI [of _ s'] exI [of _ effs]) simp
qed

definition sample_env :: env where
  "sample_env = \<lparr>env_local = 100, env_utc = '''', env_tcp_open = (\<lambda>_. False), env_upload = (\<lambda>_. 0)\<rparr>"

definition cooler_sys :: "directive list \<Rightarrow> (ring, cooler_data) sys" where
  "cooler_sys ds = started ((sample_cooler_ctl [])
     \<lparr>ct_serial := Some (sample_port\<lparr>sc_cbsnd := True, sc_crcrcv := (5120, []), sc_crcsnd := (5120, [])\<rparr>),
      ct_allDev := [31], ct_drct := ds, ct_cbrslt := True\<rparr>) [Ser (Async_read 512)]"

lemmas sample_sys_simps = cooler_sys_def started_def sample_cooler_simps

lemma cooler_sys_facts:
  "port_ready ring_ops (cooler_sys ds) (the (ct_serial (sy_ctl (cooler_sys ds)))) []"
  "flags_of (sy_ctl (cooler_sys ds)) [0x3A] [0x0D, 0x0A]"
  "length (ct_bufrcv (sy_ctl (cooler_sys ds))) = SERIAL_BUFF_SIZE"
  "ct_allDev (sy_ctl (cooler_sys ds)) = [31]"
  "ct_drct (sy_ctl (cooler_sys ds)) = ds"
  "sy_out (cooler_sys ds) = [Ser (Async_read 512)]"
  "\<not> sy_woken (cooler_sys ds)" "sy_alive (cooler_sys ds)" "sy_reading (cooler_sys ds)"
  "ct_cbrslt (sy_ctl (cooler_sys ds))" "ct_tmlast (sy_ctl (cooler_sys ds)) = 0"
  by (simp_all add: sample_sys_simps port_ready_def flags_of_def SERIAL_BUFF_SIZE_def)

lemma sample_reply_ok: "cooler_reply_ok (cooler_frame 31 0x22 (bytes_of ''12''))"
proof -
  have "plain_text ''12''" by code_simp
  then show ?thesis
    unfolding cooler_reply_ok_def SERIAL_BUFF_SIZE_def
    by (intro exI [of _ 31] exI [of _ "0x22"] exI [of _ "''12''"]) simp
qed

text \<open>One device; the five replies are the same reading.\<close>

theorem cooler_polling_round_witness:
  "\<exists>s'. sys_run ring_ops (cooler_methods boost_ref toy_conv 0)
      (Cycle # exchanges (cooler_plan 31) (replicate 4 (cooler_frame 31 0x22 (bytes_of ''12''), sample_env))
        @ [Sent (length (wire_msg (last (cooler_plan 31)))), Bytes (cooler_frame 31 0x22 (bytes_of ''12''))])
      (cooler_sys []) = Inr s' \<and>
    sent_msgs (sy_out s') = map (\<lambda>idf. cooler_frame 31 idf []) COOLER_MONITOR"
proof -
  let ?r = "cooler_frame 31 0x22 (bytes_of ''12'')"
  let ?xs = "replicate 4 (?r, sample_env)"
  have plan: "cooler_plan 31 = concat (map cooler_plan (ct_allDev (sy_ctl (cooler_sys []))))"
    and len: "length ?xs + 1 = 5 * length (ct_allDev (sy_ctl (cooler_sys [])))"
    and dev: "ct_allDev (sy_ctl (cooler_sys [])) \<noteq> []"
    by (simp_all add: cooler_sys_facts)
  have "list_all cooler_reply_ok (?r # map fst ?xs)"
    using sample_reply_ok by (simp add: numeral_eq_Suc)
  from cooler_polling_round [OF ring.circular_buffer_axioms cooler_sys_facts(1,5) dev
      cooler_sys_facts(2,3) plan len this, of boost_ref toy_conv 0]
  obtain s' effs where "sys_run ring_ops (cooler_methods boost_ref toy_conv 0)
      (Cycle # exchanges (cooler_plan 31) ?xs @ [Sent (length (wire_msg (last (cooler_plan 31)))), Bytes ?r])
      (cooler_sys []) = Inr s'" "sy_out s' = [Ser (Async_read 512)] @ effs"
    "sent_msgs effs = map (\<lambda>idf. cooler_frame 31 idf []) COOLER_MONITOR"
    unfolding cooler_sys_facts by auto
  then show ?thesis by (intro exI [of _ s']) simp
qed

text \<open>
  C13. A request that is not answered stops the polling, and the heartbeat reports it. While a directive
  is pending and no reply wakes the responding thread, no rounds of the three threads, in any number and
  order, send anything or change the controller; the only thing they can emit is the report 3 to the
  main program, and they do emit it, once, as soon as the heartbeat thread finds that the last
  communication lies 30 seconds or more in the past.
\<close>

theorem unanswered_request_reported:
  assumes "list_all thread_round es" and "ct_drct (sy_ctl s) \<noteq> []" and "\<not> sy_woken s"
    and "sy_alive s" and "ct_cbrslt (sy_ctl s)"
    and "Heartbeat e \<in> set es" and "30 \<le> env_local e - ct_tmlast (sy_ctl s)"
  shows "\<exists>s'. sys_run B M es s = Inr s' \<and> sy_ctl s' = sy_ctl s \<and> sy_out s' = sy_out s @ [To_main 3]"
proof -
  have "list_ex (\<lambda>ev. case ev of Heartbeat e \<Rightarrow> 30 \<le> env_local e - ct_tmlast (sy_ctl s) | _ \<Rightarrow> False) es"
    using assms(6,7) by (auto simp: list_ex_iff intro!: bexI [of _ "Heartbeat e"])
  then show ?thesis
    using silent_run [OF assms(1-3), of B M] assms(4,5) by auto
qed

theorem unanswered_request_reported_witness:
  "\<exists>s'. sys_run ring_ops (cooler_methods boost_ref toy_conv 0) [Cycle, Heartbeat sample_env, Cycle]
      (cooler_sys (cooler_plan 31)) = Inr s' \<and> sy_out s' = [Ser (Async_read 512), To_main 3]"
proof -
  have pending: "ct_drct (sy_ctl (cooler_sys (cooler_plan 31))) \<noteq> []"
    by (simp add: cooler_sys_facts cooler_plan_def COOLER_MONITOR_def)
  have late: "30 \<le> env_local sample_env - ct_tmlast (sy_ctl (cooler_sys (cooler_plan 31)))"
    by (simp add: cooler_sys_facts sample_env_def)
  have "list_all thread_round [Cycle, Heartbeat sample_env, Cycle]" and
    "Heartbeat sample_env \<in> set [Cycle, Heartbeat sample_env, Cycle]"
    by simp_all
  from unanswered_request_reported [OF this(1) pending cooler_sys_facts(7,8,10) this(2) late, of ring_ops
      "cooler_methods boost_ref toy_conv 0"]
  show ?thesis
    unfolding cooler_sys_facts by auto
qed

text \<open>
  A command given to an idle controller is never sent: \<open>Write\<close> only appends to the list, the cycle
  thread polls only when the list is empty, and the responding thread waits for a reply. After \<open>Write\<close>
  on an idle controller no rounds of the threads send anything, and polling stops as well.
\<close>

theorem idle_write_never_sent:
  assumes "ct_drct (sy_ctl s) = []" and "\<not> sy_woken s"
    and "cb_Write_int S M idd idf value (sy_ctl s) = Inr ct" and "list_all thread_round es"
  shows "\<exists>s'. sys_run B M es (s\<lparr>sy_ctl := ct\<rparr>) = Inr s' \<and> sy_ctl s' = ct \<and> length (ct_drct ct) = 1 \<and>
    sent_msgs (sy_out s') = sent_msgs (sy_out s)"
proof -
  have "length (ct_drct ct) = 1"
    using assms(1,3) by (auto simp: cb_Write_int_def and_then_Inr_iff append_directive_def)
  moreover from this have "ct_drct ct \<noteq> []" by auto
  then obtain s' outs where "sys_run B M es (s\<lparr>sy_ctl := ct\<rparr>) = Inr s'" "sy_ctl s' = ct"
    "sy_out s' = sy_out s @ outs" "set outs \<subseteq> {To_main 3}"
    using silent_run [OF assms(4), of "s\<lparr>sy_ctl := ct\<rparr>" B M] assms(2) by force
  moreover have "sent_msgs outs = []" if "set outs \<subseteq> {To_main 3}"
    using that by (induction outs) auto
  ultimately show ?thesis
    by (intro exI [of _ s']) simp
qed

theorem idle_write_never_sent_witness:
  "\<exists>ct s'. cb_Write_int boost_ref (cooler_methods boost_ref toy_conv 0) 31 CFID_WRITE_COOLSET (-80)
       (sy_ctl (cooler_sys [])) = Inr ct \<and>
     sys_run ring_ops (cooler_methods boost_ref toy_conv 0) [Cycle, Cycle] ((cooler_sys [])\<lparr>sy_ctl := ct\<rparr>) = Inr s' \<and>
     length (ct_drct ct) = 1 \<and> sent_msgs (sy_out s') = []"
proof -
  have "length (bs_format_d boost_ref (-80)) = 3" by code_simp
  then obtain ct where ct: "cb_Write_int boost_ref (cooler_methods boost_ref toy_conv 0) 31 CFID_WRITE_COOLSET (-80)
       (sy_ctl (cooler_sys [])) = Inr ct"
    by (simp add: cb_Write_int_def encode_data_int_def new_directive_def Let_def cooler_methods_def
        length_cooler_msg MSG_SIZE_def)
  from idle_write_never_sent [OF cooler_sys_facts(5,7) ct, of "[Cycle, Cycle]" ring_ops] ct show ?thesis
    by (simp add: cooler_sys_facts) blast
qed

lemma idle_reply_undefined:
  assumes "circular_buffer B" and "port_ready B s sp []" and "ct_drct (sy_ctl s) = []"
    and "flags_of (sy_ctl s) [0x3A] [0x0D, 0x0A]"
    and "length (ct_bufrcv (sy_ctl s)) = SERIAL_BUFF_SIZE" and "cooler_reply_ok r"
  shows "sys_run B (cooler_methods S N ind) [Bytes r, Respond e] s = Inl Empty_container"
proof -
  let ?M = "cooler_methods S N ind"
  obtain s1 where s1: "sys_step B ?M (Bytes r) s = Inr s1" and "sy_woken s1"
    and "after_event B s [] [] [Notify, Ser (Async_read SERIAL_BUFF_SIZE)] s1"
    using polled_controller.reply_arrives [OF polled_cooler [OF assms(1)] assms(2,3) _ assms(4,5)
        cooler_reply_good [OF assms(6)]] by blast
  then have "sys_step B ?M (Respond e) s1 = Inl Empty_container"
    using controller_contract.respond_empty [OF cooler.controller_contract_axioms, of "sy_ctl s1"]
    by (simp add: after_event_def)
  then show ?thesis by (simp only: sys_run.simps s1 and_then.simps)
qed

text \<open>
  A well-formed reply that nobody waits for crashes the temperature controller: on an idle system it
  wakes the responding thread, whose round removes the first element of an empty list.
\<close>

theorem cooler_unsolicited_reply_undefined:
  assumes "circular_buffer B" and "port_ready B s sp []" and "ct_drct (sy_ctl s) = []"
    and "flags_of (sy_ctl s) [0x3A] [0x0D, 0x0A]"
    and "length (ct_bufrcv (sy_ctl s)) = SERIAL_BUFF_SIZE" and "cooler_reply_ok r"
  shows "sys_run B (cooler_methods S N ind) [Bytes r, Respond e] s = Inl Empty_container"
  using assms by (rule idle_reply_undefined)

theorem cooler_unsolicited_reply_undefined_witness:
  "sys_run ring_ops (cooler_methods boost_ref toy_conv 0)
     [Bytes (cooler_frame 31 0x22 (bytes_of ''12'')), Respond sample_env] (cooler_sys []) = Inl Empty_container"
  by (rule cooler_unsolicited_reply_undefined [OF ring.circular_buffer_axioms cooler_sys_facts(1,5,2,3)
        sample_reply_ok])

text \<open>Nothing but the handler of a completed read asks for the next read.\<close>

lemma off_port_no_read: "list_all off_port es \<Longrightarrow> \<not> list_ex is_read_request es"
  by (induction es rule: sent_msgs.induct) auto

lemma first_send_no_read: "first_send B st = Inr (st', es) \<Longrightarrow> \<not> list_ex is_read_request es"
  by (auto simp: first_send_def sc_Write_def sc_start_write_def Let_def split: option.splits list.splits if_splits)

lemma sys_port_write_no_read:
  "sys_port (\<lambda>pr. sc_handle_write B write_slot pr ec n) s = Inr s' \<Longrightarrow> sy_reading s' = sy_reading s"
  by (auto simp: sys_port_def sc_handle_write_def write_slot_def on_serial_def cb_serial_write_def Let_def
      sc_start_write_def sys_emit_def split: option.splits if_splits)

lemma sys_port_out: "sys_port h s = Inr s' \<Longrightarrow> set (sy_out s) \<subseteq> set (sy_out s')"
  by (auto simp: sys_port_def sys_emit_def and_then_Inr_iff split: option.splits prod.splits)

context polled_controller
begin

lemma not_reading_step:
  assumes "sys_step B M ev s = Inr s'" and "\<not> sy_reading s"
  shows "\<not> sy_reading s' \<and> set (sy_out s) \<subseteq> set (sy_out s')"
proof (cases ev)
  case Cycle
  obtain ct es where cb: "cycle_body B M (sy_ctl s) = Inr (ct, es)" and s': "s' = sys_emit es (s\<lparr>sy_ctl := ct\<rparr>)"
    using assms(1) Cycle by (auto simp: and_then_Inr_iff)
  then have "\<not> list_ex is_read_request es"
    by (auto simp: cycle_body_def Let_def and_then_Inr_iff dest: first_send_no_read split: if_splits)
  then show ?thesis using assms(2) by (auto simp: s' sys_emit_def)
next
  case (Respond e)
  show ?thesis
  proof (cases "sy_woken s")
    case True
    then obtain ct es where rb: "respond_body B M e (sy_ctl s) = Inr (ct, es)"
      and s': "s' = sys_emit es (s\<lparr>sy_ctl := ct, sy_woken := False\<rparr>)"
      using assms(1) Respond by (auto simp: and_then_Inr_iff)
    have "\<not> list_ex is_read_request es"
    proof (cases "ct_drct (sy_ctl s)")
      case Nil
      then show ?thesis using rb respond_empty [of "sy_ctl s"] by simp
    next
      case (Cons d ds)
      show ?thesis
      proof (cases "ds = []")
        case True
        then show ?thesis using respond_last [OF _ rb] Cons off_port_no_read by simp
      next
        case False
        then show ?thesis using rb Cons
          by (auto simp: respond_body_def remove_directive_def dest: first_send_no_read)
      qed
    qed
    then show ?thesis using assms(2) by (auto simp: s' sys_emit_def)
  next
    case False
    then show ?thesis using assms Respond by simp
  qed
next
  case (Sent n)
  then have "sys_port (\<lambda>pr. sc_handle_write B write_slot pr (0, '''') n) s = Inr s'"
    using assms(1) by simp
  then show ?thesis using sys_port_write_no_read assms(2) sys_port_out by blast
next
  case (Send_error ec)
  then have "sys_port (\<lambda>pr. sc_handle_write B write_slot pr ec 0) s = Inr s'"
    using assms(1) by simp
  then show ?thesis using sys_port_write_no_read assms(2) sys_port_out by blast
next
  case (Heartbeat e)
  then show ?thesis
    using assms by (auto simp: heartbeat_body_def sys_emit_def split: if_splits)
qed (use assms in auto)

lemma not_reading_run:
  "sys_run B M es s = Inr s' \<Longrightarrow> \<not> sy_reading s \<Longrightarrow>
   \<not> sy_reading s' \<and> set (sy_out s) \<subseteq> set (sy_out s')"
proof (induction es arbitrary: s)
  case Nil
  then show ?case by simp
next
  case (Cons e es)
  then obtain s1 where s1: "sys_step B M e s = Inr s1" and run: "sys_run B M es s1 = Inr s'"
    by (auto simp: and_then_Inr_iff)
  from not_reading_step [OF s1 Cons.prems(2)] Cons.IH [OF run] show ?case by blast
qed

end

text \<open>
  C19. An error of a read ends the reception for good: it is reported to the main program with code 1,
  and afterwards no sequence of events makes the port ask for input again, so no byte is received any
  more until the controller is started anew.
\<close>

theorem receive_error_ends_reception:
  assumes "circular_buffer B" and "port_ready B s sp queued" and "fst ec \<noteq> 0" and "ct_cbrslt (sy_ctl s)"
    and "sys_run B (cooler_methods S N ind) (Receive_error ec # es) s = Inr s'"
  shows "To_main 1 \<in> set (sy_out s') \<and>
    sys_step B (cooler_methods S N ind) (Bytes d) s' = Inr s'"
proof -
  let ?M = "cooler_methods S N ind"
  let ?s1 = "sys_emit [To_main 1] (s\<lparr>sy_reading := False,
      sy_ctl := (sy_ctl s)\<lparr>ct_serial := Some (sp\<lparr>sc_errmsg := snd ec\<rparr>)\<rparr>\<rparr>)"
  have "sys_step B ?M (Receive_error ec) s = Inr ?s1"
    using assms(2-4) by (simp add: port_ready_def sys_port_def sc_handle_read_def Let_def read_slot_def
        on_serial_def cb_serial_read_def)
  then have "sys_run B ?M es ?s1 = Inr s'"
    using assms(5) by simp
  from polled_controller.not_reading_run [OF polled_cooler [OF assms(1)] this] show ?thesis
    by (simp add: sys_emit_def)
qed

theorem receive_error_ends_reception_witness:
  "\<exists>s'. sys_run ring_ops (cooler_methods boost_ref toy_conv 0) [Receive_error (5, ''I/O error'')] (cooler_sys []) = Inr s' \<and>
     To_main 1 \<in> set (sy_out s') \<and> sys_step ring_ops (cooler_methods boost_ref toy_conv 0) (Bytes [58]) s' = Inr s'"
proof -
  obtain s' where s': "sys_run ring_ops (cooler_methods boost_ref toy_conv 0)
      [Receive_error (5, ''I/O error'')] (cooler_sys []) = Inr s'"
    by (simp add: sample_sys_simps sys_port_def sc_handle_read_def Let_def read_slot_def
        on_serial_def cb_serial_read_def)
  from receive_error_ends_reception [OF ring.circular_buffer_axioms cooler_sys_facts(1) _ cooler_sys_facts(10) s']
  show ?thesis using s' by auto
qed

lemma wire_vacuum_plan:
  "map wire_msg (vacuum_plan idd) = map (\<lambda>idf. take 11 (snd (vacuum_encode_data idd idf None 0))) VACUUM_MONITOR"
  by (simp add: vacuum_plan_def wire_msg_def VACUUM_MONITOR_def vacuum_encode_eq)

lemma length_vacuum_plans: "length (concat (map vacuum_plan devs)) = 3 * length devs"
  by (induction devs) (simp_all add: vacuum_plan_def VACUUM_MONITOR_def)

text \<open>
  C3. The same for the ion pump controllers: from an idle system a polling round sends three requests
  per device, one at a time and in order, as long as every reply has the layout that the decoder expects,
  and ends with one directive to retire and the responding thread woken.
\<close>

theorem vacuum_polling_round:
  assumes "circular_buffer B" and "port_ready B s sp []" and "ct_drct (sy_ctl s) = []"
    and "ct_allDev (sy_ctl s) \<noteq> []" and "flags_of (sy_ctl s) [] [0x0D]"
    and "length (ct_bufrcv (sy_ctl s)) = SERIAL_BUFF_SIZE"
    and "ds = concat (map vacuum_plan (ct_allDev (sy_ctl s)))"
    and "length xs + 1 = 3 * length (ct_allDev (sy_ctl s))" and "list_all vacuum_reply_ok (r # map fst xs)"
  shows "\<exists>s' effs. sys_run B (vacuum_methods S N)
      (Cycle # exchanges ds xs @ [Sent (length (wire_msg (last ds))), Bytes r]) s = Inr s' \<and>
    sy_out s' = sy_out s @ effs \<and>
    sent_msgs effs = concat (map (\<lambda>idd. map (\<lambda>idf. take 11 (snd (vacuum_encode_data idd idf None 0)))
      VACUUM_MONITOR) (ct_allDev (sy_ctl s))) \<and>
    ct_drct (sy_ctl s') = [last ds] \<and> sy_woken s'"
proof -
  let ?M = "vacuum_methods S N"
  note polled = polled_vacuum [OF assms(1), of S N]
  have "list_all (good_reply True ?M [] [0x0D]) (r # map fst xs)"
    using assms(9) vacuum_reply_good by (auto simp: list_all_iff)
  then obtain s' effs where run: "sys_run B ?M (Cycle # exchanges ds xs @ [Sent (length (wire_msg (last ds))), Bytes r]) s = Inr s'"
    and after: "after_event B s [] [last ds] effs s'" and sent: "sent_msgs effs = map wire_msg ds"
    and woken: "sy_woken s'"
    using polled_controller.poll_round [OF polled assms(2-7), of xs True r] assms(8)
    by (auto simp: assms(7) length_vacuum_plans)
  have "map wire_msg ds = concat (map (\<lambda>idd. map (\<lambda>idf. take 11 (snd (vacuum_encode_data idd idf None 0)))
      VACUUM_MONITOR) (ct_allDev (sy_ctl s)))"
    by (simp add: assms(7) map_concat comp_def wire_vacuum_plan)
  moreover have "ct_drct (sy_ctl s') = [last ds]" and "sy_out s' = sy_out s @ effs"
    using after by (simp_all add: after_event_def)
  ultimately show ?thesis
    using run sent woken by (intro exI [of _ s'] exI [of _ effs]) simp
qed

definition vacuum_sys :: "(ring, vacuum_data) sys" where
  "vacuum_sys = started ((sample_vacuum_ctl [])
     \<lparr>ct_serial := Some (sample_port\<lparr>sc_cbsnd := True, sc_crcrcv := (5120, []), sc_crcsnd := (5120, [])\<rparr>)\<rparr>)
     [Ser (Async_read 512)]"

lemma vacuum_sys_facts:
  "port_ready ring_ops vacuum_sys (the (ct_serial (sy_ctl vacuum_sys))) []"
  "ct_drct (sy_ctl vacuum_sys) = []" "ct_allDev (sy_ctl vacuum_sys) \<noteq> []"
  "flags_of (sy_ctl vacuum_sys) [] [0x0D]"
  "length (ct_bufrcv (sy_ctl vacuum_sys)) = SERIAL_BUFF_SIZE"
  "ct_allDev (sy_ctl vacuum_sys) = [1]" "sy_out vacuum_sys = [Ser (Async_read 512)]"
  by (simp_all add: vacuum_sys_def started_def sample_vacuum_simps port_ready_def flags_of_def SERIAL_BUFF_SIZE_def)

theorem vacuum_polling_round_witness:
  "\<exists>s'. sys_run ring_ops (vacuum_methods boost_ref toy_conv)
      (Cycle # exchanges (vacuum_plan 1)
         (replicate 2 (vacuum_reply 1 [32, 79, 75, 32] [0x31, 0x32] [32, 65, 66] @ [13], sample_env))
        @ [Sent (length (wire_msg (last (vacuum_plan 1)))),
           Bytes (vacuum_reply 1 [32, 79, 75, 32] [0x31, 0x32] [32, 65, 66] @ [13])])
      vacuum_sys = Inr s' \<and> length (sent_msgs (sy_out s')) = 3 \<and> length (ct_drct (sy_ctl s')) = 1"
proof -
  let ?r = "vacuum_reply 1 [32, 79, 75, 32] [0x31, 0x32] [32, 65, 66] @ [13]"
  let ?xs = "replicate 2 (?r, sample_env)"
  have plan: "vacuum_plan 1 = concat (map vacuum_plan (ct_allDev (sy_ctl vacuum_sys)))"
    and len: "length ?xs + 1 = 3 * length (ct_allDev (sy_ctl vacuum_sys))"
    by (simp_all add: vacuum_sys_facts)
  have "vacuum_reply_ok ?r"
    unfolding vacuum_reply_ok_def using sample_vacuum_layout length_vacuum_reply [OF sample_vacuum_layout, of 1]
    by (fastforce simp: SERIAL_BUFF_SIZE_def)
  then have "list_all vacuum_reply_ok (?r # map fst ?xs)"
    by (simp add: numeral_eq_Suc)
  from vacuum_polling_round [OF ring.circular_buffer_axioms vacuum_sys_facts(1-5) plan len this, of boost_ref toy_conv]
  obtain s' effs where "sys_run ring_ops (vacuum_methods boost_ref toy_conv)
      (Cycle # exchanges (vacuum_plan 1) ?xs @ [Sent (length (wire_msg (last (vacuum_plan 1)))), Bytes ?r])
      vacuum_sys = Inr s'" "sy_out s' = [Ser (Async_read 512)] @ effs" "ct_drct (sy_ctl s') = [last (vacuum_plan 1)]"
    "length (sent_msgs effs) = 3"
    unfolding vacuum_sys_facts by (auto simp: VACUUM_MONITOR_def)
  then show ?thesis by (intro exI [of _ s']) simp
qed

end
