(* ===== verification/TcpClient.thy ===== *)
theory TcpClient
  imports SerialComm
begin

text \<open>
  The TCP classes (tcpasio.h, tcpasio.cpp). A client works on the last received packet or, after
  \<open>UseBuffer\<close>, on circular buffers like those of the serial port. Sockets, resolver and acceptor belong
  to boost::asio: they appear as requested operations, as completions and as the results they report.
\<close>

definition TCP_PACK_SIZE :: nat where
  "TCP_PACK_SIZE = 1500"

datatype tcp_effect =
    Tcp_read nat               \<comment> \<open>\<open>async_read_some\<close>\<close>
  | Tcp_write bytes            \<comment> \<open>\<open>async_write_some\<close>\<close>
  | Tcp_write_now bytes        \<comment> \<open>the synchronous \<open>write_some\<close>\<close>
  | Tcp_connect string nat     \<comment> \<open>\<open>async_connect\<close> to a resolved host and port\<close>
  | Tcp_keep_alive
  | Tcp_closed

datatype tcp_signal = Sig_connect int | Sig_receive int | Sig_send int

record 'b tcp_client =
  tc_open :: bool
  tc_cbconn :: bool
  tc_cbrcv :: bool
  tc_cbsnd :: bool
  tc_usebuf :: bool
  tc_bytercv :: int
  tc_bufrcv :: bytes
  tc_crcrcv :: 'b
  tc_crcsnd :: 'b

section \<open>Construction and configuration\<close>

definition maketcp_client :: "'b cb_ops \<Rightarrow> bytes \<Rightarrow> 'b tcp_client" where
  "maketcp_client B fresh = \<lparr>tc_open = False, tc_cbconn = False, tc_cbrcv = False, tc_cbsnd = False,
     tc_usebuf = False, tc_bytercv = 0, tc_bufrcv = take TCP_PACK_SIZE fresh,
     tc_crcrcv = cb_empty B, tc_crcsnd = cb_empty B\<rparr>"

text \<open>
  \<open>rs\<close> is the exception that resolving the host throws, if any, \<open>ec\<close> the result of the synchronous
  connection. Connecting opens the socket.
\<close>

definition tcp_Connect ::
  "'b tcp_client \<Rightarrow> error_code option \<Rightarrow> int \<Rightarrow> error_code + (bool \<times> 'b tcp_client)" where
  "tcp_Connect st rs ec =
     (case rs of
        Some e \<Rightarrow> Inl e
      | None \<Rightarrow> let st' = st\<lparr>tc_open := True\<rparr> in Inr (ec = 0 \<and> tc_open st', st'))"

definition tcp_AsyncConnect ::
  "'b tcp_client \<Rightarrow> string \<Rightarrow> nat \<Rightarrow> error_code option \<Rightarrow> error_code + ('b tcp_client \<times> tcp_effect list)" where
  "tcp_AsyncConnect st host port rs =
     (case rs of
        Some e \<Rightarrow> Inl e
      | None \<Rightarrow> Inr (st\<lparr>tc_open := True\<rparr>, [Tcp_connect host port]))"

definition tcp_Close :: "'b tcp_client \<Rightarrow> int \<Rightarrow> int \<times> 'b tcp_client \<times> tcp_effect list" where
  "tcp_Close st ec =
     (if tc_open st then (ec, st\<lparr>tc_open := False\<rparr>, [Tcp_closed]) else (0, st, []))"

definition tcp_UseBuffer :: "'b cb_ops \<Rightarrow> bool \<Rightarrow> 'b tcp_client \<Rightarrow> 'b tcp_client" where
  "tcp_UseBuffer B usebuf st =
     (if tc_usebuf st \<noteq> usebuf
      then if usebuf
           then st\<lparr>tc_usebuf := True,
                   tc_crcrcv := cb_set_capacity B (tc_crcrcv st) (TCP_PACK_SIZE * 10),
                   tc_crcsnd := cb_set_capacity B (tc_crcsnd st) (TCP_PACK_SIZE * 10)\<rparr>
           else st\<lparr>tc_usebuf := False, tc_crcrcv := cb_clear B (tc_crcrcv st),
                   tc_crcsnd := cb_clear B (tc_crcsnd st)\<rparr>
      else st)"

definition tcp_RegisterConnect :: "'b tcp_client \<Rightarrow> 'b tcp_client" where
  "tcp_RegisterConnect st = st\<lparr>tc_cbconn := True\<rparr>"

definition tcp_RegisterRead :: "'b tcp_client \<Rightarrow> 'b tcp_client" where
  "tcp_RegisterRead st = st\<lparr>tc_cbrcv := True\<rparr>"

definition tcp_RegisterWrite :: "'b tcp_client \<Rightarrow> 'b tcp_client" where
  "tcp_RegisterWrite st = st\<lparr>tc_cbsnd := True\<rparr>"

section \<open>Received data\<close>

text \<open>\<open>Lookup\<close> of the first character; \<open>want\<close> tells whether the pointer for it is not null.\<close>

definition tcp_Lookup_first :: "'b cb_ops \<Rightarrow> 'b tcp_client \<Rightarrow> bool \<Rightarrow> int \<times> byte option" where
  "tcp_Lookup_first B st want =
     (let n = (if tc_usebuf st then int (cb_size B (tc_crcrcv st)) else tc_bytercv st)
      in if \<not> (want \<and> n \<noteq> 0) then (-1, None)
         else (n, Some (if tc_usebuf st then cb_at B (tc_crcrcv st) 0 else tc_bufrcv st ! 0)))"

definition tcp_Lookup :: "'b cb_ops \<Rightarrow> 'b tcp_client \<Rightarrow> bytes option \<Rightarrow> int \<Rightarrow> int \<Rightarrow> int" where
  "tcp_Lookup B st flag len from =
     (case flag of
        None \<Rightarrow> -1
      | Some f \<Rightarrow>
          if len \<le> 0 \<or> from < 0 then -1
          else if tc_usebuf st
               then lookup_result len (lookup_loop (cb_at B (tc_crcrcv st)) f len
                      (int (cb_size B (tc_crcrcv st)) - len) (-1) from)
               else lookup_result len (lookup_loop (\<lambda>q. tc_bufrcv st ! q) f len
                      (tc_bytercv st - len) (-1) from))"

definition tcp_Read ::
  "'b cb_ops \<Rightarrow> 'b tcp_client \<Rightarrow> bytes option \<Rightarrow> int \<Rightarrow> int
     \<Rightarrow> (int \<times> bytes option \<times> 'b tcp_client) outcome" where
  "tcp_Read B st buff len from =
     (case buff of
        None \<Rightarrow> Inr (0, None, st)
      | Some dst \<Rightarrow>
          if len \<le> 0 \<or> from < 0 then Inr (0, Some dst, st)
          else let n0 = from + len
               in if tc_usebuf st
                  then let n = min (int (cb_size B (tc_crcrcv st))) n0;
                           copied = map (cb_at B (tc_crcrcv st)) [nat from..<nat n];
                           i = length copied
                       in if i > length dst then Inl Out_of_bounds
                          else Inr (int i, Some (copied @ drop i dst),
                                    if i \<noteq> 0 then st\<lparr>tc_crcrcv := cb_erase_begin B (tc_crcrcv st) i\<rparr> else st)
                  else let n = (if tc_bytercv st < n0 then tc_bytercv st - from else len);
                           copied = slice (nat from) (nat n) (tc_bufrcv st)
                       in if nat n > length dst \<or> nat from + nat n > length (tc_bufrcv st) \<and> 0 < n
                          then Inl Out_of_bounds
                          else Inr (if n > 0 then n else 0, Some (copied @ drop (nat n) dst), st))"

section \<open>Sending and the completion handlers\<close>

definition tcp_start_read :: "'b tcp_client \<Rightarrow> tcp_effect list" where
  "tcp_start_read st = (if tc_open st then [Tcp_read TCP_PACK_SIZE] else [])"

definition tcp_start_write :: "'b cb_ops \<Rightarrow> 'b tcp_client \<Rightarrow> tcp_effect list" where
  "tcp_start_write B st =
     (let n = cb_size B (tc_crcsnd st) in if n \<noteq> 0 then [Tcp_write (cb_list B (tc_crcsnd st))] else [])"

text \<open>
  The synchronous \<open>write_some\<close> throws or returns the number of bytes it has written: \<open>wr\<close> is its
  outcome, and an exception leaves \<open>Write\<close>.
\<close>

definition tcp_Write ::
  "'b cb_ops \<Rightarrow> 'b tcp_client \<Rightarrow> bytes option \<Rightarrow> int \<Rightarrow> error_code + nat
     \<Rightarrow> error_code + (int \<times> 'b tcp_client \<times> tcp_effect list)" where
  "tcp_Write B st buff len wr =
     (case buff of
        None \<Rightarrow> Inr (0, st, [])
      | Some src \<Rightarrow>
          if len \<le> 0 then Inr (0, st, [])
          else if tc_usebuf st
               then let n0 = int (cb_size B (tc_crcsnd st));
                        n = min (int (cb_capacity B (tc_crcsnd st)) - n0) len;
                        st' = st\<lparr>tc_crcsnd := cb_push_all B (tc_crcsnd st) (take (nat n) src)\<rparr>
                    in Inr (n, st', if n0 = 0 \<and> n \<noteq> 0 then tcp_start_write B st' else [])
               else (case wr of
                       Inl e \<Rightarrow> Inl e
                     | Inr n \<Rightarrow> Inr (int n, st, [Tcp_write_now (take (nat len) src)])))"

definition tcp_handle_connect :: "'b tcp_client \<Rightarrow> int \<Rightarrow> tcp_signal list \<times> tcp_effect list" where
  "tcp_handle_connect st ec =
     (if tc_cbconn st then [Sig_connect ec] else [],
      if ec = 0 then Tcp_keep_alive # tcp_start_read st else [])"

text \<open>
  The slot of the receive signal may use the client: it is a function on the client's state and its own.
\<close>

definition tcp_handle_read ::
  "'b cb_ops \<Rightarrow> (int \<Rightarrow> 'b tcp_client \<times> 'c \<Rightarrow> 'b tcp_client \<times> 'c) \<Rightarrow> 'b tcp_client \<times> 'c \<Rightarrow> int \<Rightarrow> nat
     \<Rightarrow> ('b tcp_client \<times> 'c) \<times> tcp_effect list" where
  "tcp_handle_read B slot sc ec n =
     (let st = fst sc;
          st1 = (if ec = 0 \<and> tc_usebuf st
                 then st\<lparr>tc_crcrcv := cb_push_all B (tc_crcrcv st) (take n (tc_bufrcv st))\<rparr> else st);
          sc2 = (if tc_cbrcv st1 then slot ec (st1, snd sc) else (st1, snd sc))
      in (sc2, if ec = 0 then tcp_start_read (fst sc2) else []))"

definition tcp_handle_write ::
  "'b cb_ops \<Rightarrow> 'b tcp_client \<Rightarrow> int \<Rightarrow> nat \<Rightarrow> 'b tcp_client \<times> tcp_signal list \<times> tcp_effect list" where
  "tcp_handle_write B st ec n =
     (if ec = 0
      then let st' = st\<lparr>tc_crcsnd := cb_erase_begin B (tc_crcsnd st) n\<rparr>
           in (st', if tc_cbsnd st then [Sig_send (int n)] else [], tcp_start_write B st')
      else (st, [], []))"

section \<open>The server\<close>

datatype acceptor_call = Acc_open | Acc_reuse | Acc_bind nat | Acc_listen nat

record tcp_server =
  ts_open :: bool
  ts_cbaccept :: bool

datatype server_effect = Srv_accept | Srv_announce | Srv_client_read | Srv_closed

definition maketcp_server :: tcp_server where
  "maketcp_server = \<lparr>ts_open = False, ts_cbaccept = False\<rparr>"

definition ts_RegisterAccept :: "tcp_server \<Rightarrow> tcp_server" where
  "ts_RegisterAccept sv = sv\<lparr>ts_cbaccept := True\<rparr>"

definition ts_start_accept :: "tcp_server \<Rightarrow> server_effect list" where
  "ts_start_accept sv = (if ts_open sv then [Srv_accept] else [])"

text \<open>
  The calls on the acceptor throw \<open>boost::system::system_error\<close> on failure; \<open>err\<close> is the outcome of a
  call. An exception of that class is not of the class that the handler names, so it leaves
  \<open>CreateServer\<close>: \<open>Inl\<close>.
\<close>

fun acceptor_calls :: "(acceptor_call \<Rightarrow> error_code option) \<Rightarrow> acceptor_call list \<Rightarrow> error_code option" where
  "acceptor_calls err [] = None"
| "acceptor_calls err (c # cs) = (case err c of Some e \<Rightarrow> Some e | None \<Rightarrow> acceptor_calls err cs)"

definition CreateServer ::
  "(acceptor_call \<Rightarrow> error_code option) \<Rightarrow> nat \<Rightarrow> tcp_server
     \<Rightarrow> (error_code \<times> tcp_server) + (int \<times> tcp_server \<times> server_effect list)" where
  "CreateServer err port sv =
     (case err Acc_open of
        Some e \<Rightarrow> Inl (e, sv)
      | None \<Rightarrow>
          let sv' = sv\<lparr>ts_open := True\<rparr>
          in case acceptor_calls err [Acc_reuse, Acc_bind port, Acc_listen 10] of
               Some e \<Rightarrow> Inl (e, sv')
             | None \<Rightarrow> Inr (0, sv', ts_start_accept sv'))"

definition ts_handle_accept :: "tcp_server \<Rightarrow> int \<Rightarrow> server_effect list" where
  "ts_handle_accept sv ec =
     (if ec = 0 then (if ts_cbaccept sv then [Srv_announce] else []) @ [Srv_client_read] else [])
     @ ts_start_accept sv"

definition ts_destroy :: "tcp_server \<Rightarrow> tcp_server \<times> server_effect list" where
  "ts_destroy sv = (if ts_open sv then (sv\<lparr>ts_open := False\<rparr>, [Srv_closed]) else (sv, []))"

section \<open>A buffered client as a source of messages\<close>

abbreviation tc_received :: "'b cb_ops \<Rightarrow> 'b tcp_client \<Rightarrow> bytes" where
  "tc_received B st \<equiv> cb_list B (tc_crcrcv st)"

lemma tcp_Lookup_buffered:
  assumes "tc_usebuf st" and "0 < len" and "len \<le> int (length f)" and "0 \<le> from"
  shows "first_occurrence (take (nat len) f) (tc_received B st) (nat from)
    (tcp_Lookup B st (Some f) len from)"
proof -
  have "\<forall>q<length (tc_received B st). cb_at B (tc_crcrcv st) q = tc_received B st ! q"
    by (simp add: cb_list_nth)
  from lookup_loop_first [OF this assms(2-4), of "-1"] show ?thesis
    using assms by (simp add: tcp_Lookup_def)
qed

text \<open>
  What \<open>Read\<close> copies is the requested part, but what it removes is as many bytes from the front.
\<close>

context circular_buffer
begin

lemma tcp_Read_buffered:
  assumes "tc_usebuf st" and "0 < len" and "0 \<le> from"
    and d: "d = slice (nat from) (nat len) (tc_received B st)" and "length d \<le> length dst"
  shows "\<exists>st'. tcp_Read B st (Some dst) len from = Inr (int (length d), Some (d @ drop (length d) dst), st') \<and>
    tc_received B st' = drop (length d) (tc_received B st)"
proof -
  let ?b = "tc_crcrcv st"
  let ?k = "nat (min (int (cb_size B ?b)) (from + len))"
  have k: "?k = min (cb_size B ?b) (nat from + nat len)"
    using assms by (auto simp: min_def nat_add_distrib)
  then have "map (cb_at B ?b) [nat from..<?k] = slice (nat from) (?k - nat from) (cb_list B ?b)"
    by (intro cb_list_slice) simp
  also have "\<dots> = d"
    unfolding k d slice_def by (auto simp: min_def)
  finally have copied: "map (cb_at B ?b) [nat from..<?k] = d" .
  have "length d \<le> cb_size B ?b"
    unfolding d by simp
  then have erased: "cb_list B (cb_erase_begin B ?b (length d)) = drop (length d) (cb_list B ?b)"
    by (rule list_erase_begin)
  let ?st' = "if d \<noteq> [] then st\<lparr>tc_crcrcv := cb_erase_begin B ?b (length d)\<rparr> else st"
  have "tcp_Read B st (Some dst) len from = Inr (int (length d), Some (d @ drop (length d) dst), ?st')"
    using assms(1-3,5) unfolding tcp_Read_def Let_def copied by auto
  then show ?thesis
    using erased by auto
qed

end

text \<open>The operations of a client after \<open>UseBuffer\<close>.\<close>

definition buffered :: "'b tcp_client \<Rightarrow> 'b tcp_client" where
  "buffered st = st\<lparr>tc_usebuf := True\<rparr>"

sublocale circular_buffer \<subseteq> tcp: byte_source "tc_received B"
  "\<lambda>st. tcp_Lookup B (buffered st)" "\<lambda>st. tcp_Read B (buffered st)"
proof unfold_locales
  fix s :: "'b tcp_client" and d buf :: bytes and len :: int
  assume "0 < len" and "d = take (nat len) (tc_received B s)" and "length d \<le> length buf"
  moreover have "drop (length d) (tc_received B s) = drop (nat len) (tc_received B s)"
    using calculation by (auto simp: min_def)
  ultimately show "\<exists>s'. tcp_Read B (buffered s) (Some buf) len 0 = Inr (int (length d), Some (d @ drop (length d) buf), s') \<and>
      tc_received B s' = drop (nat len) (tc_received B s)"
    using tcp_Read_buffered [of "buffered s" len 0 d buf] by (auto simp: buffered_def slice_0)
next
  fix s :: "'b tcp_client" and len "from" :: int and f :: bytes
  assume "0 < len" and "len \<le> int (length f)" and "0 \<le> from"
  then show "first_occurrence (take (nat len) f) (tc_received B s) (nat from)
      (tcp_Lookup B (buffered s) (Some f) len from)"
    using tcp_Lookup_buffered [of "buffered s" len f "from" B] by (simp add: buffered_def)
qed (simp add: tcp_Lookup_def)

context circular_buffer
begin

lemma tcp_source: "byte_source (tc_received B) (\<lambda>st. tcp_Lookup B (buffered st)) (\<lambda>st. tcp_Read B (buffered st))"
  by (rule tcp.byte_source_axioms)

end

section \<open>A client at work\<close>

text \<open>
  The client with the operations that asio has been asked for: whether an asynchronous connection and
  an asynchronous read are outstanding, and the signals raised so far. The events are the calls of the
  owner and the completions.
\<close>

record 'b tcp_run =
  tr_client :: "'b tcp_client"
  tr_connecting :: bool
  tr_reading :: bool
  tr_signals :: "tcp_signal list"

datatype tcp_event =
    Ev_connect "error_code option" int
  | Ev_async_connect string nat "error_code option"
  | Ev_connected int
  | Ev_data bytes
  | Ev_receive_error int
  | Ev_close int
  | Ev_use_buffer bool
  | Ev_register
  | Ev_read bytes int int

definition asks_tcp_read :: "tcp_effect list \<Rightarrow> bool" where
  "asks_tcp_read es \<longleftrightarrow> list_ex (\<lambda>e. case e of Tcp_read n \<Rightarrow> True | _ \<Rightarrow> False) es"

definition note_signal :: "int \<Rightarrow> 'b tcp_client \<times> tcp_signal list \<Rightarrow> 'b tcp_client \<times> tcp_signal list" where
  "note_signal ec sc = (fst sc, snd sc @ [Sig_receive ec])"

definition receive_event :: "'b cb_ops \<Rightarrow> int \<Rightarrow> bytes \<Rightarrow> 'b tcp_run \<Rightarrow> 'b tcp_run" where
  "receive_event B ec d r =
     (let c = (tr_client r)\<lparr>tc_bufrcv := d @ drop (length d) (tc_bufrcv (tr_client r))\<rparr>
      in case tcp_handle_read B note_signal (c, tr_signals r) ec (length d) of
           ((c', sigs), effs) \<Rightarrow> r\<lparr>tr_client := c', tr_signals := sigs, tr_reading := asks_tcp_read effs\<rparr>)"

fun tcp_exec :: "'b cb_ops \<Rightarrow> tcp_event \<Rightarrow> 'b tcp_run \<Rightarrow> 'b tcp_run" where
  "tcp_exec B (Ev_connect rs ec) r =
     (case tcp_Connect (tr_client r) rs ec of Inl e \<Rightarrow> r | Inr (ok, c) \<Rightarrow> r\<lparr>tr_client := c\<rparr>)"
| "tcp_exec B (Ev_async_connect host port rs) r =
     (case tcp_AsyncConnect (tr_client r) host port rs of
        Inl e \<Rightarrow> r
      | Inr (c, effs) \<Rightarrow> r\<lparr>tr_client := c, tr_connecting := True\<rparr>)"
| "tcp_exec B (Ev_connected ec) r =
     (if tr_connecting r
      then case tcp_handle_connect (tr_client r) ec of
             (sigs, effs) \<Rightarrow> r\<lparr>tr_connecting := False, tr_signals := tr_signals r @ sigs,
                              tr_reading := tr_reading r \<or> asks_tcp_read effs\<rparr>
      else r)"
| "tcp_exec B (Ev_data d) r = (if tr_reading r then receive_event B 0 d r else r)"
| "tcp_exec B (Ev_receive_error ec) r =
     (if tr_reading r \<and> ec \<noteq> 0 then receive_event B ec [] r else r)"
| "tcp_exec B (Ev_close ec) r =
     (case tcp_Close (tr_client r) ec of (n, c, effs) \<Rightarrow> r\<lparr>tr_client := c\<rparr>)"
| "tcp_exec B (Ev_use_buffer b) r = r\<lparr>tr_client := tcp_UseBuffer B b (tr_client r)\<rparr>"
| "tcp_exec B Ev_register r =
     r\<lparr>tr_client := tcp_RegisterConnect (tcp_RegisterRead (tcp_RegisterWrite (tr_client r)))\<rparr>"
| "tcp_exec B (Ev_read buf len from) r =
     (case tcp_Read B (tr_client r) (Some buf) len from of
        Inl u \<Rightarrow> r
      | Inr (n, dst, c) \<Rightarrow> r\<lparr>tr_client := c\<rparr>)"

definition tcp_run_all :: "'b cb_ops \<Rightarrow> tcp_event list \<Rightarrow> 'b tcp_run \<Rightarrow> 'b tcp_run" where
  "tcp_run_all B es r = fold (tcp_exec B) es r"

definition tcp_start :: "'b tcp_client \<Rightarrow> 'b tcp_run" where
  "tcp_start c = \<lparr>tr_client = c, tr_connecting = False, tr_reading = False, tr_signals = []\<rparr>"

lemma tcp_Read_bytercv: "tcp_Read B st buf len from = Inr (n, b, st') \<Longrightarrow> tc_bytercv st' = tc_bytercv st"
  by (cases buf) (auto simp: tcp_Read_def Let_def split: if_splits)

lemma tcp_handle_read_bytercv:
  "tcp_handle_read B note_signal (c, sigs) ec n = ((c', sigs'), effs) \<Longrightarrow> tc_bytercv c' = tc_bytercv c"
  by (auto simp: tcp_handle_read_def note_signal_def Let_def split: if_splits)

lemma tcp_exec_bytercv: "tc_bytercv (tr_client (tcp_exec B ev r)) = tc_bytercv (tr_client r)"
  by (cases ev) (auto simp: tcp_Connect_def tcp_AsyncConnect_def tcp_Close_def tcp_UseBuffer_def
      tcp_RegisterConnect_def tcp_RegisterRead_def tcp_RegisterWrite_def receive_event_def Let_def
      dest: tcp_Read_bytercv tcp_handle_read_bytercv split: sum.splits option.splits prod.splits)

lemma tcp_run_bytercv: "tc_bytercv (tr_client (tcp_run_all B es r)) = tc_bytercv (tr_client r)"
  unfolding tcp_run_all_def by (induction es arbitrary: r) (simp_all add: tcp_exec_bytercv)

fun is_async_connect :: "tcp_event \<Rightarrow> bool" where
  "is_async_connect (Ev_async_connect host port rs) = True"
| "is_async_connect e = False"

lemma tcp_run_idle:
  assumes "\<not> list_ex is_async_connect es" and "\<not> tr_connecting r" and "\<not> tr_reading r"
  shows "tr_signals (tcp_run_all B es r) = tr_signals r \<and> \<not> tr_reading (tcp_run_all B es r)"
  using assms unfolding tcp_run_all_def
proof (induction es arbitrary: r)
  case Nil
  then show ?case by simp
next
  case (Cons ev es)
  have "tr_signals (tcp_exec B ev r) = tr_signals r \<and> \<not> tr_reading (tcp_exec B ev r) \<and>
      \<not> tr_connecting (tcp_exec B ev r)"
    using Cons.prems by (cases ev) (auto split: sum.splits prod.splits)
  then show ?case
    using Cons.IH [of "tcp_exec B ev r"] Cons.prems(1) by simp
qed

section \<open>Properties\<close>

text \<open>
  C21. A client with buffers delivers messages whole and in order: if the received bytes start with a
  message that ends at the first occurrence of its terminator, \<open>Lookup\<close> finds the terminator there, and
  \<open>Read\<close> at position 0 copies the message with its terminator and leaves exactly the bytes after it.
\<close>

theorem tcp_message_taken:
  assumes "circular_buffer B" and "tc_usebuf st" and "tc_received B st = msg @ flag @ rest"
    and "flag \<noteq> []" and "list_all (\<lambda>q. \<not> occurs_at flag (tc_received B st) q) [0..<length msg]"
    and "length msg + length flag \<le> length dst"
  shows "tcp_Lookup B st (Some flag) (int (length flag)) 0 = int (length msg) \<and>
    (\<exists>st'. tcp_Read B st (Some dst) (int (length msg + length flag)) 0 =
       Inr (int (length msg + length flag), Some (msg @ flag @ drop (length msg + length flag) dst), st') \<and>
       tc_received B st' = rest)"
proof -
  have st: "buffered st = st"
    using assms(2) by (cases st) (simp add: buffered_def)
  have "\<not> occurs_at flag (tc_received B st) q" if "q < length msg" for q
    using assms(5) that by (simp add: list_all_iff)
  note taken = byte_source.message_taken [OF circular_buffer.tcp_source [OF assms(1)] assms(3,4) this assms(6)]
  from taken show ?thesis by (auto simp: st)
qed

definition sample_client :: "bool \<Rightarrow> ring tcp_client" where
  "sample_client usebuf = \<lparr>tc_open = True, tc_cbconn = False, tc_cbrcv = True, tc_cbsnd = False,
     tc_usebuf = usebuf, tc_bytercv = 0, tc_bufrcv = replicate 16 0,
     tc_crcrcv = (15000, [104, 105, 10, 98, 121, 101, 10]), tc_crcsnd = (15000, [])\<rparr>"

theorem tcp_message_taken_witness:
  "tcp_Lookup ring_ops (sample_client True) (Some [10]) 1 0 = 2 \<and>
   (\<exists>st'. tcp_Read ring_ops (sample_client True) (Some [0, 0, 0, 0]) 3 0 = Inr (3, Some [104, 105, 10, 0], st') \<and>
      tc_received ring_ops st' = [98, 121, 101, 10])"
proof -
  have "list_all (\<lambda>q. \<not> occurs_at [10] (tc_received ring_ops (sample_client True)) q) [0..<length [104, 105 :: byte]]"
    by (simp add: sample_client_def upt_conv_Cons occurs_at_def slice_def)
  from tcp_message_taken [OF ring.circular_buffer_axioms _ _ _ this, of "[98, 121, 101, 10]" "[0, 0, 0, 0]"]
  show ?thesis by (simp add: sample_client_def)
qed

text \<open>
  \<open>Read\<close> at a later position of a buffered client does not remove what it has read. It copies the
  requested part, but removes as many bytes from the front of the buffer, so the bytes in front of the
  part are lost and the part itself stays in the buffer, to be delivered a second time.
\<close>

theorem tcp_read_removes_front:
  assumes "circular_buffer B" and "tc_usebuf st" and "0 < len" and "0 \<le> from"
    and "d = slice (nat from) (nat len) (tc_received B st)" and "length d \<le> length dst"
  shows "\<exists>st'. tcp_Read B st (Some dst) len from = Inr (int (length d), Some (d @ drop (length d) dst), st') \<and>
    tc_received B st' = drop (length d) (tc_received B st)"
  using circular_buffer.tcp_Read_buffered [OF assms] .

theorem tcp_read_removes_front_witness:
  "\<exists>st'. tcp_Read ring_ops (sample_client True) (Some [0, 0, 0, 0]) 3 3 = Inr (3, Some [98, 121, 101, 0], st') \<and>
     tc_received ring_ops st' = [98, 121, 101, 10]"
  using tcp_read_removes_front [OF ring.circular_buffer_axioms, of "sample_client True" 3 3 "[98, 121, 101]"
      "[0, 0, 0, 0]"]
  by (simp add: sample_client_def slice_def)

text \<open>
  A client without buffers never delivers anything. Whatever is connected, received, closed or
  read, \<open>bytercv_\<close> keeps the value 0 of the constructor, so without buffers every \<open>Lookup\<close> of a flag
  fails and every \<open>Read\<close> copies nothing, although the receive signal has announced data.
\<close>

theorem tcp_unbuffered_delivers_nothing:
  assumes "r = tcp_run_all B es (tcp_start (maketcp_client B fresh))"
    and "\<not> tc_usebuf (tr_client r)" and "0 < len" and "0 \<le> from"
  shows "tcp_Lookup B (tr_client r) (Some flag) len from = -1 \<and>
    tcp_Read B (tr_client r) (Some dst) len from = Inr (0, Some dst, tr_client r)"
proof -
  have zero: "tc_bytercv (tr_client r) = 0"
    by (simp add: assms(1) tcp_run_bytercv tcp_start_def maketcp_client_def)
  have "\<not> from \<le> - len"
    using assms(3,4) by simp
  then have "lookup_loop at flag len (- len) (-1) from = (-1, from)" for at
    using assms(3) by (subst lookup_loop.simps) simp
  then show ?thesis
    using assms(2-4) zero by (simp add: tcp_Lookup_def tcp_Read_def lookup_result_def Let_def slice_def)
qed

definition sample_tcp_events :: "tcp_event list" where
  "sample_tcp_events = [Ev_register, Ev_async_connect ''172.28.1.11'' 4016 None, Ev_connected 0, Ev_data [104, 105, 10]]"

theorem tcp_unbuffered_delivers_nothing_witness:
  "tr_signals (tcp_run_all ring_ops sample_tcp_events (tcp_start (maketcp_client ring_ops []))) =
     [Sig_connect 0, Sig_receive 0] \<and>
   tcp_Lookup ring_ops (tr_client (tcp_run_all ring_ops sample_tcp_events (tcp_start (maketcp_client ring_ops []))))
     (Some [10]) 1 0 = -1"
proof -
  let ?r = "tcp_run_all ring_ops sample_tcp_events (tcp_start (maketcp_client ring_ops []))"
  have "tr_signals ?r = [Sig_connect 0, Sig_receive 0]" and "\<not> tc_usebuf (tr_client ?r)"
    by code_simp+
  then show ?thesis
    using tcp_unbuffered_delivers_nothing [of ?r ring_ops sample_tcp_events "[]" 1 0 "[10]" "[]"] by simp
qed

text \<open>
  A client connected with the synchronous \<open>Connect\<close> never receives and never notices that the peer
  closes: only the handler of an asynchronous connection starts the first read, so without
  \<open>AsyncConnect\<close> no receive signal is ever raised, with or without an error.
\<close>

theorem tcp_sync_connect_never_receives:
  assumes "\<not> list_ex is_async_connect es"
  shows "tr_signals (tcp_run_all B es (tcp_start (maketcp_client B fresh))) = [] \<and>
    \<not> tr_reading (tcp_run_all B es (tcp_start (maketcp_client B fresh)))"
  using tcp_run_idle [OF assms, of "tcp_start (maketcp_client B fresh)" B] by (simp add: tcp_start_def)

theorem tcp_sync_connect_never_receives_witness:
  "tr_signals (tcp_run_all ring_ops [Ev_register, Ev_connect None 0, Ev_data [1], Ev_receive_error 2]
     (tcp_start (maketcp_client ring_ops []))) = []"
  using tcp_sync_connect_never_receives [of "[Ev_register, Ev_connect None 0, Ev_data [1], Ev_receive_error 2]"
      ring_ops "[]"] by simp

text \<open>\<open>CreateServer\<close> never returns an error code: it returns 0, or an exception leaves it.\<close>

lemma CreateServer_result: "CreateServer err port sv = Inr (rc, sv', effs) \<Longrightarrow> rc = 0 \<and> effs = [Srv_accept]"
  by (auto simp: CreateServer_def ts_start_accept_def Let_def split: option.splits)

end
