(* ===== verification/AnnexControl.thy ===== *)
theory AnnexControl
  imports MessageQueue Parameter ControllerRun TcpClient
begin

text \<open>
  The control class of the daemon (AnnexControl.h, AnnexControl.cpp): it registers the handlers of its
  messages, connects the server and the serial devices, and reacts to the reports of its controllers
  and of the network session through the message queue it inherits. Controllers and sessions are
  shared objects; an address is a number. What starting a controller depends on (the address and memory
  of the new object and the outcome of opening the port) is given per port.
\<close>

section \<open>State\<close>

text \<open>\<open>enum MSG_AC\<close>: the message codes are numbered from zero.\<close>

definition MSG_CONNECT_NETWORK :: int where "MSG_CONNECT_NETWORK = 0"
definition MSG_RECEIVE_NETWORK :: int where "MSG_RECEIVE_NETWORK = 1"
definition MSG_CLOSE_NETWORK :: int where "MSG_CLOSE_NETWORK = 2"
definition MSG_CLOSE_COOLER :: int where "MSG_CLOSE_COOLER = 3"
definition MSG_CLOSE_VACUUM :: int where "MSG_CLOSE_VACUUM = 4"

lemmas ac_messages = MSG_CONNECT_NETWORK_def MSG_RECEIVE_NETWORK_def MSG_CLOSE_NETWORK_def
  MSG_CLOSE_COOLER_def MSG_CLOSE_VACUUM_def

datatype ac_handler =
    On_connect_network | On_receive_network | On_close_network | On_close_cooler | On_close_vacuum

record ('q, 'b) annex_control =
  ac_mq :: "('q, ac_handler) message_queue"
  ac_param :: param_config
  ac_cctl :: "(int \<times> ('b, cooler_data) controller) list"
  ac_vctl :: "(int \<times> ('b, vacuum_data) controller) list"
  ac_tcp :: "nat option"
  ac_thrdnetwork :: bool

datatype ac_effect =
    Ac_log string
  | Ac_ctl int ctl_effect           \<comment> \<open>an effect of the controller at that address\<close>
  | Ac_connect bool string "16 word" \<comment> \<open>\<open>AsyncConnect\<close> (true) or \<open>Connect\<close> to the server\<close>
  | Ac_drop_session nat

text \<open>What a new controller for a port gets from outside.\<close>

record start_env =
  se_address :: int
  se_memory :: bytes
  se_text :: string
  se_serial :: bytes
  se_open :: error_code

definition new_annex_control :: "param_config \<Rightarrow> ('q, 'b) annex_control" where
  "new_annex_control p = \<lparr>ac_mq = new_message_queue, ac_param = p, ac_cctl = [], ac_vctl = [],
     ac_tcp = None, ac_thrdnetwork = False\<rparr>"

section \<open>Registration\<close>

definition ac_register :: "int \<Rightarrow> ac_handler \<Rightarrow> ('q, 'b) annex_control \<Rightarrow> bool \<times> ('q, 'b) annex_control" where
  "ac_register msgid h st =
     (case RegisterMessage msgid h (ac_mq st) of (ok, mq) \<Rightarrow> (ok, st\<lparr>ac_mq := mq\<rparr>))"

definition register_messages :: "('q, 'b) annex_control \<Rightarrow> ('q, 'b) annex_control" where
  "register_messages st =
     snd (ac_register MSG_CLOSE_VACUUM On_close_vacuum
       (snd (ac_register MSG_CLOSE_COOLER On_close_cooler
         (snd (ac_register MSG_CLOSE_NETWORK On_close_network
           (snd (ac_register MSG_RECEIVE_NETWORK On_receive_network
             (snd (ac_register MSG_CONNECT_NETWORK On_connect_network st)))))))))"

section \<open>Connecting\<close>

text \<open>
  \<open>session\<close> is the new client object, \<open>ok\<close> the result of the synchronous connection.
\<close>

definition connect_server ::
  "nat \<Rightarrow> bool \<Rightarrow> bool \<Rightarrow> ('q, 'b) annex_control \<Rightarrow> bool \<times> ('q, 'b) annex_control \<times> ac_effect list" where
  "connect_server session ok async st =
     (if \<not> pa_bServer (ac_param st) then (True, st, [])
      else let st' = st\<lparr>ac_tcp := Some session\<rparr>;
               call = Ac_connect async (pa_ipServer (ac_param st)) (pa_portServer (ac_param st))
           in if async then (True, st', [call])
              else if ok then (True, st', [call, Ac_log ''SUCCEED: connection with server''])
              else (False, st', [call, Ac_log ''failed to connect server'']))"

fun add_devices :: "byte list \<Rightarrow> ('b, 'd) controller \<Rightarrow> ('b, 'd) controller" where
  "add_devices [] one = one"
| "add_devices (d # ds) one = add_devices ds (cb_AddDevice d one)"

definition connect_serial_cooler ::
  "'b cb_ops \<Rightarrow> (string \<Rightarrow> start_env) \<Rightarrow> annex \<Rightarrow> ('q, 'b) annex_control
     \<Rightarrow> bool \<times> ('q, 'b) annex_control \<times> ac_effect list" where
  "connect_serial_cooler B E device st =
     (let port = ax_portName device; e = E port;
          one = cb_RegisterResult (make_cooler (se_memory e) (se_text e))
      in case cb_Start B (se_serial e) port (ax_baudRate device) (se_open e) one of
           (rc, one', effs) \<Rightarrow>
             if rc \<noteq> 0
             then (False, st, map (Ac_ctl (se_address e)) effs @ [Ac_log ''failed to connect COOLER''])
             else let one'' = add_devices (ax_idd device)
                        (cb_SetDatabase (pa_urlDB (ac_param st))
                          (cb_CoupleNetwork (ac_tcp st) (pa_groupid (ac_param st)) one'))
                  in (True, st\<lparr>ac_cctl := ac_cctl st @ [(se_address e, one'')]\<rparr>,
                      map (Ac_ctl (se_address e)) effs @ [Ac_log ''SUCCED: connection with COOLER'']))"

definition connect_serial_vacuum ::
  "'b cb_ops \<Rightarrow> (string \<Rightarrow> start_env) \<Rightarrow> annex \<Rightarrow> ('q, 'b) annex_control
     \<Rightarrow> bool \<times> ('q, 'b) annex_control \<times> ac_effect list" where
  "connect_serial_vacuum B E device st =
     (let port = ax_portName device; e = E port;
          one = cb_RegisterResult (make_vacuum (se_memory e) (se_text e))
      in case cb_Start B (se_serial e) port (ax_baudRate device) (se_open e) one of
           (rc, one', effs) \<Rightarrow>
             if rc \<noteq> 0
             then (False, st, map (Ac_ctl (se_address e)) effs @ [Ac_log ''failed to connect VACUUM''])
             else let one'' = add_devices (ax_idd device)
                        (cb_CoupleNetwork (ac_tcp st) (pa_groupid (ac_param st)) one')
                  in (True, st\<lparr>ac_vctl := ac_vctl st @ [(se_address e, one'')]\<rparr>,
                      map (Ac_ctl (se_address e)) effs @ [Ac_log ''SUCCED: connection with VACUUM'']))"

definition connect_serial ::
  "'b cb_ops \<Rightarrow> (string \<Rightarrow> start_env) \<Rightarrow> int \<Rightarrow> annex \<Rightarrow> ('q, 'b) annex_control
     \<Rightarrow> bool \<times> ('q, 'b) annex_control \<times> ac_effect list" where
  "connect_serial B E devtype device st =
     (if \<not> (devtype = 1 \<or> devtype = 2) then (False, st, [])
      else if devtype = 1 then connect_serial_cooler B E device st
      else connect_serial_vacuum B E device st)"

text \<open>Whether a controller with this port exists already.\<close>

definition port_known :: "boost_str \<Rightarrow> string \<Rightarrow> (int \<times> ('b, 'd) controller) list \<Rightarrow> bool" where
  "port_known S port cs \<longleftrightarrow> list_ex (\<lambda>(h, c). bs_iequals S port (c_str (ct_portname c))) cs"

fun connect_coolers ::
  "boost_str \<Rightarrow> 'b cb_ops \<Rightarrow> (string \<Rightarrow> start_env) \<Rightarrow> bool \<Rightarrow> annex list \<Rightarrow> ('q, 'b) annex_control
     \<Rightarrow> bool \<times> ('q, 'b) annex_control \<times> ac_effect list" where
  "connect_coolers S B E init [] st = (True, st, [])"
| "connect_coolers S B E init (a # as) st =
     (if init \<or> \<not> port_known S (ax_portName a) (ac_cctl st)
      then case connect_serial B E 1 a st of
             (ok, st', effs) \<Rightarrow>
               if \<not> ok then (False, st', effs)
               else case connect_coolers S B E init as st' of (ok', st'', effs') \<Rightarrow> (ok', st'', effs @ effs')
      else connect_coolers S B E init as st)"

definition connect_cooler ::
  "boost_str \<Rightarrow> 'b cb_ops \<Rightarrow> (string \<Rightarrow> start_env) \<Rightarrow> bool \<Rightarrow> ('q, 'b) annex_control
     \<Rightarrow> bool \<times> ('q, 'b) annex_control \<times> ac_effect list" where
  "connect_cooler S B E init st = connect_coolers S B E init (pa_cooler (ac_param st)) st"

fun connect_vacuums ::
  "boost_str \<Rightarrow> 'b cb_ops \<Rightarrow> (string \<Rightarrow> start_env) \<Rightarrow> bool \<Rightarrow> annex list \<Rightarrow> ('q, 'b) annex_control
     \<Rightarrow> bool \<times> ('q, 'b) annex_control \<times> ac_effect list" where
  "connect_vacuums S B E init [] st = (True, st, [])"
| "connect_vacuums S B E init (a # as) st =
     (if init \<or> \<not> port_known S (ax_portName a) (ac_vctl st)
      then case connect_serial B E 2 a st of
             (ok, st', effs) \<Rightarrow>
               if \<not> ok then (False, st', effs)
               else case connect_vacuums S B E init as st' of (ok', st'', effs') \<Rightarrow> (ok', st'', effs @ effs')
      else connect_vacuums S B E init as st)"

definition connect_vacuum ::
  "boost_str \<Rightarrow> 'b cb_ops \<Rightarrow> (string \<Rightarrow> start_env) \<Rightarrow> bool \<Rightarrow> ('q, 'b) annex_control
     \<Rightarrow> bool \<times> ('q, 'b) annex_control \<times> ac_effect list" where
  "connect_vacuum S B E init st = connect_vacuums S B E init (pa_vacuum (ac_param st)) st"

section \<open>Callbacks: reports become messages\<close>

definition ac_post :: "'q mq_ops \<Rightarrow> int \<Rightarrow> int \<Rightarrow> int \<Rightarrow> ('q, 'b) annex_control \<Rightarrow> ('q, 'b) annex_control option" where
  "ac_post Q msgid p1 p2 st =
     (case PostMessage Q msgid p1 p2 (ac_mq st) of None \<Rightarrow> None | Some mq \<Rightarrow> Some (st\<lparr>ac_mq := mq\<rparr>))"

definition network_connect :: "'q mq_ops \<Rightarrow> int \<Rightarrow> int \<Rightarrow> ('q, 'b) annex_control \<Rightarrow> ('q, 'b) annex_control option" where
  "network_connect Q client ec st = ac_post Q MSG_CONNECT_NETWORK client ec st"

definition network_receive :: "'q mq_ops \<Rightarrow> int \<Rightarrow> int \<Rightarrow> ('q, 'b) annex_control \<Rightarrow> ('q, 'b) annex_control option" where
  "network_receive Q client ec st =
     ac_post Q (if ec = 0 then MSG_RECEIVE_NETWORK else MSG_CLOSE_NETWORK) 0 0 st"

definition cooler_receive :: "'q mq_ops \<Rightarrow> int \<Rightarrow> int \<Rightarrow> ('q, 'b) annex_control \<Rightarrow> ('q, 'b) annex_control option" where
  "cooler_receive Q client ec st = ac_post Q MSG_CLOSE_COOLER client 0 st"

definition vacuum_receive :: "'q mq_ops \<Rightarrow> int \<Rightarrow> int \<Rightarrow> ('q, 'b) annex_control \<Rightarrow> ('q, 'b) annex_control option" where
  "vacuum_receive Q client ec st = ac_post Q MSG_CLOSE_VACUUM client 0 st"

section \<open>Message handlers\<close>

definition on_connect_network ::
  "int \<Rightarrow> int \<Rightarrow> ('q, 'b) annex_control \<Rightarrow> (('q, 'b) annex_control \<times> ac_effect list) outcome" where
  "on_connect_network client ec st =
     (if ec = 0
      then Inr (st\<lparr>ac_thrdnetwork := False,
                   ac_cctl := map (\<lambda>(h, c). (h, cb_CoupleNetwork (ac_tcp st) (pa_groupid (ac_param st)) c)) (ac_cctl st),
                   ac_vctl := map (\<lambda>(h, c). (h, cb_CoupleNetwork (ac_tcp st) (pa_groupid (ac_param st)) c)) (ac_vctl st)\<rparr>,
                [Ac_log ''SUCCEED: connection with server''])
      else Inr (st\<lparr>ac_tcp := None\<rparr>,
                (case ac_tcp st of None \<Rightarrow> [] | Some h \<Rightarrow> [Ac_drop_session h]) @ [Ac_log ''failed to connect server'']))"

definition on_receive_network ::
  "int \<Rightarrow> int \<Rightarrow> ('q, 'b) annex_control \<Rightarrow> (('q, 'b) annex_control \<times> ac_effect list) outcome" where
  "on_receive_network client ec st = Inr (st, [])"

definition on_close_network ::
  "int \<Rightarrow> int \<Rightarrow> ('q, 'b) annex_control \<Rightarrow> (('q, 'b) annex_control \<times> ac_effect list) outcome" where
  "on_close_network client ec st =
     Inr (st\<lparr>ac_cctl := map (\<lambda>(h, c). (h, cb_DecoupleNetwork c)) (ac_cctl st),
             ac_vctl := map (\<lambda>(h, c). (h, cb_DecoupleNetwork c)) (ac_vctl st),
             ac_tcp := None, ac_thrdnetwork := True\<rparr>,
          Ac_log ''CLOSED: connection with server''
            # (case ac_tcp st of None \<Rightarrow> [] | Some h \<Rightarrow> [Ac_drop_session h]))"

text \<open>\<open>erase\<close> of the element whose address is \<open>client\<close>; the end iterator must not be erased.\<close>

fun erase_address :: "int \<Rightarrow> (int \<times> 'c) list \<Rightarrow> (int \<times> 'c) list outcome" where
  "erase_address client [] = Inl Bad_iterator"
| "erase_address client ((h, c) # cs) =
     (if h = client then Inr cs else and_then (erase_address client cs) (\<lambda>cs'. Inr ((h, c) # cs')))"

definition on_close_cooler ::
  "int \<Rightarrow> int \<Rightarrow> ('q, 'b) annex_control \<Rightarrow> (('q, 'b) annex_control \<times> ac_effect list) outcome" where
  "on_close_cooler client ec st =
     and_then (erase_address client (ac_cctl st))
       (\<lambda>cs. Inr (st\<lparr>ac_cctl := cs\<rparr>, [Ac_log ''CLOSED: connection with cooler'']))"

definition on_close_vacuum ::
  "int \<Rightarrow> int \<Rightarrow> ('q, 'b) annex_control \<Rightarrow> (('q, 'b) annex_control \<times> ac_effect list) outcome" where
  "on_close_vacuum client ec st =
     and_then (erase_address client (ac_vctl st))
       (\<lambda>cs. Inr (st\<lparr>ac_vctl := cs\<rparr>, [Ac_log ''CLOSED: connection with vacuum'']))"

fun ac_handle :: "ac_handler \<Rightarrow> int \<Rightarrow> int \<Rightarrow> ('q, 'b) annex_control
    \<Rightarrow> (('q, 'b) annex_control \<times> ac_effect list) outcome" where
  "ac_handle On_connect_network p1 p2 st = on_connect_network p1 p2 st"
| "ac_handle On_receive_network p1 p2 st = on_receive_network p1 p2 st"
| "ac_handle On_close_network p1 p2 st = on_close_network p1 p2 st"
| "ac_handle On_close_cooler p1 p2 st = on_close_cooler p1 p2 st"
| "ac_handle On_close_vacuum p1 p2 st = on_close_vacuum p1 p2 st"

fun ac_calls :: "(ac_handler \<times> int \<times> int) list \<Rightarrow> ('q, 'b) annex_control
    \<Rightarrow> (('q, 'b) annex_control \<times> ac_effect list) outcome" where
  "ac_calls [] st = Inr (st, [])"
| "ac_calls ((h, p1, p2) # cs) st =
     and_then (ac_handle h p1 p2 st) (\<lambda>(st', es).
       and_then (ac_calls cs st') (\<lambda>(st'', es'). Inr (st'', es @ es')))"

text \<open>A round of the inherited message thread: whether it goes on, and what its handlers did.\<close>

definition ac_message_round :: "'q mq_ops \<Rightarrow> ('q, 'b) annex_control
    \<Rightarrow> (bool \<times> ('q, 'b) annex_control \<times> ac_effect list) outcome option" where
  "ac_message_round Q st =
     (case thread_message_body Q (ac_mq st) of
        None \<Rightarrow> None
      | Some (calls, goes_on, mq) \<Rightarrow>
          Some (and_then (ac_calls calls (st\<lparr>ac_mq := mq\<rparr>)) (\<lambda>(st', es). Inr (goes_on, st', es))))"

section \<open>Service\<close>

definition StartService ::
  "boost_str \<Rightarrow> 'b cb_ops \<Rightarrow> 'q mq_ops \<Rightarrow> (string \<Rightarrow> start_env) \<Rightarrow> nat \<Rightarrow> bool \<Rightarrow> ('q, 'b) annex_control
     \<Rightarrow> bool \<times> ('q, 'b) annex_control \<times> ac_effect list" where
  "StartService S B Q E session ok st =
     (let st1 = register_messages st
      in case mq_Start Q ''msgque_camannex'' (ac_mq st1) of
           (running, mq) \<Rightarrow>
             let st2 = st1\<lparr>ac_mq := mq\<rparr>
             in if \<not> running then (False, st2, [Ac_log ''failed to create message queue''])
                else case connect_server session ok False st2 of
                       (conn, st3, effs) \<Rightarrow>
                         if \<not> conn then (False, st3, effs @ [Ac_log ''failed to connect server''])
                         else case connect_cooler S B E True st3 of
                                (cool, st4, effs') \<Rightarrow>
                                  if \<not> cool
                                  then (False, st4, effs @ effs' @ [Ac_log ''failed to connect cooler''])
                                  else (True, st4, effs @ effs'))"

text \<open>
  \<open>StopService\<close> interrupts the network thread and asks the message thread to end (up to the join in
  \<open>Stop\<close>); after the join the queue is given up.
\<close>

definition StopService_begin ::
  "'q mq_ops \<Rightarrow> ('q, 'b) annex_control \<Rightarrow> ('q, 'b) annex_control option" where
  "StopService_begin Q st =
     (let st1 = st\<lparr>ac_thrdnetwork := False\<rparr>
      in case mq_Stop_begin Q (ac_mq st1) of None \<Rightarrow> None | Some mq \<Rightarrow> Some (st1\<lparr>ac_mq := mq\<rparr>))"

definition StopService_end :: "('q, 'b) annex_control \<Rightarrow> ('q, 'b) annex_control" where
  "StopService_end st = st\<lparr>ac_mq := mq_Stop_end (ac_mq st)\<rparr>"

text \<open>
  One round of \<open>thread_network\<close>: the session is \<open>unique\<close> when only this object refers to it.
\<close>

definition session_unique :: "('q, 'b) annex_control \<Rightarrow> bool" where
  "session_unique st \<longleftrightarrow> (case ac_tcp st of None \<Rightarrow> False
     | Some h \<Rightarrow> list_all (\<lambda>(_, c). ct_tcp c \<noteq> Some h) (ac_cctl st) \<and>
                 list_all (\<lambda>(_, c). ct_tcp c \<noteq> Some h) (ac_vctl st))"

definition thread_network_body :: "nat \<Rightarrow> ('q, 'b) annex_control \<Rightarrow> ('q, 'b) annex_control \<times> ac_effect list" where
  "thread_network_body session st =
     (if \<not> session_unique st then snd (connect_server session True True st) else (st, []))"

section \<open>Reports that nobody handles\<close>

lemma register_rejected:
  "msgid < 128 \<Longrightarrow> ac_register msgid h st = (False, st)"
  by (cases st) (simp add: ac_register_def RegisterMessage_def mq_constants)

lemma register_messages_nothing: "register_messages st = st"
  by (simp add: register_messages_def register_rejected ac_messages)

lemma connect_serial_mq: "connect_serial B E t a st = (ok, st', effs) \<Longrightarrow> ac_mq st' = ac_mq st"
  by (auto simp: connect_serial_def connect_serial_cooler_def connect_serial_vacuum_def Let_def
      split: if_splits prod.splits)

lemma connect_coolers_mq:
  "connect_coolers S B E init as st = (ok, st', effs) \<Longrightarrow> ac_mq st' = ac_mq st"
proof (induction as arbitrary: st ok st' effs)
  case Nil
  then show ?case by simp
next
  case (Cons a as)
  then show ?case
    by (auto split: if_splits prod.splits dest: connect_serial_mq)
qed

lemma connect_server_mq: "connect_server session ok async st = (c, st', effs) \<Longrightarrow> ac_mq st' = ac_mq st"
  by (auto simp: connect_server_def Let_def split: if_splits)

text \<open>After \<open>StartService\<close> the message thread runs on an empty queue, and no handler is registered.\<close>

lemma started_queue:
  assumes "mq_laws Q contents" and "StartService S B Q E session ok (new_annex_control p) = (True, st, effs)"
  shows "\<exists>q. mq_q (ac_mq st) = Some q \<and> contents q = [] \<and> mq_funcs (ac_mq st) = (\<lambda>_. [])"
proof -
  obtain running and mq :: "('a, ac_handler) message_queue" where start: "mq_Start Q ''msgque_camannex'' new_message_queue = (running, mq)"
    by fastforce
  then obtain q where q: "mq_make Q ''msgque_camannex'' = Some q"
    and mq: "mq = new_message_queue\<lparr>mq_q := Some q, mq_thread := True\<rparr>"
    using assms(2) by (auto simp: StartService_def register_messages_nothing new_annex_control_def Let_def
        mq_Start_def new_message_queue_def split: option.splits)
  have "ac_mq st = mq"
    using assms(2) start
    by (auto simp: StartService_def register_messages_nothing new_annex_control_def Let_def connect_cooler_def
        split: prod.splits if_splits dest!: connect_coolers_mq connect_server_mq)
  then show ?thesis
    using mq_laws.make_empty [OF assms(1) q] by (auto simp: mq new_message_queue_def)
qed

lemma posted_round:
  assumes "mq_laws Q contents" and "mq_q (ac_mq st) = Some q" and "contents q = []"
    and "mq_funcs (ac_mq st) = (\<lambda>_. [])"
  shows "\<exists>st1 mq. ac_post Q msgid p1 p2 st = Some st1 \<and>
    ac_message_round Q st1 = Some (Inr (msgid \<noteq> MSG_QUIT, st\<lparr>ac_mq := mq\<rparr>, []))"
proof -
  obtain mq1 q2 where "PostMessage Q msgid p1 p2 (ac_mq st) = Some mq1" and
    "thread_message_body Q mq1 = Some ([], msgid \<noteq> MSG_QUIT, (ac_mq st)\<lparr>mq_q := Some q2\<rparr>)"
    using mq_laws.dispatched [OF assms(1-3), of msgid p1 p2] assms(4) by auto
  then show ?thesis
    by (auto simp: ac_post_def ac_message_round_def)
qed

section \<open>Controllers that have been connected\<close>

lemma add_devices_frame:
  "\<exists>ds. add_devices xs one = one\<lparr>ct_allDev := ds\<rparr> \<and> set ds = set (ct_allDev one) \<union> set xs \<and>
     (distinct (ct_allDev one) \<longrightarrow> distinct ds)"
proof (induction xs arbitrary: one)
  case Nil
  show ?case by (intro exI [of _ "ct_allDev one"]) simp
next
  case (Cons x xs)
  from Cons.IH [of "cb_AddDevice x one"] show ?case
    by (auto simp: cb_AddDevice_eq)
qed

text \<open>
  What a connected temperature controller is: configured as its section says, coupled to the session,
  reporting to this object, and ready for a polling round.
\<close>

definition cooler_ready :: "'b cb_ops \<Rightarrow> param_config \<Rightarrow> nat option \<Rightarrow> annex \<Rightarrow> ('b, cooler_data) controller \<Rightarrow> bool" where
  "cooler_ready B p tcp a c \<longleftrightarrow> ct_portname c = ax_portName a \<and> set (ct_allDev c) = set (ax_idd a) \<and>
     distinct (ct_allDev c) \<and> ct_drct c = [] \<and> flags_of c [0x3A] [0x0D, 0x0A] \<and> ct_tcp c = tcp \<and>
     ct_grpid c = pa_groupid p \<and> ct_cbrslt c \<and>
     (\<exists>sp. port_ready B (started c [Ser (Async_read SERIAL_BUFF_SIZE)]) sp [])"

lemma connect_one_cooler:
  assumes "circular_buffer B" and "ax_portName a \<noteq> ''''" and "fst (se_open (E (ax_portName a))) = 0"
  shows "\<exists>c effs. connect_serial B E 1 a st =
      (True, st\<lparr>ac_cctl := ac_cctl st @ [(se_address (E (ax_portName a)), c)]\<rparr>, effs) \<and>
    cooler_ready B (ac_param st) (ac_tcp st) a c"
proof -
  let ?e = "E (ax_portName a)"
  let ?one = "cb_RegisterResult (make_cooler (se_memory ?e) (se_text ?e)) :: ('a, cooler_data) controller"
  let ?effs = "[Ser (Set_options (ax_baudRate a)), Ser (Async_read SERIAL_BUFF_SIZE)]"
  obtain one' where start: "cb_Start B (se_serial ?e) (ax_portName a) (ax_baudRate a) (se_open ?e) ?one = (0, one', ?effs)"
    and one': "ct_head one' = [0x3A]" "ct_tail one' = [0x0D, 0x0A]" "ct_nhead one' = 1" "ct_ntail one' = 2"
      "ct_tcp one' = None" "ct_cbrslt one'" "ct_drct one' = []" "ct_allDev one' = []"
    using assms(2,3) by (auto simp: cb_Start_def Let_def sc_Open_def make_serial_def sc_RegisterRead_def
        sc_RegisterWrite_def sc_start_read_def make_cooler_def new_controller_def cb_RegisterResult_def)
  obtain sp where ready: "port_ready B (started one' ?effs) sp []" and port: "ct_portname one' = ax_portName a"
    using start_ready [OF assms(1) start] by blast
  let ?two = "cb_SetDatabase (pa_urlDB (ac_param st)) (cb_CoupleNetwork (ac_tcp st) (pa_groupid (ac_param st)) one')"
  obtain ds where ds: "add_devices (ax_idd a) ?two = ?two\<lparr>ct_allDev := ds\<rparr>" "set ds = set (ax_idd a)" "distinct ds"
  proof -
    have "ct_allDev ?two = []"
      using one'(8) by (simp add: cb_SetDatabase_def cb_CoupleNetwork_def)
    then show ?thesis
      using that add_devices_frame [of "ax_idd a" ?two] by auto
  qed
  have "cooler_ready B (ac_param st) (ac_tcp st) a (?two\<lparr>ct_allDev := ds\<rparr>)"
    using ready port one' ds(2,3)
    by (auto simp: cooler_ready_def flags_of_def cb_SetDatabase_def cb_CoupleNetwork_def port_ready_def started_def)
  moreover have "connect_serial B E 1 a st =
      (True, st\<lparr>ac_cctl := ac_cctl st @ [(se_address ?e, ?two\<lparr>ct_allDev := ds\<rparr>)]\<rparr>,
       map (Ac_ctl (se_address ?e)) ?effs @ [Ac_log ''SUCCED: connection with COOLER''])"
    by (simp add: connect_serial_def connect_serial_cooler_def Let_def start ds(1))
  ultimately show ?thesis by blast
qed

lemma connect_all_coolers:
  assumes "circular_buffer B" and "\<forall>a\<in>set as. ax_portName a \<noteq> '''' \<and> fst (se_open (E (ax_portName a))) = 0"
  shows "\<exists>cs effs. connect_coolers S B E True as st = (True, st\<lparr>ac_cctl := ac_cctl st @ cs\<rparr>, effs) \<and>
    list_all2 (cooler_ready B (ac_param st) (ac_tcp st)) as (map snd cs)"
  using assms(2)
proof (induction as arbitrary: st)
  case Nil
  show ?case by (cases st) (auto intro: exI [of _ "[]"])
next
  case (Cons a as)
  obtain c effs where one: "connect_serial B E 1 a st =
      (True, st\<lparr>ac_cctl := ac_cctl st @ [(se_address (E (ax_portName a)), c)]\<rparr>, effs)"
    and ready: "cooler_ready B (ac_param st) (ac_tcp st) a c"
    using connect_one_cooler [OF assms(1), of a E st] Cons.prems by auto
  let ?st1 = "st\<lparr>ac_cctl := ac_cctl st @ [(se_address (E (ax_portName a)), c)]\<rparr>"
  obtain cs effs' where rest: "connect_coolers S B E True as ?st1 = (True, ?st1\<lparr>ac_cctl := ac_cctl ?st1 @ cs\<rparr>, effs')"
    and all: "list_all2 (cooler_ready B (ac_param st) (ac_tcp st)) as (map snd cs)"
    using Cons.IH [of ?st1] Cons.prems by auto
  show ?case
    using one rest ready all
    by (intro exI [of _ "(se_address (E (ax_portName a)), c) # cs"]) simp
qed

section \<open>Properties\<close>


definition sample_start :: "string \<Rightarrow> start_env" where
  "sample_start port = \<lparr>se_address = int (length port), se_memory = replicate 512 0, se_text = '''',
     se_serial = [], se_open = (0, '''')\<rparr>"

definition sample_ac :: "((nat \<times> msg_unit) list, ring) annex_control" where
  "sample_ac = new_annex_control (fst (InitFile boost_ref '''' 0))"


text \<open>
  C25. No report ever reaches its handler. The message codes of the class start at zero, below the first
  user message, so \<open>RegisterMessage\<close> refuses all five handlers. After a successful \<open>StartService\<close>, when a
  controller reports an error or the session reports data or its end, the message thread takes the
  message and calls nothing: no controller is removed or decoupled, no session is dropped, and no
  reconnection is begun.
\<close>

theorem reports_never_handled:
  assumes "mq_laws Q contents" and "StartService S B Q E session ok (new_annex_control p) = (True, st, effs)"
  shows "(\<exists>st1 mq. cooler_receive Q client ec st = Some st1 \<and>
      ac_message_round Q st1 = Some (Inr (True, st\<lparr>ac_mq := mq\<rparr>, []))) \<and>
    (\<exists>st1 mq. vacuum_receive Q client ec st = Some st1 \<and>
      ac_message_round Q st1 = Some (Inr (True, st\<lparr>ac_mq := mq\<rparr>, []))) \<and>
    (\<exists>st1 mq. network_receive Q client ec st = Some st1 \<and>
      ac_message_round Q st1 = Some (Inr (True, st\<lparr>ac_mq := mq\<rparr>, [])))"
proof -
  obtain q where q: "mq_q (ac_mq st) = Some q" "contents q = []" "mq_funcs (ac_mq st) = (\<lambda>_. [])"
    using started_queue [OF assms] by blast
  have "\<exists>st1 mq. ac_post Q m p1 p2 st = Some st1 \<and> ac_message_round Q st1 = Some (Inr (True, st\<lparr>ac_mq := mq\<rparr>, []))"
    if "m \<noteq> MSG_QUIT" for m p1 p2
    using posted_round [OF assms(1) q, of m p1 p2] that by simp
  then show ?thesis
    by (simp add: cooler_receive_def vacuum_receive_def network_receive_def ac_messages MSG_QUIT_def)
qed

lemma sample_ac_starts:
  "\<exists>st effs. StartService boost_ref ring_ops list_mq sample_start 1 True sample_ac = (True, st, effs) \<and>
     length (ac_cctl st) = 1"
proof -
  have "pa_cooler (ac_param sample_ac) =
      [\<lparr>ax_portName = ''/dev/ttyS0'', ax_baudRate = 9600, ax_n = 2, ax_idd = init_devices 2\<rparr>]"
    "ac_cctl sample_ac = []" "pa_bServer (ac_param sample_ac) = False"
    by (simp_all add: sample_ac_def new_annex_control_def InitFile_def Let_def)
  then show ?thesis
    using connect_all_coolers [OF ring.circular_buffer_axioms, of "pa_cooler (ac_param sample_ac)" sample_start
        boost_ref "sample_ac\<lparr>ac_mq := new_message_queue\<lparr>mq_q := Some [], mq_thread := True\<rparr>\<rparr>"]
    by (fastforce simp: StartService_def register_messages_nothing Let_def connect_server_def connect_cooler_def
        sample_start_def mq_Start_def list_mq_def list_all2_Cons1 sample_ac_def new_annex_control_def
        new_message_queue_def)
qed

theorem reports_never_handled_witness:
  "\<exists>(st :: ((nat \<times> msg_unit) list, ring) annex_control) st1 st2. length (ac_cctl st) = 1 \<and> cooler_receive list_mq 11 3 st = Some st1 \<and>
     ac_message_round list_mq st1 = Some (Inr (True, st2, [])) \<and> ac_cctl st2 = ac_cctl st"
proof -
  obtain st effs where start: "StartService boost_ref ring_ops list_mq sample_start 1 True
      (new_annex_control (fst (InitFile boost_ref '''' 0))) = (True, st, effs)" and one: "length (ac_cctl st) = 1"
    using sample_ac_starts by (auto simp: sample_ac_def)
  obtain st1 mq where "cooler_receive list_mq 11 3 st = Some st1"
    and "ac_message_round list_mq st1 = Some (Inr (True, st\<lparr>ac_mq := mq\<rparr>, []))"
    using reports_never_handled [OF list_mq.mq_laws_axioms start, of 11 3] by blast
  then show ?thesis
    using one by (intro exI [of _ st] exI [of _ st1] exI [of _ "st\<lparr>ac_mq := mq\<rparr>"]) simp
qed

text \<open>
  The first result of an asynchronous connection ends the message service: its code equals the quit
  code of the queue, so the message thread terminates when it receives it, whether the connection
  succeeded or not, and the handler that would couple the controllers is not called.
\<close>

theorem connect_result_ends_messages:
  assumes "mq_laws Q contents" and "StartService S B Q E session ok (new_annex_control p) = (True, st, effs)"
  shows "\<exists>st1 mq. network_connect Q client ec st = Some st1 \<and>
    ac_message_round Q st1 = Some (Inr (False, st\<lparr>ac_mq := mq\<rparr>, []))"
proof -
  obtain q where q: "mq_q (ac_mq st) = Some q" "contents q = []" "mq_funcs (ac_mq st) = (\<lambda>_. [])"
    using started_queue [OF assms] by blast
  show ?thesis
    using posted_round [OF assms(1) q, of MSG_CONNECT_NETWORK client ec]
    by (simp add: network_connect_def ac_messages MSG_QUIT_def)
qed

theorem connect_result_ends_messages_witness:
  "\<exists>(st :: ((nat \<times> msg_unit) list, ring) annex_control) st1 st2. network_connect list_mq 1 0 st = Some st1 \<and>
     ac_message_round list_mq st1 = Some (Inr (False, st2, [])) \<and> length (ac_cctl st) = 1"
proof -
  obtain st effs where start: "StartService boost_ref ring_ops list_mq sample_start 1 True
      (new_annex_control (fst (InitFile boost_ref '''' 0))) = (True, st, effs)" and one: "length (ac_cctl st) = 1"
    using sample_ac_starts by (auto simp: sample_ac_def)
  from connect_result_ends_messages [OF list_mq.mq_laws_axioms start, of 1 0] one show ?thesis
    by blast
qed

lemma erase_address_eq:
  "erase_address a cs = (if a \<in> fst ` set cs
     then Inr (takeWhile (\<lambda>c. fst c \<noteq> a) cs @ tl (dropWhile (\<lambda>c. fst c \<noteq> a) cs)) else Inl Bad_iterator)"
  by (induction a cs rule: erase_address.induct) auto

text \<open>
  The handler of a closed controller removes exactly that controller from the list and keeps all
  others in order; for an address that is not in the list, as after a second report of the same
  controller, it erases the end iterator, which is undefined.
\<close>

theorem close_handler_removes:
  "on_close_cooler client ec st =
     (if client \<in> fst ` set (ac_cctl st)
      then Inr (st\<lparr>ac_cctl := takeWhile (\<lambda>c. fst c \<noteq> client) (ac_cctl st)
                     @ tl (dropWhile (\<lambda>c. fst c \<noteq> client) (ac_cctl st))\<rparr>,
                [Ac_log ''CLOSED: connection with cooler''])
      else Inl Bad_iterator)"
  by (simp add: on_close_cooler_def erase_address_eq)

end
