(* ===== verification/ControllerSafety.thy ===== *)
theory ControllerSafety
  imports AnnexControl
begin

text \<open>
  Type safety of a running controller. \<open>ctl_wf\<close> says what every member of the object holds while the
  three threads run, \<open>legal_event\<close> what the operating system promises about the completions it reports,
  and \<open>step_failure\<close> names the only ways in which an event can run into undefined behaviour. The
  locale \<open>safe_controller\<close> proves once that every legal event keeps the members well formed or fails in
  one of these ways; it is interpreted for both device controllers.
\<close>

section \<open>Well-formed states\<close>

definition port_wf :: "'b cb_ops \<Rightarrow> 'b serial_comm \<Rightarrow> bool" where
  "port_wf B sp \<longleftrightarrow> sc_is_open sp \<and> sc_cbrcv sp \<and> sc_cbsnd sp \<and> length (sc_bufrcv sp) = SERIAL_BUFF_SIZE \<and>
     cb_capacity B (sc_crcrcv sp) = SERIAL_BUFF_SIZE * 10 \<and> cb_capacity B (sc_crcsnd sp) = SERIAL_BUFF_SIZE * 10"

text \<open>\<open>data_ok\<close> is what the derived class keeps of its device numbers and readings.\<close>

definition ctl_wf :: "'b cb_ops \<Rightarrow> bytes \<Rightarrow> bytes \<Rightarrow> (byte list \<Rightarrow> 'd list \<Rightarrow> bool)
    \<Rightarrow> ('b, 'd) controller \<Rightarrow> bool" where
  "ctl_wf B hd_flag tail data_ok ct \<longleftrightarrow>
     (\<exists>sp. ct_serial ct = Some sp \<and> port_wf B sp) \<and> flags_of ct hd_flag tail \<and>
     length (ct_bufrcv ct) = SERIAL_BUFF_SIZE \<and> list_all sendable (ct_drct ct) \<and> ct_allDev ct \<noteq> [] \<and>
     asc_wf (ct_ascproto ct) \<and> data_ok (ct_allDev ct) (ct_data ct)"

text \<open>
  What boost::asio and the operating system promise: a read delivers at most as many bytes as were asked
  for, a write reports at most the bytes it was given, and an error has a code.
\<close>

fun legal_event :: "'b cb_ops \<Rightarrow> sys_event \<Rightarrow> ('b, 'd) sys \<Rightarrow> bool" where
  "legal_event B (Bytes d) s = (length d \<le> SERIAL_BUFF_SIZE)"
| "legal_event B (Sent n) s =
     (case ct_serial (sy_ctl s) of None \<Rightarrow> True | Some sp \<Rightarrow> n \<le> cb_size B (sc_crcsnd sp))"
| "legal_event B (Receive_error ec) s = (fst ec \<noteq> 0)"
| "legal_event B (Send_error ec) s = (fst ec \<noteq> 0)"
| "legal_event B ev s = True"

text \<open>The content of the receive buffer once the bytes of a completed read have been stored.\<close>

definition received_with :: "'b cb_ops \<Rightarrow> bytes \<Rightarrow> ('b, 'd) sys \<Rightarrow> bytes" where
  "received_with B d s = last_n (SERIAL_BUFF_SIZE * 10) (sc_received B (the (ct_serial (sy_ctl s))) @ d)"

definition long_frame :: "bytes \<Rightarrow> bytes \<Rightarrow> bytes \<Rightarrow> bool" where
  "long_frame hd_flag tail buf \<longleftrightarrow>
     (\<exists>noise body rest. one_frame hd_flag tail buf noise body rest \<and> SERIAL_BUFF_SIZE < length body + length tail)"

text \<open>
  The named failures: input that completes a frame longer than the 512 bytes of \<open>bufrcv_\<close>; input while no
  directive is pending, for a class that looks at the directive (\<open>needs_pending\<close>); a round of the
  responding thread with no directive; and a report whose text runs past the output buffer.
\<close>

fun step_failure :: "'b cb_ops \<Rightarrow> bool \<Rightarrow> bytes \<Rightarrow> bytes \<Rightarrow> sys_event \<Rightarrow> ('b, 'd) sys \<Rightarrow> ub_kind \<Rightarrow> bool" where
  "step_failure B needs_pending hd_flag tail (Bytes d) s u =
     (sy_reading s \<and> (long_frame hd_flag tail (received_with B d s) \<and> u = Out_of_bounds \<or>
        needs_pending \<and> ct_drct (sy_ctl s) = [] \<and> u = Empty_container))"
| "step_failure B needs_pending hd_flag tail (Respond e) s u =
     (sy_woken s \<and> (ct_drct (sy_ctl s) = [] \<and> u = Empty_container \<or>
        length (ct_drct (sy_ctl s)) = 1 \<and> (\<exists>h. ct_tcp (sy_ctl s) = Some h \<and> env_tcp_open e h) \<and> u = Out_of_bounds))"
| "step_failure B needs_pending hd_flag tail ev s u = False"

fun legal_run :: "'b cb_ops \<Rightarrow> ('b, 'd) methods \<Rightarrow> sys_event list \<Rightarrow> ('b, 'd) sys \<Rightarrow> bool" where
  "legal_run B M [] s = True"
| "legal_run B M (e # es) s =
     (legal_event B e s \<and> (case sys_step B M e s of Inl u \<Rightarrow> True | Inr s' \<Rightarrow> legal_run B M es s'))"

lemma ctl_wf_data:
  "ctl_wf B h t ok ct \<Longrightarrow> ok (ct_allDev ct) ds \<Longrightarrow> ctl_wf B h t ok (ct\<lparr>ct_data := ds\<rparr>)"
  by (simp add: ctl_wf_def flags_of_def)

lemma ctl_wf_port:
  "ctl_wf B h t ok ct \<Longrightarrow> port_wf B sp \<Longrightarrow> ctl_wf B h t ok (ct\<lparr>ct_serial := Some sp\<rparr>)"
  by (simp add: ctl_wf_def flags_of_def)

lemma ctl_wf_drct:
  "ctl_wf B h t ok ct \<Longrightarrow> list_all sendable ds \<Longrightarrow> ctl_wf B h t ok (ct\<lparr>ct_drct := ds\<rparr>)"
  by (simp add: ctl_wf_def flags_of_def)

lemma ctl_wf_proto:
  "ctl_wf B h t ok ct \<Longrightarrow> asc_wf a \<Longrightarrow> ctl_wf B h t ok (ct\<lparr>ct_ascproto := a\<rparr>)"
  by (simp add: ctl_wf_def flags_of_def)

lemma ctl_wf_tmlast: "ctl_wf B h t ok (ct\<lparr>ct_tmlast := x\<rparr>) \<longleftrightarrow> ctl_wf B h t ok ct"
  by (simp add: ctl_wf_def flags_of_def)

lemma ctl_wf_buf:
  "ctl_wf B h t ok ct \<Longrightarrow> length b = SERIAL_BUFF_SIZE \<Longrightarrow> ctl_wf B h t ok (ct\<lparr>ct_bufrcv := b\<rparr>)"
  by (simp add: ctl_wf_def flags_of_def)

lemmas ctl_wf_updates = ctl_wf_data ctl_wf_port ctl_wf_drct ctl_wf_proto ctl_wf_buf

lemma sy_ctl_emit [simp]: "sy_ctl (sys_emit es s) = sy_ctl s"
  by (simp add: sys_emit_def)

section \<open>Completed reads\<close>

context circular_buffer
begin

lemma first_send_wf:
  assumes "ctl_wf B h t ok ct" and "ct_drct ct \<noteq> []"
  shows "\<exists>ct' es. first_send B ct = Inr (ct', es) \<and> ctl_wf B h t ok ct'"
proof -
  obtain sp where sp: "ct_serial ct = Some sp" "port_wf B sp"
    using assms(1) by (auto simp: ctl_wf_def)
  obtain d ds where d: "ct_drct ct = d # ds"
    using assms(2) by (cases "ct_drct ct") auto
  obtain n sp' es where w: "sc_Write B sp (Some (dr_msg d)) (dr_len d) = (n, sp', es)"
    by (cases "sc_Write B sp (Some (dr_msg d)) (dr_len d)") auto
  then have "port_wf B sp'"
    using sp(2) by (auto simp: sc_Write_def Let_def port_wf_def capacity_push_all split: if_splits)
  then show ?thesis
    using assms(1) sp d w by (simp add: first_send_def port_wf_def ctl_wf_port)
qed

text \<open>What the receiving slot does with a buffer: nothing, or it decodes without input, or it cuts a frame.\<close>

lemma serial_read_cases:
  assumes port: "ct_serial ct = Some sp" and flags: "flags_of ct h t" and t: "t \<noteq> []"
  obtains (idle) "cb_serial_read B M 0 ct = Inr (ct, [])"
  | (no_head) "cb_serial_read B M 0 ct = and_then (vm_decode_data M (1 + int (length t)) ct)
      (\<lambda>(r, st'). Inr (st', if r = 0 then [Notify] else []))" and "h \<noteq> []"
  | (frame) noise body rest where "one_frame h t (sc_received B sp) noise body rest"
proof -
  let ?s = "sc_received B sp"
  define i where "i = (if ct_nhead ct \<noteq> 0 then sc_Lookup B sp (Some (ct_head ct)) (ct_nhead ct) 0 else 0)"
  define j where "j = (if i \<ge> 0 then sc_Lookup B sp (Some (ct_tail ct)) (ct_ntail ct) i else 0)"
  have rd: "cb_serial_read B M 0 ct = (if j > i
      then and_then (sc_Read B sp (Some (ct_bufrcv ct)) (j - i + ct_ntail ct) i) (\<lambda>(n, buf, sp').
        and_then (vm_decode_data M (j - i + ct_ntail ct) (ct\<lparr>ct_serial := Some sp', ct_bufrcv := the buf\<rparr>))
          (\<lambda>(r, st'). Inr (st', if r = 0 then [Notify] else [])))
      else Inr (ct, []))"
    by (simp add: cb_serial_read_def port Let_def i_def [symmetric] j_def [symmetric])
  consider "\<not> j > i" | "j > i" "i < 0" | "j > i" "i \<ge> 0" by linarith
  then show thesis
  proof cases
    case 1
    then show thesis using idle rd by simp
  next
    case 2
    then have h: "h \<noteq> []" and "i = -1"
      using flags serial.lookup_ge [of 0 h sp] by (auto simp: i_def flags_of_def split: if_splits)
    moreover have "j = 0"
      using 2 by (simp add: j_def)
    moreover have "ct\<lparr>ct_serial := Some sp, ct_bufrcv := ct_bufrcv ct\<rparr> = ct"
      using port by (cases ct) simp
    ultimately show thesis
      using no_head h rd flags by (simp add: sc_Read_def flags_of_def)
  next
    case 3
    have first_t: "first_occurrence t ?s (nat i) j"
      using serial.lookup_first [of "int (length t)" t i sp] 3 t flags by (simp add: j_def flags_of_def)
    then have occ: "occurs_at t ?s (nat j)" and lt: "nat i < nat j"
      and none: "\<And>q. nat i \<le> q \<Longrightarrow> q < nat j \<Longrightarrow> \<not> occurs_at t ?s q"
      using 3 by (auto simp: first_occurrence_def split: if_splits)
    have head: "if h = [] then i = 0 else occurs_at h ?s (nat i) \<and> (\<forall>q<nat i. \<not> occurs_at h ?s q)"
    proof (cases "h = []")
      case True
      then show ?thesis using flags by (simp add: i_def flags_of_def)
    next
      case False
      then have "first_occurrence h ?s 0 i"
        using serial.lookup_first [of "int (length h)" h 0 sp] flags by (simp add: i_def flags_of_def)
      then show ?thesis
        using False 3 by (auto simp: first_occurrence_def split: if_splits)
    qed
    let ?n = "take (nat i) ?s" and ?b = "slice (nat i) (nat j - nat i) ?s" and ?r = "drop (nat j + length t) ?s"
    have bound: "nat j + length t \<le> length ?s"
      using occ by (simp add: occurs_at_def)
    have "drop (nat j) ?s = t @ ?r"
      using occ unfolding occurs_at_def slice_def by (metis append_take_drop_id drop_drop add.commute)
    then have split: "?s = ?n @ ?b @ t @ ?r"
      using lt unfolding slice_def
      by (metis append_take_drop_id drop_drop le_add_diff_inverse2 less_imp_le_nat)
    have len: "length ?n = nat i" "length ?b = nat j - nat i"
      using bound lt by auto
    then have ends: "length ?n + length ?b = nat j" and "?b \<noteq> []"
      using lt by (linarith, metis length_0_conv zero_less_diff less_numeral_extra(3))
    have "if h = [] then ?n = [] else occurs_at h ?s (length ?n) \<and> list_all (\<lambda>q. \<not> occurs_at h ?s q) [0..<length ?n]"
      unfolding len(1) using head by (simp add: list_all_iff)
    moreover have "list_all (\<lambda>q. \<not> occurs_at t ?s q) [length ?n..<length ?n + length ?b]"
      unfolding ends len(1) using none by (auto simp: list_all_iff)
    ultimately have "one_frame h t ?s ?n ?b ?r"
      unfolding one_frame_def using split t \<open>?b \<noteq> []\<close> by (intro conjI)
    then show thesis by (rule frame)
  qed
qed

text \<open>What a completed read leaves of a well-formed controller.\<close>

lemma serial_read_wf:
  assumes wf: "ctl_wf B h t ok ct" and port: "ct_serial ct = Some sp" and "t \<noteq> []"
    and decode: "\<And>len ct r ct'. vm_decode_data M len ct = Inr (r, ct') \<Longrightarrow>
      (\<exists>ds. ct' = ct\<lparr>ct_data := ds\<rparr> \<and> (ok (ct_allDev ct) (ct_data ct) \<longrightarrow> ok (ct_allDev ct) ds))"
    and defined: "\<And>len ct u. vm_decode_data M len ct = Inl u \<Longrightarrow>
      pend \<and> ct_drct ct = [] \<and> u = Empty_container"
  shows "case cb_serial_read B M 0 ct of Inr (ct', es) \<Rightarrow> ctl_wf B h t ok ct'
    | Inl u \<Rightarrow> long_frame h t (sc_received B sp) \<and> u = Out_of_bounds \<or> pend \<and> ct_drct ct = [] \<and> u = Empty_container"
proof -
  have flags: "flags_of ct h t" and sp: "port_wf B sp"
    using wf port by (auto simp: ctl_wf_def)
  have decoded: "case and_then (vm_decode_data M len ct1) (\<lambda>(r, st'). Inr (st', if r = 0 then [Notify] else [])) of
      Inr (ct', es) \<Rightarrow> ctl_wf B h t ok ct' | Inl u \<Rightarrow> pend \<and> ct_drct ct1 = [] \<and> u = Empty_container"
    if "ctl_wf B h t ok ct1" for len ct1
  proof (cases "vm_decode_data M len ct1")
    case (Inl u)
    then show ?thesis using defined [OF Inl] by simp
  next
    case (Inr p)
    obtain r ct2 where p: "p = (r, ct2)" by (cases p)
    then obtain ds where "ct2 = ct1\<lparr>ct_data := ds\<rparr>" "ok (ct_allDev ct1) (ct_data ct1) \<longrightarrow> ok (ct_allDev ct1) ds"
      using decode [of len ct1 r ct2] Inr by blast
    moreover have "ok (ct_allDev ct1) (ct_data ct1)"
      using that by (simp add: ctl_wf_def)
    ultimately have "ctl_wf B h t ok ct2"
      using that by (auto intro: ctl_wf_data)
    then show ?thesis using Inr p by simp
  qed
  show ?thesis
    using port flags assms(3)
  proof (rule serial_read_cases [where M = M])
    assume "cb_serial_read B M 0 ct = Inr (ct, [])"
    then show ?thesis using wf by simp
  next
    assume "cb_serial_read B M 0 ct = and_then (vm_decode_data M (1 + int (length t)) ct)
        (\<lambda>(r, st'). Inr (st', if r = 0 then [Notify] else []))"
    then show ?thesis
      using decoded [OF wf, of "1 + int (length t)"] by (auto split: sum.splits)
  next
    fix noise body rest
    assume frame: "one_frame h t (sc_received B sp) noise body rest"
    show ?thesis
    proof (cases "length body + length t \<le> length (ct_bufrcv ct)")
      case False
      then have "long_frame h t (sc_received B sp)"
        using frame wf unfolding long_frame_def ctl_wf_def by (metis not_le)
      then show ?thesis
        using serial_read_long [OF port flags frame] False by simp
    next
      case True
      obtain c where c: "cb_capacity B c = cb_capacity B (sc_crcrcv sp)"
        and rd: "cb_serial_read B M 0 ct = and_then (vm_decode_data M (int (length body + length t))
          (ct\<lparr>ct_serial := Some (sp\<lparr>sc_crcrcv := c\<rparr>),
              ct_bufrcv := body @ t @ drop (length body + length t) (ct_bufrcv ct)\<rparr>))
          (\<lambda>(r, st'). Inr (st', if r = 0 then [Notify] else []))"
        using serial_read_frame [OF port flags frame True, of M] by blast
      have "port_wf B (sp\<lparr>sc_crcrcv := c\<rparr>)"
        using sp c by (simp add: port_wf_def)
      moreover have "length (body @ t @ drop (length body + length t) (ct_bufrcv ct)) = SERIAL_BUFF_SIZE"
        using wf True by (simp add: ctl_wf_def)
      ultimately have "ctl_wf B h t ok (ct\<lparr>ct_serial := Some (sp\<lparr>sc_crcrcv := c\<rparr>),
          ct_bufrcv := body @ t @ drop (length body + length t) (ct_bufrcv ct)\<rparr>)"
        by (intro ctl_wf_port ctl_wf_buf wf)
      from decoded [OF this, of "int (length body + length t)"] show ?thesis
        unfolding rd by (auto split: sum.splits)
    qed
  qed
qed

text \<open>Conversely, input that completes an overlong frame does write past the end of \<open>bufrcv_\<close>.\<close>

lemma long_read_overflows:
  assumes wf: "ctl_wf B h t ok (sy_ctl s)" and "sy_reading s" and "length d \<le> SERIAL_BUFF_SIZE"
    and long: "long_frame h t (received_with B d s)"
  shows "sys_step B M (Bytes d) s = Inl Out_of_bounds"
proof -
  obtain sp where sp: "ct_serial (sy_ctl s) = Some sp" "port_wf B sp"
    using wf by (auto simp: ctl_wf_def)
  let ?sp1 = "(os_fill d sp)\<lparr>sc_crcrcv := cb_push_all B (sc_crcrcv sp) d\<rparr>"
  have rcv: "sc_received B ?sp1 = received_with B d s"
    using sp by (simp add: list_push_all received_with_def port_wf_def)
  obtain noise body rest where frame: "one_frame h t (sc_received B ?sp1) noise body rest"
    and len: "SERIAL_BUFF_SIZE < length body + length t"
    using long unfolding rcv long_frame_def by blast
  have "cb_serial_read B M 0 ((sy_ctl s)\<lparr>ct_serial := Some ?sp1\<rparr>) = Inl Out_of_bounds"
  proof (rule serial_read_long [OF _ _ frame])
    show "flags_of ((sy_ctl s)\<lparr>ct_serial := Some ?sp1\<rparr>) h t"
      using wf by (simp add: ctl_wf_def flags_of_def)
    show "length (ct_bufrcv ((sy_ctl s)\<lparr>ct_serial := Some ?sp1\<rparr>)) < length body + length t"
      using wf len by (simp add: ctl_wf_def)
  qed simp
  moreover have "sc_handle_read B (read_slot B M) (os_fill d sp, Inr (sy_ctl s, [])) (0, '''') (length d) =
      (read_slot B M 0 (?sp1, Inr (sy_ctl s, [])),
       sc_start_read (fst (read_slot B M 0 (?sp1, Inr (sy_ctl s, [])))))"
    using sp(2) by (simp add: sc_handle_read_def Let_def os_fill_def port_wf_def)
  ultimately show ?thesis
    using assms(2) sp(1) by (simp add: sys_port_def read_slot_def on_serial_def)
qed

text \<open>
  Without a head flag, a tail flag at the front of the buffer stays there: \<open>serial_read\<close> finds it at
  position 0, which is not past the head, and takes nothing out.
\<close>

lemma leading_tail_step:
  assumes wf: "ctl_wf B [] t ok (sy_ctl s)" and "t \<noteq> []" and "sy_reading s" and "length d \<le> SERIAL_BUFF_SIZE"
    and rcvd: "sc_received B (the (ct_serial (sy_ctl s))) = t @ r"
    and room: "length (t @ r @ d) \<le> SERIAL_BUFF_SIZE * 10"
  shows "\<exists>s' sp'. sys_step B M (Bytes d) s = Inr s' \<and> sy_ctl s' = (sy_ctl s)\<lparr>ct_serial := Some sp'\<rparr> \<and> port_wf B sp' \<and>
    sc_received B sp' = t @ r @ d \<and> sy_reading s' \<and>
    sy_out s' = sy_out s @ [Ser (Async_read SERIAL_BUFF_SIZE)] \<and> sy_woken s' = sy_woken s"
proof -
  obtain sp where sp: "ct_serial (sy_ctl s) = Some sp" "port_wf B sp"
    using wf by (auto simp: ctl_wf_def)
  let ?sp1 = "(os_fill d sp)\<lparr>sc_crcrcv := cb_push_all B (sc_crcrcv sp) d\<rparr>"
  let ?ct1 = "(sy_ctl s)\<lparr>ct_serial := Some ?sp1\<rparr>"
  have rcv: "sc_received B ?sp1 = t @ r @ d"
    using sp rcvd room by (simp add: list_push_all port_wf_def)
  have p1: "port_wf B ?sp1"
    using sp(2) assms(4) by (simp add: port_wf_def os_fill_def capacity_push_all)
  have flags: "flags_of ?ct1 [] t"
    using wf by (simp add: ctl_wf_def flags_of_def)
  have "sc_Lookup B ?sp1 (Some t) (int (length t)) 0 = 0"
    using serial.lookup_eq [of 0 t 0 ?sp1] occurs_at_middle [of t "[]" "r @ d"] rcv assms(2) by simp
  then have "cb_serial_read B M 0 ?ct1 = Inr (?ct1, [])"
    using flags by (simp add: cb_serial_read_def flags_of_def Let_def)
  moreover have "sc_handle_read B (read_slot B M) (os_fill d sp, Inr (sy_ctl s, [])) (0, '''') (length d) =
      (read_slot B M 0 (?sp1, Inr (sy_ctl s, [])),
       sc_start_read (fst (read_slot B M 0 (?sp1, Inr (sy_ctl s, [])))))"
    using sp(2) by (simp add: sc_handle_read_def Let_def os_fill_def port_wf_def)
  ultimately have "sys_step B M (Bytes d) s = Inr (sys_emit (map Ser (sc_start_read ?sp1))
      (s\<lparr>sy_reading := False, sy_ctl := ?ct1\<rparr>))"
    using assms(3) sp(1) by (simp add: sys_port_def read_slot_def on_serial_def)
  then show ?thesis
    using rcv p1 by (intro exI [of _ "sys_emit (map Ser (sc_start_read ?sp1)) (s\<lparr>sy_reading := False, sy_ctl := ?ct1\<rparr>)"]
        exI [of _ ?sp1]) (auto simp: sys_emit_def sc_start_read_def port_wf_def)
qed

lemma leading_tail_run:
  assumes "ctl_wf B [] t ok (sy_ctl s)" and "t \<noteq> []" and "sy_reading s" and "list_all (\<lambda>d. length d \<le> SERIAL_BUFF_SIZE) ds"
    and "sc_received B (the (ct_serial (sy_ctl s))) = t @ r"
    and "length (t @ r @ concat ds) \<le> SERIAL_BUFF_SIZE * 10"
  shows "\<exists>s' sp'. sys_run B M (map Bytes ds) s = Inr s' \<and> sy_ctl s' = (sy_ctl s)\<lparr>ct_serial := Some sp'\<rparr> \<and>
    sc_received B sp' = t @ r @ concat ds \<and>
    sy_out s' = sy_out s @ replicate (length ds) (Ser (Async_read SERIAL_BUFF_SIZE)) \<and> sy_woken s' = sy_woken s"
  using assms
proof (induction ds arbitrary: s r)
  case Nil
  obtain sp where "ct_serial (sy_ctl s) = Some sp"
    using Nil.prems(1) by (auto simp: ctl_wf_def)
  moreover from this have "(sy_ctl s)\<lparr>ct_serial := Some sp\<rparr> = sy_ctl s" by simp
  ultimately show ?case using Nil.prems(5) by (intro exI [of _ s] exI [of _ sp]) simp
next
  case (Cons d ds)
  obtain s1 sp1 where s1: "sys_step B M (Bytes d) s = Inr s1" "sy_ctl s1 = (sy_ctl s)\<lparr>ct_serial := Some sp1\<rparr>"
    "port_wf B sp1" "sc_received B sp1 = t @ r @ d" "sy_reading s1"
    "sy_out s1 = sy_out s @ [Ser (Async_read SERIAL_BUFF_SIZE)]" "sy_woken s1 = sy_woken s"
    using leading_tail_step [of t ok s d r M] Cons.prems by auto
  have "\<exists>s' sp'. sys_run B M (map Bytes ds) s1 = Inr s' \<and> sy_ctl s' = (sy_ctl s1)\<lparr>ct_serial := Some sp'\<rparr> \<and>
    sc_received B sp' = t @ (r @ d) @ concat ds \<and>
    sy_out s' = sy_out s1 @ replicate (length ds) (Ser (Async_read SERIAL_BUFF_SIZE)) \<and> sy_woken s' = sy_woken s1"
    using s1 Cons.prems by (intro Cons.IH) (simp_all add: ctl_wf_port)
  then show ?case
    using s1 by (fastforce simp del: sys_step.simps)
qed

end

section \<open>Every event\<close>

locale safe_controller = polled_controller M plan B
  for M :: "('b, 'd) methods" and plan :: "byte \<Rightarrow> directive list" and B :: "'b cb_ops" +
  fixes head_flag :: bytes and tail_flag :: bytes and needs_pending :: bool
    and data_ok :: "byte list \<Rightarrow> 'd list \<Rightarrow> bool"
  assumes tail_nonempty: "tail_flag \<noteq> []"
    and decode_defined: "vm_decode_data M len ct = Inl u \<Longrightarrow>
      needs_pending \<and> ct_drct ct = [] \<and> u = Empty_container"
    and check_ok: "data_ok (ct_allDev ct) (ct_data ct) \<Longrightarrow>
      data_ok (ct_allDev ct) (ct_data (vm_check_data M (length (ct_allDev ct)) ct))"
    and decode_ok: "vm_decode_data M len ct = Inr (r, ct') \<Longrightarrow> data_ok (ct_allDev ct) (ct_data ct) \<Longrightarrow>
      data_ok (ct_allDev ct) (ct_data ct')"
    and log_ok: "data_ok (ct_allDev ct) (ct_data ct) \<Longrightarrow>
      data_ok (ct_allDev ct) (ct_data (fst (vm_write_log M ct)))"
    and respond_ok: "vm_network_respond M h ct = Inr (ct', effs) \<Longrightarrow> asc_wf (ct_ascproto ct) \<Longrightarrow>
      asc_wf (ct_ascproto ct')"
    and respond_defined: "vm_network_respond M h ct = Inl u \<Longrightarrow> u = Out_of_bounds"
begin

abbreviation wf :: "('b, 'd) controller \<Rightarrow> bool" where
  "wf \<equiv> ctl_wf B head_flag tail_flag data_ok"

lemma cycle_wf:
  assumes "wf ct"
  shows "\<exists>ct' es. cycle_body B M ct = Inr (ct', es) \<and> wf ct'"
proof (cases "ct_drct ct = []")
  case False
  then show ?thesis using assms cycle_busy by auto
next
  case True
  obtain ds where ds: "vm_check_data M (length (ct_allDev ct)) ct = ct\<lparr>ct_data := ds\<rparr>"
    using check_frame by blast
  have "data_ok (ct_allDev ct) ds"
    using check_ok [of ct] assms ds by (simp add: ctl_wf_def)
  then have "wf (ct\<lparr>ct_data := ds, ct_drct := concat (map plan (ct_allDev ct))\<rparr>)"
    using assms plan_sendable by (intro ctl_wf_drct ctl_wf_data) (auto simp: list_all_iff)
  moreover have "concat (map plan (ct_allDev ct)) \<noteq> []"
    using assms plan_nonempty by (cases "ct_allDev ct") (auto simp: ctl_wf_def)
  ultimately obtain ct' es where "first_send B (ct\<lparr>ct_data := ds, ct_drct := concat (map plan (ct_allDev ct))\<rparr>)
      = Inr (ct', es)" "wf ct'"
    using first_send_wf [of head_flag tail_flag data_ok
        "ct\<lparr>ct_data := ds, ct_drct := concat (map plan (ct_allDev ct))\<rparr>"] by auto
  then show ?thesis
    using True ds by (simp add: cycle_body_def generate_all_eq)
qed

lemma respond_wf:
  assumes "wf ct"
  shows "case respond_body B M e ct of Inr (ct', es) \<Rightarrow> wf ct'
    | Inl u \<Rightarrow> ct_drct ct = [] \<and> u = Empty_container \<or>
        length (ct_drct ct) = 1 \<and> (\<exists>h. ct_tcp ct = Some h \<and> env_tcp_open e h) \<and> u = Out_of_bounds"
proof (cases "ct_drct ct")
  case Nil
  then show ?thesis by (simp add: respond_empty)
next
  case (Cons d ds)
  let ?ct1 = "ct\<lparr>ct_tmlast := env_local e, ct_drct := ds\<rparr>"
  have "list_all sendable ds"
    using assms Cons by (simp add: ctl_wf_def)
  then have wf1: "wf ?ct1"
    using assms by (intro ctl_wf_drct) (simp_all add: ctl_wf_tmlast)
  show ?thesis
  proof (cases "ds = []")
    case False
    then show ?thesis
      using first_send_wf [OF wf1] Cons by (auto simp: respond_body_def remove_directive_def)
  next
    case True
    obtain data logs where w: "vm_write_log M ?ct1 = (?ct1\<lparr>ct_data := data\<rparr>, logs)"
      using log_frame [of ?ct1] by blast
    then have "data_ok (ct_allDev ?ct1) data"
      using log_ok [of ?ct1] wf1 by (simp add: ctl_wf_def)
    then have wf2: "wf (?ct1\<lparr>ct_data := data\<rparr>)"
      by (intro ctl_wf_data wf1)
    have body: "respond_body B M e ct = (let ups = (if ct_db ct \<noteq> None then vm_upload_database M e (?ct1\<lparr>ct_data := data\<rparr>) else [])
        in case ct_tcp ct of None \<Rightarrow> Inr (?ct1\<lparr>ct_data := data\<rparr>, logs @ ups)
        | Some h \<Rightarrow> if env_tcp_open e h
            then and_then (vm_network_respond M h (?ct1\<lparr>ct_data := data\<rparr>)) (\<lambda>(st3, nets). Inr (st3, logs @ ups @ nets))
            else Inr (?ct1\<lparr>ct_data := data\<rparr>, logs @ ups))"
      using Cons True w by (cases "ct_tcp ct") (simp_all add: respond_body_def remove_directive_def Let_def)
    show ?thesis
    proof (cases "\<exists>h. ct_tcp ct = Some h \<and> env_tcp_open e h")
      case False
      then show ?thesis
        unfolding body using wf2 by (auto simp: Let_def split: option.splits)
    next
      case sending: True
      then obtain h where h: "ct_tcp ct = Some h" "env_tcp_open e h" by blast
      show ?thesis
      proof (cases "vm_network_respond M h (?ct1\<lparr>ct_data := data\<rparr>)")
        case (Inl u)
        then show ?thesis
          unfolding body using h Cons True respond_defined [OF Inl] by (simp add: Let_def)
      next
        case (Inr p)
        obtain ct3 nets where p: "p = (ct3, nets)" by (cases p)
        then obtain a where a: "ct3 = (?ct1\<lparr>ct_data := data\<rparr>)\<lparr>ct_ascproto := a\<rparr>"
          using respond_frame Inr by blast
        then have "asc_wf a"
          using respond_ok [of h "?ct1\<lparr>ct_data := data\<rparr>" ct3 nets] Inr p wf2 by (simp add: ctl_wf_def)
        then have "wf ct3"
          using ctl_wf_proto [OF wf2] a by simp
        then show ?thesis
          unfolding body using h Inr p by (simp add: Let_def)
      qed
    qed
  qed
qed

lemma read_slot_wf:
  assumes "wf ct" and "port_wf B sp"
  shows "case snd (read_slot B M 0 (sp, Inr (ct, []))) of
      Inr (ct', es) \<Rightarrow> wf ct' \<and> port_wf B (fst (read_slot B M 0 (sp, Inr (ct, []))))
    | Inl u \<Rightarrow> long_frame head_flag tail_flag (sc_received B sp) \<and> u = Out_of_bounds \<or>
        needs_pending \<and> ct_drct ct = [] \<and> u = Empty_container"
proof -
  let ?ct = "ct\<lparr>ct_serial := Some sp\<rparr>"
  have dec: "\<exists>ds. ct' = ct\<lparr>ct_data := ds\<rparr> \<and> (data_ok (ct_allDev ct) (ct_data ct) \<longrightarrow> data_ok (ct_allDev ct) ds)"
    if d: "vm_decode_data M len ct = Inr (r, ct')" for len ct r ct'
  proof -
    obtain ds where "ct' = ct\<lparr>ct_data := ds\<rparr>"
      using decode_frame [OF d] by blast
    then show ?thesis using decode_ok [OF d] by auto
  qed
  have read: "case cb_serial_read B M 0 ?ct of Inr (ct', es) \<Rightarrow> wf ct'
    | Inl u \<Rightarrow> long_frame head_flag tail_flag (sc_received B sp) \<and> u = Out_of_bounds \<or>
        needs_pending \<and> ct_drct ?ct = [] \<and> u = Empty_container"
    by (rule serial_read_wf [OF ctl_wf_port [OF assms] _ tail_nonempty dec decode_defined]) simp
  show ?thesis
  proof (cases "cb_serial_read B M 0 ?ct")
    case (Inl u)
    then show ?thesis using read by (simp add: read_slot_def on_serial_def)
  next
    case (Inr p)
    obtain ct' es where p: "p = (ct', es)" by (cases p)
    then have "wf ct'" using read Inr by simp
    moreover from this obtain sp' where "ct_serial ct' = Some sp'" "port_wf B sp'"
      by (auto simp: ctl_wf_def)
    ultimately show ?thesis using Inr p by (simp add: read_slot_def on_serial_def)
  qed
qed

lemma bytes_wf:
  assumes wf: "wf (sy_ctl s)" and "length d \<le> SERIAL_BUFF_SIZE"
  shows "case sys_step B M (Bytes d) s of Inr s' \<Rightarrow> wf (sy_ctl s')
    | Inl u \<Rightarrow> step_failure B needs_pending head_flag tail_flag (Bytes d) s u"
proof (cases "sy_reading s")
  case False
  then show ?thesis using wf by simp
next
  case True
  obtain sp where sp: "ct_serial (sy_ctl s) = Some sp" "port_wf B sp"
    using wf by (auto simp: ctl_wf_def)
  let ?sp1 = "(os_fill d sp)\<lparr>sc_crcrcv := cb_push_all B (sc_crcrcv sp) d\<rparr>"
  have p1: "port_wf B ?sp1"
    using sp(2) assms(2) by (simp add: port_wf_def os_fill_def capacity_push_all)
  have rcv: "sc_received B ?sp1 = received_with B d s"
    using sp by (simp add: list_push_all received_with_def port_wf_def)
  have slot: "sc_handle_read B (read_slot B M) (os_fill d sp, Inr (sy_ctl s, [])) (0, '''') (length d) =
      (read_slot B M 0 (?sp1, Inr (sy_ctl s, [])),
       sc_start_read (fst (read_slot B M 0 (?sp1, Inr (sy_ctl s, [])))))"
    using sp(2) by (simp add: sc_handle_read_def Let_def os_fill_def port_wf_def)
  obtain sp2 r where r: "read_slot B M 0 (?sp1, Inr (sy_ctl s, [])) = (sp2, r)"
    by (cases "read_slot B M 0 (?sp1, Inr (sy_ctl s, []))")
  have res: "case r of Inr (ct', es) \<Rightarrow> wf ct' \<and> port_wf B sp2
    | Inl u \<Rightarrow> long_frame head_flag tail_flag (received_with B d s) \<and> u = Out_of_bounds \<or>
        needs_pending \<and> ct_drct (sy_ctl s) = [] \<and> u = Empty_container"
    using read_slot_wf [OF wf p1] unfolding r rcv fst_conv snd_conv .
  have step: "sys_step B M (Bytes d) s = and_then r (\<lambda>(ct, es). Inr (sys_emit (es @ map Ser (sc_start_read sp2))
      (s\<lparr>sy_reading := False, sy_ctl := ct\<lparr>ct_serial := Some sp2\<rparr>\<rparr>)))"
    using True sp(1) by (simp add: sys_port_def slot r)
  show ?thesis
  proof (cases r)
    case (Inl u)
    then show ?thesis using res True unfolding step by simp
  next
    case (Inr p)
    then show ?thesis using res unfolding step by (cases p) (simp add: ctl_wf_port)
  qed
qed

lemma write_handler_wf:
  assumes wf: "wf (sy_ctl s)" and sp: "ct_serial (sy_ctl s) = Some sp"
    and n: "fst ec = 0 \<longrightarrow> n \<le> cb_size B (sc_crcsnd sp)"
  shows "\<exists>s'. sys_port (\<lambda>pr. sc_handle_write B write_slot pr ec n) s = Inr s' \<and> wf (sy_ctl s')"
proof -
  let ?sp' = "if fst ec = 0 then sp\<lparr>sc_crcsnd := cb_erase_begin B (sc_crcsnd sp) n\<rparr> else sp\<lparr>sc_errmsg := snd ec\<rparr>"
  have "port_wf B sp" using wf sp by (auto simp: ctl_wf_def)
  then have "port_wf B ?sp'" and "sc_cbsnd sp"
    using n by (auto simp: port_wf_def capacity_erase_begin)
  then show ?thesis
    using wf sp by (auto simp: sys_port_def sc_handle_write_def Let_def write_slot_def on_serial_def
        ctl_wf_port)
qed

lemma receive_error_wf:
  assumes wf: "wf (sy_ctl s)" and sp: "ct_serial (sy_ctl s) = Some sp" and "fst ec \<noteq> 0"
  shows "\<exists>s'. sys_port (\<lambda>pr. sc_handle_read B (read_slot B M) pr ec 0) s = Inr s' \<and> wf (sy_ctl s')"
proof -
  have "port_wf B (sp\<lparr>sc_errmsg := snd ec\<rparr>)" and "sc_cbrcv sp"
    using wf sp by (auto simp: ctl_wf_def port_wf_def)
  then show ?thesis
    using wf sp assms(3) by (auto simp: sys_port_def sc_handle_read_def Let_def read_slot_def on_serial_def
        cb_serial_read_def ctl_wf_port)
qed

text \<open>Progress and preservation: a legal event keeps the state well formed or fails in a named way.\<close>

lemma step_safe:
  assumes wf: "wf (sy_ctl s)" and legal: "legal_event B ev s"
  shows "case sys_step B M ev s of Inr s' \<Rightarrow> wf (sy_ctl s')
    | Inl u \<Rightarrow> step_failure B needs_pending head_flag tail_flag ev s u"
proof -
  obtain sp where sp: "ct_serial (sy_ctl s) = Some sp"
    using wf by (auto simp: ctl_wf_def)
  show ?thesis
  proof (cases ev)
    case Cycle
    then show ?thesis using cycle_wf [OF wf] by auto
  next
    case (Bytes d)
    then have "length d \<le> SERIAL_BUFF_SIZE" using legal by simp
    from bytes_wf [OF wf this] show ?thesis unfolding Bytes .
  next
    case (Receive_error ec)
    have "wf (sy_ctl (s\<lparr>sy_reading := False\<rparr>))" using wf by simp
    from receive_error_wf [OF this, of sp ec] show ?thesis
      using Receive_error legal sp wf by auto
  next
    case (Sent n)
    then show ?thesis
      using write_handler_wf [OF wf sp, of "(0, '''')" n] legal sp by auto
  next
    case (Send_error ec)
    then show ?thesis
      using write_handler_wf [OF wf sp, of ec 0] legal by auto
  next
    case (Respond e)
    then show ?thesis
      using respond_wf [OF wf, of e] wf by (cases "respond_body B M e (sy_ctl s)") auto
  next
    case (Heartbeat e)
    then show ?thesis using wf by (auto split: prod.splits)
  qed
qed

text \<open>The same over a run: a run that ends undefined got there through well-formed states.\<close>

lemma run_safe:
  "wf (sy_ctl s) \<Longrightarrow> legal_run B M es s \<Longrightarrow>
   case sys_run B M es s of Inr s' \<Rightarrow> wf (sy_ctl s')
   | Inl u \<Rightarrow> \<exists>pre ev post s1. es = pre @ ev # post \<and> sys_run B M pre s = Inr s1 \<and> wf (sy_ctl s1) \<and>
       step_failure B needs_pending head_flag tail_flag ev s1 u"
proof (induction es arbitrary: s)
  case Nil
  then show ?case by simp
next
  case (Cons ev es)
  have legal: "legal_event B ev s"
    and later: "\<And>s1. sys_step B M ev s = Inr s1 \<Longrightarrow> legal_run B M es s1"
    using Cons.prems(2) by auto
  note safe = step_safe [OF Cons.prems(1) legal]
  show ?case
  proof (cases "sys_step B M ev s")
    case (Inl u)
    then have "step_failure B needs_pending head_flag tail_flag ev s u"
      using safe by simp
    moreover have run: "sys_run B M (ev # es) s = Inl u" and "sys_run B M [] s = Inr s"
      using Inl by simp_all
    moreover have "ev # es = [] @ ev # es" by simp
    ultimately show ?thesis
      unfolding run sum.case using Cons.prems(1) by (intro exI conjI)
  next
    case (Inr s1)
    then have run: "sys_run B M (ev # es) s = sys_run B M es s1" by simp
    have wf1: "wf (sy_ctl s1)" using safe unfolding Inr sum.case .
    note IH = Cons.IH [OF wf1 later [OF Inr]]
    show ?thesis
    proof (cases "sys_run B M es s1")
      case (Inr s')
      then show ?thesis using IH run by simp
    next
      case (Inl u)
      then obtain pre ev' post s2 where es: "es = pre @ ev' # post" and pre: "sys_run B M pre s1 = Inr s2"
        and rest: "wf (sy_ctl s2)" "step_failure B needs_pending head_flag tail_flag ev' s2 u"
        using IH by auto
      have "ev # es = (ev # pre) @ ev' # post" and "sys_run B M (ev # pre) s = Inr s2"
        using es pre \<open>sys_step B M ev s = Inr s1\<close> by simp_all
      with rest show ?thesis
        unfolding run Inl sum.case by (intro exI conjI)
    qed
  qed
qed


end

section \<open>The two device controllers\<close>

definition cooler_data_ok :: "byte list \<Rightarrow> cooler_data list \<Rightarrow> bool" where
  "cooler_data_ok devs ds \<longleftrightarrow> distinct devs \<and> map cd_idd ds = take (length ds) devs"

definition vacuum_data_ok :: "byte list \<Rightarrow> vacuum_data list \<Rightarrow> bool" where
  "vacuum_data_ok devs ds \<longleftrightarrow> distinct devs \<and> map vd_idd ds = take (length ds) devs"

lemma output_compacted_wf: "output_compacted S a t = Inr (pos, n, a') \<Longrightarrow> asc_wf a \<Longrightarrow> asc_wf a'"
  by (auto simp: output_compacted_def Let_def asc_wf_def split: if_splits)

lemma output_compacted_fails: "output_compacted S a t = Inl u \<Longrightarrow> u = Out_of_bounds"
  by (auto simp: output_compacted_def Let_def split: if_splits)

lemma cooler_report_wf:
  "case cooler_respond_from S N h gid p ds a of Inl u \<Rightarrow> u = Out_of_bounds
   | Inr (a', effs) \<Rightarrow> asc_wf a \<longrightarrow> asc_wf a'"
proof (induction ds arbitrary: p a)
  case Nil
  then show ?case by simp
next
  case (Cons d ds)
  let ?p = "cooler_message S N gid d p"
  show ?case
  proof (cases "output_compacted S a (compact_cooler_text S N ?p)")
    case (Inl u)
    then show ?thesis
      using output_compacted_fails [OF Inl] by (simp add: CompactCooler_def Let_def)
  next
    case (Inr q)
    obtain pos n a1 where q: "q = (pos, n, a1)" by (cases q)
    then have "asc_wf a \<longrightarrow> asc_wf a1"
      using output_compacted_wf Inr by blast
    then show ?thesis
      using Cons [of a1 ?p] Inr q
      by (cases "cooler_respond_from S N h gid ?p ds a1") (auto simp: CompactCooler_def Let_def)
  qed
qed

lemma vacuum_report_wf:
  "case vacuum_respond_from S N h gid p ds a of Inl u \<Rightarrow> u = Out_of_bounds
   | Inr (a', effs) \<Rightarrow> asc_wf a \<longrightarrow> asc_wf a'"
proof (induction ds arbitrary: p a)
  case Nil
  then show ?case by simp
next
  case (Cons d ds)
  let ?p = "vacuum_message S N gid d p"
  show ?case
  proof (cases "output_compacted S a (compact_vacuum_text S N ?p)")
    case (Inl u)
    then show ?thesis
      using output_compacted_fails [OF Inl] by (simp add: CompactVacuum_def Let_def)
  next
    case (Inr q)
    obtain pos n a1 where q: "q = (pos, n, a1)" by (cases q)
    then have "asc_wf a \<longrightarrow> asc_wf a1"
      using output_compacted_wf Inr by blast
    then show ?thesis
      using Cons [of a1 ?p] Inr q
      by (cases "vacuum_respond_from S N h gid ?p ds a1") (auto simp: CompactVacuum_def Let_def)
  qed
qed

lemma cooler_check_ok:
  assumes "cooler_data_ok (ct_allDev ct) (ct_data ct)"
  shows "cooler_data_ok (ct_allDev ct) (ct_data (cooler_check_data (length (ct_allDev ct)) ct))"
proof -
  have "map cd_idd (ct_data (cooler_check_data (length (ct_allDev ct)) ct)) = ct_allDev ct"
    using assms by (intro map_idd_check) (auto simp: cooler_slots_def cooler_data_ok_def)
  then show ?thesis
    using assms by (metis cooler_data_ok_def length_map order_refl take_all)
qed

lemma vacuum_check_ok:
  assumes "vacuum_data_ok (ct_allDev ct) (ct_data ct)"
  shows "vacuum_data_ok (ct_allDev ct) (ct_data (vacuum_check_data (length (ct_allDev ct)) ct))"
proof (cases "length (ct_allDev ct) = length (ct_data ct)")
  case True
  then show ?thesis using assms by (simp add: vacuum_check_data_def)
next
  case False
  have "length (resize_vacuum (length (ct_allDev ct)) (ct_data ct)) = length (ct_allDev ct)"
    by (simp add: resize_vacuum_def)
  then have "map vd_idd (ct_data (vacuum_check_data (length (ct_allDev ct)) ct)) = ct_allDev ct"
    using False by (auto simp: vacuum_check_data_def intro!: nth_equalityI simp: nth_enumerate_eq)
  then show ?thesis
    using assms by (metis vacuum_data_ok_def length_map order_refl take_all)
qed

lemma vd_idd_store [simp]: "vd_idd (vacuum_store N idf v d) = vd_idd d"
  by (simp add: vacuum_store_def vacuum_setters)

lemma map_vd_idd_store [simp]: "map vd_idd (ds[i := vacuum_store N idf v (ds ! i)]) = map vd_idd ds"
  by (cases "i < length ds") (auto intro!: nth_equalityI simp: nth_list_update)

lemma safe_cooler:
  assumes "circular_buffer B"
  shows "safe_controller (cooler_methods S N ind) cooler_plan B [0x0D, 0x0A] False cooler_data_ok"
proof (intro safe_controller.intro safe_controller_axioms.intro polled_cooler [OF assms])
  fix ct :: "('a, cooler_data) controller" and h ct' effs u
  show "cooler_data_ok (ct_allDev ct) (ct_data ct) \<Longrightarrow>
      cooler_data_ok (ct_allDev ct) (ct_data (vm_check_data (cooler_methods S N ind) (length (ct_allDev ct)) ct))"
    by (simp add: cooler_methods_def cooler_check_ok)
  show "vm_network_respond (cooler_methods S N ind) h ct = Inr (ct', effs) \<Longrightarrow> asc_wf (ct_ascproto ct) \<Longrightarrow>
      asc_wf (ct_ascproto ct')"
    using cooler_report_wf [of "ct_ascproto ct" S N h "ct_grpid ct" make_apcooler "ct_data ct"]
    by (auto simp: cooler_methods_def cooler_network_respond_def and_then_Inr_iff)
  show "vm_network_respond (cooler_methods S N ind) h ct = Inl u \<Longrightarrow> u = Out_of_bounds"
    using cooler_report_wf [of "ct_ascproto ct" S N h "ct_grpid ct" make_apcooler "ct_data ct"]
    by (cases "cooler_respond_from S N h (ct_grpid ct) make_apcooler (ct_data ct) (ct_ascproto ct)")
      (auto simp: cooler_methods_def cooler_network_respond_def)
qed (auto simp: cooler_methods_def cooler_write_log_def cooler_decode_data_def Let_def
    cooler_data_ok_def comp_def split: if_splits option.splits)

lemma safe_vacuum:
  assumes "circular_buffer B"
  shows "safe_controller (vacuum_methods S N) vacuum_plan B [0x0D] True vacuum_data_ok"
proof (intro safe_controller.intro safe_controller_axioms.intro polled_vacuum [OF assms])
  fix ct :: "('a, vacuum_data) controller" and h ct' effs u
  show "vacuum_data_ok (ct_allDev ct) (ct_data ct) \<Longrightarrow>
      vacuum_data_ok (ct_allDev ct) (ct_data (vm_check_data (vacuum_methods S N) (length (ct_allDev ct)) ct))"
    by (simp add: vacuum_methods_def vacuum_check_ok)
  show "vm_network_respond (vacuum_methods S N) h ct = Inr (ct', effs) \<Longrightarrow> asc_wf (ct_ascproto ct) \<Longrightarrow>
      asc_wf (ct_ascproto ct')"
    using vacuum_report_wf [of "ct_ascproto ct" S N h "ct_grpid ct" make_apvacuum "ct_data ct"]
    by (auto simp: vacuum_methods_def vacuum_network_respond_def and_then_Inr_iff)
  show "vm_network_respond (vacuum_methods S N) h ct = Inl u \<Longrightarrow> u = Out_of_bounds"
    using vacuum_report_wf [of "ct_ascproto ct" S N h "ct_grpid ct" make_apvacuum "ct_data ct"]
    by (cases "vacuum_respond_from S N h (ct_grpid ct) make_apvacuum (ct_data ct) (ct_ascproto ct)")
      (auto simp: vacuum_methods_def vacuum_network_respond_def)
qed (auto simp: vacuum_methods_def vacuum_write_log_def vacuum_decode_data_def Let_def
    vacuum_data_ok_def comp_def split: if_splits option.splits list.splits)

interpretation cooler_safe: safe_controller "cooler_methods S N ind" cooler_plan ring_ops
    "[0x3A]" "[0x0D, 0x0A]" False cooler_data_ok
  by (rule safe_cooler [OF ring.circular_buffer_axioms])

interpretation vacuum_safe: safe_controller "vacuum_methods S N" vacuum_plan ring_ops
    "[]" "[0x0D]" True vacuum_data_ok
  by (rule safe_vacuum [OF ring.circular_buffer_axioms])


section \<open>Controllers of the service\<close>

text \<open>What \<open>new\<close> gives the constructors: enough memory for the three buffers.\<close>

definition memory_ok :: "start_env \<Rightarrow> bool" where
  "memory_ok e \<longleftrightarrow> SERIAL_BUFF_SIZE \<le> length (se_memory e) \<and> 10240 \<le> length (se_text e) \<and>
     SERIAL_BUFF_SIZE \<le> length (se_serial e)"

lemma add_devices_nonempty: "ct_allDev one \<noteq> [] \<or> xs \<noteq> [] \<Longrightarrow> ct_allDev (add_devices xs one) \<noteq> []"
proof (induction xs arbitrary: one)
  case (Cons x xs)
  have "ct_allDev (cb_AddDevice x one) \<noteq> []"
    by (auto simp: cb_AddDevice_eq)
  then show ?case using Cons.IH by simp
qed simp

lemma started_port_wf:
  assumes "circular_buffer B" and "SERIAL_BUFF_SIZE \<le> length fresh"
    and "cb_Start B fresh portname baud ec st = (0, st', effs)"
  shows "\<exists>sp. st' = st\<lparr>ct_serial := Some sp, ct_portname := portname, ct_thrdCycle := True,
    ct_thrdRespond := True, ct_thrdHB := True\<rparr> \<and> port_wf B sp"
  using assms(2,3) circular_buffer.make_serial_empty [OF assms(1), of fresh]
  by (auto simp: cb_Start_def Let_def sc_Open_def sc_RegisterRead_def sc_RegisterWrite_def port_wf_def
      make_serial_def split: if_splits)

lemma connected_cooler_wf:
  assumes "circular_buffer B" and "memory_ok (E (ax_portName a))" and "ax_idd a \<noteq> []"
    and "connect_serial_cooler B E a st = (True, st', effs)"
  shows "\<exists>ct. ac_cctl st' = ac_cctl st @ [(se_address (E (ax_portName a)), ct)] \<and>
    ctl_wf B [0x3A] [0x0D, 0x0A] cooler_data_ok ct"
proof -
  let ?e = "E (ax_portName a)"
  let ?one = "cb_RegisterResult (make_cooler (se_memory ?e) (se_text ?e)) :: ('a, cooler_data) controller"
  obtain one' effs' where start: "cb_Start B (se_serial ?e) (ax_portName a) (ax_baudRate a) (se_open ?e) ?one = (0, one', effs')"
    using assms(4) by (auto simp: connect_serial_cooler_def Let_def split: prod.splits if_splits)
  let ?two = "cb_SetDatabase (pa_urlDB (ac_param st)) (cb_CoupleNetwork (ac_tcp st) (pa_groupid (ac_param st)) one')"
  obtain sp where one': "one' = ?one\<lparr>ct_serial := Some sp, ct_portname := ax_portName a, ct_thrdCycle := True,
      ct_thrdRespond := True, ct_thrdHB := True\<rparr>" and sp: "port_wf B sp"
    using started_port_wf [OF assms(1) _ start] assms(2) by (auto simp: memory_ok_def)
  obtain ds where ds: "add_devices (ax_idd a) ?two = ?two\<lparr>ct_allDev := ds\<rparr>" "distinct (ct_allDev ?two) \<longrightarrow> distinct ds"
    using add_devices_frame [of "ax_idd a" ?two] by blast
  moreover have "distinct (ct_allDev ?two)" and "ct_data ?two = []"
    by (auto simp: one' cb_SetDatabase_def cb_CoupleNetwork_def make_cooler_def new_controller_def cb_RegisterResult_def)
  moreover have "ds \<noteq> []"
    using add_devices_nonempty [of ?two "ax_idd a"] assms(3) ds(1) by auto
  ultimately have "ctl_wf B [0x3A] [0x0D, 0x0A] cooler_data_ok (add_devices (ax_idd a) ?two)"
    using sp assms(2) unfolding ds(1)
    by (auto simp: ctl_wf_def flags_of_def one' cb_SetDatabase_def cb_CoupleNetwork_def make_cooler_def
        new_controller_def cb_RegisterResult_def cooler_data_ok_def memory_ok_def asc_wf_def make_ascproto_def)
  moreover have "ac_cctl st' = ac_cctl st @ [(se_address ?e, add_devices (ax_idd a) ?two)]"
    using assms(4) by (auto simp: connect_serial_cooler_def Let_def start)
  ultimately show ?thesis by blast
qed

lemma connected_vacuum_wf:
  assumes "circular_buffer B" and "memory_ok (E (ax_portName a))" and "ax_idd a \<noteq> []"
    and "connect_serial_vacuum B E a st = (True, st', effs)"
  shows "\<exists>ct. ac_vctl st' = ac_vctl st @ [(se_address (E (ax_portName a)), ct)] \<and>
    ctl_wf B [] [0x0D] vacuum_data_ok ct"
proof -
  let ?e = "E (ax_portName a)"
  let ?one = "cb_RegisterResult (make_vacuum (se_memory ?e) (se_text ?e)) :: ('a, vacuum_data) controller"
  obtain one' effs' where start: "cb_Start B (se_serial ?e) (ax_portName a) (ax_baudRate a) (se_open ?e) ?one = (0, one', effs')"
    using assms(4) by (auto simp: connect_serial_vacuum_def Let_def split: prod.splits if_splits)
  let ?two = "cb_CoupleNetwork (ac_tcp st) (pa_groupid (ac_param st)) one'"
  obtain sp where one': "one' = ?one\<lparr>ct_serial := Some sp, ct_portname := ax_portName a, ct_thrdCycle := True,
      ct_thrdRespond := True, ct_thrdHB := True\<rparr>" and sp: "port_wf B sp"
    using started_port_wf [OF assms(1) _ start] assms(2) by (auto simp: memory_ok_def)
  obtain ds where ds: "add_devices (ax_idd a) ?two = ?two\<lparr>ct_allDev := ds\<rparr>" "distinct (ct_allDev ?two) \<longrightarrow> distinct ds"
    using add_devices_frame [of "ax_idd a" ?two] by blast
  moreover have "distinct (ct_allDev ?two)" and "ct_data ?two = []"
    by (auto simp: one' cb_CoupleNetwork_def make_vacuum_def new_controller_def cb_RegisterResult_def)
  moreover have "ds \<noteq> []"
    using add_devices_nonempty [of ?two "ax_idd a"] assms(3) ds(1) by auto
  ultimately have "ctl_wf B [] [0x0D] vacuum_data_ok (add_devices (ax_idd a) ?two)"
    using sp assms(2) unfolding ds(1)
    by (auto simp: ctl_wf_def flags_of_def one' cb_CoupleNetwork_def make_vacuum_def
        new_controller_def cb_RegisterResult_def vacuum_data_ok_def memory_ok_def asc_wf_def make_ascproto_def)
  moreover have "ac_vctl st' = ac_vctl st @ [(se_address ?e, add_devices (ax_idd a) ?two)]"
    using assms(4) by (auto simp: connect_serial_vacuum_def Let_def start)
  ultimately show ?thesis by blast
qed


section \<open>Properties\<close>

text \<open>
  C5. The machine of a temperature controller is type safe. Take any controller that the service has
  connected, with at least one device, and any sequence of events that the operating system may deliver.
  Then either every member of the object stays well formed (the port open with its buffers at their
  sizes, every directive within its 30 bytes, one slot per device in the order of configuration, the
  output buffer in range), or the run has gone through well-formed states up to an event that fails
  in one of three ways: a frame longer than \<open>bufrcv_\<close> was completed, the responding thread woke with no
  directive pending, or a report ran past the output buffer.
\<close>

theorem cooler_machine_safe:
  assumes "circular_buffer B" and "memory_ok (E (ax_portName a))" and "ax_idd a \<noteq> []"
    and "connect_serial_cooler B E a st = (True, st', effs)"
    and "s0 = started (snd (last (ac_cctl st'))) [Ser (Async_read SERIAL_BUFF_SIZE)]"
    and "legal_run B (cooler_methods S N ind) es s0"
  shows "case sys_run B (cooler_methods S N ind) es s0 of
      Inr s' \<Rightarrow> ctl_wf B [0x3A] [0x0D, 0x0A] cooler_data_ok (sy_ctl s')
    | Inl u \<Rightarrow> \<exists>pre ev post s1. es = pre @ ev # post \<and>
        sys_run B (cooler_methods S N ind) pre s0 = Inr s1 \<and>
        ctl_wf B [0x3A] [0x0D, 0x0A] cooler_data_ok (sy_ctl s1) \<and>
        step_failure B False [0x3A] [0x0D, 0x0A] ev s1 u"
proof -
  have "ctl_wf B [0x3A] [0x0D, 0x0A] cooler_data_ok (sy_ctl s0)"
    using connected_cooler_wf [OF assms(1-4)] by (auto simp: assms(5) started_def)
  from safe_controller.run_safe [OF safe_cooler [OF assms(1)] this assms(6)] show ?thesis .
qed

definition big_start :: "string \<Rightarrow> start_env" where
  "big_start port = (sample_start port)\<lparr>se_text := replicate 10240 (CHR ''x''), se_serial := replicate 512 0\<rparr>"

lemma big_start_ok: "memory_ok (big_start port)"
  by (simp add: memory_ok_def big_start_def sample_start_def SERIAL_BUFF_SIZE_def)

definition sample_annex :: annex where
  "sample_annex = \<lparr>ax_portName = ''tty'', ax_baudRate = 9600, ax_n = 1, ax_idd = [31]\<rparr>"

lemma sample_connects:
  "connect_serial_cooler ring_ops big_start sample_annex sample_ac =
     (True, fst (snd (connect_serial_cooler ring_ops big_start sample_annex sample_ac)),
      snd (snd (connect_serial_cooler ring_ops big_start sample_annex sample_ac)))"
  "connect_serial_vacuum ring_ops big_start sample_annex sample_ac =
     (True, fst (snd (connect_serial_vacuum ring_ops big_start sample_annex sample_ac)),
      snd (snd (connect_serial_vacuum ring_ops big_start sample_annex sample_ac)))"
  by (simp_all add: connect_serial_cooler_def connect_serial_vacuum_def Let_def cb_Start_def sc_Open_def
      big_start_def sample_start_def sample_annex_def)

theorem cooler_machine_safe_witness:
  "\<exists>ct. ac_cctl (fst (snd (connect_serial_cooler ring_ops big_start sample_annex sample_ac))) = [(3, ct)] \<and>
    (\<exists>s'. sys_run ring_ops (cooler_methods boost_ref toy_conv 0) [Cycle, Heartbeat sample_env, Cycle]
        (started ct [Ser (Async_read SERIAL_BUFF_SIZE)]) = Inr s' \<and>
      ctl_wf ring_ops [0x3A] [0x0D, 0x0A] cooler_data_ok (sy_ctl s'))"
proof -
  let ?M = "cooler_methods boost_ref toy_conv 0" and ?es = "[Cycle, Heartbeat sample_env, Cycle]"
  let ?st = "fst (snd (connect_serial_cooler ring_ops big_start sample_annex sample_ac))"
  let ?s = "started (snd (last (ac_cctl ?st))) [Ser (Async_read SERIAL_BUFF_SIZE)]"
  have "ac_cctl sample_ac = []" and "se_address (big_start (ax_portName sample_annex)) = 3"
    by (simp_all add: sample_ac_def new_annex_control_def big_start_def sample_start_def sample_annex_def)
  then obtain ct where ct: "ac_cctl ?st = [(3, ct)]"
    using connected_cooler_wf [OF ring.circular_buffer_axioms big_start_ok _ sample_connects(1)]
    by (auto simp: sample_annex_def)
  have "legal_event ring_ops ev s" if "ev \<in> set ?es" for ev and s :: "(ring, cooler_data) sys"
    using that by auto
  then have legal: "legal_run ring_ops ?M ?es ?s"
    by (auto split: sum.splits)
  have "ax_idd sample_annex \<noteq> []" by (simp add: sample_annex_def)
  note safe = cooler_machine_safe [OF ring.circular_buffer_axioms big_start_ok this sample_connects(1) refl legal]
  show ?thesis
  proof (cases "sys_run ring_ops ?M ?es ?s")
    case (Inr s')
    then show ?thesis using safe ct by simp
  next
    case (Inl u)
    then obtain pre ev post and s1 :: "(ring, cooler_data) sys" where "?es = pre @ ev # post"
      and "step_failure ring_ops False [0x3A] [0x0D, 0x0A] ev s1 u"
      using safe by auto
    then show ?thesis
      by (auto simp: Cons_eq_append_conv)
  qed
qed


text \<open>
  The machine of an ion pump controller is type safe in the same sense; since its decoder looks at the
  directive in front of the list, input while no directive is pending is a further named failure.
\<close>

theorem vacuum_machine_safe:
  assumes "circular_buffer B" and "memory_ok (E (ax_portName a))" and "ax_idd a \<noteq> []"
    and "connect_serial_vacuum B E a st = (True, st', effs)"
    and "s0 = started (snd (last (ac_vctl st'))) [Ser (Async_read SERIAL_BUFF_SIZE)]"
    and "legal_run B (vacuum_methods S N) es s0"
  shows "case sys_run B (vacuum_methods S N) es s0 of
      Inr s' \<Rightarrow> ctl_wf B [] [0x0D] vacuum_data_ok (sy_ctl s')
    | Inl u \<Rightarrow> \<exists>pre ev post s1. es = pre @ ev # post \<and>
        sys_run B (vacuum_methods S N) pre s0 = Inr s1 \<and>
        ctl_wf B [] [0x0D] vacuum_data_ok (sy_ctl s1) \<and>
        step_failure B True [] [0x0D] ev s1 u"
proof -
  have "ctl_wf B [] [0x0D] vacuum_data_ok (sy_ctl s0)"
    using connected_vacuum_wf [OF assms(1-4)] by (auto simp: assms(5) started_def)
  from safe_controller.run_safe [OF safe_vacuum [OF assms(1)] this assms(6)] show ?thesis .
qed

theorem vacuum_machine_safe_witness:
  "\<exists>ct. ac_vctl (fst (snd (connect_serial_vacuum ring_ops big_start sample_annex sample_ac))) = [(3, ct)] \<and>
    (\<exists>s'. sys_run ring_ops (vacuum_methods boost_ref toy_conv) [Cycle, Heartbeat sample_env, Cycle]
        (started ct [Ser (Async_read SERIAL_BUFF_SIZE)]) = Inr s' \<and>
      ctl_wf ring_ops [] [0x0D] vacuum_data_ok (sy_ctl s'))"
proof -
  let ?M = "vacuum_methods boost_ref toy_conv" and ?es = "[Cycle, Heartbeat sample_env, Cycle]"
  let ?st = "fst (snd (connect_serial_vacuum ring_ops big_start sample_annex sample_ac))"
  let ?s = "started (snd (last (ac_vctl ?st))) [Ser (Async_read SERIAL_BUFF_SIZE)]"
  have "ac_vctl sample_ac = []" and "se_address (big_start (ax_portName sample_annex)) = 3"
    by (simp_all add: sample_ac_def new_annex_control_def big_start_def sample_start_def sample_annex_def)
  then obtain ct where ct: "ac_vctl ?st = [(3, ct)]"
    using connected_vacuum_wf [OF ring.circular_buffer_axioms big_start_ok _ sample_connects(2)]
    by (auto simp: sample_annex_def)
  have "legal_event ring_ops ev s" if "ev \<in> set ?es" for ev and s :: "(ring, vacuum_data) sys"
    using that by auto
  then have legal: "legal_run ring_ops ?M ?es ?s"
    by (auto split: sum.splits)
  have "ax_idd sample_annex \<noteq> []" by (simp add: sample_annex_def)
  note safe = vacuum_machine_safe [OF ring.circular_buffer_axioms big_start_ok this sample_connects(2) refl legal]
  show ?thesis
  proof (cases "sys_run ring_ops ?M ?es ?s")
    case (Inr s')
    then show ?thesis using safe ct by simp
  next
    case (Inl u)
    then obtain pre ev post and s1 :: "(ring, vacuum_data) sys" where "?es = pre @ ev # post"
      and "step_failure ring_ops True [] [0x0D] ev s1 u"
      using safe by auto
    then show ?thesis
      by (auto simp: Cons_eq_append_conv)
  qed
qed

text \<open>
  C10. Exactly the overlong frames overflow. In a well-formed temperature controller with a read outstanding,
  the arrival of bytes is undefined if and only if they complete a frame, from the first colon in the
  buffer to the next line end, of more than the 512 bytes of \<open>bufrcv_\<close>: \<open>serial_read\<close> copies the frame
  without looking at the size of its destination, although the port buffers ten times as much.
\<close>

theorem cooler_read_overflows_iff:
  assumes "circular_buffer B" and "ctl_wf B [0x3A] [0x0D, 0x0A] cooler_data_ok (sy_ctl s)"
    and "sy_reading s" and "length d \<le> SERIAL_BUFF_SIZE"
  shows "(\<exists>u. sys_step B (cooler_methods S N ind) (Bytes d) s = Inl u) \<longleftrightarrow>
    long_frame [0x3A] [0x0D, 0x0A] (received_with B d s)"
proof
  assume "\<exists>u. sys_step B (cooler_methods S N ind) (Bytes d) s = Inl u"
  then show "long_frame [0x3A] [0x0D, 0x0A] (received_with B d s)"
    using safe_controller.bytes_wf [OF safe_cooler [OF assms(1)] assms(2,4), of S N ind] by auto
next
  assume "long_frame [0x3A] [0x0D, 0x0A] (received_with B d s)"
  then show "\<exists>u. sys_step B (cooler_methods S N ind) (Bytes d) s = Inl u"
    using circular_buffer.long_read_overflows [OF assms(1-4)] by blast
qed

text \<open>A frame of 513 bytes, whose last 13 arrive.\<close>

definition long_reply :: bytes where
  "long_reply = cooler_frame 31 0x22 (replicate 252 0x30)"

definition long_sys :: "(ring, cooler_data) sys" where
  "long_sys = started ((sample_cooler_ctl [])\<lparr>ct_serial := Some (sample_port\<lparr>sc_cbsnd := True,
     sc_bufrcv := replicate 512 0, sc_crcrcv := (5120, take 500 long_reply), sc_crcsnd := (5120, [])\<rparr>)\<rparr>)
     [Ser (Async_read 512)]"

lemma long_sys_wf: "ctl_wf ring_ops [0x3A] [0x0D, 0x0A] cooler_data_ok (sy_ctl long_sys)"
  by (simp add: long_sys_def ctl_wf_def port_wf_def flags_of_def started_def sample_cooler_simps
      SERIAL_BUFF_SIZE_def asc_wf_def make_ascproto_def cooler_data_ok_def)

theorem cooler_read_overflows_iff_witness:
  "\<exists>u. sys_step ring_ops (cooler_methods boost_ref toy_conv 0) (Bytes (drop 500 long_reply)) long_sys = Inl u"
proof -
  have len: "length long_reply = 513"
    by (simp add: long_reply_def)
  have "received_with ring_ops (drop 500 long_reply) long_sys = long_reply"
    using len by (simp add: received_with_def long_sys_def started_def SERIAL_BUFF_SIZE_def)
  moreover have "one_frame [0x3A] [0x0D, 0x0A] long_reply [] (cooler_front 31 0x22 (replicate 252 0x30)) []"
    using cooler_one_frame [of "replicate 252 0x30" "[]" 31 "0x22" "[]"] by (simp add: long_reply_def)
  moreover have "SERIAL_BUFF_SIZE < length (cooler_front 31 0x22 (replicate 252 0x30)) + length [0x0D, 0x0A :: byte]"
    by (simp add: SERIAL_BUFF_SIZE_def)
  ultimately have "long_frame [0x3A] [0x0D, 0x0A] (received_with ring_ops (drop 500 long_reply) long_sys)"
    unfolding long_frame_def by metis
  moreover have "sy_reading long_sys" and "length (drop 500 long_reply) \<le> SERIAL_BUFF_SIZE"
    using len by (simp_all add: long_sys_def started_def SERIAL_BUFF_SIZE_def)
  ultimately show ?thesis
    using cooler_read_overflows_iff [OF ring.circular_buffer_axioms long_sys_wf] by blast
qed


text \<open>
  C20. A carriage return at the front of the buffer silences an ion pump controller. Its frames have no head
  flag, so \<open>serial_read\<close> finds the tail at position 0 and takes nothing: whatever arrives afterwards, in
  whatever chunks and as long as the receive buffer does not overflow, no reply is decoded, the responding
  thread is never woken and no reading or directive changes.
\<close>

theorem vacuum_leading_return_blocks:
  assumes "circular_buffer B" and "ctl_wf B [] [0x0D] vacuum_data_ok (sy_ctl s)" and "sy_reading s"
    and "sc_received B (the (ct_serial (sy_ctl s))) = 0x0D # r"
    and "list_all (\<lambda>d. length d \<le> SERIAL_BUFF_SIZE) ds"
    and "1 + length r + length (concat ds) \<le> SERIAL_BUFF_SIZE * 10"
  shows "\<exists>s'. sys_run B (vacuum_methods S N) (map Bytes ds) s = Inr s' \<and> sy_woken s' = sy_woken s \<and>
    ct_data (sy_ctl s') = ct_data (sy_ctl s) \<and> ct_drct (sy_ctl s') = ct_drct (sy_ctl s) \<and>
    sc_received B (the (ct_serial (sy_ctl s'))) = 0x0D # r @ concat ds"
proof -
  obtain s' sp' where "sys_run B (vacuum_methods S N) (map Bytes ds) s = Inr s'"
    "sy_ctl s' = (sy_ctl s)\<lparr>ct_serial := Some sp'\<rparr>" "sc_received B sp' = [0x0D] @ r @ concat ds" "sy_woken s' = sy_woken s"
    using circular_buffer.leading_tail_run [OF assms(1,2) _ assms(3,5), of r "vacuum_methods S N"] assms(4,6) by auto
  then show ?thesis by (intro exI [of _ s']) simp
qed

text \<open>A complete reply arrives in two pieces behind a stray carriage return.\<close>

definition blocked_sys :: "(ring, vacuum_data) sys" where
  "blocked_sys = started ((sample_vacuum_ctl (vacuum_plan 1))\<lparr>ct_serial := Some (sample_port\<lparr>sc_cbsnd := True,
     sc_bufrcv := replicate 512 0, sc_crcrcv := (5120, [0x0D]), sc_crcsnd := (5120, [])\<rparr>)\<rparr>)
     [Ser (Async_read 512)]"

theorem vacuum_leading_return_blocks_witness:
  "\<exists>s'. sys_run ring_ops (vacuum_methods boost_ref toy_conv)
      [Bytes (vacuum_reply 1 [32, 79, 75, 32] [0x31, 0x32] [32, 65, 66]), Bytes [0x0D]] blocked_sys = Inr s' \<and>
    \<not> sy_woken s' \<and> length (ct_drct (sy_ctl s')) = 3"
proof -
  let ?ds = "[vacuum_reply 1 [32, 79, 75, 32] [0x31, 0x32] [32, 65, 66], [0x0D]]"
  have plan: "list_all sendable (vacuum_plan 1)"
    using vacuum.plan_sendable by (simp add: list_all_iff)
  then have wf: "ctl_wf ring_ops [] [0x0D] vacuum_data_ok (sy_ctl blocked_sys)"
    by (simp add: blocked_sys_def ctl_wf_def port_wf_def flags_of_def started_def sample_vacuum_simps
        SERIAL_BUFF_SIZE_def asc_wf_def make_ascproto_def vacuum_data_ok_def)
  have facts: "sy_reading blocked_sys" "\<not> sy_woken blocked_sys" "length (ct_drct (sy_ctl blocked_sys)) = 3"
    "sc_received ring_ops (the (ct_serial (sy_ctl blocked_sys))) = [0x0D]"
    by (simp_all add: blocked_sys_def started_def sample_vacuum_simps vacuum_plan_def VACUUM_MONITOR_def)
  have "list_all (\<lambda>d. length d \<le> SERIAL_BUFF_SIZE) ?ds"
    and "1 + length ([] :: bytes) + length (concat ?ds) \<le> SERIAL_BUFF_SIZE * 10"
    using length_vacuum_reply [OF sample_vacuum_layout] by (simp_all add: SERIAL_BUFF_SIZE_def)
  from vacuum_leading_return_blocks [OF ring.circular_buffer_axioms wf facts(1,4) this, of boost_ref toy_conv]
  show ?thesis using facts by auto
qed

end
