(* ===== verification/Polling.thy ===== *)
theory Polling
  imports ControllerSafety
begin

text \<open>
  What a controller does, seen from its serial line: an abstract polling protocol over the requests still
  to be answered and the bytes waiting for transmission, and the proof that the event machine of
  ControllerRun refines it. Whatever holds of all runs of the protocol holds of all runs of the machine.
\<close>

section \<open>The polling protocol\<close>

text \<open>The transmit buffer takes as much of a request as it has room for.\<close>

definition enqueue :: "bytes \<Rightarrow> bytes \<Rightarrow> bytes" where
  "enqueue q m = q @ take (SERIAL_BUFF_SIZE * 10 - length q) m"

text \<open>
  \<open>round\<close> is the fixed list of requests of a polling round. A round begins only when no request is
  pending; a reply retires the request in front and sends the next one; bytes leave the queue at its front.
\<close>

inductive poll_step :: "bytes list \<Rightarrow> bytes list \<times> bytes \<Rightarrow> bytes list \<times> bytes \<Rightarrow> bool" for plan_msgs where
  begin_round: "plan_msgs = m # ms \<Longrightarrow> poll_step plan_msgs ([], q) (plan_msgs, enqueue q m)"
| next_request: "poll_step plan_msgs (m0 # m # ms, q) (m # ms, enqueue q m)"
| end_round: "poll_step plan_msgs ([m0], q) ([], q)"
| transmit: "n \<le> length q \<Longrightarrow> poll_step plan_msgs (ms, q) (ms, drop n q)"

inductive_cases poll_stepE: "poll_step plan_msgs s s'"

text \<open>In every state that the protocol reaches, the pending requests are a final part of the round.\<close>

lemma poll_step_suffix:
  "poll_step plan_msgs s s' \<Longrightarrow> suffix (fst s) plan_msgs \<Longrightarrow> suffix (fst s') plan_msgs"
  by (induction rule: poll_step.induct) (auto dest: suffix_ConsD)

lemma polls_suffix:
  "(poll_step plan_msgs)\<^sup>*\<^sup>* s s' \<Longrightarrow> suffix (fst s) plan_msgs \<Longrightarrow> suffix (fst s') plan_msgs"
  by (induction rule: rtranclp_induct) (auto dest: poll_step_suffix)

section \<open>The abstraction\<close>

definition poll_state :: "'b cb_ops \<Rightarrow> ('b, 'd) sys \<Rightarrow> bytes list \<times> bytes" where
  "poll_state B s = (map wire_msg (ct_drct (sy_ctl s)), cb_list B (sc_crcsnd (the (ct_serial (sy_ctl s)))))"

text \<open>What the protocol does not see of an event.\<close>

definition same_poll :: "('b, 'd) controller \<Rightarrow> ('b, 'd) controller \<Rightarrow> bool" where
  "same_poll ct ct' \<longleftrightarrow> ct_drct ct' = ct_drct ct \<and> ct_allDev ct' = ct_allDev ct \<and>
     map_option sc_crcsnd (ct_serial ct') = map_option sc_crcsnd (ct_serial ct)"

lemma same_poll_state:
  "same_poll (sy_ctl s) (sy_ctl s') \<Longrightarrow> ct_serial (sy_ctl s) \<noteq> None \<Longrightarrow>
   poll_state B s' = poll_state B s"
  by (auto simp: same_poll_def poll_state_def)

context circular_buffer
begin

lemma serial_read_same:
  assumes "cb_serial_read B M ec ct = Inr (ct', es)"
    and "\<And>len ct r ct'. vm_decode_data M len ct = Inr (r, ct') \<Longrightarrow> \<exists>ds. ct' = ct\<lparr>ct_data := ds\<rparr>"
  shows "same_poll ct ct'"
proof -
  have "same_poll ct ct'" if "sc_Read B sp b n i = Inr (k, buf, sp')" "ct_serial ct = Some sp"
    "vm_decode_data M len (ct\<lparr>ct_serial := Some sp', ct_bufrcv := the buf\<rparr>) = Inr (r, ct')"
    for sp b n i k buf sp' len r
    using sc_Read_frame [OF that(1)] assms(2) [OF that(3)] that(2) by (auto simp: same_poll_def)
  then show ?thesis
    using assms(1)
    by (auto simp: cb_serial_read_def Let_def and_then_Inr_iff same_poll_def
        split: if_splits option.splits)
qed

lemma first_send_enqueues:
  assumes wf: "ctl_wf B h t ok ct" and d: "ct_drct ct = d # ds" and sent: "first_send B ct = Inr (ct', es)"
  shows "\<exists>sp sp'. ct_serial ct = Some sp \<and> ct' = ct\<lparr>ct_serial := Some sp'\<rparr> \<and>
    cb_list B (sc_crcsnd sp') = enqueue (cb_list B (sc_crcsnd sp)) (wire_msg d)"
proof -
  obtain sp where sp: "ct_serial ct = Some sp" "port_wf B sp"
    using wf by (auto simp: ctl_wf_def)
  have cap: "cb_capacity B (sc_crcsnd sp) = 5120" and size: "cb_size B (sc_crcsnd sp) \<le> 5120"
    using sp(2) size_le_capacity [of "sc_crcsnd sp"] by (auto simp: port_wf_def SERIAL_BUFF_SIZE_def)
  have len: "0 < dr_len d"
    using wf d by (simp add: ctl_wf_def sendable_def)
  let ?n = "nat (min (int (cb_capacity B (sc_crcsnd sp)) - int (cb_size B (sc_crcsnd sp))) (dr_len d))"
  have n: "?n = min (5120 - cb_size B (sc_crcsnd sp)) (nat (dr_len d))"
    using cap size by (simp add: min_def) linarith
  have room: "cb_size B (sc_crcsnd sp) + length (take ?n (dr_msg d)) \<le> cb_capacity B (sc_crcsnd sp)"
    unfolding n cap using size by simp
  have "cb_list B (cb_push_all B (sc_crcsnd sp) (take ?n (dr_msg d))) = enqueue (cb_list B (sc_crcsnd sp)) (wire_msg d)"
    using list_push_all_fits [OF room] unfolding n by (simp add: enqueue_def wire_msg_def SERIAL_BUFF_SIZE_def)
  then show ?thesis
    using sent d sp len by (auto simp: first_send_def sc_Write_def Let_def port_wf_def split: if_splits)
qed


end


section \<open>The simulation\<close>

context safe_controller
begin

lemma cycle_simulates:
  assumes wf: "wf (sy_ctl s)" and step: "sys_step B M Cycle s = Inr s'"
  shows "ct_allDev (sy_ctl s') = ct_allDev (sy_ctl s) \<and> (poll_state B s' = poll_state B s \<or>
    poll_step (map wire_msg (concat (map plan (ct_allDev (sy_ctl s))))) (poll_state B s) (poll_state B s'))"
proof (cases "ct_drct (sy_ctl s) = []")
  case False
  then have "s' = s"
    using step by (simp add: cycle_busy sys_emit_Nil)
  then show ?thesis by simp
next
  case True
  let ?devs = "ct_allDev (sy_ctl s)"
  obtain data where data: "vm_check_data M (length ?devs) (sy_ctl s) = (sy_ctl s)\<lparr>ct_data := data\<rparr>"
    using check_frame by blast
  have "data_ok ?devs data"
    using check_ok [of "sy_ctl s"] wf data by (simp add: ctl_wf_def)
  then have wf1: "wf ((sy_ctl s)\<lparr>ct_data := data, ct_drct := concat (map plan ?devs)\<rparr>)"
    using wf plan_sendable by (intro ctl_wf_drct ctl_wf_data) (auto simp: list_all_iff)
  have "concat (map plan ?devs) \<noteq> []"
    using wf plan_nonempty by (cases ?devs) (auto simp: ctl_wf_def)
  then obtain d ds where d: "concat (map plan ?devs) = d # ds"
    by (cases "concat (map plan ?devs)") auto
  obtain ct' es where send: "first_send B ((sy_ctl s)\<lparr>ct_data := data, ct_drct := concat (map plan ?devs)\<rparr>) = Inr (ct', es)"
    and s': "s' = sys_emit es (s\<lparr>sy_ctl := ct'\<rparr>)"
    using step True data by (auto simp: cycle_body_def Let_def generate_all_eq and_then_Inr_iff)
  obtain sp sp' where "ct_serial (sy_ctl s) = Some sp"
    "ct' = (sy_ctl s)\<lparr>ct_data := data, ct_drct := concat (map plan ?devs), ct_serial := Some sp'\<rparr>"
    "cb_list B (sc_crcsnd sp') = enqueue (cb_list B (sc_crcsnd sp)) (wire_msg d)"
    using first_send_enqueues [OF wf1 _ send] d by auto
  moreover have "poll_step (map wire_msg (concat (map plan ?devs))) ([], q)
      (map wire_msg (concat (map plan ?devs)), enqueue q (wire_msg d))" for q
    by (rule begin_round) (simp add: d)
  ultimately show ?thesis
    using True s' by (simp add: poll_state_def)
qed

lemma respond_simulates:
  assumes wf: "wf (sy_ctl s)" and step: "sys_step B M (Respond e) s = Inr s'"
  shows "ct_allDev (sy_ctl s') = ct_allDev (sy_ctl s) \<and> (poll_state B s' = poll_state B s \<or>
    poll_step ms (poll_state B s) (poll_state B s'))"
proof (cases "sy_woken s")
  case False
  then show ?thesis using step by simp
next
  case True
  then obtain ct' es where body: "respond_body B M e (sy_ctl s) = Inr (ct', es)"
    and s': "s' = sys_emit es (s\<lparr>sy_ctl := ct', sy_woken := False\<rparr>)"
    using step by (auto simp: and_then_Inr_iff)
  obtain sp where sp: "ct_serial (sy_ctl s) = Some sp"
    using wf by (auto simp: ctl_wf_def)
  show ?thesis
  proof (cases "ct_drct (sy_ctl s)")
    case Nil
    then show ?thesis using body by (simp add: respond_empty)
  next
    case (Cons d0 ds)
    show ?thesis
    proof (cases ds)
      case Nil
      then show ?thesis
        using respond_last [OF _ body] Cons s' sp by (simp add: poll_state_def end_round)
    next
      case (Cons d ds')
      let ?ct1 = "(sy_ctl s)\<lparr>ct_tmlast := env_local e, ct_drct := ds\<rparr>"
      have "list_all sendable ds" and "wf ((sy_ctl s)\<lparr>ct_tmlast := env_local e\<rparr>)"
        using wf \<open>ct_drct (sy_ctl s) = d0 # ds\<close> by (simp add: ctl_wf_def, simp add: ctl_wf_tmlast)
      then have wf1: "wf ?ct1"
        by (intro ctl_wf_drct)
      have "first_send B ?ct1 = Inr (ct', es)"
        using body Cons \<open>ct_drct (sy_ctl s) = d0 # ds\<close> by (simp add: respond_body_def remove_directive_def)
      from first_send_enqueues [OF wf1 _ this, of d ds'] obtain sp' where
        "ct' = ?ct1\<lparr>ct_serial := Some sp'\<rparr>"
        "cb_list B (sc_crcsnd sp') = enqueue (cb_list B (sc_crcsnd sp)) (wire_msg d)"
        using Cons sp by auto
      then show ?thesis
        using s' sp Cons \<open>ct_drct (sy_ctl s) = d0 # ds\<close> by (simp add: poll_state_def next_request)
    qed
  qed
qed

text \<open>The handlers of the port leave the requests alone.\<close>

lemma bytes_same:
  assumes "sys_step B M (Bytes d) s = Inr s'" and wf: "wf (sy_ctl s)"
  shows "same_poll (sy_ctl s) (sy_ctl s')"
proof (cases "sy_reading s")
  case False
  then show ?thesis using assms by (simp add: same_poll_def)
next
  case True
  obtain sp where sp: "ct_serial (sy_ctl s) = Some sp" "sc_cbrcv sp"
    using wf by (auto simp: ctl_wf_def port_wf_def)
  let ?sp1 = "(os_fill d sp)\<lparr>sc_crcrcv := cb_push_all B (sc_crcrcv sp) d\<rparr>"
  let ?ct1 = "(sy_ctl s)\<lparr>ct_serial := Some ?sp1\<rparr>"
  show ?thesis
  proof (cases "cb_serial_read B M 0 ?ct1")
    case (Inl u)
    then show ?thesis
      using assms(1) True sp
      by (simp add: sys_port_def sc_handle_read_def Let_def read_slot_def on_serial_def os_fill_def)
  next
    case (Inr p)
    obtain ct' es where p: "p = (ct', es)" by (cases p)
    then have same: "same_poll ?ct1 ct'"
      using serial_read_same [OF Inr [unfolded p]] decode_frame by blast
    then obtain sp2 where sp2: "ct_serial ct' = Some sp2" "sc_crcsnd sp2 = sc_crcsnd sp"
      by (auto simp: same_poll_def os_fill_def)
    then have "s' = sys_emit (es @ map Ser (sc_start_read sp2)) (s\<lparr>sy_reading := False, sy_ctl := ct'\<lparr>ct_serial := Some sp2\<rparr>\<rparr>)"
      using assms(1) True sp Inr p
      by (simp add: sys_port_def sc_handle_read_def Let_def read_slot_def on_serial_def os_fill_def)
    then show ?thesis
      using same sp2 sp by (simp add: same_poll_def)
  qed
qed

lemma sent_simulates:
  assumes wf: "wf (sy_ctl s)" and step: "sys_step B M (Sent n) s = Inr s'" and "legal_event B (Sent n) s"
  shows "ct_allDev (sy_ctl s') = ct_allDev (sy_ctl s) \<and> poll_step ms (poll_state B s) (poll_state B s')"
proof -
  obtain sp where sp: "ct_serial (sy_ctl s) = Some sp" "sc_cbsnd sp"
    using wf by (auto simp: ctl_wf_def port_wf_def)
  have n: "n \<le> cb_size B (sc_crcsnd sp)"
    using assms(3) sp by simp
  have "ct_drct (sy_ctl s') = ct_drct (sy_ctl s)" and "ct_allDev (sy_ctl s') = ct_allDev (sy_ctl s)"
    and "ct_serial (sy_ctl s') = Some (sp\<lparr>sc_crcsnd := cb_erase_begin B (sc_crcsnd sp) n\<rparr>)"
    using step sp by (auto simp: sys_port_def sc_handle_write_def write_slot_def on_serial_def Let_def)
  moreover have "poll_step ms (q0, cb_list B (sc_crcsnd sp)) (q0, drop n (cb_list B (sc_crcsnd sp)))" for q0
    using n by (intro transmit) simp
  ultimately show ?thesis
    using sp n by (simp add: poll_state_def list_erase_begin)
qed

text \<open>Every event is a step of the protocol or invisible to it.\<close>

lemma step_simulates:
  assumes wf: "wf (sy_ctl s)" and legal: "legal_event B ev s" and step: "sys_step B M ev s = Inr s'"
    and ms: "ms = map wire_msg (concat (map plan (ct_allDev (sy_ctl s))))"
  shows "ct_allDev (sy_ctl s') = ct_allDev (sy_ctl s) \<and>
    (poll_state B s' = poll_state B s \<or> poll_step ms (poll_state B s) (poll_state B s'))"
proof -
  obtain sp where sp: "ct_serial (sy_ctl s) = Some sp" "sc_cbsnd sp" "sc_cbrcv sp"
    using wf by (auto simp: ctl_wf_def port_wf_def)
  have quiet: ?thesis if "same_poll (sy_ctl s) (sy_ctl s')"
    using that same_poll_state [OF that] sp(1) by (simp add: same_poll_def)
  show ?thesis
  proof (cases ev)
    case Cycle
    then show ?thesis
      using cycle_simulates [OF wf] step ms by blast
  next
    case (Bytes d)
    then show ?thesis using bytes_same [OF _ wf] step quiet by blast
  next
    case (Receive_error ec)
    then show ?thesis
      using step sp legal
      by (intro quiet) (auto simp: same_poll_def sys_port_def sc_handle_read_def Let_def read_slot_def
          on_serial_def cb_serial_read_def split: if_splits)
  next
    case (Sent n)
    then show ?thesis using sent_simulates [OF wf] step legal by blast
  next
    case (Send_error ec)
    then show ?thesis
      using step sp legal
      by (intro quiet) (auto simp: same_poll_def sys_port_def sc_handle_write_def write_slot_def on_serial_def Let_def)
  next
    case (Respond e)
    then show ?thesis using respond_simulates [OF wf] step by blast
  next
    case (Heartbeat e)
    then show ?thesis
      using step by (intro quiet) (auto simp: same_poll_def split: if_splits prod.splits)
  qed
qed

lemma run_simulates:
  assumes "wf (sy_ctl s)" and "legal_run B M es s" and "sys_run B M es s = Inr s'"
    and "ms = map wire_msg (concat (map plan (ct_allDev (sy_ctl s))))"
  shows "(poll_step ms)\<^sup>*\<^sup>* (poll_state B s) (poll_state B s')"
  using assms
proof (induction es arbitrary: s)
  case Nil
  then show ?case by simp
next
  case (Cons ev es)
  obtain s1 where s1: "sys_step B M ev s = Inr s1" and run: "sys_run B M es s1 = Inr s'"
    using Cons.prems(3) by (auto simp: and_then_Inr_iff)
  have legal: "legal_event B ev s" "legal_run B M es s1"
    using Cons.prems(2) s1 by auto
  have "wf (sy_ctl s1)"
    using step_safe [OF Cons.prems(1) legal(1)] s1 by simp
  moreover note sim = step_simulates [OF Cons.prems(1) legal(1) s1 Cons.prems(4)]
  moreover from sim have "ms = map wire_msg (concat (map plan (ct_allDev (sy_ctl s1))))"
    using Cons.prems(4) by simp
  ultimately have "(poll_step ms)\<^sup>*\<^sup>* (poll_state B s1) (poll_state B s')"
    using Cons.IH legal(2) run by blast
  then show ?case
    using sim by (auto intro: converse_rtranclp_into_rtranclp)
qed

end


section \<open>Properties\<close>

text \<open>
  C6. The temperature controller refines the polling protocol. From any idle well-formed state every run of the
  machine under legal events, however reads, writes, errors and thread rounds interleave, is a run of the
  abstract protocol over the five requests per device; in particular the directives that are pending at
  any moment are a final part of that list: none is lost, repeated, reordered or made up.
\<close>

theorem cooler_refines_polling:
  assumes "circular_buffer B" and "ctl_wf B [0x3A] [0x0D, 0x0A] cooler_data_ok (sy_ctl s)"
    and "ct_drct (sy_ctl s) = []" and "legal_run B (cooler_methods S N ind) es s"
    and "sys_run B (cooler_methods S N ind) es s = Inr s'"
    and "ms = concat (map (\<lambda>idd. map (\<lambda>idf. cooler_frame idd idf []) COOLER_MONITOR) (ct_allDev (sy_ctl s)))"
  shows "(poll_step ms)\<^sup>*\<^sup>* (poll_state B s) (poll_state B s') \<and>
    suffix (map wire_msg (ct_drct (sy_ctl s'))) ms"
proof -
  have "ms = map wire_msg (concat (map cooler_plan (ct_allDev (sy_ctl s))))"
    by (simp add: assms(6) map_concat comp_def wire_cooler_plan)
  from safe_controller.run_simulates [OF safe_cooler [OF assms(1)] assms(2,4,5) this]
  have run: "(poll_step ms)\<^sup>*\<^sup>* (poll_state B s) (poll_state B s')" .
  from polls_suffix [OF this] show ?thesis
    using run assms(3) by (simp add: poll_state_def)
qed

theorem cooler_refines_polling_witness:
  "\<exists>s'. sys_run ring_ops (cooler_methods boost_ref toy_conv 0) [Cycle, Heartbeat sample_env, Cycle] long_sys = Inr s' \<and>
    suffix (map wire_msg (ct_drct (sy_ctl s')))
      (concat (map (\<lambda>idd. map (\<lambda>idf. cooler_frame idd idf []) COOLER_MONITOR) [31, 32]))"
proof -
  let ?M = "cooler_methods boost_ref toy_conv 0" and ?es = "[Cycle, Heartbeat sample_env, Cycle]"
  have legal: "legal_run ring_ops ?M ?es long_sys"
    by (auto split: sum.splits)
  have idle: "ct_drct (sy_ctl long_sys) = []" and devs: "ct_allDev (sy_ctl long_sys) = [31, 32]"
    by (simp_all add: long_sys_def started_def sample_cooler_simps)
  note safe = cooler_safe.run_safe [OF long_sys_wf legal]
  show ?thesis
  proof (cases "sys_run ring_ops ?M ?es long_sys")
    case (Inr s')
    from cooler_refines_polling [OF ring.circular_buffer_axioms long_sys_wf idle legal Inr refl] Inr
    show ?thesis by (simp add: devs)
  next
    case (Inl u)
    then show ?thesis
      using safe by (auto simp: Cons_eq_append_conv)
  qed
qed

text \<open>The ion pump controller refines the same protocol with its three requests per device.\<close>

theorem vacuum_refines_polling:
  assumes "circular_buffer B" and "ctl_wf B [] [0x0D] vacuum_data_ok (sy_ctl s)"
    and "ct_drct (sy_ctl s) = []" and "legal_run B (vacuum_methods S N) es s"
    and "sys_run B (vacuum_methods S N) es s = Inr s'"
    and "ms = map wire_msg (concat (map vacuum_plan (ct_allDev (sy_ctl s))))"
  shows "(poll_step ms)\<^sup>*\<^sup>* (poll_state B s) (poll_state B s') \<and>
    suffix (map wire_msg (ct_drct (sy_ctl s'))) ms"
proof -
  from safe_controller.run_simulates [OF safe_vacuum [OF assms(1)] assms(2,4,5,6)]
  have run: "(poll_step ms)\<^sup>*\<^sup>* (poll_state B s) (poll_state B s')" .
  from polls_suffix [OF this] show ?thesis
    using run assms(3) by (simp add: poll_state_def)
qed

end
