(* ===== verification/Reports.thy ===== *)
theory Reports
  imports AnnexControl
begin

text \<open>
  The way of a report from the readings to the network: the last round of the responding thread
  (ControllerBase.cpp) lets the device controller render one line per device (CoolerCtl.cpp,
  VacuumCtl.cpp with AsciiProtocol.cpp) and hand it to the session (tcpasio.cpp). The lemmas follow the
  loop of \<open>network_respond\<close> through the rotating output buffer; the properties compose it with the
  parser and with the session's \<open>Write\<close>.
\<close>

section \<open>The lines of a report\<close>

definition cooler_line :: "boost_str \<Rightarrow> num_conv \<Rightarrow> string \<Rightarrow> cooler_data \<Rightarrow> string" where
  "cooler_line S N gid d = compacted_text S (compact_cooler_text S N (cooler_message S N gid d make_apcooler))"

definition vacuum_line :: "boost_str \<Rightarrow> num_conv \<Rightarrow> string \<Rightarrow> vacuum_data \<Rightarrow> string" where
  "vacuum_line S N gid d = compacted_text S (compact_vacuum_text S N (vacuum_message S N gid d make_apvacuum))"

text \<open>A device whose message survives the text form and whose line fits its slot.\<close>

definition cooler_reportable :: "boost_str \<Rightarrow> num_conv \<Rightarrow> string \<Rightarrow> cooler_data \<Rightarrow> bool" where
  "cooler_reportable S N gid d \<longleftrightarrow> wf_cooler N (cooler_message S N gid d make_apcooler) \<and>
     fits_slot S (compact_cooler_text S N (cooler_message S N gid d make_apcooler))"

definition vacuum_reportable :: "boost_str \<Rightarrow> num_conv \<Rightarrow> string \<Rightarrow> vacuum_data \<Rightarrow> bool" where
  "vacuum_reportable S N gid d \<longleftrightarrow> wf_vacuum N (vacuum_message S N gid d make_apvacuum) \<and>
     fits_slot S (compact_vacuum_text S N (vacuum_message S N gid d make_apvacuum))"

text \<open>The message object is reused from device to device; every field that differs is overwritten.\<close>

lemma cooler_message_again:
  "cooler_message S N gid d' (cooler_message S N gid d p) = cooler_message S N gid d' p"
  by (simp add: cooler_message_def)

lemma vacuum_message_again:
  "vacuum_message S N gid d' (vacuum_message S N gid d p) = vacuum_message S N gid d' p"
  by (simp add: vacuum_message_def)

text \<open>What is read through the returned pointer right after the call is the rendered line.\<close>

lemma compacted_read:
  assumes "asc_wf a" and "fits_slot S t"
  shows "\<exists>pos n a'. output_compacted S a t = Inr (pos, n, a') \<and> asc_wf a' \<and>
    take (nat n) (drop pos (asc_buff a')) = compacted_text S t"
proof -
  obtain a' where out: "output_compacted S a t = Inr (asc_ibuf a * 1024, int (length (compacted_text S t)), a')"
    and wf: "asc_wf a'"
    using compact_step [OF assms] by blast
  then have "asc_buff a' = take (asc_ibuf a * 1024) (asc_buff a) @ compacted_text S t @
      NUL # drop (asc_ibuf a * 1024 + length (compacted_text S t) + 1) (asc_buff a)"
    by (auto simp: output_compacted_def Let_def split: if_splits)
  moreover have "length (take (asc_ibuf a * 1024) (asc_buff a)) = asc_ibuf a * 1024"
    using assms(1) by (simp add: asc_wf_def)
  ultimately show ?thesis using out wf by simp
qed

lemma cooler_respond_lines:
  assumes "asc_wf a" and "\<forall>d\<in>set ds. fits_slot S (compact_cooler_text S N (cooler_message S N gid d p))"
  shows "\<exists>a'. asc_wf a' \<and> cooler_respond_from S N h gid p ds a =
    Inr (a', map (\<lambda>d. Net_write h (bytes_of (compacted_text S (compact_cooler_text S N (cooler_message S N gid d p))))) ds)"
  using assms
proof (induction ds arbitrary: p a)
  case Nil
  then show ?case by simp
next
  case (Cons d ds)
  let ?p = "cooler_message S N gid d p"
  have "fits_slot S (compact_cooler_text S N ?p)" using Cons.prems(2) by simp
  from compacted_read [OF Cons.prems(1) this] obtain pos n a1 where
    out: "output_compacted S a (compact_cooler_text S N ?p) = Inr (pos, n, a1)" and wf: "asc_wf a1"
    and line: "take (nat n) (drop pos (asc_buff a1)) = compacted_text S (compact_cooler_text S N ?p)"
    by blast
  obtain a2 where "asc_wf a2" "cooler_respond_from S N h gid ?p ds a1 =
      Inr (a2, map (\<lambda>d. Net_write h (bytes_of (compacted_text S (compact_cooler_text S N (cooler_message S N gid d p))))) ds)"
    using Cons.IH [OF wf, of ?p] Cons.prems(2) by (auto simp: cooler_message_again)
  then show ?case
    using out line by (simp add: CompactCooler_def Let_def)
qed

lemma vacuum_respond_lines:
  assumes "asc_wf a" and "\<forall>d\<in>set ds. fits_slot S (compact_vacuum_text S N (vacuum_message S N gid d p))"
  shows "\<exists>a'. asc_wf a' \<and> vacuum_respond_from S N h gid p ds a =
    Inr (a', map (\<lambda>d. Net_write h (bytes_of (compacted_text S (compact_vacuum_text S N (vacuum_message S N gid d p))))) ds)"
  using assms
proof (induction ds arbitrary: p a)
  case Nil
  then show ?case by simp
next
  case (Cons d ds)
  let ?p = "vacuum_message S N gid d p"
  have "fits_slot S (compact_vacuum_text S N ?p)" using Cons.prems(2) by simp
  from compacted_read [OF Cons.prems(1) this] obtain pos n a1 where
    out: "output_compacted S a (compact_vacuum_text S N ?p) = Inr (pos, n, a1)" and wf: "asc_wf a1"
    and line: "take (nat n) (drop pos (asc_buff a1)) = compacted_text S (compact_vacuum_text S N ?p)"
    by blast
  obtain a2 where "asc_wf a2" "vacuum_respond_from S N h gid ?p ds a1 =
      Inr (a2, map (\<lambda>d. Net_write h (bytes_of (compacted_text S (compact_vacuum_text S N (vacuum_message S N gid d p))))) ds)"
    using Cons.IH [OF wf, of ?p] Cons.prems(2) by (auto simp: vacuum_message_again)
  then show ?case
    using out line by (simp add: CompactVacuum_def Let_def)
qed

section \<open>The session\<close>

text \<open>
  The calls of \<open>tcp_->Write\<close> in the order of the effects; \<open>ws\<close> are the outcomes of \<open>write_some\<close>: an
  exception or a number of bytes. The result collects the bytes that have gone out, with the session or
  with the exception that leaves \<open>network_respond\<close>.
\<close>

fun session_writes :: "'b cb_ops \<Rightarrow> (error_code + nat) list \<Rightarrow> ctl_effect list \<Rightarrow> 'b tcp_client
    \<Rightarrow> (error_code \<times> bytes) + ('b tcp_client \<times> bytes)" where
  "session_writes B ws [] c = Inr (c, [])"
| "session_writes B [] (Net_write h l # es) c = Inr (c, [])"
| "session_writes B (w # ws) (Net_write h l # es) c =
     (case tcp_Write B c (Some l) (int (length l)) w of
        Inl e \<Rightarrow> Inl (e, [])
      | Inr (n, c', effs) \<Rightarrow>
          (case session_writes B ws es c' of
             Inl (e, out) \<Rightarrow> Inl (e, take (nat n) l @ out)
           | Inr (c'', out) \<Rightarrow> Inr (c'', take (nat n) l @ out)))"
| "session_writes B ws (e # es) c = session_writes B ws es c"

lemma session_quiet:
  "list_all (\<lambda>e. \<not> (\<exists>h l. e = Net_write h l)) es \<Longrightarrow> session_writes B ws (es @ fs) c = session_writes B ws fs c"
proof (induction es)
  case (Cons e es)
  then show ?case by (cases e) auto
qed simp

text \<open>Without buffers every line is one synchronous write; what it does not write is not sent later.\<close>

lemma session_lines:
  assumes "\<not> tc_usebuf c" and "[] \<notin> set ls" and "length ns = length ls"
  shows "session_writes B (map Inr ns @ ws) (map (Net_write h) ls @ es) c =
    (case session_writes B ws es c of
       Inl (e, out) \<Rightarrow> Inl (e, concat (map2 take ns ls) @ out)
     | Inr (c', out) \<Rightarrow> Inr (c', concat (map2 take ns ls) @ out))"
  using assms(2,3)
proof (induction ls arbitrary: ns)
  case Nil
  then show ?case by (auto split: sum.splits)
next
  case (Cons l ls)
  then obtain n ns' where ns: "ns = n # ns'" "length ns' = length ls"
    by (cases ns) auto
  then have "tcp_Write B c (Some l) (int (length l)) (Inr n) = Inr (int n, c, [Tcp_write_now l])"
    using assms(1) Cons.prems by (auto simp: tcp_Write_def)
  then show ?case
    using Cons ns by (auto split: sum.splits)
qed

lemma take_all_lines: "concat (map2 take (map length ls) ls) = concat ls"
  by (induction ls) auto


lemma line_nonempty: "bytes_of (compacted_text S t) \<noteq> []"
  by (simp add: bytes_of_def compacted_text_def)

section \<open>The last round of a report\<close>

lemma cooler_message_clean [simp]: "cooler_message S N gid (d\<lparr>cd_dirty := b\<rparr>) p = cooler_message S N gid d p"
  by (simp add: cooler_message_def)

lemma vacuum_message_clean [simp]: "vacuum_message S N gid (d\<lparr>vd_dirty := b\<rparr>) p = vacuum_message S N gid d p"
  by (simp add: vacuum_message_def)

lemma no_net_writes:
  "list_all (\<lambda>e. \<not> (\<exists>h l. e = Net_write h l)) (map cooler_log_line ds)"
  "list_all (\<lambda>e. \<not> (\<exists>h l. e = Net_write h l)) (map vacuum_log_line vs)"
  by (simp_all add: list_all_iff cooler_log_line_def vacuum_log_line_def)

lemma no_net_uploads: "list_all (\<lambda>e. \<not> (\<exists>h l. e = Net_write h l)) (cooler_upload_from e gid i ds)"
  by (induction ds arbitrary: i) (auto simp: Let_def)

lemma cooler_last_round:
  assumes "ct_drct st = [d0]" and "ct_tcp st = Some h" and "env_tcp_open e h" and "asc_wf (ct_ascproto st)"
    and "\<forall>d\<in>set (ct_data st). cooler_reportable S N (ct_grpid st) d"
  shows "\<exists>st' quiet. respond_body B (cooler_methods S N ind) e st =
      Inr (st', quiet @ map (Net_write h) (map (\<lambda>d. bytes_of (cooler_line S N (ct_grpid st) d)) (ct_data st))) \<and>
    list_all (\<lambda>e. \<not> (\<exists>h l. e = Net_write h l)) quiet \<and> ct_drct st' = [] \<and> asc_wf (ct_ascproto st')"
proof -
  let ?ds = "map (\<lambda>d. d\<lparr>cd_dirty := False\<rparr>) (ct_data st)"
  let ?st1 = "st\<lparr>ct_tmlast := env_local e, ct_drct := []\<rparr>"
  obtain a where a: "asc_wf a" and lines: "cooler_respond_from S N h (ct_grpid st) make_apcooler ?ds (ct_ascproto st) =
      Inr (a, map (\<lambda>d. Net_write h (bytes_of (compacted_text S
        (compact_cooler_text S N (cooler_message S N (ct_grpid st) d make_apcooler))))) ?ds)"
    using cooler_respond_lines [OF assms(4), of ?ds S N "ct_grpid st" make_apcooler h] assms(5)
    by (auto simp: cooler_reportable_def)
  let ?logs = "map cooler_log_line (filter cd_dirty (ct_data st))"
  let ?ups = "if ct_db st \<noteq> None then cooler_upload_from e (ct_grpid st) 0 ?ds else []"
  have "respond_body B (cooler_methods S N ind) e st =
      Inr (?st1\<lparr>ct_data := ?ds, ct_ascproto := a\<rparr>,
        (?logs @ ?ups) @ map (Net_write h) (map (\<lambda>d. bytes_of (cooler_line S N (ct_grpid st) d)) (ct_data st)))"
    using assms(1-3) lines
    by (simp add: respond_body_def remove_directive_def cooler_methods_def cooler_write_log_def Let_def
        cooler_network_respond_def cooler_upload_database_def cooler_line_def comp_def)
  moreover have "list_all (\<lambda>e. \<not> (\<exists>h l. e = Net_write h l)) (?logs @ ?ups)"
    using no_net_writes no_net_uploads by auto
  ultimately show ?thesis using a by (intro exI conjI) (assumption | simp)+
qed

lemma vacuum_last_round:
  assumes "ct_drct st = [d0]" and "ct_tcp st = Some h" and "env_tcp_open e h" and "asc_wf (ct_ascproto st)"
    and "\<forall>d\<in>set (ct_data st). vacuum_reportable S N (ct_grpid st) d"
  shows "\<exists>st' quiet. respond_body B (vacuum_methods S N) e st =
      Inr (st', quiet @ map (Net_write h) (map (\<lambda>d. bytes_of (vacuum_line S N (ct_grpid st) d)) (ct_data st))) \<and>
    list_all (\<lambda>e. \<not> (\<exists>h l. e = Net_write h l)) quiet \<and> ct_drct st' = [] \<and> asc_wf (ct_ascproto st')"
proof -
  let ?ds = "map (\<lambda>d. d\<lparr>vd_dirty := False\<rparr>) (ct_data st)"
  let ?st1 = "st\<lparr>ct_tmlast := env_local e, ct_drct := []\<rparr>"
  obtain a where a: "asc_wf a" and lines: "vacuum_respond_from S N h (ct_grpid st) make_apvacuum ?ds (ct_ascproto st) =
      Inr (a, map (\<lambda>d. Net_write h (bytes_of (compacted_text S
        (compact_vacuum_text S N (vacuum_message S N (ct_grpid st) d make_apvacuum))))) ?ds)"
    using vacuum_respond_lines [OF assms(4), of ?ds S N "ct_grpid st" make_apvacuum h] assms(5)
    by (auto simp: vacuum_reportable_def)
  let ?logs = "map vacuum_log_line (filter vd_dirty (ct_data st))"
  have "respond_body B (vacuum_methods S N) e st =
      Inr (?st1\<lparr>ct_data := ?ds, ct_ascproto := a\<rparr>,
        ?logs @ map (Net_write h) (map (\<lambda>d. bytes_of (vacuum_line S N (ct_grpid st) d)) (ct_data st)))"
    using assms(1-3) lines
    by (simp add: respond_body_def remove_directive_def vacuum_methods_def vacuum_write_log_def Let_def
        vacuum_network_respond_def vacuum_upload_database_def vacuum_line_def comp_def)
  then show ?thesis using a no_net_writes by (intro exI conjI) (assumption | simp)+
qed

section \<open>Properties\<close>



definition report_ctl :: "(ring, cooler_data) controller" where
  "report_ctl = (sample_cooler_ctl [])\<lparr>ct_drct := [hd (cooler_plan 31)], ct_tcp := Some 1, ct_grpid := ''001'',
     ct_data := [(sample_cooler_data 31)\<lparr>cd_vol := 12\<rparr>, (sample_cooler_data 32)\<lparr>cd_cur := 7\<rparr>]\<rparr>"

definition open_env :: env where
  "open_env = sample_env\<lparr>env_tcp_open := (\<lambda>_. True)\<rparr>"

lemma report_ctl_facts:
  "ct_drct report_ctl = [hd (cooler_plan 31)]" "ct_tcp report_ctl = Some 1" "env_tcp_open open_env 1"
  "asc_wf (ct_ascproto report_ctl)" "ct_grpid report_ctl = ''001''"
  "ct_data report_ctl = [(sample_cooler_data 31)\<lparr>cd_vol := 12\<rparr>, (sample_cooler_data 32)\<lparr>cd_cur := 7\<rparr>]"
  by (simp_all add: report_ctl_def open_env_def sample_cooler_ctl_def make_cooler_def new_controller_def
      asc_wf_def make_ascproto_def)

lemma report_ctl_reportable:
  "\<forall>d\<in>set (ct_data report_ctl). cooler_reportable boost_ref toy_conv (ct_grpid report_ctl) d"
proof -
  have "cooler_reportable boost_ref toy_conv ''001'' ((sample_cooler_data 31)\<lparr>cd_vol := 12\<rparr>)"
    and "cooler_reportable boost_ref toy_conv ''001'' ((sample_cooler_data 32)\<lparr>cd_cur := 7\<rparr>)"
    by code_simp+
  then show ?thesis by (simp add: report_ctl_facts)
qed

lemma sample_lines:
  "map (cooler_line boost_ref toy_conv (ct_grpid report_ctl)) (ct_data report_ctl) =
   [''cooler group_id=001,unit_id=003,cam_id=031,voltage=12,current=0,hotend=0,coolget=0,coolset=0'' @ [CHR 0x0A],
    ''cooler group_id=001,unit_id=003,cam_id=032,voltage=0,current=7,hotend=0,coolget=0,coolset=0'' @ [CHR 0x0A]]"
proof -
  have "cooler_line boost_ref toy_conv ''001'' ((sample_cooler_data 31)\<lparr>cd_vol := 12\<rparr>) =
      ''cooler group_id=001,unit_id=003,cam_id=031,voltage=12,current=0,hotend=0,coolget=0,coolset=0'' @ [CHR 0x0A]"
    and "cooler_line boost_ref toy_conv ''001'' ((sample_cooler_data 32)\<lparr>cd_cur := 7\<rparr>) =
      ''cooler group_id=001,unit_id=003,cam_id=032,voltage=0,current=7,hotend=0,coolget=0,coolset=0'' @ [CHR 0x0A]"
    by code_simp+
  then show ?thesis by (simp add: report_ctl_facts)
qed

lemma sample_line_lengths:
  "map (\<lambda>l. Inr (length l)) (map (cooler_line boost_ref toy_conv (ct_grpid report_ctl)) (ct_data report_ctl)) =
     [Inr 93, Inr 92 :: error_code + nat]"
  unfolding sample_lines by simp


text \<open>
  A write that fails ends the report and leaves the responding thread. If the write of the k-th line
  throws, only the lines in front of it are on the wire, and the exception leaves \<open>network_respond\<close>: nothing
  on its way up to the thread's entry handles it.
\<close>

theorem cooler_report_write_throws:
  assumes "ct_drct st = [d0]" and "ct_tcp st = Some h" and "env_tcp_open e h"
    and "asc_wf (ct_ascproto st)" and "\<forall>d\<in>set (ct_data st). cooler_reportable S N (ct_grpid st) d"
    and "\<not> tc_usebuf c" and "lines = map (cooler_line S N (ct_grpid st)) (ct_data st)" and "k < length lines"
  shows "\<exists>st' effs. respond_body B (cooler_methods S N ind) e st = Inr (st', effs) \<and>
    session_writes B (map (\<lambda>l. Inr (length l)) (take k lines) @ [Inl err]) effs c =
      Inl (err, bytes_of (concat (take k lines)))"
proof -
  let ?ls = "map (\<lambda>d. bytes_of (cooler_line S N (ct_grpid st) d)) (ct_data st)"
  obtain st' quiet where round: "respond_body B (cooler_methods S N ind) e st = Inr (st', quiet @ map (Net_write h) ?ls)"
    and quiet: "list_all (\<lambda>e. \<not> (\<exists>h l. e = Net_write h l)) quiet"
    using cooler_last_round [OF assms(1-5), of B ind] by blast
  have ls: "?ls = map bytes_of lines"
    by (simp add: assms(7))
  have "k < length ?ls"
    using assms(7,8) by simp
  from arg_cong [OF id_take_nth_drop [OF this], of "map (Net_write h)"]
  have split: "map (Net_write h) ?ls = map (Net_write h) (take k ?ls) @
      Net_write h (bytes_of (lines ! k)) # map (Net_write h) (drop (Suc k) ?ls)"
    using assms(8) unfolding map_append list.map(2) by (simp only: ls nth_map)
  have "lines ! k \<noteq> []"
    using assms(7,8) by (auto simp: cooler_line_def compacted_text_def)
  then have throw: "session_writes B [Inl err] (Net_write h (bytes_of (lines ! k)) # map (Net_write h) (drop (Suc k) ?ls)) c
      = Inl (err, [])"
    using assms(6) by (simp add: tcp_Write_def)
  have "[] \<notin> set (take k ?ls)"
    by (auto simp: cooler_line_def line_nonempty [THEN not_sym] dest!: in_set_takeD)
  from session_lines [OF assms(6) this, of "map length (take k ?ls)" B "[Inl err]" h
      "Net_write h (bytes_of (lines ! k)) # map (Net_write h) (drop (Suc k) ?ls)"]
  have "session_writes B (map Inr (map length (take k ?ls)) @ [Inl err]) (map (Net_write h) ?ls) c =
      Inl (err, concat (take k ?ls))"
    unfolding split throw by (simp add: take_all_lines del: map_map)
  moreover have "map Inr (map length (take k ?ls)) = (map (\<lambda>l. Inr (length l)) (take k lines) :: (error_code + nat) list)"
    by (simp add: ls take_map comp_def)
  moreover have "concat (take k ?ls) = bytes_of (concat (take k lines))"
    by (simp add: assms(7) take_map bytes_of_def map_concat comp_def)
  ultimately have "session_writes B (map (\<lambda>l. Inr (length l)) (take k lines) @ [Inl err]) (quiet @ map (Net_write h) ?ls) c =
      Inl (err, bytes_of (concat (take k lines)))"
    unfolding session_quiet [OF quiet] by (simp only:)
  then show ?thesis
    using round by (intro exI conjI)
qed

theorem cooler_report_write_throws_witness:
  "\<exists>st' effs. respond_body ring_ops (cooler_methods boost_ref toy_conv 0) open_env report_ctl = Inr (st', effs) \<and>
    session_writes ring_ops [Inr 93, Inl (32, ''Broken pipe'')] effs (maketcp_client ring_ops []) =
      Inl ((32, ''Broken pipe''), bytes_of
       (''cooler group_id=001,unit_id=003,cam_id=031,voltage=12,current=0,hotend=0,coolget=0,coolset=0'' @ [CHR 0x0A]))"
proof -
  have c: "\<not> tc_usebuf (maketcp_client ring_ops [])"
    by (simp add: maketcp_client_def)
  have k: "1 < length (map (cooler_line boost_ref toy_conv (ct_grpid report_ctl)) (ct_data report_ctl))"
    by (simp add: report_ctl_facts)
  from cooler_report_write_throws [OF report_ctl_facts(1-4) report_ctl_reportable c refl k,
      of ring_ops 0 "(32, ''Broken pipe'')"]
  show ?thesis unfolding take_map [symmetric] unfolding sample_line_lengths unfolding sample_lines by auto
qed


text \<open>The report of the ion pump controllers, line by line.\<close>

theorem vacuum_report_rendered:
  assumes "boost_strings S" and "ct_drct st = [d0]" and "ct_tcp st = Some h" and "env_tcp_open e h"
    and "asc_wf (ct_ascproto st)" and "\<forall>d\<in>set (ct_data st). vacuum_reportable S N (ct_grpid st) d"
  shows "\<exists>st' quiet lines. respond_body B (vacuum_methods S N) e st = Inr (st', quiet @ map (Net_write h) (map bytes_of lines)) \<and>
    ct_drct st' = [] \<and>
    list_all2 (\<lambda>l d. Resolve S N l = Some (Ap_vacuum (vacuum_message S N (ct_grpid st) d make_apvacuum)))
      lines (ct_data st)"
proof -
  have "list_all2 (\<lambda>l d. Resolve S N l = Some (Ap_vacuum (vacuum_message S N (ct_grpid st) d make_apvacuum)))
      (map (vacuum_line S N (ct_grpid st)) (ct_data st)) (ct_data st)"
    unfolding list_all2_map1 vacuum_line_def
    using boost_strings.resolve_vacuum_roundtrip [OF assms(1)] assms(6)
    by (auto simp: vacuum_reportable_def intro: list_all2_same [THEN iffD2])
  moreover obtain st' quiet where "respond_body B (vacuum_methods S N) e st = Inr (st', quiet @
      map (Net_write h) (map bytes_of (map (vacuum_line S N (ct_grpid st)) (ct_data st))))" "ct_drct st' = []"
    using vacuum_last_round [OF assms(2-6), of B] by (auto simp: comp_def)
  ultimately show ?thesis by blast
qed

end
