(* ===== verification/CMemory.thy ===== *)
theory CMemory
  imports BoostStrings "HOL-Library.Multiset"
begin

text \<open>
  The part of the C library that the uploading code uses: \<open>malloc\<close>, \<open>realloc\<close> and \<open>free\<close> on an
  explicit heap, the reading of NUL-terminated strings, and \<open>sprintf\<close> into a buffer of a given
  size. A block is a list of characters; \<open>None\<close> marks a character that was never written. Whether an
  allocation succeeds is an argument (a predicate on its size).
\<close>

section \<open>Heap\<close>

type_synonym block = "char option list"

record heap =
  hp_next :: nat
  hp_blocks :: "nat \<rightharpoonup> block"

text \<open>Addresses are handed out in increasing order, so those from \<open>hp_next\<close> on are free.\<close>

definition heap_ok :: "heap \<Rightarrow> bool" where
  "heap_ok h \<longleftrightarrow> (\<forall>a. hp_next h \<le> a \<longrightarrow> hp_blocks h a = None)"

definition malloc :: "(nat \<Rightarrow> bool) \<Rightarrow> nat \<Rightarrow> heap \<Rightarrow> nat option \<times> heap" where
  "malloc avail n h =
     (if avail n
      then (Some (hp_next h), \<lparr>hp_next = hp_next h + 1,
              hp_blocks = (hp_blocks h)(hp_next h \<mapsto> replicate n None)\<rparr>)
      else (None, h))"

definition free :: "nat option \<Rightarrow> heap \<Rightarrow> heap outcome" where
  "free p h =
     (case p of
        None \<Rightarrow> Inr h
      | Some a \<Rightarrow> (if hp_blocks h a = None then Inl Bad_pointer
                   else Inr (h\<lparr>hp_blocks := (hp_blocks h)(a := None)\<rparr>)))"

text \<open>On failure \<open>realloc\<close> returns a null pointer and leaves the old block as it is.\<close>

definition realloc :: "(nat \<Rightarrow> bool) \<Rightarrow> nat option \<Rightarrow> nat \<Rightarrow> heap \<Rightarrow> (nat option \<times> heap) outcome" where
  "realloc avail p n h =
     (case p of
        None \<Rightarrow> Inr (malloc avail n h)
      | Some a \<Rightarrow>
          (case hp_blocks h a of
             None \<Rightarrow> Inl Bad_pointer
           | Some b \<Rightarrow>
               (if avail n
                then Inr (Some (hp_next h), \<lparr>hp_next = hp_next h + 1,
                       hp_blocks = (hp_blocks h)
                         (a := None, hp_next h \<mapsto> take n b @ replicate (n - length b) None)\<rparr>)
                else Inr (None, h))))"

definition load :: "nat option \<Rightarrow> heap \<Rightarrow> block outcome" where
  "load p h =
     (case p of
        None \<Rightarrow> Inl Null_pointer
      | Some a \<Rightarrow> (case hp_blocks h a of None \<Rightarrow> Inl Bad_pointer | Some b \<Rightarrow> Inr b))"

text \<open>\<open>memcpy\<close> of characters into a block, from an offset on.\<close>

definition store_at :: "nat option \<Rightarrow> nat \<Rightarrow> string \<Rightarrow> heap \<Rightarrow> heap outcome" where
  "store_at p i s h =
     and_then (load p h)
       (\<lambda>b. if i + length s \<le> length b
            then Inr (h\<lparr>hp_blocks := (hp_blocks h)
                   (the p \<mapsto> take i b @ map Some s @ drop (i + length s) b)\<rparr>)
            else Inl Out_of_bounds)"

text \<open>The characters before the first NUL of a block.\<close>

fun read_str :: "block \<Rightarrow> string outcome" where
  "read_str [] = Inl Out_of_bounds"
| "read_str (None # b) = Inl Indeterminate"
| "read_str (Some c # b) =
     (if c = CHR 0x00 then Inr [] else and_then (read_str b) (\<lambda>s. Inr (c # s)))"

text \<open>A C string: characters without a NUL.\<close>

definition nul_free :: "string \<Rightarrow> bool" where
  "nul_free s \<longleftrightarrow> CHR 0x00 \<notin> set s"

lemma nul_free_simps [simp]:
  "nul_free []" "nul_free (c # s) \<longleftrightarrow> c \<noteq> CHR 0x00 \<and> nul_free s"
  "nul_free (s @ t) \<longleftrightarrow> nul_free s \<and> nul_free t"
  by (auto simp: nul_free_def)

lemma read_str_nul: "nul_free s \<Longrightarrow> read_str (map Some (s @ CHR 0x00 # t) @ b) = Inr s"
  by (induction s) auto

lemma read_str_take: "read_str (map Some s @ Some (CHR 0x00) # b)
    = Inr (takeWhile (\<lambda>c. c \<noteq> CHR 0x00) s)"
  by (induction s) auto

section \<open>Formatted output\<close>

text \<open>\<open>%d\<close> and \<open>%ld\<close> of an integer, and \<open>%03ld\<close>.\<close>

definition show_int :: "int \<Rightarrow> string" where
  "show_int i = (if i < 0 then CHR ''-'' # show_nat (nat (- i)) else show_nat (nat i))"

definition show_int03 :: "int \<Rightarrow> string" where
  "show_int03 i =
     (if i < 0 then CHR ''-'' # replicate (2 - length (show_nat (nat (- i)))) (CHR ''0'') @ show_nat (nat (- i))
      else replicate (3 - length (show_nat (nat i))) (CHR ''0'') @ show_nat (nat i))"

text \<open>\<open>sprintf\<close> into an array of \<open>cap\<close> characters writes the text and a NUL.\<close>

definition sprintf_into :: "nat \<Rightarrow> string \<Rightarrow> string outcome" where
  "sprintf_into cap s = (if length s < cap then Inr s else Inl Out_of_bounds)"

lemma sprintf_into_fits [simp]: "length s < cap \<Longrightarrow> sprintf_into cap s = Inr s"
  by (simp add: sprintf_into_def)

lemma sprintf_into_overflow [simp]: "cap \<le> length s \<Longrightarrow> sprintf_into cap s = Inl Out_of_bounds"
  by (simp add: sprintf_into_def)

text \<open>Decimal renderings are short: a number below \<open>10 ^ k\<close> has at most \<open>k\<close> digits.\<close>

lemma length_show_nat: "n < 10 ^ k \<Longrightarrow> 0 < k \<Longrightarrow> length (show_nat n) \<le> k"
proof (induction n arbitrary: k rule: show_nat.induct)
  case (1 n)
  show ?case
  proof (cases "n < 10")
    case True
    with 1 show ?thesis by (simp add: show_nat.simps [of n])
  next
    case False
    with 1(2) have "k \<noteq> 1" by auto
    with 1(3) obtain j where k: "k = Suc j" "0 < j" by (cases k) auto
    with 1(2) have "n div 10 < 10 ^ j" by (simp add: div_less_iff_less_mult mult.commute)
    with 1(1) [of j] False k show ?thesis by (simp add: show_nat.simps [of n])
  qed
qed

lemma show_int_fits:
  assumes "i \<in> {- (2 ^ 31) ..< 2 ^ 31}"
  shows "length (show_int i) \<le> 11"
proof -
  have "nat (- i) < 10 ^ 10" and "nat i < 10 ^ 10"
    using assms by auto
  from this [THEN length_show_nat] show ?thesis
    by (simp add: show_int_def)
qed

section \<open>Facts on the heap\<close>

lemma malloc_avail: "avail n \<Longrightarrow> malloc avail n h = (Some (hp_next h), \<lparr>hp_next = hp_next h + 1,
    hp_blocks = (hp_blocks h)(hp_next h \<mapsto> replicate n None)\<rparr>)"
  by (simp add: malloc_def)

lemma heap_ok_fresh: "heap_ok h \<Longrightarrow> hp_blocks h a = Some b \<Longrightarrow> a < hp_next h"
  unfolding heap_ok_def by (metis not_less option.distinct(1))

lemma heap_ok_upd:
  "heap_ok h \<Longrightarrow> heap_ok \<lparr>hp_next = hp_next h + 1, hp_blocks = (hp_blocks h)(hp_next h := x)\<rparr>"
  by (auto simp: heap_ok_def)

text \<open>The pointers of a list own distinct allocated blocks.\<close>

definition owns :: "nat option list \<Rightarrow> heap \<Rightarrow> bool" where
  "owns ps h \<longleftrightarrow> distinct (filter (\<lambda>p. p \<noteq> None) ps) \<and> (\<forall>a. Some a \<in> set ps \<longrightarrow> hp_blocks h a \<noteq> None)"

lemma owns_Nil [simp]: "owns [] h"
  by (simp add: owns_def)

lemma owns_None [simp]: "owns (None # ps) h = owns ps h"
  by (simp add: owns_def)

lemma owns_Some: "owns (Some a # ps) h \<longleftrightarrow> Some a \<notin> set ps \<and> hp_blocks h a \<noteq> None \<and> owns ps h"
  by (auto simp: owns_def)

lemma owns_perm: "mset ps = mset qs \<Longrightarrow> owns ps h \<Longrightarrow> owns qs h"
  unfolding owns_def
  by (metis mset_eq_imp_distinct_iff mset_eq_setD mset_filter)

text \<open>The heap without the blocks of a list of pointers.\<close>

definition released :: "nat option list \<Rightarrow> heap \<Rightarrow> heap" where
  "released ps h = h\<lparr>hp_blocks := \<lambda>a. if Some a \<in> set ps then None else hp_blocks h a\<rparr>"

lemma released_Nil: "released [] h = h"
  by (simp add: released_def)

end
