(* ===== verification/DataTransfer.thy ===== *)
theory DataTransfer
  imports CMemory "HOL-Library.List_Lexorder" "HOL-Library.Char_ord" "HOL-Library.Multiset"
begin

text \<open>
  The upload to the database (DataTransfer.h, DataTransfer.cpp): the service addresses built by the
  constructor, the form fields of every kind of report, the transfer itself with its result codes, and
  the callback that collects the server's answer in a growing block. libcurl is not part of the
  repository: the record \<open>curl_lib\<close> stands for what its calls return, and the answer of the server
  arrives as the sequence of pieces that the library passes to the callback.
\<close>

section \<open>Ordered multimaps\<close>

text \<open>
  \<open>std::multimap\<close> iterates in the order of the keys; \<open>insert\<close> puts an entry behind those with an
  equal key. The keys are \<open>std::string\<close>s, which compare by the codes of their characters.
\<close>

fun mm_insert :: "'k::linorder \<Rightarrow> 'v \<Rightarrow> ('k \<times> 'v) list \<Rightarrow> ('k \<times> 'v) list" where
  "mm_insert k v [] = [(k, v)]"
| "mm_insert k v ((k', v') # m) =
     (if k < k' then (k, v) # (k', v') # m else (k', v') # mm_insert k v m)"

definition mm_of :: "('k::linorder \<times> 'v) list \<Rightarrow> ('k \<times> 'v) list" where
  "mm_of kvs = foldl (\<lambda>m (k, v). mm_insert k v m) [] kvs"

lemma mset_mm_insert [simp]: "mset (mm_insert k v m) = add_mset (k, v) (mset m)"
  by (induction k v m rule: mm_insert.induct) auto

lemma set_mm_insert [simp]: "set (mm_insert k v m) = insert (k, v) (set m)"
  by (simp flip: set_mset_mset)

lemma sorted_mm_insert: "sorted (map fst m) \<Longrightarrow> sorted (map fst (mm_insert k v m))"
  by (induction k v m rule: mm_insert.induct) (auto simp: not_less)

lemma filter_mm_insert_same:
  "sorted (map fst m) \<Longrightarrow>
   filter (\<lambda>x. k = fst x) (mm_insert k v m) = filter (\<lambda>x. k = fst x) m @ [(k, v)]"
proof (induction k v m rule: mm_insert.induct)
  case (1 k v)
  then show ?case by simp
next
  case (2 k v k' v' m)
  show ?case
  proof (cases "k < k'")
    case True
    with 2(2) have "filter (\<lambda>x. k = fst x) ((k', v') # m) = []"
      by (auto simp: filter_empty_conv)
    with True show ?thesis by simp
  next
    case False
    with 2 show ?thesis by auto
  qed
qed

lemma filter_mm_insert_other: "k \<noteq> j \<Longrightarrow>
   filter (\<lambda>x. j = fst x) (mm_insert k v m) = filter (\<lambda>x. j = fst x) m"
  by (induction k v m rule: mm_insert.induct) auto

lemma mm_of_snoc: "mm_of (kvs @ [(k, v)]) = mm_insert k v (mm_of kvs)"
  by (simp add: mm_of_def)

lemma mm_of_facts:
  "sorted (map fst (mm_of kvs)) \<and> mset (mm_of kvs) = mset kvs \<and>
   (\<forall>j. filter (\<lambda>x. j = fst x) (mm_of kvs) = filter (\<lambda>x. j = fst x) kvs)"
proof (induction kvs rule: rev_induct)
  case Nil
  then show ?case by (simp add: mm_of_def)
next
  case (snoc x kvs)
  obtain k v where x: "x = (k, v)" by force
  have "filter (\<lambda>y. j = fst y) (mm_insert k v (mm_of kvs))
      = filter (\<lambda>y. j = fst y) (kvs @ [(k, v)])" for j
    using snoc filter_mm_insert_same [of "mm_of kvs" k v] filter_mm_insert_other [of k j v "mm_of kvs"]
    by (cases "k = j") auto
  with snoc show ?case by (simp add: x mm_of_snoc sorted_mm_insert)
qed

lemma mm_of_sort: "mm_of kvs = sort_key fst kvs"
  by (rule sym, rule properties_for_sort_key) (use mm_of_facts [of kvs] in auto)

lemma mm_of_Nil_iff [simp]: "mm_of kvs = [] \<longleftrightarrow> kvs = []"
  using mm_of_facts [of kvs] by (metis mset_zero_iff)

section \<open>Result codes and sizes\<close>

definition GWAC_SUCCESS :: int where "GWAC_SUCCESS = 0"
definition GWAC_MALLOC_ERROR :: int where "GWAC_MALLOC_ERROR = 3003"
definition GWAC_FUNCTION_INPUT_NULL :: int where "GWAC_FUNCTION_INPUT_NULL = 3004"
definition GWAC_FUNCTION_INPUT_EMPTY :: int where "GWAC_FUNCTION_INPUT_EMPTY = 3005"
definition GWAC_STATUS_STR_NULL :: int where "GWAC_STATUS_STR_NULL = 3006"
definition GWAC_STRING_NULL_OR_EMPTY :: int where "GWAC_STRING_NULL_OR_EMPTY = 3007"
definition GWAC_SEND_DATA_ERROR :: int where "GWAC_SEND_DATA_ERROR = 3008"

definition URL_MAX_LENGTH :: nat where "URL_MAX_LENGTH = 10240"
definition CURL_ERROR_BUFFER :: nat where "CURL_ERROR_BUFFER = 10240"

lemmas gwac_codes = GWAC_SUCCESS_def GWAC_MALLOC_ERROR_def GWAC_FUNCTION_INPUT_NULL_def
  GWAC_FUNCTION_INPUT_EMPTY_def GWAC_STATUS_STR_NULL_def GWAC_STRING_NULL_OR_EMPTY_def
  GWAC_SEND_DATA_ERROR_def

text \<open>Arithmetic of \<open>size_t\<close>.\<close>

definition size_t :: "nat \<Rightarrow> nat" where
  "size_t n = n mod 2 ^ 64"

lemma size_t_small [simp]: "n < 2 ^ 64 \<Longrightarrow> size_t n = n"
  by (simp add: size_t_def)

section \<open>The answer of the server\<close>

record curl_cache =
  cc_memory :: "nat option"
  cc_size :: nat

definition WriteMemoryCallback ::
  "(nat \<Rightarrow> bool) \<Rightarrow> string \<Rightarrow> nat \<Rightarrow> nat \<Rightarrow> curl_cache \<Rightarrow> heap \<Rightarrow> (nat \<times> curl_cache \<times> heap) outcome" where
  "WriteMemoryCallback avail contents sz nmemb mem h =
     (let realsize = size_t (sz * nmemb)
      in and_then (realloc avail (cc_memory mem) (size_t (cc_size mem + realsize + 1)) h)
        (\<lambda>(p, h1).
           let mem1 = mem\<lparr>cc_memory := p\<rparr>
           in if p = None then Inr (0, mem1, h1)
              else if length contents < realsize then Inl Out_of_bounds
              else and_then (store_at p (cc_size mem1) (take realsize contents) h1)
                (\<lambda>h2.
                   let mem2 = mem1\<lparr>cc_size := size_t (cc_size mem1 + realsize)\<rparr>
                   in and_then (store_at p (cc_size mem2) [CHR 0x00] h2)
                        (\<lambda>h3. Inr (realsize, mem2, h3)))))"

text \<open>
  The library passes the pieces one after the other, each with the size 1, and gives up when the
  callback returns another number than the length of the piece.
\<close>

fun deliver :: "(nat \<Rightarrow> bool) \<Rightarrow> string list \<Rightarrow> curl_cache \<Rightarrow> heap \<Rightarrow> (bool \<times> curl_cache \<times> heap) outcome" where
  "deliver avail [] mem h = Inr (True, mem, h)"
| "deliver avail (c # cs) mem h =
     and_then (WriteMemoryCallback avail c 1 (length c) mem h)
       (\<lambda>(n, mem', h'). if n = length c then deliver avail cs mem' h' else Inr (False, mem', h'))"

section \<open>Construction and destruction\<close>

record data_transfer =
  rootUrl :: string
  ot1ListUrl :: "nat option"
  getOt2CutImageListUrl :: "nat option"
  imageQualityFileUrl :: "nat option"
  lookBackResultUrl :: "nat option"
  sendOt2CutImageListUrl :: "nat option"
  ot2TmplCutImageListUrl :: "nat option"
  sendLogMsgUrl :: "nat option"
  sendMagCalibrationUrl :: "nat option"
  sendFitsPreviewUrl :: "nat option"
  regOrigImgUrl :: "nat option"
  updateVacuumUrl :: "nat option"
  updateTemperatureUrl :: "nat option"
  updateFocusUrl :: "nat option"
  updateMountStatusUrl :: "nat option"
  updateCameraStatusUrl :: "nat option"
  updateObsCtlSysStatusUrl :: "nat option"
  tmpChunk :: "nat option"
  tmpCache :: curl_cache    \<comment> \<open>the object that \<open>tmpChunk\<close> points to\<close>

definition joinStr :: "(nat \<Rightarrow> bool) \<Rightarrow> string \<Rightarrow> string \<Rightarrow> heap \<Rightarrow> (int \<times> nat option \<times> heap) outcome" where
  "joinStr avail s1 s2 h =
     (let (p, h1) = malloc avail (length s1 + length s2 + 1) h
      in if p = None then Inr (GWAC_MALLOC_ERROR, p, h1)
         else and_then (store_at p 0 (s1 @ [CHR 0x00]) h1)
           (\<lambda>h2. and_then (store_at p (length s1) (s2 @ [CHR 0x00]) h2)
             (\<lambda>h3. Inr (GWAC_SUCCESS, p, h3))))"

text \<open>The addresses of the services, in the order in which \<open>initParameter\<close> builds them.\<close>

definition url_table :: "(string \<times> (nat option \<Rightarrow> data_transfer \<Rightarrow> data_transfer)) list" where
  "url_table =
     [(''commonFileUpload.action'', \<lambda>p. ot1ListUrl_update (\<lambda>_. p)),
      (''commonFileUpload.action'', \<lambda>p. imageQualityFileUrl_update (\<lambda>_. p)),
      (''otLookBack.action'', \<lambda>p. lookBackResultUrl_update (\<lambda>_. p)),
      (''commonFileUpload.action'', \<lambda>p. sendOt2CutImageListUrl_update (\<lambda>_. p)),
      (''commonLog.action'', \<lambda>p. sendLogMsgUrl_update (\<lambda>_. p)),
      (''commonFileUpload.action'', \<lambda>p. sendMagCalibrationUrl_update (\<lambda>_. p)),
      (''commonFileUpload.action'', \<lambda>p. sendFitsPreviewUrl_update (\<lambda>_. p)),
      (''commonFileUpload.action'', \<lambda>p. getOt2CutImageListUrl_update (\<lambda>_. p)),
      (''commonFileUpload.action'', \<lambda>p. ot2TmplCutImageListUrl_update (\<lambda>_. p)),
      (''regOrigImg.action'', \<lambda>p. regOrigImgUrl_update (\<lambda>_. p)),
      (''uploadVacuum.action'', \<lambda>p. updateVacuumUrl_update (\<lambda>_. p)),
      (''uploadTemperature.action'', \<lambda>p. updateTemperatureUrl_update (\<lambda>_. p)),
      (''uploadFocusStatus.action'', \<lambda>p. updateFocusUrl_update (\<lambda>_. p)),
      (''uploadMountStatus.action'', \<lambda>p. updateMountStatusUrl_update (\<lambda>_. p)),
      (''uploadCameraStatus.action'', \<lambda>p. updateCameraStatusUrl_update (\<lambda>_. p)),
      (''uploadObsCtlSysStatus.action'', \<lambda>p. updateObsCtlSysStatusUrl_update (\<lambda>_. p))]"

fun join_all ::
  "(nat \<Rightarrow> bool) \<Rightarrow> (string \<times> (nat option \<Rightarrow> data_transfer \<Rightarrow> data_transfer)) list \<Rightarrow> data_transfer \<Rightarrow> heap
     \<Rightarrow> (data_transfer \<times> heap) outcome" where
  "join_all avail [] dt h = Inr (dt, h)"
| "join_all avail ((sfx, set_url) # us) dt h =
     and_then (joinStr avail (rootUrl dt) sfx h)
       (\<lambda>(rc, p, h'). join_all avail us (set_url p dt) h')"

text \<open>\<open>sizeof (struct CurlCache)\<close>: a pointer and a \<open>size_t\<close>.\<close>

definition sizeof_CurlCache :: nat where "sizeof_CurlCache = 16"

definition initParameter ::
  "(nat \<Rightarrow> bool) \<Rightarrow> data_transfer \<Rightarrow> heap \<Rightarrow> (data_transfer \<times> heap) outcome" where
  "initParameter avail dt h =
     and_then (join_all avail url_table dt h)
       (\<lambda>(dt', h'). let (p, h'') = malloc avail sizeof_CurlCache h' in Inr (dt'\<lparr>tmpChunk := p\<rparr>, h''))"

text \<open>Before the constructor the storage of the object holds anything: the argument \<open>fresh\<close>.\<close>

definition new_data_transfer ::
  "(nat \<Rightarrow> bool) \<Rightarrow> data_transfer \<Rightarrow> string \<Rightarrow> heap \<Rightarrow> (data_transfer \<times> heap) outcome" where
  "new_data_transfer avail fresh url h = initParameter avail (fresh\<lparr>rootUrl := url\<rparr>) h"

fun free_all :: "nat option list \<Rightarrow> heap \<Rightarrow> heap outcome" where
  "free_all [] h = Inr h"
| "free_all (p # ps) h = and_then (if p \<noteq> None then free p h else Inr h) (free_all ps)"

definition destroy_data_transfer :: "data_transfer \<Rightarrow> heap \<Rightarrow> heap outcome" where
  "destroy_data_transfer dt h =
     free_all
       [ot1ListUrl dt, getOt2CutImageListUrl dt, imageQualityFileUrl dt, lookBackResultUrl dt,
        ot2TmplCutImageListUrl dt, sendOt2CutImageListUrl dt, sendLogMsgUrl dt, sendMagCalibrationUrl dt,
        sendFitsPreviewUrl dt, regOrigImgUrl dt, updateVacuumUrl dt, updateTemperatureUrl dt,
        updateFocusUrl dt, updateMountStatusUrl dt, updateCameraStatusUrl dt,
        updateObsCtlSysStatusUrl dt, tmpChunk dt] h"

section \<open>The transfer\<close>

datatype form_part =
    Form_contents string string   \<comment> \<open>name and value of a parameter\<close>
  | Form_file string string       \<comment> \<open>name of the field and path of the file\<close>

definition CURLE_OK :: int where "CURLE_OK = 0"
definition CURLE_WRITE_ERROR :: int where "CURLE_WRITE_ERROR = 23"

record curl_lib =
  cu_session :: bool                                     \<comment> \<open>\<open>curl_easy_init\<close> succeeds\<close>
  cu_pieces :: "string \<Rightarrow> form_part list \<Rightarrow> string list"  \<comment> \<open>the answer, as it arrives\<close>
  cu_perform :: "string \<Rightarrow> form_part list \<Rightarrow> int"         \<comment> \<open>the result when every piece was taken\<close>
  cu_info :: "string \<Rightarrow> form_part list \<Rightarrow> int \<times> int"      \<comment> \<open>\<open>curl_easy_getinfo\<close> and the HTTP status\<close>
  cu_errbuf :: "string \<Rightarrow> form_part list \<Rightarrow> string"
  cu_strerror :: "int \<Rightarrow> string"

record upload =
  up_code :: int
  up_status :: "string option"     \<comment> \<open>the text written to \<open>statusstr\<close>\<close>
  up_cache :: curl_cache
  up_heap :: heap
  up_request :: "(string \<times> form_part list) option"

definition form_of :: "string \<Rightarrow> (string \<times> string) list \<Rightarrow> (string \<times> string) list \<Rightarrow> form_part list" where
  "form_of path params files =
     map (\<lambda>(k, v). Form_contents k v) params @ map (\<lambda>(k, v). Form_file k (path @ v)) files"

text \<open>The part between \<open>curl_easy_setopt\<close> and the clean-up: perform, and report into \<open>statusstr\<close>.\<close>

definition perform_request ::
  "(nat \<Rightarrow> bool) \<Rightarrow> curl_lib \<Rightarrow> string \<Rightarrow> string \<Rightarrow> form_part list \<Rightarrow> nat \<Rightarrow> curl_cache \<Rightarrow> heap
     \<Rightarrow> (int \<times> string \<times> curl_cache \<times> heap) outcome" where
  "perform_request avail L src url form cap mem h =
     and_then (deliver avail (cu_pieces L url form) mem h)
       (\<lambda>(complete, mem1, h1).
          let curlCode = (if complete then cu_perform L url form else CURLE_WRITE_ERROR)
          in if curlCode \<noteq> CURLE_OK
             then and_then (sprintf_into cap
                 (''File '' @ src @ '' line 509, Error Code: '' @ show_int GWAC_SEND_DATA_ERROR @ [CHR 0x0A]
                  @ ''curl_easy_perform() failed: '' @ cu_strerror L curlCode @ [CHR 0x0A]))
               (\<lambda>s. Inr (GWAC_SEND_DATA_ERROR, s, mem1, h1))
             else let (curlCode2, http_code) = cu_info L url form
               in if http_code = 200 \<and> curlCode2 = CURLE_OK
                  then and_then (load (cc_memory mem1) h1)
                    (\<lambda>b. and_then (read_str b)
                      (\<lambda>body. and_then (sprintf_into cap (body @ [CHR 0x0A]))
                        (\<lambda>s. Inr (GWAC_SUCCESS, s, mem1, h1))))
                  else and_then (sprintf_into cap
                      (''File '' @ src @ '' line 524, Error Code of http: '' @ show_int http_code @ [CHR 0x0A]
                       @ ''curl_easy_perform() error: '' @ cu_strerror L curlCode @ '', server response: ''
                       @ cu_errbuf L url form @ [CHR 0x0A]))
                    (\<lambda>s. Inr (GWAC_SEND_DATA_ERROR, s, mem1, h1)))"

text \<open>
  The checks of data.h that leave the function: the code they return (or the array for the text), and for
  the second one the text they print first. An address that is a null pointer is treated like the empty string.
\<close>

definition CHECK_STATUS_STR_IS_NULL :: "nat option \<Rightarrow> int + nat" where
  "CHECK_STATUS_STR_IS_NULL statusstr = (case statusstr of None \<Rightarrow> Inl GWAC_STATUS_STR_NULL | Some cap \<Rightarrow> Inr cap)"

definition CHECK_STRING_NULL_OR_EMPTY :: "string \<Rightarrow> nat \<Rightarrow> string \<Rightarrow> string \<Rightarrow> (int \<times> string) option" where
  "CHECK_STRING_NULL_OR_EMPTY src line var varname =
     (if var = []
      then Some (GWAC_FUNCTION_INPUT_NULL,
             ''Error Code: '' @ show_int GWAC_STRING_NULL_OR_EMPTY @ [CHR 0x0A] @ ''File '' @ src @ '' line ''
             @ show_nat line @ '', string '' @ [CHR 0x22] @ varname @ [CHR 0x22] @ '' is NULL or empty!'' @ [CHR 0x0A])
      else None)"

lemma check_simps [simp]:
  "CHECK_STATUS_STR_IS_NULL (Some cap) = Inr cap" "CHECK_STATUS_STR_IS_NULL None = Inl GWAC_STATUS_STR_NULL"
  "u \<noteq> [] \<Longrightarrow> CHECK_STRING_NULL_OR_EMPTY src line u v = None"
  by (simp_all add: CHECK_STATUS_STR_IS_NULL_def CHECK_STRING_NULL_OR_EMPTY_def)

definition upload_rest ::
  "(nat \<Rightarrow> bool) \<Rightarrow> curl_lib \<Rightarrow> string \<Rightarrow> data_transfer \<Rightarrow> string \<Rightarrow> string
     \<Rightarrow> (string \<times> string) list \<Rightarrow> (string \<times> string) list \<Rightarrow> nat \<Rightarrow> heap \<Rightarrow> upload outcome" where
  "upload_rest avail L src dt u path params files cap h =
     (let answer = (\<lambda>rc s. Inr \<lparr>up_code = rc, up_status = Some s, up_cache = tmpCache dt, up_heap = h,
                              up_request = None\<rparr>)
      in
      case CHECK_STRING_NULL_OR_EMPTY src 399 u ''url'' of
        Some (rc, msg) \<Rightarrow> and_then (sprintf_into cap msg) (answer rc)
      | None \<Rightarrow>
      if params = [] \<and> files = []
      then and_then (sprintf_into cap
             (''File '' @ src @ '' line 406, Error Code: '' @ show_int GWAC_FUNCTION_INPUT_EMPTY @ [CHR 0x0A]
              @ ''the input parameter objvec is empty!'' @ [CHR 0x0A]))
           (answer GWAC_FUNCTION_INPUT_EMPTY)
      else if tmpChunk dt = None then Inl Null_pointer
      else
        let (p, h1) = malloc avail 1 h;
            mem = \<lparr>cc_memory = p, cc_size = 0\<rparr>;
            form = form_of path params files
        in if \<not> cu_session L
           then and_then (sprintf_into cap
                  (''File '' @ src @ '' line 548, Error Code: '' @ show_int GWAC_SEND_DATA_ERROR @ [CHR 0x0A]
                   @ ''In uploadDatas, the input parameter objvec is empty!'' @ [CHR 0x0A]))
                (\<lambda>s. Inr \<lparr>up_code = GWAC_SEND_DATA_ERROR, up_status = Some s, up_cache = mem, up_heap = h1,
                         up_request = None\<rparr>)
           else
             let (reqErrorBuf, h2) = malloc avail CURL_ERROR_BUFFER h1;
                 (fullUrl, h3) = malloc avail URL_MAX_LENGTH h2
             in if reqErrorBuf = None \<or> fullUrl = None then Inl Null_pointer
                else and_then (sprintf_into URL_MAX_LENGTH u)
                  (\<lambda>full. and_then (perform_request avail L src full form cap mem h3)
                    (\<lambda>(rc, s, mem1, h4).
                       and_then (free_all [fullUrl, reqErrorBuf, cc_memory mem1] h4)
                         (\<lambda>h5. Inr \<lparr>up_code = rc, up_status = Some s, up_cache = mem1, up_heap = h5,
                                    up_request = Some (full, form)\<rparr>))))"

definition uploadDatas ::
  "(nat \<Rightarrow> bool) \<Rightarrow> curl_lib \<Rightarrow> string \<Rightarrow> data_transfer \<Rightarrow> nat option \<Rightarrow> string
     \<Rightarrow> (string \<times> string) list \<Rightarrow> (string \<times> string) list \<Rightarrow> nat option \<Rightarrow> heap \<Rightarrow> upload outcome" where
  "uploadDatas avail L src dt url path params files statusstr h =
     (case CHECK_STATUS_STR_IS_NULL statusstr of
        Inl rc \<Rightarrow> Inr \<lparr>up_code = rc, up_status = None, up_cache = tmpCache dt, up_heap = h, up_request = None\<rparr>
      | Inr cap \<Rightarrow>
          and_then (if url = None then Inr [] else and_then (load url h) read_str)
            (\<lambda>u. upload_rest avail L src dt u path params files cap h))"

section \<open>The reports\<close>

text \<open>
  The entries are made in the order of the code; a value rendered with \<open>sprintf\<close> goes through a local
  array first (\<open>tstr\<close> of 64 characters, \<open>flagStr\<close> of 10).
\<close>

fun entries :: "(string \<times> string outcome) list \<Rightarrow> (string \<times> string) list outcome" where
  "entries [] = Inr []"
| "entries ((k, r) # es) = and_then r (\<lambda>v. and_then (entries es) (\<lambda>kvs. Inr ((k, v) # kvs)))"

definition tstr_d :: "32 word \<Rightarrow> string outcome" where
  "tstr_d n = sprintf_into 64 (show_int (sint n))"

definition tstr_f :: "num_conv \<Rightarrow> float32 \<Rightarrow> string outcome" where
  "tstr_f N x = sprintf_into 64 (nc_fmt_f N x)"

text \<open>What the reports share: the library, the allocator, the name of the source file and the caller's array.\<close>

record call_env =
  ce_avail :: "nat \<Rightarrow> bool"
  ce_curl :: curl_lib
  ce_file :: string
  ce_cap :: "nat option"    \<comment> \<open>size of the array \<open>statusstr\<close>, or a null pointer\<close>

definition upload_params ::
  "call_env \<Rightarrow> data_transfer \<Rightarrow> nat option \<Rightarrow> (string \<times> string outcome) list \<Rightarrow> heap \<Rightarrow> upload outcome" where
  "upload_params E dt url es h =
     and_then (entries es)
       (\<lambda>kvs. uploadDatas (ce_avail E) (ce_curl E) (ce_file E) dt url [] (mm_of kvs) [] (ce_cap E) h)"

definition upload_files ::
  "call_env \<Rightarrow> data_transfer \<Rightarrow> nat option \<Rightarrow> string \<Rightarrow> string \<Rightarrow> string list \<Rightarrow> heap \<Rightarrow> upload outcome" where
  "upload_files E dt url path ftype fNames h =
     uploadDatas (ce_avail E) (ce_curl E) (ce_file E) dt url path (mm_of [(''fileType'', ftype)])
       (mm_of (map (\<lambda>f. (''fileUpload'', f)) fNames)) (ce_cap E) h"

definition uploadFocus ::
  "call_env \<Rightarrow> data_transfer \<Rightarrow> 32 word \<Rightarrow> 32 word \<Rightarrow> 32 word \<Rightarrow> heap \<Rightarrow> upload outcome" where
  "uploadFocus E dt fbfId focus cameraId =
     upload_params E dt (updateFocusUrl dt)
       [(''fbfId'', tstr_d fbfId), (''focus'', tstr_d focus), (''cameraId'', tstr_d cameraId)]"

definition uploadMountStatus ::
  "num_conv \<Rightarrow> call_env \<Rightarrow> data_transfer \<Rightarrow> string \<Rightarrow> string \<Rightarrow> string \<Rightarrow> 32 word \<Rightarrow> 32 word
     \<Rightarrow> float32 \<Rightarrow> float32 \<Rightarrow> float32 \<Rightarrow> float32 \<Rightarrow> heap \<Rightarrow> upload outcome" where
  "uploadMountStatus N E dt groupId unitId utc state errcode ra dec objRa objDec =
     upload_params E dt (updateMountStatusUrl dt)
       [(''groupId'', Inr groupId), (''unitId'', Inr unitId), (''utc'', Inr utc),
        (''state'', tstr_d state), (''errcode'', tstr_d errcode), (''ra'', tstr_f N ra),
        (''dec'', tstr_f N dec), (''objRa'', tstr_f N objRa), (''objDec'', tstr_f N objDec)]"

definition uploadCameraStatus ::
  "num_conv \<Rightarrow> call_env \<Rightarrow> data_transfer \<Rightarrow> string \<Rightarrow> string \<Rightarrow> string \<Rightarrow> string \<Rightarrow> 32 word \<Rightarrow> 32 word
     \<Rightarrow> float32 \<Rightarrow> string \<Rightarrow> 32 word \<Rightarrow> 32 word \<Rightarrow> string \<Rightarrow> string \<Rightarrow> 32 word \<Rightarrow> string \<Rightarrow> heap
     \<Rightarrow> upload outcome" where
  "uploadCameraStatus N E dt groupId unitId camId utc mcState focus coolget filt state errcode imgType
       objName frmNo fileName =
     upload_params E dt (updateCameraStatusUrl dt)
       [(''groupId'', Inr groupId), (''unitId'', Inr unitId), (''camId'', Inr camId), (''utc'', Inr utc),
        (''mcState'', tstr_d mcState), (''focus'', tstr_d focus), (''coolget'', tstr_f N coolget),
        (''filter'', Inr filt), (''state'', tstr_d state), (''errcode'', tstr_d errcode),
        (''imgType'', Inr imgType), (''objName'', Inr objName), (''frmNo'', tstr_d frmNo),
        (''fileName'', Inr fileName)]"

definition uploadObsCtlSysStatus ::
  "call_env \<Rightarrow> data_transfer \<Rightarrow> string \<Rightarrow> string \<Rightarrow> string \<Rightarrow> 32 word \<Rightarrow> 32 word \<Rightarrow> string \<Rightarrow> heap
     \<Rightarrow> upload outcome" where
  "uploadObsCtlSysStatus E dt groupId unitId utc state opSn opTime =
     upload_params E dt (updateObsCtlSysStatusUrl dt)
       [(''groupId'', Inr groupId), (''unitId'', Inr unitId), (''utc'', Inr utc),
        (''state'', tstr_d state), (''opSn'', tstr_d opSn), (''opTime'', Inr opTime)]"

definition uploadTemperature ::
  "num_conv \<Rightarrow> call_env \<Rightarrow> data_transfer \<Rightarrow> string \<Rightarrow> string \<Rightarrow> string \<Rightarrow> float32 \<Rightarrow> float32 \<Rightarrow> float32
     \<Rightarrow> float32 \<Rightarrow> float32 \<Rightarrow> string \<Rightarrow> heap \<Rightarrow> upload outcome" where
  "uploadTemperature N E dt groupId unitId camId voltage current thot coolget coolset tm =
     upload_params E dt (updateTemperatureUrl dt)
       [(''groupId'', Inr groupId), (''unitId'', Inr unitId), (''camId'', Inr camId),
        (''voltage'', tstr_f N voltage), (''current'', tstr_f N current), (''thot'', tstr_f N thot),
        (''coolget'', tstr_f N coolget), (''coolset'', tstr_f N coolset), (''time'', Inr tm)]"

definition uploadVacuum ::
  "num_conv \<Rightarrow> call_env \<Rightarrow> data_transfer \<Rightarrow> string \<Rightarrow> string \<Rightarrow> string \<Rightarrow> float32 \<Rightarrow> float32 \<Rightarrow> float32
     \<Rightarrow> string \<Rightarrow> heap \<Rightarrow> upload outcome" where
  "uploadVacuum N E dt groupId unitId camId voltage current pressure tm =
     upload_params E dt (updateVacuumUrl dt)
       [(''groupId'', Inr groupId), (''unitId'', Inr unitId), (''camId'', Inr camId),
        (''voltage'', tstr_f N voltage), (''current'', tstr_f N current),
        (''pressure'', tstr_f N pressure), (''time'', Inr tm)]"

definition regOrigImage ::
  "call_env \<Rightarrow> data_transfer \<Rightarrow> string \<Rightarrow> string \<Rightarrow> string \<Rightarrow> string \<Rightarrow> string \<Rightarrow> string \<Rightarrow> string \<Rightarrow> string
     \<Rightarrow> heap \<Rightarrow> upload outcome" where
  "regOrigImage E dt groupId unitId camId gridId fieldId imgName imgPath genTime =
     upload_params E dt (regOrigImgUrl dt)
       [(''groupId'', Inr groupId), (''unitId'', Inr unitId), (''camId'', Inr camId),
        (''gridId'', Inr gridId), (''fieldId'', Inr fieldId), (''imgName'', Inr imgName),
        (''imgPath'', Inr imgPath), (''genTime'', Inr genTime)]"

definition sendOT1ListFile :: "call_env \<Rightarrow> data_transfer \<Rightarrow> string \<Rightarrow> string \<Rightarrow> heap \<Rightarrow> upload outcome" where
  "sendOT1ListFile E dt path fName = upload_files E dt (ot1ListUrl dt) path ''crsot1'' [fName]"

definition sendOT2CutImage ::
  "call_env \<Rightarrow> data_transfer \<Rightarrow> string \<Rightarrow> string list \<Rightarrow> heap \<Rightarrow> upload outcome" where
  "sendOT2CutImage E dt path fNames = upload_files E dt (sendOt2CutImageListUrl dt) path ''ot2im'' fNames"

definition sendOT2CutImageRef ::
  "call_env \<Rightarrow> data_transfer \<Rightarrow> string \<Rightarrow> string list \<Rightarrow> heap \<Rightarrow> upload outcome" where
  "sendOT2CutImageRef E dt path fNames =
     upload_files E dt (sendOt2CutImageListUrl dt) path ''ot2imr'' fNames"

definition sendImageQualityFile :: "call_env \<Rightarrow> data_transfer \<Rightarrow> string \<Rightarrow> string \<Rightarrow> heap \<Rightarrow> upload outcome" where
  "sendImageQualityFile E dt path fName = upload_files E dt (imageQualityFileUrl dt) path ''imqty'' [fName]"

definition sendFitsPreview :: "call_env \<Rightarrow> data_transfer \<Rightarrow> string \<Rightarrow> string \<Rightarrow> heap \<Rightarrow> upload outcome" where
  "sendFitsPreview E dt path fName = upload_files E dt (sendFitsPreviewUrl dt) path ''impre'' [fName]"

definition sendMagCalibrationFile :: "call_env \<Rightarrow> data_transfer \<Rightarrow> string \<Rightarrow> string \<Rightarrow> heap \<Rightarrow> upload outcome" where
  "sendMagCalibrationFile E dt path fName =
     upload_files E dt (sendMagCalibrationUrl dt) path ''magclb'' [fName]"

definition sendLookBackResult :: "call_env \<Rightarrow> data_transfer \<Rightarrow> string \<Rightarrow> 32 word \<Rightarrow> heap \<Rightarrow> upload outcome" where
  "sendLookBackResult E dt ot2Name flag h =
     and_then (sprintf_into 10 (show_int (sint flag)))
       (\<lambda>flagStr. upload_params E dt (lookBackResultUrl dt)
          [(''ot2name'', Inr ot2Name), (''flag'', Inr flagStr)] h)"

datatype msg_kind = MSG_STATE | MSG_ERROR | MSG_OTHER

record st_msgbuf =
  msgtype :: msg_kind
  msgmark :: "64 word"
  tv_sec :: int
  tv_usec :: int
  msgtext :: string       \<comment> \<open>the 256 characters of the array\<close>

text \<open>\<open>localtime\<close> and \<open>strftime\<close> with \<open>%Y-%m-%dT%H:%M:%S\<close> are the argument \<open>ltime\<close>.\<close>

definition dateToStr :: "(int \<Rightarrow> string) \<Rightarrow> int \<Rightarrow> int \<Rightarrow> string outcome" where
  "dateToStr ltime sec usec =
     sprintf_into 40 (ltime sec @ ''.'' @ show_int03 (usec sdiv 1000))"

definition sendLogMsg ::
  "(int \<Rightarrow> string) \<Rightarrow> call_env \<Rightarrow> data_transfer \<Rightarrow> st_msgbuf \<Rightarrow> heap \<Rightarrow> upload outcome" where
  "sendLogMsg ltime E dt m =
     upload_params E dt (sendLogMsgUrl dt)
       ([(''logType'', Inr ''logchb'')] @
        (case msgtype m of
           MSG_ERROR \<Rightarrow> [(''msgType'', Inr ''error'')]
         | MSG_STATE \<Rightarrow> [(''msgType'', Inr ''state'')]
         | MSG_OTHER \<Rightarrow> []) @
        [(''msgCode'', sprintf_into 10 (show_int (sint (msgmark m)))),
         (''msgDate'', dateToStr ltime (tv_sec m) (tv_usec m)),
         (''msgContent'', read_str (map Some (msgtext m)))])"

section \<open>Blocks of the object\<close>

lemma free_all_owned:
  "owns ps h \<Longrightarrow> free_all ps h = Inr (released ps h)"
proof (induction ps arbitrary: h)
  case Nil
  then show ?case by (simp add: released_def)
next
  case (Cons p ps)
  show ?case
  proof (cases p)
    case None
    with Cons show ?thesis by (simp add: released_def)
  next
    case (Some a)
    let ?h = "h\<lparr>hp_blocks := (hp_blocks h)(a := None)\<rparr>"
    from Cons(2) Some have own: "Some a \<notin> set ps" "hp_blocks h a \<noteq> None" "owns ps h"
      by (auto simp: owns_Some)
    then have "owns ps ?h" by (auto simp: owns_def)
    from Cons(1) [OF this] own Some show ?thesis
      by (auto simp: free_def released_def intro!: heap.equality)
  qed
qed

lemma joinStr_eq:
  "joinStr avail s1 s2 h =
     Inr (if avail (length s1 + length s2 + 1)
          then (GWAC_SUCCESS, Some (hp_next h), \<lparr>hp_next = hp_next h + 1,
                  hp_blocks = (hp_blocks h)(hp_next h \<mapsto> map Some (s1 @ s2 @ [CHR 0x00]))\<rparr>)
          else (GWAC_MALLOC_ERROR, None, h))"
  by (simp add: joinStr_def malloc_def store_at_def load_def Let_def)

text \<open>What \<open>initParameter\<close> leaves behind after a number of calls of \<open>joinStr\<close>.\<close>

definition joined :: "(nat \<Rightarrow> bool) \<Rightarrow> string \<Rightarrow> string list \<Rightarrow> heap \<Rightarrow> nat option list \<Rightarrow> heap \<Rightarrow> bool" where
  "joined avail root sfxs h ps h' \<longleftrightarrow>
     ((\<forall>n. avail n) \<longrightarrow> None \<notin> set ps) \<and> length ps = length sfxs \<and> heap_ok h' \<and> hp_next h \<le> hp_next h' \<and> owns ps h' \<and>
     (\<forall>a. Some a \<in> set ps \<longrightarrow> hp_next h \<le> a) \<and>
     (\<forall>a. Some a \<notin> set ps \<longrightarrow> hp_blocks h' a = hp_blocks h a) \<and>
     (\<forall>i<length ps. \<forall>a. ps ! i = Some a \<longrightarrow>
        hp_blocks h' a = Some (map Some (root @ sfxs ! i @ [CHR 0x00])))"

lemma joined_Cons:
  assumes "heap_ok h" and "joinStr avail root sfx h = Inr (rc, p, h1)" and "joined avail root sfxs h1 ps h'"
  shows "joined avail root (sfx # sfxs) h (p # ps) h'"
proof (cases p)
  case None
  with assms(2) have "h1 = h" by (auto simp: joinStr_eq split: if_splits)
  with assms(3) None show ?thesis
    using assms(2) by (auto simp: joined_def nth_Cons less_Suc_eq_0_disj joinStr_eq split: if_splits)
next
  case (Some a)
  with assms(2) have a: "a = hp_next h" and h1: "h1 = \<lparr>hp_next = hp_next h + 1,
      hp_blocks = (hp_blocks h)(hp_next h \<mapsto> map Some (root @ sfx @ [CHR 0x00]))\<rparr>"
    by (auto simp: joinStr_eq split: if_splits)
  from assms(3) h1 have new: "Some a \<notin> set ps" by (fastforce simp: joined_def a)
  with assms(3) h1 have blk: "hp_blocks h' a = Some (map Some (root @ sfx @ [CHR 0x00]))"
    by (auto simp: joined_def a)
  have "owns (p # ps) h'" using assms(3) new blk by (auto simp: joined_def Some owns_Some)
  moreover have "hp_blocks h' b = hp_blocks h b" if "Some b \<notin> set (p # ps)" for b
    using assms(3) that h1 by (auto simp: joined_def Some a)
  ultimately show ?thesis
    using assms(3) blk h1 by (auto simp: joined_def Some a nth_Cons less_Suc_eq_0_disj)
qed

definition keeps_root :: "(string \<times> (nat option \<Rightarrow> data_transfer \<Rightarrow> data_transfer)) list \<Rightarrow> bool" where
  "keeps_root us \<longleftrightarrow> list_all (\<lambda>(s, f). \<forall>p d. rootUrl (f p d) = rootUrl d) us"

lemma join_all_joined:
  assumes "heap_ok h" and "keeps_root us"
  shows "\<exists>ps h'. join_all avail us dt h = Inr (foldl (\<lambda>d (f, p). f p d) dt (zip (map snd us) ps), h') \<and>
    joined avail (rootUrl dt) (map fst us) h ps h'"
  using assms
proof (induction avail us dt h rule: join_all.induct)
  case (1 avail dt h)
  then show ?case by (auto simp: joined_def)
next
  case (2 avail sfx set_url us dt h)
  obtain rc p h1 where j: "joinStr avail (rootUrl dt) sfx h = Inr (rc, p, h1)"
    by (simp add: joinStr_eq) (metis prod_cases3)
  have ok1: "heap_ok h1"
    using j 2(2) heap_ok_upd by (auto simp: joinStr_eq split: if_splits)
  have root: "rootUrl (set_url p dt) = rootUrl dt" and keeps: "keeps_root us"
    using 2(3) by (simp_all add: keeps_root_def)
  from 2(1) [OF ok1 keeps, of p] obtain ps h' where
    "join_all avail us (set_url p dt) h1 =
       Inr (foldl (\<lambda>d (f, p). f p d) (set_url p dt) (zip (map snd us) ps), h')"
    "joined avail (rootUrl dt) (map fst us) h1 ps h'"
    unfolding root by auto
  with j joined_Cons [OF 2(2) j] show ?case
    by (intro exI [of _ "p # ps"]) auto
qed

lemma list_16:
  assumes "length xs = 16"
  obtains a b c d e f g i j k l m n q r s where "xs = [a, b, c, d, e, f, g, i, j, k, l, m, n, q, r, s]"
proof -
  have "xs = map ((!) xs) [0..<16]" using assms by (metis map_nth)
  then show thesis using that by (simp add: upt_rec)
qed

definition url_suffixes :: "string list" where
  "url_suffixes = map fst url_table"

lemma new_data_transfer_joined:
  assumes "heap_ok h"
  shows "\<exists>ps dt h1. joined avail url url_suffixes h ps h1 \<and>
    new_data_transfer avail fresh url h =
      Inr (dt\<lparr>tmpChunk := fst (malloc avail sizeof_CurlCache h1)\<rparr>, snd (malloc avail sizeof_CurlCache h1)) \<and>
    dt = foldl (\<lambda>d (f, p). f p d) (fresh\<lparr>rootUrl := url\<rparr>) (zip (map snd url_table) ps)"
proof -
  have "keeps_root url_table" by (simp add: url_table_def keeps_root_def)
  from join_all_joined [OF assms this, of avail "fresh\<lparr>rootUrl := url\<rparr>"]
  obtain ps h1 where
    "join_all avail url_table (fresh\<lparr>rootUrl := url\<rparr>) h =
       Inr (foldl (\<lambda>d (f, p). f p d) (fresh\<lparr>rootUrl := url\<rparr>) (zip (map snd url_table) ps), h1)"
    "joined avail url url_suffixes h ps h1"
    by (auto simp: url_suffixes_def)
  then show ?thesis
    by (intro exI conjI) (auto simp: new_data_transfer_def initParameter_def split: prod.splits)
qed

lemma malloc_owned:
  assumes "joined avail root sfxs h ps h1" and "malloc avail n h1 = (p, h2)"
  shows "owns (p # ps) h2 \<and> hp_blocks (released (p # ps) h2) = hp_blocks (released ps h1)"
proof (cases p)
  case None
  with assms(2) have "h2 = h1" by (auto simp: malloc_def split: if_splits)
  with assms(1) None show ?thesis by (auto simp: joined_def released_def)
next
  case (Some a)
  with assms(2) have a: "a = hp_next h1" and h2: "h2 = \<lparr>hp_next = hp_next h1 + 1,
      hp_blocks = (hp_blocks h1)(a \<mapsto> replicate n None)\<rparr>"
    by (auto simp: malloc_def split: if_splits)
  from assms(1) have free: "hp_blocks h1 a = None" and own: "owns ps h1"
    by (auto simp: joined_def heap_ok_def a)
  then have "Some a \<notin> set ps" by (auto simp: owns_def)
  with own free h2 show ?thesis
    by (auto simp: Some owns_Some released_def) (auto simp: owns_def)
qed

lemma joined_released:
  assumes "joined avail root sfxs h ps h1" and "heap_ok h"
  shows "hp_blocks (released ps h1) = hp_blocks h"
proof
  fix a
  show "hp_blocks (released ps h1) a = hp_blocks h a"
  proof (cases "Some a \<in> set ps")
    case True
    with assms have "hp_next h \<le> a" by (auto simp: joined_def)
    with assms(2) True show ?thesis by (simp add: released_def heap_ok_def)
  next
    case False
    with assms(1) show ?thesis by (auto simp: joined_def released_def)
  qed
qed

lemma destroy_constructed:
  assumes "heap_ok h" and "new_data_transfer avail fresh url h = Inr (dt, h')"
  shows "\<exists>h''. destroy_data_transfer dt h' = Inr h'' \<and> hp_blocks h'' = hp_blocks h"
proof -
  from new_data_transfer_joined [OF assms(1), of avail url fresh] assms(2) obtain ps h1 p where
    j: "joined avail url url_suffixes h ps h1" and m: "malloc avail sizeof_CurlCache h1 = (p, h')" and
    dt: "dt = (foldl (\<lambda>d (f, p). f p d) (fresh\<lparr>rootUrl := url\<rparr>)
               (zip (map snd url_table) ps))\<lparr>tmpChunk := p\<rparr>"
    by (auto simp: prod_eq_iff)
  from j have "length ps = 16" by (simp add: joined_def url_suffixes_def url_table_def)
  then obtain p1 p2 p3 p4 p5 p6 p7 p8 p9 p10 p11 p12 p13 p14 p15 p16 where
    ps: "ps = [p1, p2, p3, p4, p5, p6, p7, p8, p9, p10, p11, p12, p13, p14, p15, p16]"
    by (rule list_16)
  let ?qs = "[p1, p8, p2, p3, p9, p4, p5, p6, p7, p10, p11, p12, p13, p14, p15, p16, p]"
  have perm: "mset (p # ps) = mset ?qs" by (simp add: ps add_mset_commute)
  have "destroy_data_transfer dt h' = free_all ?qs h'"
    unfolding destroy_data_transfer_def dt ps by (simp add: url_table_def)
  also have "\<dots> = Inr (released ?qs h')"
    using malloc_owned [OF j m] owns_perm [OF perm] by (intro free_all_owned) blast
  also have "released ?qs h' = released (p # ps) h'"
    using mset_eq_setD [OF perm] by (simp only: released_def)
  finally show ?thesis
    using malloc_owned [OF j m] joined_released [OF j assms(1)] by auto
qed

section \<open>Collecting the answer\<close>

text \<open>
  The block behind \<open>mem\<close> holds \<open>body\<close>, followed by one more character: the NUL of the last call, or
  the unwritten one of \<open>malloc(1)\<close>.
\<close>

definition holds :: "curl_cache \<Rightarrow> heap \<Rightarrow> string \<Rightarrow> char option \<Rightarrow> bool" where
  "holds mem h body x \<longleftrightarrow> cc_size mem = length body \<and>
     (\<exists>a. cc_memory mem = Some a \<and> hp_blocks h a = Some (map Some body @ [x]))"

text \<open>The heap without the block of \<open>mem\<close>.\<close>

abbreviation others :: "curl_cache \<Rightarrow> heap \<Rightarrow> nat \<rightharpoonup> block" where
  "others mem h \<equiv> hp_blocks (released [cc_memory mem] h)"

lemma WriteMemoryCallback_step:
  assumes "holds mem h body x" and "heap_ok h"
    and "length body + length c + 1 < 2 ^ 64" and "avail (length body + length c + 1)"
  shows "\<exists>mem' h'. WriteMemoryCallback avail c 1 (length c) mem h = Inr (length c, mem', h') \<and>
    holds mem' h' (body @ c) (Some (CHR 0x00)) \<and> heap_ok h' \<and> others mem' h' = others mem h"
proof -
  from assms(1) obtain a where mem: "mem = \<lparr>cc_memory = Some a, cc_size = length body\<rparr>"
    and blk: "hp_blocks h a = Some (map Some body @ [x])"
    unfolding holds_def by (cases mem) auto
  let ?n = "length body + length c + 1" and ?p = "hp_next h"
  let ?h' = "\<lparr>hp_next = ?p + 1,
      hp_blocks = (hp_blocks h)(a := None, ?p \<mapsto> map Some (body @ c) @ [Some (CHR 0x00)])\<rparr>"
  have ne: "a < ?p" using assms(2) blk by (rule heap_ok_fresh)
  have sz: "size_t (length c) = length c" "size_t (length body + length c) = length body + length c"
    "size_t (Suc (length body + length c)) = Suc (length body + length c)"
    using assms(3) by simp_all
  have "WriteMemoryCallback avail c 1 (length c) mem h =
      Inr (length c, \<lparr>cc_memory = Some ?p, cc_size = length (body @ c)\<rparr>, ?h')"
    using assms(3,4) blk ne sz
    by (simp add: WriteMemoryCallback_def mem realloc_def store_at_def load_def Let_def)
  moreover have "heap_ok ?h'" using assms(2) ne by (auto simp: heap_ok_def)
  moreover have "hp_blocks h ?p = None" using assms(2) by (simp add: heap_ok_def)
  ultimately show ?thesis
    using ne by (intro exI conjI) (auto simp: holds_def mem released_def)
qed

lemma deliver_collects:
  assumes "holds mem h body x" and "heap_ok h" and "length body + length (concat cs) + 1 < 2 ^ 64"
    and "\<And>n. n \<le> length body + length (concat cs) + 1 \<Longrightarrow> avail n"
  shows "\<exists>mem' h'. deliver avail cs mem h = Inr (True, mem', h') \<and>
    holds mem' h' (body @ concat cs) (if cs = [] then x else Some (CHR 0x00)) \<and> heap_ok h' \<and>
    others mem' h' = others mem h"
  using assms
proof (induction cs arbitrary: mem h body x)
  case Nil
  then show ?case by auto
next
  case (Cons c cs)
  have "length body + length c + 1 < 2 ^ 64" and "avail (length body + length c + 1)"
    using Cons(4,5) by simp_all
  with WriteMemoryCallback_step [OF Cons(2,3), of c avail] obtain m1 h1 where
    w: "WriteMemoryCallback avail c 1 (length c) mem h = Inr (length c, m1, h1)" and
    m1: "holds m1 h1 (body @ c) (Some (CHR 0x00))" "heap_ok h1" "others m1 h1 = others mem h"
    by blast
  have "length (body @ c) + length (concat cs) + 1 < 2 ^ 64"
    and "\<And>n. n \<le> length (body @ c) + length (concat cs) + 1 \<Longrightarrow> avail n"
    using Cons(4,5) by simp_all
  from Cons(1) [OF m1(1,2) this] m1(3) w show ?case by auto
qed

text \<open>
  An allocation that fails in the callback makes it return 0 and forget the block that \<open>realloc\<close> left
  allocated.
\<close>

lemma WriteMemoryCallback_out_of_memory:
  assumes "holds mem h body x" and "length body + length c + 1 < 2 ^ 64"
    and "\<not> avail (length body + length c + 1)"
  shows "WriteMemoryCallback avail c 1 (length c) mem h = Inr (0, mem\<lparr>cc_memory := None\<rparr>, h)"
  using assms by (auto simp: WriteMemoryCallback_def holds_def realloc_def Let_def)

section \<open>A transfer that is carried out\<close>

text \<open>
  The result of a transfer that the server answered in the pieces \<open>cs\<close>: an empty answer makes the
  code print an unwritten block, an answer that does not fit overflows the caller's array, any other
  is returned with a line feed, and every block of the transfer has been freed.
\<close>

fun answered :: "nat \<Rightarrow> string list \<Rightarrow> string \<Rightarrow> form_part list \<Rightarrow> heap \<Rightarrow> upload outcome \<Rightarrow> bool" where
  "answered cap cs u form h (Inl e) \<longleftrightarrow>
     (if cs = [] then e = Indeterminate
      else e = Out_of_bounds \<and> cap \<le> length (takeWhile (\<lambda>c. c \<noteq> CHR 0x00) (concat cs)) + 1)"
| "answered cap cs u form h (Inr r) \<longleftrightarrow>
     (let body = takeWhile (\<lambda>c. c \<noteq> CHR 0x00) (concat cs)
      in cs \<noteq> [] \<and> length body + 1 < cap \<and> up_code r = GWAC_SUCCESS \<and>
         up_status r = Some (body @ [CHR 0x0A]) \<and> up_request r = Some (u, form) \<and>
         hp_blocks (up_heap r) = hp_blocks h)"

lemma uploadDatas_success:
  assumes ok: "heap_ok h" and av: "\<And>n. avail n" and chunk: "tmpChunk dt \<noteq> None"
    and url: "load url h = Inr (map Some (u @ [CHR 0x00]))" "url \<noteq> None" "nul_free u" "u \<noteq> []"
      "length u < URL_MAX_LENGTH"
    and data: "params \<noteq> [] \<or> files \<noteq> []"
    and curl: "cu_session L" "cu_pieces L u (form_of path params files) = cs"
      "length (concat cs) + 1 < 2 ^ 64" "cu_perform L u (form_of path params files) = CURLE_OK"
      "cu_info L u (form_of path params files) = (CURLE_OK, 200)"
  shows "answered cap cs u (form_of path params files) h
      (uploadDatas avail L src dt url path params files (Some cap) h) \<and>
    (\<forall>r. uploadDatas avail L src dt url path params files (Some cap) h = Inr r \<longrightarrow> heap_ok (up_heap r))"
proof -
  let ?form = "form_of path params files" and ?n = "hp_next h"
  let ?mem = "\<lparr>cc_memory = Some ?n, cc_size = 0\<rparr>"
  define h3 where "h3 = \<lparr>hp_next = ?n + 3, hp_blocks = (hp_blocks h)
      (?n \<mapsto> [None], ?n + 1 \<mapsto> replicate CURL_ERROR_BUFFER None, ?n + 2 \<mapsto> replicate URL_MAX_LENGTH None)\<rparr>"
  define body where "body = takeWhile (\<lambda>c. c \<noteq> CHR 0x00) (concat cs)"
  have ok3: "heap_ok h3" using ok by (auto simp: h3_def heap_ok_def)
  have "holds ?mem h3 [] None" by (simp add: holds_def h3_def)
  from deliver_collects [OF this ok3, of cs avail] curl(3) av obtain mem4 h4 where
    del: "deliver avail cs ?mem h3 = Inr (True, mem4, h4)" and
    hold: "holds mem4 h4 (concat cs) (if cs = [] then None else Some (CHR 0x00))" and
    oth: "others mem4 h4 = others ?mem h3" and ok4: "heap_ok h4"
    by auto
  from hold obtain a where a: "cc_memory mem4 = Some a"
    and blk: "hp_blocks h4 a = Some (map Some (concat cs) @ [if cs = [] then None else Some (CHR 0x00)])"
    by (auto simp: holds_def)
  have keep: "(if b = a then None else hp_blocks h4 b) = (if b = ?n then None else hp_blocks h3 b)" for b
    using fun_cong [OF oth, of b] by (simp add: released_def a split: if_splits)
  have "a \<noteq> ?n + 1" "a \<noteq> ?n + 2"
    using keep [of "?n + 1"] keep [of "?n + 2"] by (auto simp: h3_def split: if_splits)
  moreover from this have "hp_blocks h4 (?n + 1) = hp_blocks h3 (?n + 1)"
    "hp_blocks h4 (?n + 2) = hp_blocks h3 (?n + 2)"
    using keep [of "?n + 1"] keep [of "?n + 2"] by simp_all
  ultimately have own: "owns [Some (?n + 2), Some (?n + 1), cc_memory mem4] h4"
    using blk a by (auto simp: owns_Some h3_def owns_def)
  let ?h5 = "released [Some (?n + 2), Some (?n + 1), cc_memory mem4] h4"
  have clean: "hp_blocks ?h5 = hp_blocks h"
  proof
    fix b
    have "hp_blocks h b = None" if "?n \<le> b" using ok that by (simp add: heap_ok_def)
    with keep [of b] show "hp_blocks ?h5 b = hp_blocks h b"
      by (auto simp: released_def a h3_def split: if_splits)
  qed
  have free_h5: "free_all [Some (?n + 2), Some (?n + 1), cc_memory mem4] h4 = Inr ?h5"
    using own by (rule free_all_owned)
  have run: "uploadDatas avail L src dt url path params files (Some cap) h =
      and_then (perform_request avail L src u ?form cap ?mem h3)
      (\<lambda>(rc, s, mem1, h4). and_then (free_all [Some (?n + 2), Some (?n + 1), cc_memory mem1] h4)
         (\<lambda>h5. Inr \<lparr>up_code = rc, up_status = Some s, up_cache = mem1, up_heap = h5,
                    up_request = Some (u, ?form)\<rparr>))"
    using url data chunk curl(1) read_str_nul [OF url(3), of "[]" "[]"]
    by (auto simp: uploadDatas_def upload_rest_def malloc_avail [OF av] h3_def Let_def numeral_eq_Suc)
  have req: "perform_request avail L src u ?form cap ?mem h3 =
      (if cs = [] then Inl Indeterminate
       else and_then (sprintf_into cap (body @ [CHR 0x0A])) (\<lambda>s. Inr (GWAC_SUCCESS, s, mem4, h4)))"
    using curl del a blk read_str_take [of "concat cs" "[]"]
    by (simp add: perform_request_def load_def body_def)
  show ?thesis
  proof (cases "cs = [] \<or> cap \<le> length body + 1")
    case True
    then show ?thesis unfolding run req by (auto simp flip: body_def)
  next
    case False
    then have "uploadDatas avail L src dt url path params files (Some cap) h =
        Inr \<lparr>up_code = GWAC_SUCCESS, up_status = Some (body @ [CHR 0x0A]), up_cache = mem4,
             up_heap = ?h5, up_request = Some (u, ?form)\<rparr>"
      using free_h5 unfolding run req by (simp del: free_all.simps)
    moreover have "heap_ok ?h5" using ok4 by (auto simp: heap_ok_def released_def)
    ultimately show ?thesis using False clean by (simp flip: body_def)
  qed
qed

section \<open>Properties\<close>

lemma constructed_urls:
  assumes "heap_ok h" and "new_data_transfer avail fresh url h = Inr (dt, h')" and "\<And>n. avail n"
  shows "heap_ok h' \<and> tmpChunk dt \<noteq> None \<and> updateTemperatureUrl dt \<noteq> None \<and>
    load (updateTemperatureUrl dt) h' = Inr (map Some ((url @ ''uploadTemperature.action'') @ [CHR 0x00]))"
proof -
  from new_data_transfer_joined [OF assms(1), of avail url fresh] assms(2) obtain ps h1 p where
    j: "joined avail url url_suffixes h ps h1" and m: "malloc avail sizeof_CurlCache h1 = (p, h')" and
    dt: "dt = (foldl (\<lambda>d (f, p). f p d) (fresh\<lparr>rootUrl := url\<rparr>)
               (zip (map snd url_table) ps))\<lparr>tmpChunk := p\<rparr>"
    by (auto simp: prod_eq_iff)
  from j have len: "length ps = 16" by (simp add: joined_def url_suffixes_def url_table_def)
  then obtain p1 p2 p3 p4 p5 p6 p7 p8 p9 p10 p11 p12 p13 p14 p15 p16 where
    ps: "ps = [p1, p2, p3, p4, p5, p6, p7, p8, p9, p10, p11, p12, p13, p14, p15, p16]"
    by (rule list_16)
  have "updateTemperatureUrl dt = ps ! 11"
    unfolding dt ps by (simp add: url_table_def)
  moreover have "None \<notin> set ps" using j assms(3) by (simp add: joined_def)
  then obtain a where a: "ps ! 11 = Some a"
    using len nth_mem [of 11 ps] by (cases "ps ! 11") auto
  ultimately have u: "updateTemperatureUrl dt = Some a" by simp
  have blk: "hp_blocks h1 a = Some (map Some (url @ url_suffixes ! 11 @ [CHR 0x00]))"
    using j a len by (simp add: joined_def)
  have ok1: "heap_ok h1" using j by (simp add: joined_def)
  then have "a \<noteq> hp_next h1" using heap_ok_fresh [OF ok1 blk] by simp
  with m assms(3) blk have "hp_blocks h' a = Some (map Some (url @ url_suffixes ! 11 @ [CHR 0x00]))"
    and "p \<noteq> None"
    by (auto simp: malloc_def)
  moreover have "heap_ok h'" using m assms(3) ok1 heap_ok_upd by (auto simp: malloc_def)
  moreover have "url_suffixes ! 11 = ''uploadTemperature.action''"
    by (simp add: url_suffixes_def url_table_def)
  ultimately show ?thesis
    using u by (simp add: load_def dt)
qed

definition temperature_form ::
  "num_conv \<Rightarrow> string \<Rightarrow> string \<Rightarrow> string \<Rightarrow> float32 \<Rightarrow> float32 \<Rightarrow> float32 \<Rightarrow> float32 \<Rightarrow> float32 \<Rightarrow> string
     \<Rightarrow> form_part list" where
  "temperature_form N gid uid cid vol cur hot got goal tm =
     [Form_contents ''camId'' cid, Form_contents ''coolget'' (nc_fmt_f N got),
      Form_contents ''coolset'' (nc_fmt_f N goal), Form_contents ''current'' (nc_fmt_f N cur),
      Form_contents ''groupId'' gid, Form_contents ''thot'' (nc_fmt_f N hot), Form_contents ''time'' tm,
      Form_contents ''unitId'' uid, Form_contents ''voltage'' (nc_fmt_f N vol)]"

lemma temperature_fields_sorted:
  "form_of [] (mm_of [(''groupId'', gid), (''unitId'', uid), (''camId'', cid),
        (''voltage'', nc_fmt_f N vol), (''current'', nc_fmt_f N cur), (''thot'', nc_fmt_f N hot),
        (''coolget'', nc_fmt_f N got), (''coolset'', nc_fmt_f N goal), (''time'', tm)]) []
     = temperature_form N gid uid cid vol cur hot got goal tm"
  by (simp add: mm_of_def form_of_def temperature_form_def less_char_def)

lemma temperature_answered:
  assumes "heap_ok h" and "\<And>n. ce_avail E n" and "tmpChunk dt \<noteq> None" and "updateTemperatureUrl dt \<noteq> None"
    and "load (updateTemperatureUrl dt) h = Inr (map Some (u @ [CHR 0x00]))"
    and "nul_free u" and "u \<noteq> []" and "length u < URL_MAX_LENGTH"
    and "\<And>x. x \<in> {vol, cur, hot, got, goal} \<Longrightarrow> length (nc_fmt_f N x) < 64"
    and "ce_cap E = Some cap" and "cu_session (ce_curl E)"
    and form_eq: "form = temperature_form N gid uid cid vol cur hot got goal tm"
    and "cu_perform (ce_curl E) u form = CURLE_OK" and "cu_info (ce_curl E) u form = (CURLE_OK, 200)"
    and "length (concat (cu_pieces (ce_curl E) u form)) + 1 < 2 ^ 64"
  shows "answered cap (cu_pieces (ce_curl E) u form) u form h
      (uploadTemperature N E dt gid uid cid vol cur hot got goal tm h) \<and>
    (\<forall>r. uploadTemperature N E dt gid uid cid vol cur hot got goal tm h = Inr r \<longrightarrow> heap_ok (up_heap r))"
proof -
  have tstr: "tstr_f N x = Inr (nc_fmt_f N x)" if "x \<in> {vol, cur, hot, got, goal}" for x
    using assms(9) [OF that] by (simp add: tstr_f_def)
  let ?params = "mm_of [(''groupId'', gid), (''unitId'', uid), (''camId'', cid),
    (''voltage'', nc_fmt_f N vol), (''current'', nc_fmt_f N cur), (''thot'', nc_fmt_f N hot),
    (''coolget'', nc_fmt_f N got), (''coolset'', nc_fmt_f N goal), (''time'', tm)]"
  have form: "form_of [] ?params [] = form"
    by (simp only: temperature_fields_sorted form_eq)
  then have "?params \<noteq> []"
    by (auto simp: form_of_def form_eq temperature_form_def)
  then have main: "answered cap (cu_pieces (ce_curl E) u form) u (form_of [] ?params []) h
      (uploadDatas (ce_avail E) (ce_curl E) (ce_file E) dt (updateTemperatureUrl dt) [] ?params [] (Some cap) h) \<and>
    (\<forall>r. uploadDatas (ce_avail E) (ce_curl E) (ce_file E) dt (updateTemperatureUrl dt) [] ?params [] (Some cap) h = Inr r \<longrightarrow>
       heap_ok (up_heap r))"
    using assms by (intro uploadDatas_success) (simp_all add: form)
  have call: "uploadTemperature N E dt gid uid cid vol cur hot got goal tm h =
      uploadDatas (ce_avail E) (ce_curl E) (ce_file E) dt (updateTemperatureUrl dt) [] ?params [] (Some cap) h"
    by (simp add: uploadTemperature_def upload_params_def tstr assms(10))
  show ?thesis using main unfolding call form .
qed

text \<open>
  The temperature report: on an object built for a root address, the parameters go to
  \<open>uploadTemperature.action\<close> under that address, in the order of their names and with the values in
  the rendering \<open>%f\<close>; when the server answers with status 200 the result is as \<open>answered\<close> says: the
  answer is handed to the caller, unless it is empty or too long for the caller's array.
\<close>

theorem temperature_uploaded:
  assumes "heap_ok h0" and "new_data_transfer (ce_avail E) fresh root h0 = Inr (dt, h)"
    and "\<And>n. ce_avail E n" and "nul_free root" and "length root + 24 < URL_MAX_LENGTH"
    and "\<And>x. x \<in> {vol, cur, hot, got, goal} \<Longrightarrow> length (nc_fmt_f N x) < 64"
    and "ce_cap E = Some cap" and "cu_session (ce_curl E)"
    and "u = root @ ''uploadTemperature.action''"
    and "form = temperature_form N gid uid cid vol cur hot got goal tm"
    and "cu_perform (ce_curl E) u form = CURLE_OK" and "cu_info (ce_curl E) u form = (CURLE_OK, 200)"
    and "length (concat (cu_pieces (ce_curl E) u form)) + 1 < 2 ^ 64"
  shows "answered cap (cu_pieces (ce_curl E) u form) u form h
    (uploadTemperature N E dt gid uid cid vol cur hot got goal tm h)"
  using temperature_answered [OF _ assms(3) _ _ _ _ _ _ assms(6,7,8,10,11,12,13)]
    constructed_urls [OF assms(1,2,3)] assms(4,5,9) by simp

definition sample_num :: num_conv where
  "sample_num = \<lparr>nc_atof = (\<lambda>_. 0), nc_narrow = ucast, nc_fmt_1f = (\<lambda>_. ''1.0''),
     nc_fmt_f = (\<lambda>_. ''1.000000''), nc_show_float = (\<lambda>_. ''1'')\<rparr>"

definition sample_curl :: curl_lib where
  "sample_curl = \<lparr>cu_session = True, cu_pieces = (\<lambda>_ _. [''rec'', ''orded'']), cu_perform = (\<lambda>_ _. 0),
     cu_info = (\<lambda>_ _. (0, 200)), cu_errbuf = (\<lambda>_ _. []), cu_strerror = (\<lambda>_. [])\<rparr>"

definition sample_call :: call_env where
  "sample_call = \<lparr>ce_avail = (\<lambda>_. True), ce_curl = sample_curl, ce_file = ''DataTransfer.cpp'',
     ce_cap = Some 200\<rparr>"

definition empty_heap :: heap where
  "empty_heap = \<lparr>hp_next = 0, hp_blocks = (\<lambda>_. None)\<rparr>"

lemmas upload_samples = sample_num_def sample_curl_def sample_call_def

lemma empty_heap_ok: "heap_ok empty_heap"
  by (simp add: empty_heap_def heap_ok_def)

lemma constructed_from_empty:
  "\<exists>dt h. new_data_transfer avail fresh url empty_heap = Inr (dt, h)"
  using new_data_transfer_joined [OF empty_heap_ok, of avail url fresh] by blast

theorem temperature_uploaded_witness:
  "\<exists>dt h. answered 200 [''rec'', ''orded''] ''http://db/uploadTemperature.action''
     (temperature_form sample_num ''001'' ''003'' ''032'' 1 2 3 4 5 ''now'') h
     (uploadTemperature sample_num sample_call dt ''001'' ''003'' ''032'' 1 2 3 4 5 ''now'' h)"
proof -
  obtain dt h where c: "new_data_transfer (ce_avail sample_call) undefined ''http://db/'' empty_heap = Inr (dt, h)"
    using constructed_from_empty by blast
  let ?u = "''http://db/'' @ ''uploadTemperature.action''"
  let ?f = "temperature_form sample_num ''001'' ''003'' ''032'' 1 2 3 4 5 ''now''"
  have "answered 200 (cu_pieces (ce_curl sample_call) ?u ?f) ?u ?f h
     (uploadTemperature sample_num sample_call dt ''001'' ''003'' ''032'' 1 2 3 4 5 ''now'' h)"
    by (rule temperature_uploaded [OF empty_heap_ok c _ _ _ _ _ _ refl refl])
      (simp_all add: upload_samples CURLE_OK_def URL_MAX_LENGTH_def)
  then show ?thesis by (intro exI) (simp add: sample_call_def sample_curl_def del: answered.simps)
qed

text \<open>
  C27. However the server's answer is cut into pieces, the callback puts it together again: started on
  the block of \<open>malloc(1)\<close>, it takes every piece, the block then reads as the whole answer, the
  counted size is its length, and no other block of the heap has changed.
\<close>

theorem response_reassembled:
  assumes "heap_ok h" and "malloc avail 1 h = (Some a, h1)" and "\<And>n. avail n" and "cs \<noteq> []"
    and "nul_free (concat cs)" and "length (concat cs) + 1 < 2 ^ 64"
  shows "\<exists>mem h2 b. deliver avail cs \<lparr>cc_memory = Some a, cc_size = 0\<rparr> h1 = Inr (True, mem, h2) \<and>
    load (cc_memory mem) h2 = Inr b \<and> read_str b = Inr (concat cs) \<and>
    cc_size mem = length (concat cs) \<and> others mem h2 = hp_blocks h"
proof -
  have h1: "a = hp_next h" "h1 = \<lparr>hp_next = hp_next h + 1, hp_blocks = (hp_blocks h)(a \<mapsto> [None])\<rparr>"
    using assms(2,3) by (auto simp: malloc_def)
  let ?mem = "\<lparr>cc_memory = Some a, cc_size = 0\<rparr>"
  have "hp_blocks h a = None" using assms(1) h1 by (simp add: heap_ok_def)
  then have old: "others ?mem h1 = hp_blocks h" by (auto simp: released_def h1(2))
  have "holds ?mem h1 [] None" "heap_ok h1"
    using assms(1) h1 by (auto simp: holds_def heap_ok_def)
  from deliver_collects [OF this, of cs avail] assms obtain mem h2 where
    "deliver avail cs ?mem h1 = Inr (True, mem, h2)" "holds mem h2 (concat cs) (Some (CHR 0x00))"
    "others mem h2 = others ?mem h1"
    by auto
  then show ?thesis
    using old read_str_nul [OF assms(5), of "[]" "[]"] by (auto simp: holds_def load_def)
qed

theorem response_reassembled_witness:
  "\<exists>mem h2 b. deliver (\<lambda>_. True) [''ab'', [], ''cde''] \<lparr>cc_memory = Some 0, cc_size = 0\<rparr>
      \<lparr>hp_next = 1, hp_blocks = [0 \<mapsto> [None]]\<rparr> = Inr (True, mem, h2) \<and>
    load (cc_memory mem) h2 = Inr b \<and> read_str b = Inr (concat [''ab'', [], ''cde'']) \<and>
    cc_size mem = length (concat [''ab'', [], ''cde'']) \<and> others mem h2 = hp_blocks empty_heap"
  by (rule response_reassembled [OF empty_heap_ok]) (simp_all add: malloc_def empty_heap_def)

text \<open>
  The object neither leaks nor frees twice: whatever allocations succeed, construction is defined,
  the destructor frees exactly the blocks that the constructor took, and the heap holds the blocks it
  held before.
\<close>

theorem transfer_object_lifecycle:
  assumes "heap_ok h"
  shows "\<exists>dt h' h''. new_data_transfer avail fresh url h = Inr (dt, h') \<and>
    destroy_data_transfer dt h' = Inr h'' \<and> hp_blocks h'' = hp_blocks h"
  using destroy_constructed [OF assms] new_data_transfer_joined [OF assms, of avail url fresh] by blast

theorem transfer_object_lifecycle_witness:
  "\<exists>dt h' h''. new_data_transfer (\<lambda>n. n < 30) undefined ''http://db/'' empty_heap = Inr (dt, h') \<and>
    destroy_data_transfer dt h' = Inr h'' \<and> hp_blocks h'' = hp_blocks empty_heap"
  by (rule transfer_object_lifecycle [OF empty_heap_ok])

lemma and_then_Inr_E:
  assumes "and_then r f = Inr y"
  obtains x where "r = Inr x" "f x = Inr y"
  using assms by (auto simp: and_then_Inr_iff)

lemma perform_request_code:
  assumes "perform_request avail L src url form cap mem h = Inr (rc, s, mem', h')"
  shows "(rc = GWAC_SUCCESS \<longrightarrow> cu_perform L url form = CURLE_OK \<and> cu_info L url form = (CURLE_OK, 200)) \<and>
    rc \<in> {GWAC_SUCCESS, GWAC_SEND_DATA_ERROR} \<and> length s < cap"
  using assms unfolding perform_request_def
  by (elim and_then_Inr_E)
    (auto simp: gwac_codes CURLE_OK_def CURLE_WRITE_ERROR_def Let_def sprintf_into_def and_then_Inr_iff
      split: if_splits prod.splits)

text \<open>
  The result code can be relied on: success is returned only for a request that was performed and
  answered with status 200, the other codes are the four documented ones, a request goes out only
  to a non-empty address with some data, and the text left in the caller's array fits it.
\<close>

theorem upload_code_sound:
  assumes "uploadDatas avail L src dt url path params files statusstr h = Inr r"
  shows "up_code r \<in> {GWAC_SUCCESS, GWAC_STATUS_STR_NULL, GWAC_FUNCTION_INPUT_NULL,
           GWAC_FUNCTION_INPUT_EMPTY, GWAC_SEND_DATA_ERROR} \<and>
    (up_code r = GWAC_SUCCESS \<longrightarrow> (\<exists>u. up_request r = Some (u, form_of path params files) \<and>
       u \<noteq> [] \<and> form_of path params files \<noteq> [] \<and>
       cu_perform L u (form_of path params files) = CURLE_OK \<and>
       cu_info L u (form_of path params files) = (CURLE_OK, 200))) \<and>
    (\<forall>s. up_status r = Some s \<longrightarrow> (\<exists>cap. statusstr = Some cap \<and> length s < cap))"
proof (cases statusstr)
  case None
  with assms show ?thesis by (auto simp: uploadDatas_def gwac_codes)
next
  case (Some cap)
  from assms obtain u where run: "upload_rest avail L src dt u path params files cap h = Inr r"
    unfolding uploadDatas_def Some by (auto simp: and_then_Inr_iff)
  show ?thesis
  proof (cases "u = [] \<or> (params = [] \<and> files = [])")
    case True
    with run show ?thesis
      unfolding upload_rest_def CHECK_STRING_NULL_OR_EMPTY_def
      by (auto simp: Some and_then_Inr_iff sprintf_into_def gwac_codes split: if_splits)
  next
    case False
    with run show ?thesis
      by (auto simp: upload_rest_def Some Let_def form_of_def sprintf_into_def and_then_Inr_iff gwac_codes
          split: prod.splits if_splits dest!: perform_request_code)
  qed
qed

lemma code_digits: "char_of (51::nat) = CHR ''3'' \<and> char_of (48::nat) = CHR ''0'' \<and> char_of (55::nat) = CHR ''7'' \<and> char_of (57::nat) = CHR ''9''"
  by code_simp

theorem upload_code_sound_witness:
  "up_code (projr (uploadDatas (\<lambda>_. True) sample_curl ''f'' (undefined :: data_transfer) None [] [] [] (Some 99) empty_heap))
     = GWAC_FUNCTION_INPUT_NULL \<and>
   length (the (up_status (projr
     (uploadDatas (\<lambda>_. True) sample_curl ''f'' (undefined :: data_transfer) None [] [] [] (Some 99) empty_heap)))) < 99"
proof -
  have r: "uploadDatas (\<lambda>_. True) sample_curl ''f'' (undefined :: data_transfer) None [] [] [] (Some 99) empty_heap =
      Inr \<lparr>up_code = GWAC_FUNCTION_INPUT_NULL,
        up_status = Some (''Error Code: 3007'' @ [CHR 0x0A] @ ''File f line 399, string '' @ [CHR 0x22] @ ''url''
          @ [CHR 0x22] @ '' is NULL or empty!'' @ [CHR 0x0A]),
        up_cache = tmpCache (undefined :: data_transfer), up_heap = empty_heap, up_request = None\<rparr>"
    using code_digits by (simp add: uploadDatas_def upload_rest_def CHECK_STRING_NULL_OR_EMPTY_def sprintf_into_def show_int_def gwac_codes show_nat.simps)
  from upload_code_sound [OF r] show ?thesis by (simp add: r)
qed

end
