(* ===== verification/Uploads.thy ===== *)
theory Uploads
  imports ControllerRun DataTransfer
begin

text \<open>
  The way of the readings to the database: the last round of the responding thread calls
  \<open>upload_database\<close> (CoolerCtl.cpp), which calls \<open>uploadTemperature\<close> (DataTransfer.cpp) once per device on
  the object that \<open>SetDatabase\<close> has made. Here the calls are carried out one after the other on one heap.
\<close>

text \<open>
  The upload calls among the effects of a round, on the object \<open>dt\<close>; a \<open>double\<close> argument is narrowed to
  the \<open>float\<close> parameter. The result collects what every call returned, with the final heap.
\<close>

fun perform_uploads :: "num_conv \<Rightarrow> call_env \<Rightarrow> data_transfer \<Rightarrow> ctl_effect list \<Rightarrow> heap
    \<Rightarrow> (upload list \<times> heap) outcome" where
  "perform_uploads N E dt [] h = Inr ([], h)"
| "perform_uploads N E dt (Db_upload gid uid cid [vol, cur, thot, coolget, coolset] tm # es) h =
     and_then (uploadTemperature N E dt gid uid cid (nc_narrow N vol) (nc_narrow N cur) (nc_narrow N thot)
                 (nc_narrow N coolget) (nc_narrow N coolset) tm h)
       (\<lambda>r. and_then (perform_uploads N E dt es (up_heap r)) (\<lambda>(rs, h'). Inr (r # rs, h')))"
| "perform_uploads N E dt (e # es) h = perform_uploads N E dt es h"

fun is_upload :: "ctl_effect \<Rightarrow> bool" where
  "is_upload (Db_upload gid uid cid vals tm) = True"
| "is_upload e = False"

lemma perform_no_upload: "\<not> is_upload e \<Longrightarrow> perform_uploads N E dt (e # es) h = perform_uploads N E dt es h"
  by (cases e) auto

lemma perform_quiet:
  "list_all (\<lambda>e. \<not> is_upload e) es \<Longrightarrow> perform_uploads N E dt (es @ fs) h = perform_uploads N E dt fs h"
  by (induction es) (simp_all add: perform_no_upload)

text \<open>The form of one device, as \<open>upload_database\<close> fills it in.\<close>

definition device_form :: "num_conv \<Rightarrow> env \<Rightarrow> string \<Rightarrow> cooler_data \<Rightarrow> form_part list" where
  "device_form N e gid d = temperature_form N gid (sprintf_03d (unat (cd_idd d) div 10)) (sprintf_03d (unat (cd_idd d)))
     (nc_narrow N (cd_vol d)) (nc_narrow N (cd_cur d)) (nc_narrow N (cd_thot d)) (nc_narrow N (cd_coolget d))
     (nc_narrow N (cd_coolset d)) (env_utc e)"

text \<open>A server that answers every form at an address with status 200 and a short text.\<close>

definition server_ready :: "call_env \<Rightarrow> string \<Rightarrow> nat \<Rightarrow> bool" where
  "server_ready E u cap \<longleftrightarrow> ce_cap E = Some cap \<and> cu_session (ce_curl E) \<and>
     (\<forall>form. cu_perform (ce_curl E) u form = CURLE_OK \<and> cu_info (ce_curl E) u form = (CURLE_OK, 200) \<and>
        cu_pieces (ce_curl E) u form \<noteq> [] \<and> length (concat (cu_pieces (ce_curl E) u form)) + 1 < cap \<and>
        length (concat (cu_pieces (ce_curl E) u form)) + 1 < 2 ^ 64)"

text \<open>An object whose address for the temperatures is \<open>u\<close>, in a heap with nothing of a transfer left.\<close>

definition upload_ready :: "data_transfer \<Rightarrow> string \<Rightarrow> heap \<Rightarrow> bool" where
  "upload_ready dt u h \<longleftrightarrow> heap_ok h \<and> tmpChunk dt \<noteq> None \<and> updateTemperatureUrl dt \<noteq> None \<and>
     load (updateTemperatureUrl dt) h = Inr (map Some (u @ [CHR 0x00]))"

lemma upload_ready_blocks:
  "upload_ready dt u h \<Longrightarrow> hp_blocks h' = hp_blocks h \<Longrightarrow> heap_ok h' \<Longrightarrow> upload_ready dt u h'"
  by (auto simp: upload_ready_def load_def split: option.splits)

lemma device_uploaded:
  assumes "upload_ready dt u h" and "server_ready E u cap" and "\<And>n. ce_avail E n"
    and "nul_free u" and "u \<noteq> []" and "length u < URL_MAX_LENGTH" and "\<And>x. length (nc_fmt_f N x) < 64"
  shows "\<exists>r. uploadTemperature N E dt gid (sprintf_03d (unat (cd_idd d) div 10)) (sprintf_03d (unat (cd_idd d)))
      (nc_narrow N (cd_vol d)) (nc_narrow N (cd_cur d)) (nc_narrow N (cd_thot d)) (nc_narrow N (cd_coolget d))
      (nc_narrow N (cd_coolset d)) (env_utc e) h = Inr r \<and>
    up_code r = GWAC_SUCCESS \<and> up_request r = Some (u, device_form N e gid d) \<and>
    hp_blocks (up_heap r) = hp_blocks h \<and> upload_ready dt u (up_heap r)"
proof -
  let ?form = "device_form N e gid d"
  let ?cs = "cu_pieces (ce_curl E) u ?form"
  let ?up = "uploadTemperature N E dt gid (sprintf_03d (unat (cd_idd d) div 10)) (sprintf_03d (unat (cd_idd d)))
      (nc_narrow N (cd_vol d)) (nc_narrow N (cd_cur d)) (nc_narrow N (cd_thot d)) (nc_narrow N (cd_coolget d))
      (nc_narrow N (cd_coolset d)) (env_utc e) h"
  have up: "answered cap ?cs u ?form h ?up" "\<And>r. ?up = Inr r \<Longrightarrow> heap_ok (up_heap r)"
    using temperature_answered [OF _ assms(3) _ _ _ assms(4-7) _ _ device_form_def, of h dt cap] assms(1,2)
    by (auto simp: upload_ready_def server_ready_def)
  have "length (takeWhile (\<lambda>c. c \<noteq> CHR 0x00) (concat ?cs)) \<le> length (concat ?cs)"
    by (rule length_takeWhile_le)
  moreover have "?cs \<noteq> []" "length (concat ?cs) + 1 < cap"
    using assms(2) by (auto simp: server_ready_def)
  ultimately obtain r where r: "?up = Inr r"
    using up(1) by (cases ?up) auto
  then have "up_code r = GWAC_SUCCESS" "up_request r = Some (u, ?form)" "hp_blocks (up_heap r) = hp_blocks h"
    using up(1) by (auto simp: Let_def)
  moreover have "upload_ready dt u (up_heap r)"
    using upload_ready_blocks [OF assms(1) calculation(3) up(2) [OF r]] .
  ultimately show ?thesis using r by blast
qed

lemma devices_uploaded:
  assumes "upload_ready dt u h" and "server_ready E u cap" and "\<And>n. ce_avail E n"
    and "nul_free u" and "u \<noteq> []" and "length u < URL_MAX_LENGTH" and "\<And>x. length (nc_fmt_f N x) < 64"
    and "list_all (\<lambda>e. \<not> is_upload e) fs"
  shows "\<exists>rs h'. perform_uploads N E dt (cooler_upload_from e gid i ds @ fs) h = Inr (rs, h') \<and>
    map up_request rs = map (\<lambda>d. Some (u, device_form N e gid d)) ds \<and>
    (\<forall>r\<in>set rs. up_code r = GWAC_SUCCESS) \<and> hp_blocks h' = hp_blocks h"
  using assms(1)
proof (induction ds arbitrary: i h)
  case Nil
  have "perform_uploads N E dt fs h = Inr ([], h)"
    using perform_quiet [OF assms(8), of N E dt "[]"] by simp
  then show ?case by simp
next
  case (Cons d ds)
  obtain r where r: "uploadTemperature N E dt gid (sprintf_03d (unat (cd_idd d) div 10)) (sprintf_03d (unat (cd_idd d)))
      (nc_narrow N (cd_vol d)) (nc_narrow N (cd_cur d)) (nc_narrow N (cd_thot d)) (nc_narrow N (cd_coolget d))
      (nc_narrow N (cd_coolset d)) (env_utc e) h = Inr r"
    and one: "up_code r = GWAC_SUCCESS" "up_request r = Some (u, device_form N e gid d)"
      "hp_blocks (up_heap r) = hp_blocks h" "upload_ready dt u (up_heap r)"
    using device_uploaded [OF Cons.prems assms(2-7)] by blast
  obtain rs h' where rest: "perform_uploads N E dt (cooler_upload_from e gid (i + 1) ds @ fs) (up_heap r) = Inr (rs, h')"
    and all: "map up_request rs = map (\<lambda>d. Some (u, device_form N e gid d)) ds"
      "\<forall>r\<in>set rs. up_code r = GWAC_SUCCESS" "hp_blocks h' = hp_blocks (up_heap r)"
    using Cons.IH [OF one(4), of "i + 1"] by blast
  let ?warn = "if env_upload e i \<noteq> 0 then [Log_text (''cooler['' @ sprintf_03d (unat (cd_idd d)) @ ''] upload to database failed'')] else []"
  have "list_all (\<lambda>e. \<not> is_upload e) ?warn" by simp
  from perform_quiet [OF this] have "perform_uploads N E dt (cooler_upload_from e gid i (d # ds) @ fs) h = Inr (r # rs, h')"
    using r rest by (simp add: Let_def)
  then show ?case
    using one all by (intro exI [of _ "r # rs"] exI [of _ h']) simp
qed


lemma respond_no_upload:
  "cooler_respond_from S N h gid p ds a = Inr (a', effs) \<Longrightarrow> list_all (\<lambda>e. \<not> is_upload e) effs"
  by (induction ds arbitrary: p a a' effs) (auto simp: Let_def and_then_Inr_iff case_prod_beta)

lemma device_form_clean [simp]: "device_form N e gid (d\<lparr>cd_dirty := b\<rparr>) = device_form N e gid d"
  by (simp add: device_form_def)

text \<open>The effects of the last round: log lines, the uploads of all devices, and the report.\<close>

lemma last_round_uploads:
  assumes "ct_drct st = [d0]" and "ct_db st = Some root"
    and "respond_body B (cooler_methods S N ind) e st = Inr (st', effs)"
  shows "\<exists>logs nets. effs = logs @ cooler_upload_from e (ct_grpid st) 0 (map (\<lambda>d. d\<lparr>cd_dirty := False\<rparr>) (ct_data st)) @ nets \<and>
    list_all (\<lambda>e. \<not> is_upload e) logs \<and> list_all (\<lambda>e. \<not> is_upload e) nets"
proof -
  let ?st1 = "st\<lparr>ct_tmlast := env_local e, ct_drct := []\<rparr>"
  let ?ds = "map (\<lambda>d. d\<lparr>cd_dirty := False\<rparr>) (ct_data st)"
  let ?logs = "map cooler_log_line (filter cd_dirty (ct_data st))"
  let ?ups = "cooler_upload_from e (ct_grpid st) 0 ?ds"
  have quiet: "list_all (\<lambda>e. \<not> is_upload e) ?logs"
    by (simp add: list_all_iff cooler_log_line_def)
  have body: "respond_body B (cooler_methods S N ind) e st = (case ct_tcp st of
      None \<Rightarrow> Inr (?st1\<lparr>ct_data := ?ds\<rparr>, ?logs @ ?ups)
    | Some h \<Rightarrow> if env_tcp_open e h
        then and_then (cooler_network_respond S N h (?st1\<lparr>ct_data := ?ds\<rparr>)) (\<lambda>(st3, nets). Inr (st3, ?logs @ ?ups @ nets))
        else Inr (?st1\<lparr>ct_data := ?ds\<rparr>, ?logs @ ?ups))"
    using assms(1,2) by (cases "ct_tcp st") (simp_all add: respond_body_def remove_directive_def cooler_methods_def
        cooler_write_log_def Let_def cooler_upload_database_def)
  have "\<exists>nets. effs = ?logs @ ?ups @ nets \<and> list_all (\<lambda>e. \<not> is_upload e) nets"
    using assms(3) unfolding body
    by (auto simp: and_then_Inr_iff cooler_network_respond_def dest: respond_no_upload split: option.splits if_splits)
  then show ?thesis using quiet by blast
qed

section \<open>Properties\<close>



end
