(* ===== verification/ServiceRun.thy ===== *)
theory ServiceRun
  imports ControllerSafety "HOL-Library.AList"
begin

text \<open>
  The running service: all temperature controllers that \<open>StartService\<close> has created, each with its port and
  threads as in ControllerRun, together with the message queue they report to, its thread, and the session
  with the server (AnnexControl.cpp). An event belongs to one controller, to the session or to a thread of
  the service; any interleaving is a run. The properties say what an interleaved run is for each controller,
  and which events can stop it.
\<close>

section \<open>The machine\<close>

text \<open>
  The objects of the controllers are the ones in \<open>ac_cctl\<close>; \<open>sv_bus\<close> has what the machine of ControllerRun
  keeps beside the object. \<open>sv_connecting\<close>: an asynchronous connection has been requested and its result
  not been reported yet.
\<close>

record ('q, 'b) service =
  sv_ac :: "('q, 'b) annex_control"
  sv_bus :: "int \<Rightarrow> ('b, cooler_data) sys"
  sv_message :: bool      \<comment> \<open>the message thread has not ended\<close>
  sv_connecting :: bool

datatype service_event =
    Bus int sys_event     \<comment> \<open>an event of the controller at that address\<close>
  | Session int int       \<comment> \<open>the session calls its read slot\<close>
  | Connected int int     \<comment> \<open>the result of an asynchronous connection\<close>
  | Message               \<comment> \<open>a round of the message thread\<close>
  | Network nat           \<comment> \<open>a round of \<open>thread_network\<close>, with the address of a new session\<close>

text \<open>The codes with which a controller calls its result slot.\<close>

fun reports_of :: "ctl_effect list \<Rightarrow> int list" where
  "reports_of [] = []"
| "reports_of (To_main n # es) = n # reports_of es"
| "reports_of (e # es) = reports_of es"

text \<open>The slot is \<open>cooler_receive\<close>; \<open>None\<close>: the caller waits for room in the queue.\<close>

fun post_all :: "'q mq_ops \<Rightarrow> int \<Rightarrow> int list \<Rightarrow> ('q, 'b) annex_control \<Rightarrow> ('q, 'b) annex_control option" where
  "post_all Q h [] ac = Some ac"
| "post_all Q h (n # ns) ac = (case cooler_receive Q h n ac of None \<Rightarrow> None | Some ac' \<Rightarrow> post_all Q h ns ac')"

definition bus_sys :: "('q, 'b) service \<Rightarrow> int \<Rightarrow> ('b, cooler_data) controller \<Rightarrow> ('b, cooler_data) sys" where
  "bus_sys s h c = (sv_bus s h)\<lparr>sy_ctl := c\<rparr>"

fun is_async_connect :: "ac_effect \<Rightarrow> bool" where
  "is_async_connect (Ac_connect async ip port) = async"
| "is_async_connect e = False"

text \<open>One event. \<open>Inr None\<close>: a thread is blocked at the full message queue.\<close>

fun service_step :: "'q mq_ops \<Rightarrow> 'b cb_ops \<Rightarrow> ('b, cooler_data) methods \<Rightarrow> service_event \<Rightarrow> ('q, 'b) service
    \<Rightarrow> ('q, 'b) service option outcome" where
  "service_step Q B M (Bus h ev) s =
     (case map_of (ac_cctl (sv_ac s)) h of
        None \<Rightarrow> Inr (Some s)
      | Some c \<Rightarrow>
          and_then (sys_step B M ev (bus_sys s h c)) (\<lambda>t.
            case post_all Q h (reports_of (drop (length (sy_out (sv_bus s h))) (sy_out t)))
                   ((sv_ac s)\<lparr>ac_cctl := AList.update h (sy_ctl t) (ac_cctl (sv_ac s))\<rparr>) of
              None \<Rightarrow> Inr None
            | Some ac \<Rightarrow> Inr (Some (s\<lparr>sv_ac := ac, sv_bus := (sv_bus s)(h := t)\<rparr>))))"
| "service_step Q B M (Session client ec) s =
     (if ac_tcp (sv_ac s) = None then Inr (Some s)
      else case network_receive Q client ec (sv_ac s) of
             None \<Rightarrow> Inr None | Some ac \<Rightarrow> Inr (Some (s\<lparr>sv_ac := ac\<rparr>)))"
| "service_step Q B M (Connected client ec) s =
     (if \<not> sv_connecting s then Inr (Some s)
      else case network_connect Q client ec (sv_ac s) of
             None \<Rightarrow> Inr None | Some ac \<Rightarrow> Inr (Some (s\<lparr>sv_ac := ac, sv_connecting := False\<rparr>)))"
| "service_step Q B M Message s =
     (if \<not> sv_message s then Inr (Some s)
      else case ac_message_round Q (sv_ac s) of
             None \<Rightarrow> Inr (Some s)
           | Some r \<Rightarrow> and_then r (\<lambda>(goes_on, ac, es). Inr (Some (s\<lparr>sv_ac := ac, sv_message := goes_on\<rparr>))))"
| "service_step Q B M (Network session) s =
     (if \<not> ac_thrdnetwork (sv_ac s) then Inr (Some s)
      else case thread_network_body session (sv_ac s) of
             (ac, es) \<Rightarrow> Inr (Some (s\<lparr>sv_ac := ac, sv_connecting := sv_connecting s \<or> list_ex is_async_connect es\<rparr>)))"

fun service_run :: "'q mq_ops \<Rightarrow> 'b cb_ops \<Rightarrow> ('b, cooler_data) methods \<Rightarrow> service_event list \<Rightarrow> ('q, 'b) service
    \<Rightarrow> ('q, 'b) service option outcome" where
  "service_run Q B M [] s = Inr (Some s)"
| "service_run Q B M (e # es) s =
     and_then (service_step Q B M e s) (\<lambda>r. case r of None \<Rightarrow> Inr None | Some s' \<Rightarrow> service_run Q B M es s')"

text \<open>The service after \<open>StartService\<close>, from the object and the effects it returns.\<close>

fun effects_at :: "int \<Rightarrow> ac_effect list \<Rightarrow> ctl_effect list" where
  "effects_at h [] = []"
| "effects_at h (Ac_ctl k e # es) = (if k = h then e # effects_at h es else effects_at h es)"
| "effects_at h (e # es) = effects_at h es"

definition started_service :: "('q, 'b) annex_control \<Rightarrow> ac_effect list \<Rightarrow> ('q, 'b) service" where
  "started_service st effs = \<lparr>sv_ac = st,
     sv_bus = (\<lambda>h. started (the (map_of (ac_cctl st) h)) (effects_at h effs)),
     sv_message = True, sv_connecting = False\<rparr>"

text \<open>What an interleaved list of events is for one controller, and the events that may post a message.\<close>

fun bus_events :: "int \<Rightarrow> service_event list \<Rightarrow> sys_event list" where
  "bus_events h [] = []"
| "bus_events h (Bus k ev # es) = (if k = h then ev # bus_events h es else bus_events h es)"
| "bus_events h (e # es) = bus_events h es"

fun may_report :: "service_event \<Rightarrow> bool" where
  "may_report (Bus h (Receive_error ec)) = True"
| "may_report (Bus h (Send_error ec)) = True"
| "may_report (Bus h (Heartbeat e)) = True"
| "may_report (Session client ec) = True"
| "may_report (Connected client ec) = True"
| "may_report e = False"

lemma bus_events_append: "bus_events h (xs @ ys) = bus_events h xs @ bus_events h ys"
  by (induction h xs rule: bus_events.induct) auto

lemma reports_append: "reports_of (xs @ ys) = reports_of xs @ reports_of ys"
  by (induction xs rule: reports_of.induct) auto

lemma reports_ser [simp]: "reports_of (map Ser es) = []"
  by (induction es) auto

section \<open>What a controller reports\<close>

lemma sys_port_appends: "sys_port h s = Inr s' \<Longrightarrow> \<exists>es. sy_out s' = sy_out s @ es"
  by (auto simp: sys_port_def sys_emit_def and_then_Inr_iff split: option.splits prod.splits)

lemma step_appends: "sys_step B M ev s = Inr s' \<Longrightarrow> \<exists>es. sy_out s' = sy_out s @ es"
  by (cases ev) (auto simp: sys_emit_def and_then_Inr_iff dest: sys_port_appends split: if_splits prod.splits)

lemma first_send_reports: "first_send B st = Inr (st', es) \<Longrightarrow> reports_of es = []"
  by (auto simp: first_send_def split: option.splits list.splits prod.splits if_splits)

lemma write_log_reports: "reports_of (snd (cooler_write_log st)) = []"
proof -
  have "reports_of (map cooler_log_line ds) = []" for ds
    by (induction ds) (simp_all add: cooler_log_line_def)
  then show ?thesis by (simp add: cooler_write_log_def)
qed

lemma write_log_reported: "cooler_write_log st = (st', es) \<Longrightarrow> reports_of es = []"
  using write_log_reports [of st] by simp

lemma upload_reports: "reports_of (cooler_upload_from e gid i ds) = []"
  by (induction ds arbitrary: i) (simp_all add: Let_def)

lemma respond_from_reports:
  "cooler_respond_from S N h gid p ds a = Inr (a', effs) \<Longrightarrow> reports_of effs = []"
  by (induction ds arbitrary: p a a' effs) (auto simp: Let_def and_then_Inr_iff case_prod_beta)

lemma cycle_reports: "cycle_body B M st = Inr (st', es) \<Longrightarrow> reports_of es = []"
  by (auto simp: cycle_body_def Let_def and_then_Inr_iff dest: first_send_reports split: if_splits)

lemma respond_reports:
  assumes "respond_body B (cooler_methods S N ind) e st = Inr (st', es)"
  shows "reports_of es = []"
  using assms
  by (auto simp: respond_body_def remove_directive_def cooler_methods_def Let_def and_then_Inr_iff reports_append
      cooler_upload_database_def upload_reports cooler_network_respond_def case_prod_beta write_log_reports
      dest: first_send_reports write_log_reported respond_from_reports
      split: list.splits if_splits option.splits prod.splits)

text \<open>A port handler calls its slot once, so it reports what the slot reports.\<close>

lemma slot_result:
  assumes "on_serial f ec (sp, Inr (ct, [])) = (sp', Inr (ct', es))"
  shows "f ec (ct\<lparr>ct_serial := Some sp\<rparr>) = Inr (ct', es)"
  using assms by (auto simp: on_serial_def and_then_Inr_iff split: sum.splits)

lemma serial_read_reports:
  "cb_serial_read B M ec ct = Inr (ct', es) \<Longrightarrow> length (reports_of es) \<le> (if ec = 0 then 0 else 1)"
  by (auto simp: cb_serial_read_def Let_def and_then_Inr_iff split: if_splits option.splits)

lemma serial_write_reports: "length (reports_of (cb_serial_write ec ct)) \<le> (if ec = 0 then 0 else 1)"
  by (simp add: cb_serial_write_def)

lemma read_port_reports:
  assumes "sys_port (\<lambda>pr. sc_handle_read B (read_slot B M) (fill (fst pr), snd pr) ec n) s = Inr s'"
  shows "\<exists>es. sy_out s' = sy_out s @ es \<and> length (reports_of es) \<le> (if fst ec = 0 then 0 else 1)"
proof (cases "ct_serial (sy_ctl s)")
  case None
  then show ?thesis using assms by (simp add: sys_port_def)
next
  case (Some sp)
  obtain sp1 r effs where h: "sc_handle_read B (read_slot B M) (fill sp, Inr (sy_ctl s, [])) ec n = ((sp1, r), effs)"
    by (metis surj_pair)
  then obtain ct es where r: "r = Inr (ct, es)" and out: "sy_out s' = sy_out s @ es @ map Ser effs"
    using assms Some by (auto simp: sys_port_def and_then_Inr_iff sys_emit_def)
  have "length (reports_of es) \<le> (if fst ec = 0 then 0 else 1)"
    using h serial_read_reports [where ec = "fst ec" and ct' = ct and es = es]
    by (fastforce simp: sc_handle_read_def Let_def r read_slot_def split: if_splits dest: slot_result)
  then show ?thesis using out by (intro exI [of _ "es @ map Ser effs"]) (simp add: reports_append)
qed

lemma write_port_reports:
  assumes "sys_port (\<lambda>pr. sc_handle_write B write_slot pr ec n) s = Inr s'"
  shows "\<exists>es. sy_out s' = sy_out s @ es \<and> length (reports_of es) \<le> (if fst ec = 0 then 0 else 1)"
proof (cases "ct_serial (sy_ctl s)")
  case None
  then show ?thesis using assms by (simp add: sys_port_def)
next
  case (Some sp)
  obtain sp1 r effs where h: "sc_handle_write B write_slot (sp, Inr (sy_ctl s, [])) ec n = ((sp1, r), effs)"
    by (metis surj_pair)
  then obtain ct es where r: "r = Inr (ct, es)" and out: "sy_out s' = sy_out s @ es @ map Ser effs"
    using assms Some by (auto simp: sys_port_def and_then_Inr_iff sys_emit_def)
  have "length (reports_of es) \<le> (if fst ec = 0 then 0 else 1)"
    using h serial_write_reports [of "fst ec"]
    by (auto simp: sc_handle_write_def Let_def r write_slot_def split: if_splits dest!: slot_result)
  then show ?thesis using out by (intro exI [of _ "es @ map Ser effs"]) (simp add: reports_append)
qed

lemma step_reports:
  assumes "sys_step B (cooler_methods S N ind) ev s = Inr s'"
  shows "\<exists>es. sy_out s' = sy_out s @ es \<and> length (reports_of es) \<le> (if may_report (Bus h ev) then 1 else 0)"
proof (cases ev)
  case Cycle
  then show ?thesis using assms by (auto simp: and_then_Inr_iff sys_emit_def dest: cycle_reports)
next
  case (Bytes d)
  then show ?thesis
    using assms read_port_reports [where fill = "os_fill d" and ec = "(0, '''')" and s = "s\<lparr>sy_reading := False\<rparr>"]
    by (auto simp: case_prod_beta' split: if_splits)
next
  case (Receive_error ec)
  then show ?thesis
    using assms read_port_reports [where fill = "\<lambda>sp. sp" and ec = ec and s = "s\<lparr>sy_reading := False\<rparr>" and B = B
        and M = "cooler_methods S N ind" and n = 0 and s' = s']
    by (fastforce split: if_splits)
next
  case (Sent n)
  then show ?thesis using assms write_port_reports [of B "(0, '''')" n s s'] by auto
next
  case (Send_error ec)
  then show ?thesis using assms write_port_reports [of B ec 0 s s'] by (fastforce split: if_splits)
next
  case (Respond e)
  then show ?thesis using assms by (auto simp: and_then_Inr_iff sys_emit_def dest: respond_reports split: if_splits)
next
  case (Heartbeat e)
  then show ?thesis using assms by (auto simp: heartbeat_body_def sys_emit_def split: if_splits)
qed

section \<open>Interleaving\<close>

text \<open>
  What holds after the events \<open>es\<close>: the controllers are the ones of the start, each in the state that its own
  events bring it to; no message has a handler, at most as many wait as events have posted one, and neither
  the session nor the reconnection has changed.
\<close>

definition bus_start :: "('q, 'b) annex_control \<Rightarrow> ac_effect list \<Rightarrow> int \<Rightarrow> ('b, cooler_data) sys" where
  "bus_start st effs h = started (the (map_of (ac_cctl st) h)) (effects_at h effs)"

definition service_inv :: "('q \<Rightarrow> (nat \<times> msg_unit) list) \<Rightarrow> 'b cb_ops \<Rightarrow> ('b, cooler_data) methods
    \<Rightarrow> ('q, 'b) annex_control \<Rightarrow> ac_effect list \<Rightarrow> service_event list \<Rightarrow> ('q, 'b) service \<Rightarrow> bool" where
  "service_inv contents B M st effs es s \<longleftrightarrow>
     map fst (ac_cctl (sv_ac s)) = map fst (ac_cctl st) \<and>
     (\<forall>h c. map_of (ac_cctl (sv_ac s)) h = Some c \<longrightarrow>
        sys_run B M (bus_events h es) (bus_start st effs h) = Inr (bus_sys s h c)) \<and>
     mq_funcs (ac_mq (sv_ac s)) = (\<lambda>_. []) \<and>
     (\<exists>q. mq_q (ac_mq (sv_ac s)) = Some q \<and> length (contents q) \<le> length (filter may_report es)) \<and>
     ac_tcp (sv_ac s) = ac_tcp st \<and> \<not> ac_thrdnetwork (sv_ac s) \<and> \<not> sv_connecting s"

lemma post_bound:
  assumes "mq_laws Q contents" and "mq_q (ac_mq ac) = Some q"
  shows "case ac_post Q msgid p1 p2 ac of None \<Rightarrow> 1024 \<le> length (contents q)
    | Some ac' \<Rightarrow> \<exists>q'. ac' = ac\<lparr>ac_mq := (ac_mq ac)\<lparr>mq_q := Some q'\<rparr>\<rparr> \<and> length (contents q') = Suc (length (contents q))"
proof (cases "length (contents q) < 1024")
  case True
  then show ?thesis
    using assms(2) mq_laws.send_appends [OF assms(1) True, of 1 "\<lparr>mu_id = msgid, mu_par1 = p1, mu_par2 = p2\<rparr>"]
    by (fastforce simp: ac_post_def PostMessage_def send_with_def)
next
  case False
  then show ?thesis using assms(2) mq_laws.send_blocks [OF assms(1)]
    by (simp add: ac_post_def PostMessage_def send_with_def)
qed

text \<open>Taking a message that has no handler.\<close>

lemma round_nothing:
  assumes "mq_laws Q contents" and "mq_q (ac_mq ac) = Some q" and "mq_funcs (ac_mq ac) = (\<lambda>_. [])"
    and "ac_message_round Q ac = Some r"
  shows "\<exists>goes_on q'. r = Inr (goes_on, ac\<lparr>ac_mq := (ac_mq ac)\<lparr>mq_q := Some q'\<rparr>\<rparr>, []) \<and>
    length (contents q') < length (contents q)"
proof -
  have some: "contents q \<noteq> []"
    using assms(2,4) mq_laws.receive_blocks [OF assms(1)]
    by (auto simp: ac_message_round_def thread_message_body_def)
  then obtain q' where q': "mq_receive Q q = Some (snd (next_msg (contents q)), fst (next_msg (contents q)), q')"
    and c: "contents q' = remove1 (next_msg (contents q)) (contents q)"
    using mq_laws.receive_next [OF assms(1)] by blast
  have "length (contents q') < length (contents q)"
    using mq_laws.next_msg_in [OF assms(1) some] some by (simp add: c length_remove1)
  then show ?thesis
    using assms(2-4) q' by (auto simp: ac_message_round_def thread_message_body_def Let_def split: if_splits)
qed

text \<open>One event of a controller moves that controller alone.\<close>

lemma posted_one:
  assumes "mq_laws Q contents" and "mq_q (ac_mq ac) = Some q" and "length ns \<le> k" and "k \<le> 1"
  shows "case post_all Q h ns ac of None \<Rightarrow> 1024 \<le> length (contents q)
    | Some ac' \<Rightarrow> \<exists>q'. ac' = ac\<lparr>ac_mq := (ac_mq ac)\<lparr>mq_q := Some q'\<rparr>\<rparr> \<and> length (contents q') \<le> length (contents q) + k"
proof (cases ns)
  case Nil
  then show ?thesis using assms(2) by (auto intro!: exI [of _ q])
next
  case (Cons n ms)
  then have "ms = []" "k = 1" using assms(3,4) by (cases ms; simp)+
  then show ?thesis
    using Cons post_bound [OF assms(1,2), of MSG_CLOSE_COOLER h 0]
    by (auto simp: cooler_receive_def split: option.splits)
qed

lemma bus_step:
  assumes laws: "mq_laws Q contents" and M: "M = cooler_methods S N ind"
    and inv: "service_inv contents B M st effs es s"
  shows "case service_step Q B M (Bus h ev) s of
      Inl u \<Rightarrow> h \<in> fst ` set (ac_cctl st) \<and> sys_run B M (bus_events h (es @ [Bus h ev])) (bus_start st effs h) = Inl u
    | Inr None \<Rightarrow> 1024 \<le> length (filter may_report es)
    | Inr (Some s') \<Rightarrow> service_inv contents B M st effs (es @ [Bus h ev]) s'"
proof (cases "map_of (ac_cctl (sv_ac s)) h")
  case None
  have "service_inv contents B M st effs (es @ [Bus h ev]) s"
    using inv None by (auto simp: service_inv_def bus_events_append)
  then show ?thesis using None by simp
next
  case (Some c)
  obtain q where q: "mq_q (ac_mq (sv_ac s)) = Some q" "length (contents q) \<le> length (filter may_report es)"
    using inv by (auto simp: service_inv_def)
  have run: "sys_run B M (bus_events h es) (bus_start st effs h) = Inr (bus_sys s h c)"
    and keys: "map fst (ac_cctl (sv_ac s)) = map fst (ac_cctl st)"
    using inv Some by (auto simp: service_inv_def)
  have "h \<in> set (map fst (ac_cctl (sv_ac s)))"
    using map_of_SomeD [OF Some] by force
  then have known: "h \<in> fst ` set (ac_cctl st)" and h: "h \<in> fst ` set (ac_cctl (sv_ac s))"
    by (simp_all only: keys set_map) (metis keys set_map)
  have here: "sys_run B M (bus_events h (es @ [Bus h ev])) (bus_start st effs h) = sys_step B M ev (bus_sys s h c)"
    using run by (cases "sys_step B M ev (bus_sys s h c)") (simp_all add: bus_events_append sys_run_append)
  show ?thesis
  proof (cases "sys_step B M ev (bus_sys s h c)")
    case (Inl u)
    then show ?thesis using Some here known by simp
  next
    case (Inr t)
    let ?ns = "reports_of (drop (length (sy_out (sv_bus s h))) (sy_out t))"
    let ?ac = "(sv_ac s)\<lparr>ac_cctl := AList.update h (sy_ctl t) (ac_cctl (sv_ac s))\<rparr>"
    let ?k = "if may_report (Bus h ev) then 1 else 0 :: nat"
    have "length ?ns \<le> ?k"
      using step_reports [of B S N ind ev "bus_sys s h c" t h] Inr by (auto simp: M bus_sys_def split: if_splits)
    then have posted: "case post_all Q h ?ns ?ac of None \<Rightarrow> 1024 \<le> length (contents q)
      | Some ac' \<Rightarrow> \<exists>q'. ac' = ?ac\<lparr>ac_mq := (ac_mq ?ac)\<lparr>mq_q := Some q'\<rparr>\<rparr> \<and> length (contents q') \<le> length (contents q) + ?k"
      using q(1) by (intro posted_one [OF laws]) simp_all
    show ?thesis
    proof (cases "post_all Q h ?ns ?ac")
      case None
      then show ?thesis using posted q(2) Some Inr by simp
    next
      case post: (Some ac)
      then obtain q' where ac: "ac = ?ac\<lparr>ac_mq := (ac_mq ?ac)\<lparr>mq_q := Some q'\<rparr>\<rparr>"
        and q': "length (contents q') \<le> length (contents q) + ?k"
        using posted by auto
      let ?s = "s\<lparr>sv_ac := ac, sv_bus := (sv_bus s)(h := t)\<rparr>"
      have "sys_run B M (bus_events g (es @ [Bus h ev])) (bus_start st effs g) = Inr (bus_sys ?s g d)"
        if "map_of (ac_cctl ac) g = Some d" for g d
      proof (cases "g = h")
        case True
        then have "d = sy_ctl t" using that by (simp add: ac update_conv')
        then show ?thesis using True here Inr by (simp add: bus_sys_def)
      next
        case False
        then have "map_of (ac_cctl (sv_ac s)) g = Some d" using that by (simp add: ac update_conv')
        then show ?thesis using False inv by (simp add: service_inv_def bus_events_append bus_sys_def)
      qed
      moreover have "map fst (AList.update h (sy_ctl t) (ac_cctl (sv_ac s))) = map fst (ac_cctl st)"
        using h by (simp add: update_keys flip: keys)
      ultimately have "service_inv contents B M st effs (es @ [Bus h ev]) ?s"
        using inv q q' by (auto simp: service_inv_def ac)
      then show ?thesis using Some Inr post by simp
    qed
  qed
qed

lemma inv_keep:
  "service_inv contents B M st effs es s \<Longrightarrow> (\<And>h. bus_events h [e] = []) \<Longrightarrow> service_inv contents B M st effs (es @ [e]) s"
  by (auto simp: service_inv_def bus_events_append)

lemma inv_queue:
  assumes "service_inv contents B M st effs es s" and "\<And>h. bus_events h [e] = []"
    and "length (contents q) \<le> length (filter may_report (es @ [e]))"
    and "sv_ac s' = (sv_ac s)\<lparr>ac_mq := (ac_mq (sv_ac s))\<lparr>mq_q := Some q\<rparr>\<rparr>"
    and "sv_bus s' = sv_bus s" and "sv_connecting s' = sv_connecting s"
  shows "service_inv contents B M st effs (es @ [e]) s'"
  using assms by (auto simp: service_inv_def bus_events_append bus_sys_def)

lemma other_step:
  assumes laws: "mq_laws Q contents" and inv: "service_inv contents B M st effs es s" and e: "\<And>h. bus_events h [e] = []"
  shows "case service_step Q B M e s of
      Inl u \<Rightarrow> False
    | Inr None \<Rightarrow> 1024 \<le> length (filter may_report es)
    | Inr (Some s') \<Rightarrow> service_inv contents B M st effs (es @ [e]) s'"
proof -
  obtain q where q: "mq_q (ac_mq (sv_ac s)) = Some q" "length (contents q) \<le> length (filter may_report es)"
    and none: "mq_funcs (ac_mq (sv_ac s)) = (\<lambda>_. [])" "\<not> ac_thrdnetwork (sv_ac s)" "\<not> sv_connecting s"
    using inv by (auto simp: service_inv_def)
  note keep = inv_keep [OF inv e]
  show ?thesis
  proof (cases e)
    case (Bus h ev)
    then show ?thesis using e [of h] by simp
  next
    case (Session client ec)
    let ?post = "ac_post Q (if ec = 0 then MSG_RECEIVE_NETWORK else MSG_CLOSE_NETWORK) 0 0 (sv_ac s)"
    have posted: "case ?post of None \<Rightarrow> 1024 \<le> length (contents q)
      | Some ac' \<Rightarrow> \<exists>q'. ac' = (sv_ac s)\<lparr>ac_mq := (ac_mq (sv_ac s))\<lparr>mq_q := Some q'\<rparr>\<rparr> \<and> length (contents q') = Suc (length (contents q))"
      by (rule post_bound [OF laws q(1)])
    show ?thesis
    proof (cases ?post)
      case None
      then show ?thesis using Session posted q(2) keep by (simp add: network_receive_def)
    next
      case (Some ac)
      then obtain q' where "ac = (sv_ac s)\<lparr>ac_mq := (ac_mq (sv_ac s))\<lparr>mq_q := Some q'\<rparr>\<rparr>"
        and "length (contents q') = Suc (length (contents q))" using posted by auto
      then have "service_inv contents B M st effs (es @ [e]) (s\<lparr>sv_ac := ac\<rparr>)"
        using q(2) Session by (intro inv_queue [OF inv e]) simp_all
      then show ?thesis using Session Some keep by (simp add: network_receive_def)
    qed
  next
    case Message
    show ?thesis
    proof (cases "ac_message_round Q (sv_ac s)")
      case None
      then show ?thesis using Message keep by simp
    next
      case (Some r)
      then obtain goes_on q' where r: "r = Inr (goes_on, (sv_ac s)\<lparr>ac_mq := (ac_mq (sv_ac s))\<lparr>mq_q := Some q'\<rparr>\<rparr>, [])"
        and "length (contents q') < length (contents q)"
        using round_nothing [OF laws q(1) none(1)] by blast
      then have "service_inv contents B M st effs (es @ [e])
          (s\<lparr>sv_ac := (sv_ac s)\<lparr>ac_mq := (ac_mq (sv_ac s))\<lparr>mq_q := Some q'\<rparr>\<rparr>, sv_message := goes_on\<rparr>)"
        using q(2) by (intro inv_queue [OF inv e]) simp_all
      then show ?thesis using Message Some r keep by simp
    qed
  qed (use none keep in auto)
qed

lemma service_run_inv:
  assumes laws: "mq_laws Q contents" and M: "M = cooler_methods S N ind"
    and inv: "service_inv contents B M st effs pre s"
  shows "case service_run Q B M es s of
      Inl u \<Rightarrow> \<exists>h\<in>fst ` set (ac_cctl st). sys_run B M (bus_events h (pre @ es)) (bus_start st effs h) = Inl u
    | Inr None \<Rightarrow> 1024 \<le> length (filter may_report (pre @ es))
    | Inr (Some s') \<Rightarrow> service_inv contents B M st effs (pre @ es) s'"
  using inv
proof (induction es arbitrary: pre s)
  case Nil
  then show ?case by simp
next
  case (Cons e es)
  have step: "case service_step Q B M e s of
      Inl u \<Rightarrow> \<exists>h\<in>fst ` set (ac_cctl st). sys_run B M (bus_events h (pre @ [e])) (bus_start st effs h) = Inl u
    | Inr None \<Rightarrow> 1024 \<le> length (filter may_report pre)
    | Inr (Some s') \<Rightarrow> service_inv contents B M st effs (pre @ [e]) s'"
  proof (cases "\<exists>h ev. e = Bus h ev")
    case True
    then obtain h ev where e: "e = Bus h ev" by blast
    show ?thesis using bus_step [OF laws M Cons.prems, of h ev] unfolding e
      by (cases "service_step Q B M (Bus h ev) s") (fastforce simp del: service_step.simps split: option.splits)+
  next
    case False
    then have "bus_events h [e] = []" for h by (cases e) auto
    from other_step [OF laws Cons.prems this] show ?thesis by (simp del: service_step.simps split: sum.splits option.splits)
  qed
  have split: "pre @ e # es = (pre @ [e]) @ es" by simp
  show ?case
  proof (cases "service_step Q B M e s")
    case (Inl u)
    then obtain h where "h \<in> fst ` set (ac_cctl st)" "sys_run B M (bus_events h (pre @ [e])) (bus_start st effs h) = Inl u"
      using step by auto
    moreover from this have "sys_run B M (bus_events h (pre @ e # es)) (bus_start st effs h) = Inl u"
      using bus_events_append [of h "pre @ [e]" es] by (simp only: split sys_run_append and_then.simps)
    ultimately show ?thesis using Inl by auto
  next
    case (Inr r)
    then show ?thesis
    proof (cases r)
      case None
      then show ?thesis using Inr step by simp
    next
      case (Some s')
      then have "service_inv contents B M st effs (pre @ [e]) s'" using Inr step by simp
      from Cons.IH [OF this, unfolded append_assoc append_Cons append_Nil] show ?thesis using Inr Some by simp
    qed
  qed
qed

section \<open>The start\<close>

lemma connect_serial_frame:
  "connect_serial B E t a st = (ok, st', effs) \<Longrightarrow> ac_tcp st' = ac_tcp st \<and> ac_thrdnetwork st' = ac_thrdnetwork st"
  by (auto simp: connect_serial_def connect_serial_cooler_def connect_serial_vacuum_def Let_def
      split: if_splits prod.splits)

lemma connect_coolers_frame:
  "connect_coolers S B E init as st = (ok, st', effs) \<Longrightarrow> ac_tcp st' = ac_tcp st \<and> ac_thrdnetwork st' = ac_thrdnetwork st"
proof (induction as arbitrary: st ok st' effs)
  case (Cons a as)
  then show ?case by (auto split: if_splits prod.splits dest: connect_serial_frame)
qed simp

lemma started_inv:
  assumes "mq_laws Q contents" and "StartService S B Q E session ok (new_annex_control p) = (True, st, effs)"
  shows "service_inv contents B M st effs [] (started_service st effs)"
proof -
  have "\<not> ac_thrdnetwork st"
    using assms(2) by (auto simp: StartService_def register_messages_nothing new_annex_control_def Let_def
        connect_server_def connect_cooler_def split: prod.splits if_splits dest!: connect_coolers_frame)
  moreover have "bus_start st effs h = bus_sys (started_service st effs) h c" if "map_of (ac_cctl st) h = Some c" for h c
    using that by (simp add: bus_start_def bus_sys_def started_service_def started_def)
  ultimately show ?thesis
    using started_queue [OF assms] by (auto simp: service_inv_def started_service_def)
qed

definition port_address :: "(string \<Rightarrow> start_env) \<Rightarrow> annex \<Rightarrow> int" where
  "port_address E a = se_address (E (ax_portName a))"

lemma effects_at_append: "effects_at h (xs @ ys) = effects_at h xs @ effects_at h ys"
  by (induction h xs rule: effects_at.induct) auto

lemma effects_at_map: "effects_at h (map (Ac_ctl k) es) = (if k = h then es else [])"
  by (induction es) auto

lemma connect_one_effects:
  assumes "circular_buffer B" and "memory_ok (E (ax_portName a))" and "ax_idd a \<noteq> []"
    and "ax_portName a \<noteq> ''''" and "fst (se_open (E (ax_portName a))) = 0"
    and "connect_serial B E 1 a st = (True, st', effs)"
  shows "\<exists>c. ac_cctl st' = ac_cctl st @ [(port_address E a, c)] \<and> cooler_ready B (ac_param st) (ac_tcp st) a c \<and>
    length (ct_bufrcv c) = SERIAL_BUFF_SIZE \<and> ct_allDev c \<noteq> [] \<and> ac_param st' = ac_param st \<and> ac_tcp st' = ac_tcp st \<and>
    (\<forall>h. effects_at h effs = (if h = port_address E a
       then [Ser (Set_options (ax_baudRate a)), Ser (Async_read SERIAL_BUFF_SIZE)] else []))"
proof -
  obtain c es where c: "connect_serial B E 1 a st = (True, st\<lparr>ac_cctl := ac_cctl st @ [(port_address E a, c)]\<rparr>, es)"
    and ready: "cooler_ready B (ac_param st) (ac_tcp st) a c"
    using connect_one_cooler [where E = E and st = st, OF assms(1,4,5)] by (auto simp: port_address_def)
  moreover have "connect_serial_cooler B E a st = (True, st', effs)"
    using assms(6) by (simp add: connect_serial_def)
  from connected_cooler_wf [OF assms(1-3) this] have "length (ct_bufrcv c) = SERIAL_BUFF_SIZE \<and> ct_allDev c \<noteq> []"
    using c assms(6) by (auto simp: ctl_wf_def)
  moreover have "effects_at h effs = (if h = port_address E a
       then [Ser (Set_options (ax_baudRate a)), Ser (Async_read SERIAL_BUFF_SIZE)] else [])" for h
    using assms(4-6) by (auto simp: connect_serial_def connect_serial_cooler_def Let_def cb_Start_def sc_Open_def
        make_serial_def sc_RegisterRead_def sc_RegisterWrite_def sc_start_read_def effects_at_append effects_at_map
        port_address_def split: if_splits)
  ultimately show ?thesis using assms(6) by auto
qed

lemma connect_tail:
  assumes "circular_buffer B"
    and "\<forall>a\<in>set as. memory_ok (E (ax_portName a)) \<and> ax_idd a \<noteq> [] \<and> ax_portName a \<noteq> '''' \<and> fst (se_open (E (ax_portName a))) = 0"
    and "connect_coolers S B E True as st = (True, st', effs)"
  shows "\<exists>cs. ac_cctl st' = ac_cctl st @ cs \<and> map fst cs = map (port_address E) as \<and>
    (\<forall>h. h \<notin> set (map (port_address E) as) \<longrightarrow> effects_at h effs = [])"
  using assms(2-)
proof (induction as arbitrary: st effs)
  case (Cons b bs)
  obtain st1 e1 st2 e2 where one: "connect_serial B E 1 b st = (True, st1, e1)"
    and rest: "connect_coolers S B E True bs st1 = (True, st2, e2)" and st': "st' = st2" "effs = e1 @ e2"
    using Cons.prems(2) by (auto split: prod.splits if_splits)
  obtain c where "ac_cctl st1 = ac_cctl st @ [(port_address E b, c)]"
    and "\<And>h. effects_at h e1 = (if h = port_address E b
       then [Ser (Set_options (ax_baudRate b)), Ser (Async_read SERIAL_BUFF_SIZE)] else [])"
    using connect_one_effects [OF assms(1) _ _ _ _ one] Cons.prems(1) by auto
  moreover obtain cs where "ac_cctl st2 = ac_cctl st1 @ cs" "map fst cs = map (port_address E) bs"
    "\<forall>h. h \<notin> set (map (port_address E) bs) \<longrightarrow> effects_at h e2 = []"
    using Cons.IH [of st1 e2] rest Cons.prems(1) by (auto simp: st')
  ultimately show ?case
    by (intro exI [of _ "(port_address E b, c) # cs"]) (auto simp: st' effects_at_append)
qed auto

lemma connect_all_effects:
  assumes "circular_buffer B"
    and "\<forall>a\<in>set as. memory_ok (E (ax_portName a)) \<and> ax_idd a \<noteq> [] \<and> ax_portName a \<noteq> '''' \<and> fst (se_open (E (ax_portName a))) = 0"
    and "connect_coolers S B E True as st = (True, st', effs)" and "distinct (map (port_address E) as)"
    and "set (map fst (ac_cctl st)) \<inter> set (map (port_address E) as) = {}" and "a \<in> set as"
  shows "\<exists>c. map_of (ac_cctl st') (port_address E a) = Some c \<and> cooler_ready B (ac_param st) (ac_tcp st) a c \<and>
    length (ct_bufrcv c) = SERIAL_BUFF_SIZE \<and> ct_allDev c \<noteq> [] \<and>
    effects_at (port_address E a) effs = [Ser (Set_options (ax_baudRate a)), Ser (Async_read SERIAL_BUFF_SIZE)]"
  using assms(2-)
proof (induction as arbitrary: st effs)
  case (Cons b bs)
  obtain st1 e1 st2 e2 where one: "connect_serial B E 1 b st = (True, st1, e1)"
    and rest: "connect_coolers S B E True bs st1 = (True, st2, e2)" and st': "st' = st2" "effs = e1 @ e2"
    using Cons.prems(2) by (auto split: prod.splits if_splits)
  obtain c where c: "ac_cctl st1 = ac_cctl st @ [(port_address E b, c)]" "cooler_ready B (ac_param st) (ac_tcp st) b c"
    "length (ct_bufrcv c) = SERIAL_BUFF_SIZE" "ct_allDev c \<noteq> []" "ac_param st1 = ac_param st" "ac_tcp st1 = ac_tcp st"
    and e1: "\<And>h. effects_at h e1 = (if h = port_address E b
       then [Ser (Set_options (ax_baudRate b)), Ser (Async_read SERIAL_BUFF_SIZE)] else [])"
    using connect_one_effects [OF assms(1) _ _ _ _ one] Cons.prems(1) by auto
  show ?case
  proof (cases "a = b")
    case False
    then have a: "a \<in> set bs" using Cons.prems(5) by simp
    then have ne: "port_address E a \<noteq> port_address E b"
      using Cons.prems(3) by (auto simp: image_iff)
    have "set (map fst (ac_cctl st1)) \<inter> set (map (port_address E) bs) = {}"
      using Cons.prems(3,4) by (auto simp: c(1))
    then show ?thesis
      using Cons.IH [of st1 e2] rest a Cons.prems(1,3) ne c(5,6) by (auto simp: st' effects_at_append e1)
  next
    case True
    obtain cs where cs: "ac_cctl st2 = ac_cctl st1 @ cs" "map fst cs = map (port_address E) bs"
      and e2: "\<And>h. h \<notin> set (map (port_address E) bs) \<Longrightarrow> effects_at h e2 = []"
      using connect_tail [OF assms(1) _ rest] Cons.prems(1) by auto
    have "port_address E b \<notin> fst ` set (ac_cctl st)" "port_address E b \<notin> port_address E ` set bs"
      using Cons.prems(3,4) by auto
    then show ?thesis
      using True c e1 e2 by (auto simp: st' cs effects_at_append map_of_append map_add_Some_iff map_of_eq_None_iff cs(2) simp flip: set_map)
  qed
qed simp

lemma start_connects:
  assumes "StartService S B Q E session ok (new_annex_control p) = (True, st, effs)"
  shows "\<exists>st3 e1 e2. connect_coolers S B E True (pa_cooler p) st3 = (True, st, e2) \<and> effs = e1 @ e2 \<and>
    ac_cctl st3 = [] \<and> ac_param st3 = p \<and> (\<forall>h. effects_at h e1 = [])"
  using assms
  by (auto simp: StartService_def register_messages_nothing new_annex_control_def Let_def connect_server_def
      connect_cooler_def split: prod.splits if_splits)
    (rule exI, rule exI [of _ "[]"], fastforce, rule exI, rule exI [of _ "[Ac_connect False (pa_ipServer p) (pa_portServer p),
      Ac_log ''SUCCEED: connection with server'']"], fastforce)

lemma round_result:
  assumes "circular_buffer B" and "port_ready B s sp []" and "ct_drct (sy_ctl s) = []"
    and "ct_allDev (sy_ctl s) \<noteq> []" and "flags_of (sy_ctl s) [0x3A] [0x0D, 0x0A]"
    and "length (ct_bufrcv (sy_ctl s)) = SERIAL_BUFF_SIZE"
    and "ds = concat (map cooler_plan (ct_allDev (sy_ctl s)))"
    and "length xs + 1 = 5 * length (ct_allDev (sy_ctl s))" and "list_all cooler_reply_ok (r # map fst xs)"
  shows "\<exists>s' effs. sys_run B (cooler_methods S N ind)
      (Cycle # exchanges ds xs @ [Sent (length (wire_msg (last ds))), Bytes r]) s = Inr s' \<and>
    sy_out s' = sy_out s @ effs \<and> ct_drct (sy_ctl s') = [last ds] \<and> sy_woken s' \<and> sent_msgs effs = map wire_msg ds"
proof -
  have "list_all (good_reply False (cooler_methods S N ind) [0x3A] [0x0D, 0x0A]) (r # map fst xs)"
    using assms(9) cooler_reply_good by (auto simp: list_all_iff)
  from polled_controller.poll_round [OF polled_cooler [OF assms(1)] assms(2-7) _ this] show ?thesis
    using assms(7,8) by (fastforce simp: after_event_def length_cooler_plans)
qed

text \<open>A service with two ports, at the addresses 3 and 5.\<close>

definition two_ports :: param_config where
  "two_ports = (fst (InitFile boost_ref '''' 0))\<lparr>pa_cooler := [sample_annex,
     sample_annex\<lparr>ax_portName := ''ttyS1'', ax_idd := [32]\<rparr>]\<rparr>"

lemma two_ports_facts:
  "pa_cooler two_ports = [sample_annex, sample_annex\<lparr>ax_portName := ''ttyS1'', ax_idd := [32]\<rparr>]"
  "map (port_address big_start) (pa_cooler two_ports) = [3, 5]" "pa_bServer two_ports = False"
  "\<forall>a\<in>set (pa_cooler two_ports). memory_ok (big_start (ax_portName a)) \<and> ax_idd a \<noteq> [] \<and> ax_portName a \<noteq> '''' \<and>
    fst (se_open (big_start (ax_portName a))) = 0"
  using big_start_ok
  by (simp_all add: two_ports_def sample_annex_def InitFile_def Let_def port_address_def big_start_def sample_start_def)

lemma two_ports_start:
  "\<exists>(st :: ((nat \<times> msg_unit) list, ring) annex_control) effs.
     StartService boost_ref ring_ops list_mq big_start 1 True (new_annex_control two_ports) = (True, st, effs) \<and>
     map fst (ac_cctl st) = [3, 5]"
proof -
  have "\<forall>a\<in>set (pa_cooler two_ports). ax_portName a \<noteq> '''' \<and> fst (se_open (big_start (ax_portName a))) = 0"
    using two_ports_facts(4) by blast
  from connect_all_coolers [OF ring.circular_buffer_axioms this, of boost_ref
      "(new_annex_control two_ports)\<lparr>ac_mq := new_message_queue\<lparr>mq_q := Some ([] :: (nat \<times> msg_unit) list), mq_thread := True\<rparr>\<rparr>"]
  obtain cs effs where conn: "connect_coolers boost_ref ring_ops big_start True (pa_cooler two_ports)
      ((new_annex_control two_ports)\<lparr>ac_mq := new_message_queue\<lparr>mq_q := Some ([] :: (nat \<times> msg_unit) list), mq_thread := True\<rparr>\<rparr>)
      = (True, (new_annex_control two_ports)\<lparr>ac_mq := new_message_queue\<lparr>mq_q := Some [], mq_thread := True\<rparr>, ac_cctl := cs\<rparr>, effs)"
    by (auto simp: new_annex_control_def)
  then have "map fst cs = [3, 5]"
    using connect_tail [OF ring.circular_buffer_axioms two_ports_facts(4) conn] two_ports_facts(2)
    by (auto simp: new_annex_control_def)
  then show ?thesis
    using conn two_ports_facts(3)
    by (simp add: StartService_def register_messages_nothing Let_def connect_server_def connect_cooler_def
        mq_Start_def list_mq_def new_annex_control_def new_message_queue_def)
qed

text \<open>If no controller fails on its own events and the queue has room, the service does not stop.\<close>

lemma service_run_total:
  assumes "mq_laws Q contents" and "StartService S B Q E session ok (new_annex_control p) = (True, st, effs)"
    and "\<And>h. h \<in> fst ` set (ac_cctl st) \<Longrightarrow>
      \<exists>t. sys_run B (cooler_methods S' N ind) (bus_events h es) (bus_start st effs h) = Inr t"
    and "length (filter may_report es) < 1024"
  shows "\<exists>s'. service_run Q B (cooler_methods S' N ind) es (started_service st effs) = Inr (Some s')"
proof -
  note inv = service_run_inv [OF assms(1) refl started_inv [OF assms(1,2)], of S' N ind es, unfolded append_Nil]
  show ?thesis
  proof (cases "service_run Q B (cooler_methods S' N ind) es (started_service st effs)")
    case (Inl u)
    then show ?thesis using inv assms(3) by fastforce
  next
    case (Inr r)
    then show ?thesis using inv assms(4) by (cases r) auto
  qed
qed

lemma start_bus:
  assumes "circular_buffer B" and "StartService S B Q E session ok (new_annex_control p) = (True, st, effs)"
    and "\<forall>a\<in>set (pa_cooler p). memory_ok (E (ax_portName a)) \<and> ax_idd a \<noteq> [] \<and> ax_portName a \<noteq> '''' \<and>
      fst (se_open (E (ax_portName a))) = 0"
    and "distinct (map (port_address E) (pa_cooler p))" and "a \<in> set (pa_cooler p)" and "h = port_address E a"
  shows "\<exists>c sp. map_of (ac_cctl st) h = Some c \<and> sy_ctl (bus_start st effs h) = c \<and> sent_msgs (sy_out (bus_start st effs h)) = [] \<and>
    port_ready B (bus_start st effs h) sp [] \<and> ct_drct c = [] \<and> flags_of c [0x3A] [0x0D, 0x0A] \<and>
    length (ct_bufrcv c) = SERIAL_BUFF_SIZE \<and> ct_allDev c \<noteq> [] \<and> distinct (ct_allDev c) \<and> set (ct_allDev c) = set (ax_idd a)"
proof -
  obtain st3 e1 e2 where conn: "connect_coolers S B E True (pa_cooler p) st3 = (True, st, e2)" and effs: "effs = e1 @ e2"
    and st3: "ac_cctl st3 = []" "ac_param st3 = p" and e1: "\<And>h. effects_at h e1 = []"
    using start_connects [OF assms(2)] by blast
  obtain c where c: "map_of (ac_cctl st) h = Some c" "cooler_ready B p (ac_tcp st3) a c"
      "length (ct_bufrcv c) = SERIAL_BUFF_SIZE" "ct_allDev c \<noteq> []"
    and e2: "effects_at h e2 = [Ser (Set_options (ax_baudRate a)), Ser (Async_read SERIAL_BUFF_SIZE)]"
    using connect_all_effects [OF assms(1,3) conn assms(4) _ assms(5)] st3 assms(6) by auto
  have start: "bus_start st effs h = started c [Ser (Set_options (ax_baudRate a)), Ser (Async_read SERIAL_BUFF_SIZE)]"
    using c(1) e1 e2 by (simp add: bus_start_def effs effects_at_append)
  obtain sp where "port_ready B (bus_start st effs h) sp []"
    using c(2) by (auto simp: cooler_ready_def start port_ready_def started_def)
  then show ?thesis
    using c by (auto simp: start started_def cooler_ready_def)
qed

section \<open>Properties\<close>

text \<open>
  C8. The controllers of the service do not disturb each other. After a successful \<open>StartService\<close>, take any
  interleaving of events of the controllers, of the session with the server and of the threads of the
  service. If it runs into undefined behaviour, then one controller does so on its own events alone. If a
  thread blocks at the message queue, at least 1024 events have posted a report. Otherwise the service still
  has the controllers and the session it started with, and each controller is in exactly the state that its
  own events, without those of the others, bring it to.
\<close>

theorem controllers_independent:
  assumes "mq_laws Q contents" and "StartService S B Q E session ok (new_annex_control p) = (True, st, effs)"
  shows "case service_run Q B (cooler_methods S' N ind) es (started_service st effs) of
      Inl u \<Rightarrow> \<exists>h\<in>fst ` set (ac_cctl st). sys_run B (cooler_methods S' N ind) (bus_events h es) (bus_start st effs h) = Inl u
    | Inr None \<Rightarrow> 1024 \<le> length (filter may_report es)
    | Inr (Some s') \<Rightarrow> map fst (ac_cctl (sv_ac s')) = map fst (ac_cctl st) \<and> ac_tcp (sv_ac s') = ac_tcp st \<and>
        (\<forall>h c. map_of (ac_cctl (sv_ac s')) h = Some c \<longrightarrow>
           sys_run B (cooler_methods S' N ind) (bus_events h es) (bus_start st effs h) = Inr (bus_sys s' h c))"
  using service_run_inv [OF assms(1) refl started_inv [OF assms], of S' N ind es]
  by (auto simp: service_inv_def split: sum.splits option.splits)

theorem controllers_independent_witness:
  "\<exists>(st :: ((nat \<times> msg_unit) list, ring) annex_control) effs s' c.
    StartService boost_ref ring_ops list_mq big_start 1 True (new_annex_control two_ports) = (True, st, effs) \<and>
    service_run list_mq ring_ops (cooler_methods boost_ref toy_conv 0)
      [Bus 3 (Heartbeat sample_env), Session 0 1, Message, Bus 5 (Heartbeat sample_env)] (started_service st effs) = Inr (Some s') \<and>
    map fst (ac_cctl (sv_ac s')) = [3, 5] \<and> map_of (ac_cctl (sv_ac s')) 3 = Some c \<and>
    sys_run ring_ops (cooler_methods boost_ref toy_conv 0) [Heartbeat sample_env] (bus_start st effs 3) = Inr (bus_sys s' 3 c)"
proof -
  let ?M = "cooler_methods boost_ref toy_conv 0 :: (ring, cooler_data) methods"
  let ?es = "[Bus 3 (Heartbeat sample_env), Session 0 1, Message, Bus 5 (Heartbeat sample_env)]"
  obtain st :: "((nat \<times> msg_unit) list, ring) annex_control" and effs where
    start: "StartService boost_ref ring_ops list_mq big_start 1 True (new_annex_control two_ports) = (True, st, effs)"
    and keys: "map fst (ac_cctl st) = [3, 5]"
    using two_ports_start by (elim exE conjE) (rule that)
  have defined: "\<exists>t. sys_run ring_ops ?M (bus_events h ?es) (bus_start st effs h) = Inr t" for h
    by (simp split: prod.split)
  have "length (filter may_report ?es) < 1024" by simp
  then obtain s' where run: "service_run list_mq ring_ops ?M ?es (started_service st effs) = Inr (Some s')"
    using service_run_total [OF list_mq.mq_laws_axioms start defined] by blast
  have "map fst (ac_cctl (sv_ac s')) = [3, 5]"
    and own: "\<And>h c. map_of (ac_cctl (sv_ac s')) h = Some c \<Longrightarrow>
      sys_run ring_ops ?M (bus_events h ?es) (bus_start st effs h) = Inr (bus_sys s' h c)"
    using controllers_independent [OF list_mq.mq_laws_axioms start, of boost_ref toy_conv 0 ?es, unfolded run] keys
    by (simp_all del: bus_events.simps)
  then obtain c d where "ac_cctl (sv_ac s') = [(3, c), (5, d)]"
    by (auto simp: map_eq_Cons_conv)
  moreover from this own [of 3 c] have "sys_run ring_ops ?M [Heartbeat sample_env] (bus_start st effs 3) = Inr (bus_sys s' 3 c)"
    by simp
  ultimately show ?thesis
    using start run by (intro exI [of _ st] exI [of _ effs] exI [of _ s'] exI [of _ c]) simp
qed

text \<open>
  C7. Every bus is polled, whatever happens on the others. If all configured ports can be opened, then in any
  interleaved run of the service that ends normally, a controller whose own events are those of a polling
  round (the cycle thread, and for every request its transmission and a well-formed reply) has sent exactly
  the five requests of each of its devices, in order, and waits with its responding thread woken for the
  last directive to be retired; the events of the other controllers, of the session and of the message queue may be
  interleaved with the round in any way and need not be well formed.
\<close>

theorem every_bus_polled:
  assumes "circular_buffer B" and "mq_laws Q contents"
    and "StartService S B Q E session ok (new_annex_control p) = (True, st, effs)"
    and "\<forall>a\<in>set (pa_cooler p). memory_ok (E (ax_portName a)) \<and> ax_idd a \<noteq> [] \<and> ax_portName a \<noteq> '''' \<and>
      fst (se_open (E (ax_portName a))) = 0"
    and "distinct (map (port_address E) (pa_cooler p))" and "a \<in> set (pa_cooler p)" and "h = port_address E a"
    and "ds = concat (map cooler_plan (ct_allDev (the (map_of (ac_cctl st) h))))"
    and "length xs + 1 = 5 * length (ct_allDev (the (map_of (ac_cctl st) h)))"
    and "list_all cooler_reply_ok (r # map fst xs)"
    and "bus_events h es = Cycle # exchanges ds xs @ [Sent (length (wire_msg (last ds))), Bytes r]"
    and "service_run Q B (cooler_methods S' N ind) es (started_service st effs) = Inr (Some s')"
  shows "\<exists>c. map_of (ac_cctl (sv_ac s')) h = Some c \<and> ct_drct c = [last ds] \<and> sy_woken (sv_bus s' h) \<and>
    set (ct_allDev (the (map_of (ac_cctl st) h))) = set (ax_idd a) \<and>
    sent_msgs (sy_out (sv_bus s' h)) = concat (map (\<lambda>idd. map (\<lambda>idf. cooler_frame idd idf []) COOLER_MONITOR)
      (ct_allDev (the (map_of (ac_cctl st) h))))"
proof -
  let ?M = "cooler_methods S' N ind" and ?s = "bus_start st effs h"
  obtain c sp where c: "map_of (ac_cctl st) h = Some c" and ctl: "sy_ctl ?s = c" and out: "sent_msgs (sy_out ?s) = []"
    and sp: "port_ready B ?s sp []" and idle: "ct_drct (sy_ctl ?s) = []" "flags_of (sy_ctl ?s) [0x3A] [0x0D, 0x0A]"
      "length (ct_bufrcv (sy_ctl ?s)) = SERIAL_BUFF_SIZE" "ct_allDev (sy_ctl ?s) \<noteq> []" "set (ct_allDev c) = set (ax_idd a)"
    using start_bus [OF assms(1,3-7)] by blast
  have inv: "map fst (ac_cctl (sv_ac s')) = map fst (ac_cctl st)"
    and own: "\<And>c'. map_of (ac_cctl (sv_ac s')) h = Some c' \<Longrightarrow>
      sys_run B ?M (bus_events h es) ?s = Inr (bus_sys s' h c')"
    using service_run_inv [OF assms(2) refl started_inv [OF assms(2,3)], of S' N ind es] assms(12)
    by (auto simp: service_inv_def)
  have "h \<in> set (map fst (ac_cctl (sv_ac s')))"
    using map_of_SomeD [OF c] unfolding inv by force
  then obtain c' where c': "map_of (ac_cctl (sv_ac s')) h = Some c'"
    by (metis map_of_eq_None_iff not_Some_eq set_map)
  obtain t effs' where run: "sys_run B ?M (bus_events h es) ?s = Inr t" and t: "sy_out t = sy_out ?s @ effs'"
      "ct_drct (sy_ctl t) = [last ds]" "sy_woken t"
    and sent: "sent_msgs effs' = map wire_msg ds"
    using round_result [OF assms(1) sp idle(1,4,2,3) _ _ assms(10), of ds S' N ind] assms(8,9,11) c
    by (auto simp: ctl)
  have bus: "t = bus_sys s' h c'" using run own [OF c'] by simp
  have "map wire_msg ds = concat (map (\<lambda>idd. map (\<lambda>idf. cooler_frame idd idf []) COOLER_MONITOR) (ct_allDev c))"
    using assms(8) c by (simp add: map_concat comp_def wire_cooler_plan)
  then show ?thesis
    using c' t out sent c idle(5) by (auto simp: bus bus_sys_def)
qed

theorem every_bus_polled_witness:
  "\<exists>(st :: ((nat \<times> msg_unit) list, ring) annex_control) effs s'.
    StartService boost_ref ring_ops list_mq big_start 1 True (new_annex_control two_ports) = (True, st, effs) \<and>
    service_run list_mq ring_ops (cooler_methods boost_ref toy_conv 0)
      (Bus 5 (Heartbeat sample_env) # Message # map (Bus 3) (Cycle # exchanges (cooler_plan 31)
         (replicate 4 (cooler_frame 31 0x22 (bytes_of ''12''), sample_env))
       @ [Sent (length (wire_msg (last (cooler_plan 31)))), Bytes (cooler_frame 31 0x22 (bytes_of ''12''))]))
      (started_service st effs) = Inr (Some s') \<and>
    sent_msgs (sy_out (sv_bus s' 3)) = map (\<lambda>idf. cooler_frame 31 idf []) COOLER_MONITOR"
proof -
  let ?M = "cooler_methods boost_ref toy_conv 0 :: (ring, cooler_data) methods"
  let ?r = "cooler_frame 31 0x22 (bytes_of ''12'')"
  let ?xs = "replicate 4 (?r, sample_env)"
  let ?evs = "Cycle # exchanges (cooler_plan 31) ?xs @ [Sent (length (wire_msg (last (cooler_plan 31)))), Bytes ?r]"
  let ?es = "Bus 5 (Heartbeat sample_env) # Message # map (Bus 3) ?evs"
  obtain st :: "((nat \<times> msg_unit) list, ring) annex_control" and effs where
    start: "StartService boost_ref ring_ops list_mq big_start 1 True (new_annex_control two_ports) = (True, st, effs)"
    and keys: "map fst (ac_cctl st) = [3, 5]"
    using two_ports_start by (elim exE conjE) (rule that)
  have first: "sample_annex \<in> set (pa_cooler two_ports)" "3 = port_address big_start sample_annex"
    "distinct (map (port_address big_start) (pa_cooler two_ports))"
    unfolding two_ports_facts(2) by (simp_all add: two_ports_facts(1) port_address_def sample_annex_def big_start_def sample_start_def)
  obtain c sp where c: "map_of (ac_cctl st) 3 = Some c" and ctl: "sy_ctl (bus_start st effs 3) = c"
    and sp: "port_ready ring_ops (bus_start st effs 3) sp []" and idle: "ct_drct c = []" "flags_of c [0x3A] [0x0D, 0x0A]"
      "length (ct_bufrcv c) = SERIAL_BUFF_SIZE" "ct_allDev c \<noteq> []" "distinct (ct_allDev c)" "set (ct_allDev c) = {31}"
    using start_bus [OF ring.circular_buffer_axioms start two_ports_facts(4) first(3,1,2)] by (auto simp: sample_annex_def)
  then have dev: "ct_allDev c = [31]"
    by (cases "ct_allDev c") (auto, metis list.set_intros(1) neq_Nil_conv singletonD subsetD subset_insertI insert_iff)
  have plan: "cooler_plan 31 = concat (map cooler_plan (ct_allDev (sy_ctl (bus_start st effs 3))))"
    and len: "length ?xs + 1 = 5 * length (ct_allDev (sy_ctl (bus_start st effs 3)))"
    by (simp_all add: ctl dev)
  have good: "list_all cooler_reply_ok (?r # map fst ?xs)"
    using sample_reply_ok by (simp add: numeral_eq_Suc)
  obtain t where t: "sys_run ring_ops ?M ?evs (bus_start st effs 3) = Inr t"
    using round_result [OF ring.circular_buffer_axioms sp _ _ _ _ plan len good, of boost_ref toy_conv 0] idle(1-4)
    by (auto simp: ctl)
  have own: "bus_events 3 (map (Bus 3) evs) = evs" "bus_events 5 (map (Bus 3) evs) = []"
    "filter may_report (map (Bus 3) ?evs) = []" for evs
    by (induction evs) (simp_all add: exchanges_def exchange_def numeral_eq_Suc cooler_plan_def COOLER_MONITOR_def)
  have ev3: "bus_events 3 ?es = ?evs" and ev5: "bus_events 5 ?es = [Heartbeat sample_env]"
    using own(1,2) [of ?evs] by simp_all
  have defined: "\<exists>t. sys_run ring_ops ?M (bus_events h ?es) (bus_start st effs h) = Inr t" if "h \<in> fst ` set (ac_cctl st)" for h
  proof -
    have "h = 3 \<or> h = 5" using that keys by (metis empty_iff insert_iff list.set(1,2) list.set_map)
    moreover have "\<exists>t. sys_run ring_ops ?M [Heartbeat sample_env] (bus_start st effs 5) = Inr t"
      by (simp split: prod.split)
    ultimately show ?thesis using t ev3 ev5 by metis
  qed
  have "length (filter may_report ?es) < 1024" using own(3) by simp
  then obtain s' where run: "service_run list_mq ring_ops ?M ?es (started_service st effs) = Inr (Some s')"
    using service_run_total [OF list_mq.mq_laws_axioms start defined] by blast
  have "cooler_plan 31 = concat (map cooler_plan (ct_allDev (the (map_of (ac_cctl st) 3))))"
    "length ?xs + 1 = 5 * length (ct_allDev (the (map_of (ac_cctl st) 3)))"
    using c dev by simp_all
  from every_bus_polled [OF ring.circular_buffer_axioms list_mq.mq_laws_axioms start two_ports_facts(4) first(3,1,2) this good ev3 run]
  have "sent_msgs (sy_out (sv_bus s' 3)) = map (\<lambda>idf. cooler_frame 31 idf []) COOLER_MONITOR"
    using c dev by auto
  with start run show ?thesis by (intro exI conjI)
qed

end
