(* ===== verification/Wakeups.thy ===== *)
theory Wakeups
  imports ControllerRun
begin

text \<open>
  Spurious wake-ups. \<open>thread_respond\<close> waits on \<open>cndDrct_\<close> without a predicate, and a condition variable
  of boost may return from its wait without a notification. Here the machine of ControllerRun gets that
  event. The properties show what one spurious wake-up does to a polling round in which every request is
  answered once: the controllers lose the correspondence of requests and replies until the end of the
  round, a reply is recorded under the function of the following request, and the reply that is left
  over empties an empty list.
\<close>

section \<open>The machine with spurious wake-ups\<close>

datatype wake_event =
    Ev sys_event
  | Spurious                  \<comment> \<open>the wait of \<open>thread_respond\<close> ends without a notification\<close>

fun wake_step ::
  "'b cb_ops \<Rightarrow> ('b, 'd) methods \<Rightarrow> wake_event \<Rightarrow> ('b, 'd) sys \<Rightarrow> ('b, 'd) sys outcome" where
  "wake_step B M (Ev e) s = sys_step B M e s"
| "wake_step B M Spurious s = Inr (s\<lparr>sy_woken := True\<rparr>)"

fun wake_run ::
  "'b cb_ops \<Rightarrow> ('b, 'd) methods \<Rightarrow> wake_event list \<Rightarrow> ('b, 'd) sys \<Rightarrow> ('b, 'd) sys outcome" where
  "wake_run B M [] s = Inr s"
| "wake_run B M (e # es) s = and_then (wake_step B M e s) (wake_run B M es)"

lemma wake_run_append:
  "wake_run B M (xs @ ys) s = and_then (wake_run B M xs s) (wake_run B M ys)"
proof (induction xs arbitrary: s)
  case Nil
  then show ?case by simp
next
  case (Cons x xs)
  then have "wake_run B M (xs @ ys) = (\<lambda>s. and_then (wake_run B M xs s) (wake_run B M ys))"
    by (intro ext)
  then show ?case by (simp add: and_then_assoc)
qed

lemma wake_run_Ev [simp]: "wake_run B M (map Ev es) s = sys_run B M es s"
proof (induction es arbitrary: s)
  case Nil
  then show ?case by simp
next
  case (Cons e es)
  then have "wake_run B M (map Ev es) = sys_run B M es" by (intro ext)
  then show ?case by simp
qed

text \<open>A wake-up changes nothing but the flag of the responding thread.\<close>

lemma after_spurious:
  assumes "port_ready B s sp q"
  shows "after_event B s q (ct_drct (sy_ctl s)) [] (s\<lparr>sy_woken := True\<rparr>)"
  using assms by (auto simp: after_event_def port_ready_def)

section \<open>A round with one spurious wake-up\<close>

text \<open>
  The events: \<open>xs\<close> exchanges as usual, then the next request is written and the wait ends spuriously, so
  that the responding thread retires it and sends the one after it; the replies \<open>ys\<close> that follow are
  those of the preceding request each.
\<close>

definition disturbed_round ::
  "directive list \<Rightarrow> (bytes \<times> env) list \<Rightarrow> env \<Rightarrow> (bytes \<times> env) list \<Rightarrow> bytes \<Rightarrow> wake_event list" where
  "disturbed_round ds xs e ys r =
     map Ev (Cycle # exchanges ds xs) @
     [Ev (Sent (length (wire_msg (ds ! length xs)))), Spurious, Ev (Respond e)] @
     map Ev (exchanges (drop (length xs + 1) ds) ys) @
     map Ev [Sent (length (wire_msg (last ds))), Bytes r]"

context polled_controller
begin

text \<open>The last response keeps everything but the data, the list, the time and the protocol object.\<close>

lemma respond_last_frame:
  assumes "ct_drct st = [d]" and body: "respond_body B M e st = Inr (st', effs)"
  shows "\<exists>ds a. st' = st\<lparr>ct_tmlast := env_local e, ct_drct := [], ct_data := ds, ct_ascproto := a\<rparr>"
proof -
  let ?st1 = "st\<lparr>ct_tmlast := env_local e, ct_drct := []\<rparr>"
  obtain ds logs where w: "vm_write_log M ?st1 = (?st1\<lparr>ct_data := ds\<rparr>, logs)"
    using log_frame [of ?st1] by blast
  let ?st2 = "?st1\<lparr>ct_data := ds\<rparr>"
  have "st' = ?st2 \<or> (\<exists>h nets. vm_network_respond M h ?st2 = Inr (st', nets))"
    using assms w by (auto simp: respond_body_def remove_directive_def Let_def and_then_Inr_iff
        split: option.splits if_splits)
  then consider "st' = ?st2" | a where "st' = ?st2\<lparr>ct_ascproto := a\<rparr>"
    using respond_done by blast
  then show ?thesis
  proof cases
    case 1
    then have "st' = ?st2\<lparr>ct_ascproto := ct_ascproto st\<rparr>" by simp
    then show ?thesis by blast
  qed blast
qed

lemma last_respond_after:
  assumes ready: "port_ready B s sp []" and "sy_woken s" and ds: "ct_drct (sy_ctl s) = [d]"
    and step: "sys_step B M (Respond e) s = Inr s'"
  shows "\<exists>effs. after_event B s [] [] effs s'"
proof -
  obtain ct effs where "respond_body B M e (sy_ctl s) = Inr (ct, effs)"
    and s': "s' = sys_emit effs (s\<lparr>sy_ctl := ct, sy_woken := False\<rparr>)"
    using step assms(2) by (auto simp: and_then_Inr_iff)
  from respond_last_frame [OF ds this(1)] s' ready show ?thesis
    by (auto simp: after_event_def sys_emit_def port_ready_def)
qed

text \<open>Without a connected client the last response cannot fail.\<close>

lemma last_respond_returns:
  assumes "ct_drct (sy_ctl s) = [d]" and "sy_woken s" and "\<forall>h. \<not> env_tcp_open e h"
  shows "\<exists>s'. sys_step B M (Respond e) s = Inr s'"
  using assms by (auto simp: respond_body_def remove_directive_def Let_def split: option.splits prod.splits)

lemma spurious_round:
  assumes start: "port_ready B s sp []" "ct_drct (sy_ctl s) = []" "ct_allDev (sy_ctl s) \<noteq> []"
    and flags: "flags_of (sy_ctl s) h t" and buf: "length (ct_bufrcv (sy_ctl s)) = SERIAL_BUFF_SIZE"
    and ds: "ds = concat (map plan (ct_allDev (sy_ctl s)))"
    and len: "length xs + length ys + 2 = length ds"
    and good: "list_all (good_reply pending M h t) (map fst xs @ map fst ys @ [r])"
  shows "\<exists>s' effs. wake_run B M (disturbed_round ds xs e ys r) s = Inr s' \<and>
    after_event B s [] [last ds] effs s' \<and> sy_woken s'"
proof -
  let ?k = "length xs"
  obtain d d' rest where at: "drop ?k ds = d # d' # rest" and d: "ds ! ?k = d"
    and tl: "drop (?k + 1) ds = d' # rest" and l: "last ds = last (d' # rest)"
  proof -
    have 1: "drop ?k ds = ds ! ?k # drop (?k + 1) ds"
      using len by (simp add: Cons_nth_drop_Suc)
    obtain d' rest where "drop (?k + 1) ds = d' # rest"
      using len by (cases "drop (?k + 1) ds") auto
    moreover from this have "last ds = last (d' # rest)"
      by (metis last_drop length_drop list.distinct(1) drop_eq_Nil linorder_not_le)
    ultimately show thesis using that 1 by simp
  qed
  have sendable: "\<forall>x\<in>set ds. sendable x"
    unfolding ds using plan_sendable by auto
  have sub: "set (d' # rest) \<subseteq> set ds" using set_drop_subset [of "?k + 1" ds] by (simp only: tl)
  from poll_prefix [OF start flags buf ds, of xs pending] good len at d obtain s1 e1 where
    s1: "sys_run B M (Cycle # exchanges ds xs) s = Inr s1"
    and a1: "after_event B s (wire_msg d) (d # d' # rest) e1 s1"
    by auto
  obtain sp1 where "port_ready B s1 sp1 (wire_msg d)" "ct_drct (sy_ctl s1) = d # d' # rest"
    using a1 by (auto simp: after_event_def)
  from sent_step [OF this] obtain s2 where
    s2: "sys_step B M (Sent (length (wire_msg d))) s1 = Inr s2" and a2: "after_event B s1 [] (d # d' # rest) [] s2"
    by blast
  let ?s3 = "s2\<lparr>sy_woken := True\<rparr>"
  obtain sp2 where sp2: "port_ready B s2 sp2 []" and dr2: "ct_drct (sy_ctl s2) = d # d' # rest"
    using a2 by (auto simp: after_event_def)
  have a3: "after_event B s2 [] (d # d' # rest) [] ?s3"
    using after_spurious [OF sp2] by (simp add: dr2)
  have "port_ready B ?s3 sp2 []" and "sy_woken ?s3" and "ct_drct (sy_ctl ?s3) = d # d' # rest"
    using sp2 dr2 by (simp_all add: port_ready_def)
  from respond_step [OF this, of e] sendable sub obtain s4 where
    s4: "sys_step B M (Respond e) ?s3 = Inr s4"
    and a4: "after_event B ?s3 (wire_msg d') (d' # rest) [Ser (Async_write (wire_msg d'))] s4"
    by auto
  note a14 = after_event_trans [OF after_event_trans [OF after_event_trans [OF a1 a2] a3] a4]
  obtain sp4 where "port_ready B s4 sp4 (wire_msg d')" "ct_drct (sy_ctl s4) = d' # rest"
      "length (ct_bufrcv (sy_ctl s4)) = SERIAL_BUFF_SIZE" "flags_of (sy_ctl s4) h t"
    using a14 flags buf after_event_flags [OF a14] by (auto simp: after_event_def)
  moreover have "list_all sendable rest"
    using sendable sub by (auto simp: list_all_iff)
  moreover have "length ys = length rest"
    using arg_cong [OF tl, of length] len by simp
  ultimately obtain s5 e5 where s5: "sys_run B M (exchanges (d' # rest) ys) s4 = Inr s5"
    and a5: "after_event B s4 (wire_msg (last ds)) [last ds] e5 s5"
    using exchanges_run [of s4 sp4 d' rest h t ys pending] good drop_to_last [where ds = rest and d = d'] l
    by auto
  note a15 = after_event_trans [OF a14 a5]
  obtain sp5 where "port_ready B s5 sp5 (wire_msg (last ds))" "ct_drct (sy_ctl s5) = [last ds]"
      "length (ct_bufrcv (sy_ctl s5)) = SERIAL_BUFF_SIZE" "flags_of (sy_ctl s5) h t"
    using a15 flags buf after_event_flags [OF a15] by (auto simp: after_event_def)
  from last_exchange [OF this(1,2) this(4,3), of pending r] good obtain s6 where
    s6: "sys_run B M [Sent (length (wire_msg (last ds))), Bytes r] s5 = Inr s6" and woken: "sy_woken s6"
    and a6: "after_event B s5 [] [last ds] [Notify, Ser (Async_read SERIAL_BUFF_SIZE)] s6"
    by auto
  have "wake_run B M [Ev (Sent (length (wire_msg d))), Spurious, Ev (Respond e)] s1 = Inr s4"
    by (simp only: wake_run.simps wake_step.simps s2 s4 and_then.simps)
  then have "wake_run B M (disturbed_round ds xs e ys r) s = Inr s6"
    by (simp only: disturbed_round_def wake_run_append wake_run_Ev s1 s5 s6 tl d and_then.simps)
  with woken after_event_trans [OF a15 a6] show ?thesis by blast
qed

end

section \<open>The ion pumps: one reply on the machine\<close>

text \<open>A reply is stored under the function of the directive that is first in the list.\<close>

lemma vacuum_bytes_step:
  assumes B: "circular_buffer B" and ready: "port_ready B s sp []" and flags: "flags_of (sy_ctl s) [] [0x0D]"
    and buf: "length (ct_bufrcv (sy_ctl s)) = SERIAL_BUFF_SIZE" and one: "ct_drct (sy_ctl s) = one # rest"
    and layout: "reply_layout mid v trail" and len: "length (vacuum_reply idd mid v trail) < SERIAL_BUFF_SIZE"
    and dev: "find_vacuum idd (ct_data (sy_ctl s)) 0 = Some i"
  shows "\<exists>s'. sys_step B (vacuum_methods S N) (Bytes (vacuum_reply idd mid v trail @ [0x0D])) s = Inr s' \<and>
    ct_data (sy_ctl s') = (ct_data (sy_ctl s))
      [i := vacuum_store N (dr_idf one) (string_of v) (ct_data (sy_ctl s) ! i)]"
proof -
  let ?r = "vacuum_reply idd mid v trail @ [0x0D]"
  let ?sp1 = "(os_fill ?r sp)\<lparr>sc_crcrcv := cb_push_all B (sc_crcrcv sp) ?r\<rparr>"
  let ?ct1 = "(sy_ctl s)\<lparr>ct_serial := Some ?sp1\<rparr>"
  have "sc_received B ?sp1 = ?r"
    using ready len circular_buffer.empty_iff [OF B, of "sc_crcrcv sp"]
    by (auto simp: port_ready_def SERIAL_BUFF_SIZE_def os_fill_def intro!: circular_buffer.list_push_all_fits [OF B, THEN trans])
  then have rcv: "sc_received B ?sp1 = vacuum_reply idd mid v trail @ [0x0D] @ []"
    by simp
  have flags1: "flags_of ?ct1 [] [0x0D]" and short: "length (vacuum_reply idd mid v trail) < length (ct_bufrcv ?ct1)"
    using flags buf len by (simp_all add: flags_of_def)
  have port1: "ct_serial ?ct1 = Some ?sp1" by simp
  from vacuum_read_reply [OF B port1 flags1 rcv layout short, of S N] one dev show ?thesis
    using ready by (auto simp: port_ready_def sys_port_def sc_handle_read_def Let_def read_slot_def
        on_serial_def os_fill_def sys_emit_def)
qed

section \<open>Properties\<close>

text \<open>
  C14. One spurious wake-up in a polling round of the temperature controllers leads to undefined
  behaviour. From an idle system, whatever the devices, let the round go as usual up to some request
  before the last, let the wait of the responding thread end spuriously after that request has been
  written, and let every request of the round still be answered by exactly one well-formed reply. Then
  the responding thread retires one directive more than there are, and empties an empty list: the run is
  undefined, and for no other reason unless the last response had already failed in its report to a
  connected client.
\<close>

theorem cooler_spurious_wakeup_undefined:
  assumes "circular_buffer B" and "port_ready B s sp []" and "ct_drct (sy_ctl s) = []"
    and "ct_allDev (sy_ctl s) \<noteq> []" and "flags_of (sy_ctl s) [0x3A] [0x0D, 0x0A]"
    and "length (ct_bufrcv (sy_ctl s)) = SERIAL_BUFF_SIZE"
    and "ds = concat (map cooler_plan (ct_allDev (sy_ctl s)))"
    and "length xs + length ys + 2 = 5 * length (ct_allDev (sy_ctl s))"
    and "list_all cooler_reply_ok (map fst xs @ map fst ys @ [r, r'])"
  shows "\<exists>u. wake_run B (cooler_methods S N ind)
      (disturbed_round ds xs e ys r @ map Ev [Respond e2, Bytes r', Respond e3]) s = Inl u \<and>
    ((\<forall>h. \<not> env_tcp_open e2 h) \<longrightarrow> u = Empty_container)"
proof -
  let ?M = "cooler_methods S N ind"
  note polled = polled_cooler [OF assms(1), of S N ind]
  have good: "list_all (good_reply False ?M [0x3A] [0x0D, 0x0A]) (map fst xs @ map fst ys @ [r])"
  proof -
    have "list_all cooler_reply_ok (map fst xs @ map fst ys @ [r])"
      using assms(9) by simp
    then show ?thesis by (rule list.pred_mono_strong) (rule cooler_reply_good)
  qed
  have len: "length xs + length ys + 2 = length ds"
    using assms(8) by (simp add: assms(7) length_cooler_plans)
  from polled_controller.spurious_round [OF polled assms(2-7) len good, of e] obtain s1 effs where
    s1: "wake_run B ?M (disturbed_round ds xs e ys r) s = Inr s1"
    and a1: "after_event B s [] [last ds] effs s1" and woken: "sy_woken s1"
    by blast
  obtain sp1 where ready: "port_ready B s1 sp1 []" and drct: "ct_drct (sy_ctl s1) = [last ds]"
    using a1 by (auto simp: after_event_def)
  show ?thesis
  proof (cases "sys_step B ?M (Respond e2) s1")
    case (Inl u)
    then have "\<not> (\<forall>h. \<not> env_tcp_open e2 h)"
      using polled_controller.last_respond_returns [OF polled drct woken, of e2] by auto
    moreover have "wake_run B ?M (disturbed_round ds xs e ys r @ map Ev [Respond e2, Bytes r', Respond e3]) s = Inl u"
      using Inl by (simp add: wake_run_append s1)
    ultimately show ?thesis by blast
  next
    case (Inr s2)
    from polled_controller.last_respond_after [OF polled ready woken drct Inr] obtain effs2 where
      a2: "after_event B s1 [] [] effs2 s2" by blast
    note a12 = after_event_trans [OF a1 a2]
    obtain sp2 where "port_ready B s2 sp2 []" using a2 by (auto simp: after_event_def)
    moreover have "ct_drct (sy_ctl s2) = []" and "flags_of (sy_ctl s2) [0x3A] [0x0D, 0x0A]"
      and "length (ct_bufrcv (sy_ctl s2)) = SERIAL_BUFF_SIZE"
      using a12 assms(5,6) after_event_flags [OF a12] by (auto simp: after_event_def)
    moreover have "cooler_reply_ok r'"
      using assms(9) by simp
    ultimately have idle: "sys_run B ?M [Bytes r', Respond e3] s2 = Inl Empty_container"
      by (rule idle_reply_undefined [OF assms(1)])
    have "sys_run B ?M [Respond e2, Bytes r', Respond e3] s1 = Inl Empty_container"
      by (subst sys_run.simps(2)) (simp only: Inr and_then.simps idle)
    then show ?thesis
      by (intro exI [of _ Empty_container]) (simp only: wake_run_append wake_run_Ev s1 and_then.simps simp_thms)
  qed
qed

theorem cooler_spurious_wakeup_undefined_witness:
  "wake_run ring_ops (cooler_methods boost_ref toy_conv 0)
     (disturbed_round (cooler_plan 31) [] sample_env
        (replicate 3 (cooler_frame 31 0x22 (bytes_of ''12''), sample_env))
        (cooler_frame 31 0x22 (bytes_of ''12'')) @
      map Ev [Respond sample_env, Bytes (cooler_frame 31 0x22 (bytes_of ''12'')), Respond sample_env])
     (cooler_sys []) = Inl Empty_container"
proof -
  let ?r = "cooler_frame 31 0x22 (bytes_of ''12'')"
  let ?ys = "replicate 3 (?r, sample_env)"
  have plan: "cooler_plan 31 = concat (map cooler_plan (ct_allDev (sy_ctl (cooler_sys []))))"
    and len: "length [] + length ?ys + 2 = 5 * length (ct_allDev (sy_ctl (cooler_sys [])))"
    and dev: "ct_allDev (sy_ctl (cooler_sys [])) \<noteq> []"
    by (simp_all add: cooler_sys_facts)
  have "list_all cooler_reply_ok (map fst [] @ map fst ?ys @ [?r, ?r])"
    using sample_reply_ok by (simp add: numeral_eq_Suc)
  from cooler_spurious_wakeup_undefined [OF ring.circular_buffer_axioms cooler_sys_facts(1,5) dev
      cooler_sys_facts(2,3) plan len this, of boost_ref toy_conv 0 sample_env sample_env sample_env]
  show ?thesis by (auto simp: sample_env_def)
qed

text \<open>
  C15. After a spurious wake-up a reply of an ion pump is recorded under the wrong function. While the
  request \<open>d\<close> of a known device is on its way and the request \<open>d'\<close> is next, the reply to \<open>d\<close> is stored
  under the function of \<open>d\<close>; if the wait of the responding thread has ended spuriously before it
  arrives, the same reply is stored under the function of \<open>d'\<close>, with no error anywhere.
\<close>

theorem vacuum_spurious_wakeup_misfiles:
  assumes "circular_buffer B" and "port_ready B s sp (wire_msg d)" and "ct_drct (sy_ctl s) = d # d' # rest"
    and "sendable d'" and "flags_of (sy_ctl s) [] [0x0D]"
    and "length (ct_bufrcv (sy_ctl s)) = SERIAL_BUFF_SIZE"
    and "reply_layout mid v trail" and "length (vacuum_reply idd mid v trail) < SERIAL_BUFF_SIZE"
    and "find_vacuum idd (ct_data (sy_ctl s)) 0 = Some i"
    and "r = vacuum_reply idd mid v trail @ [0x0D]" and "old = ct_data (sy_ctl s)"
  shows "\<exists>s1 s2.
    wake_run B (vacuum_methods S N) (map Ev [Sent (length (wire_msg d)), Bytes r]) s = Inr s1 \<and>
    ct_data (sy_ctl s1) = old[i := vacuum_store N (dr_idf d) (string_of v) (old ! i)] \<and>
    wake_run B (vacuum_methods S N) ([Ev (Sent (length (wire_msg d))), Spurious] @
      map Ev [Respond e, Sent (length (wire_msg d')), Bytes r]) s = Inr s2 \<and>
    ct_data (sy_ctl s2) = old[i := vacuum_store N (dr_idf d') (string_of v) (old ! i)]"
proof -
  let ?M = "vacuum_methods S N"
  note polled = polled_vacuum [OF assms(1), of S N]
  obtain s1 where s1: "sys_step B ?M (Sent (length (wire_msg d))) s = Inr s1"
    and a1: "after_event B s [] (d # d' # rest) [] s1" and c1: "ct_data (sy_ctl s1) = ct_data (sy_ctl s)"
    using circular_buffer.sent_step [OF assms(1-3), of ?M] by force
  obtain sp1 where ready1: "port_ready B s1 sp1 []" and drct1: "ct_drct (sy_ctl s1) = d # d' # rest"
    and flags1: "flags_of (sy_ctl s1) [] [0x0D]" and buf1: "length (ct_bufrcv (sy_ctl s1)) = SERIAL_BUFF_SIZE"
    using a1 assms(5,6) after_event_flags [OF a1] by (auto simp: after_event_def)
  obtain s2 where good: "sys_step B ?M (Bytes r) s1 = Inr s2"
    and data: "ct_data (sy_ctl s2) = old[i := vacuum_store N (dr_idf d) (string_of v) (old ! i)]"
    using vacuum_bytes_step [OF assms(1) ready1 flags1 buf1 drct1 assms(7,8)] assms(9-11) c1 by metis
  let ?w = "s1\<lparr>sy_woken := True\<rparr>"
  have "port_ready B ?w sp1 []" and "sy_woken ?w" and "ct_drct (sy_ctl ?w) = d # d' # rest"
    using ready1 drct1 by (simp_all add: port_ready_def)
  from polled_controller.respond_step [OF polled this assms(4), of e] obtain s3 where
    s3: "sys_step B ?M (Respond e) ?w = Inr s3"
    and a3: "after_event B ?w (wire_msg d') (d' # rest) [Ser (Async_write (wire_msg d'))] s3"
    and c3: "ct_data (sy_ctl s3) = ct_data (sy_ctl s1)"
    by force
  obtain sp3 where "port_ready B s3 sp3 (wire_msg d')" and "ct_drct (sy_ctl s3) = d' # rest"
    using a3 by (auto simp: after_event_def)
  from circular_buffer.sent_step [OF assms(1) this, of ?M] obtain s4 where
    s4: "sys_step B ?M (Sent (length (wire_msg d'))) s3 = Inr s4"
    and a4: "after_event B s3 [] (d' # rest) [] s4" and c4: "ct_data (sy_ctl s4) = ct_data (sy_ctl s3)"
    by force
  note a34 = after_event_trans [OF a3 a4]
  obtain sp4 where ready4: "port_ready B s4 sp4 []" and drct4: "ct_drct (sy_ctl s4) = d' # rest"
    and flags4: "flags_of (sy_ctl s4) [] [0x0D]" and buf4: "length (ct_bufrcv (sy_ctl s4)) = SERIAL_BUFF_SIZE"
    using a34 flags1 buf1 after_event_flags [OF a34] by (auto simp: after_event_def)
  obtain s5 where bad: "sys_step B ?M (Bytes r) s4 = Inr s5"
    and data': "ct_data (sy_ctl s5) = old[i := vacuum_store N (dr_idf d') (string_of v) (old ! i)]"
    using vacuum_bytes_step [OF assms(1) ready4 flags4 buf4 drct4 assms(7,8)] assms(9-11) c1 c3 c4 by metis
  show ?thesis
    using data data' by (intro exI [of _ s2] exI [of _ s5])
      (simp only: list.map append.simps wake_run.simps wake_step.simps s1 s3 s4 good bad and_then.simps simp_thms)
qed

text \<open>The reply \<open>12\<close> to the request for the current becomes the pressure.\<close>

definition vacuum_waiting :: "(ring, vacuum_data) sys" where
  "vacuum_waiting = started ((sample_vacuum_ctl (vacuum_plan 1))
     \<lparr>ct_serial := Some (sample_port\<lparr>sc_cbsnd := True, sc_crcrcv := (5120, []),
        sc_crcsnd := (5120, wire_msg (hd (vacuum_plan 1)))\<rparr>)\<rparr>) [Ser (Async_read 512)]"

lemma vacuum_waiting_facts:
  "port_ready ring_ops vacuum_waiting (the (ct_serial (sy_ctl vacuum_waiting))) (wire_msg (vacuum_plan 1 ! 0))"
  "ct_drct (sy_ctl vacuum_waiting) = vacuum_plan 1 ! 0 # vacuum_plan 1 ! 1 # [vacuum_plan 1 ! 2]"
  "flags_of (sy_ctl vacuum_waiting) [] [0x0D]"
  "length (ct_bufrcv (sy_ctl vacuum_waiting)) = SERIAL_BUFF_SIZE"
  "find_vacuum 1 (ct_data (sy_ctl vacuum_waiting)) 0 = Some 0"
  "ct_data (sy_ctl vacuum_waiting) = [zero_vacuum_data\<lparr>vd_idd := 1\<rparr>]"
  by (simp_all add: vacuum_waiting_def started_def sample_vacuum_simps port_ready_def flags_of_def
      SERIAL_BUFF_SIZE_def vacuum_plan_def VACUUM_MONITOR_def wire_msg_def vacuum_encode_eq)

theorem vacuum_spurious_wakeup_misfiles_witness:
  "\<exists>s2. wake_run ring_ops (vacuum_methods boost_ref toy_conv)
      ([Ev (Sent (length (wire_msg (vacuum_plan 1 ! 0)))), Spurious] @
       map Ev [Respond sample_env, Sent (length (wire_msg (vacuum_plan 1 ! 1))),
         Bytes (vacuum_reply 1 [32, 79, 75, 32] [0x31, 0x32] [32, 65, 66] @ [13])]) vacuum_waiting = Inr s2 \<and>
    map dr_idf (vacuum_plan 1) = [VFID_READ_CUR, VFID_READ_PRES, VFID_READ_VOL] \<and>
    ct_data (sy_ctl s2) = [\<lparr>vd_dirty = True, vd_idd = 1, vd_cur = 0, vd_pres = ''12'', vd_vol = 0\<rparr>]"
proof -
  let ?d' = "vacuum_plan 1 ! 1"
  have send: "sendable ?d'"
    by (rule controller_contract.plan_sendable [OF vacuum.controller_contract_axioms, of _ 1])
      (simp add: vacuum_plan_def VACUUM_MONITOR_def)
  have len: "length (vacuum_reply 1 [32, 79, 75, 32] [0x31, 0x32] [32, 65, 66]) < SERIAL_BUFF_SIZE"
    by (simp add: length_vacuum_reply [OF sample_vacuum_layout] SERIAL_BUFF_SIZE_def)
  have idfs: "map dr_idf (vacuum_plan 1) = [VFID_READ_CUR, VFID_READ_PRES, VFID_READ_VOL]"
    and idf: "dr_idf (vacuum_plan 1 ! Suc 0) = VFID_READ_PRES"
    by (simp_all add: vacuum_plan_def VACUUM_MONITOR_def case_prod_beta)
  have "string_of [0x31, 0x32] = ''12''"
    by code_simp
  then have "vacuum_store toy_conv VFID_READ_PRES (string_of [0x31, 0x32]) (zero_vacuum_data\<lparr>vd_idd := 1\<rparr>)
      = \<lparr>vd_dirty = True, vd_idd = 1, vd_cur = 0, vd_pres = ''12'', vd_vol = 0\<rparr>"
    by (simp add: zero_vacuum_data_def vacuum_store_def vacuum_setters vacuum_function_ids)
  with vacuum_spurious_wakeup_misfiles [OF ring.circular_buffer_axioms vacuum_waiting_facts(1,2) send
      vacuum_waiting_facts(3,4) sample_vacuum_layout len vacuum_waiting_facts(5) refl refl,
      of boost_ref toy_conv sample_env] idfs
  show ?thesis by (auto simp: vacuum_waiting_facts(6) idf)
qed

end
