(* ===== verification/NtpClient.thy ===== *)
theory NtpClient
  imports Complex_Main Prelude
begin

text \<open>
  The NTP client (NTPClient.h, NTPClient.cpp): the request packet, the reading of a reply, the estimate
  of the clock offset, the validity of that estimate over successful and failed rounds, and the sockets
  over the life of a client. The host
  stores numbers with the low byte first and has a \<open>long\<close> of eight bytes. A \<open>double\<close> is an
  element of a type \<open>'d\<close> with the arithmetic of the language; literals, conversions and truncations are
  the record \<open>fp_conv\<close>. Definitions assume no law of this arithmetic; the theorem on the offset is
  about exact arithmetic.
\<close>

section \<open>Numbers in memory\<close>

text \<open>The bytes of an object of \<open>n\<close> bytes, low byte first, and the reading of a 32-bit number.\<close>

definition le_bytes :: "nat \<Rightarrow> 'a::len word \<Rightarrow> bytes" where
  "le_bytes n w = map (\<lambda>i. ucast (drop_bit (8 * i) w)) [0..<n]"

definition le_read32 :: "bytes \<Rightarrow> 32 word" where
  "le_read32 bs = ucast (bs ! 0) OR push_bit 8 (ucast (bs ! 1)) OR push_bit 16 (ucast (bs ! 2))
     OR push_bit 24 (ucast (bs ! 3))"

text \<open>The four bytes of a number in network order; \<open>htonl\<close> and \<open>ntohl\<close> give the number with this image.\<close>

definition be_bytes :: "32 word \<Rightarrow> bytes" where
  "be_bytes w = [ucast (drop_bit 24 w), ucast (drop_bit 16 w), ucast (drop_bit 8 w), ucast w]"

definition htonl :: "32 word \<Rightarrow> 32 word" where
  "htonl w = le_read32 (be_bytes w)"

text \<open>\<open>memcpy\<close> into an array.\<close>

definition put :: "nat \<Rightarrow> bytes \<Rightarrow> bytes \<Rightarrow> bytes" where
  "put off bs data = take off data @ bs @ drop (off + length bs) data"

text \<open>\<open>tmp_wrd = htonl(w); memcpy(p, &tmp_wrd, sizeof(tmp_wrd))\<close> with a \<open>long\<close>, and \<open>ntohl(*(int*) p)\<close>.\<close>

definition long_of_htonl :: "32 word \<Rightarrow> bytes" where
  "long_of_htonl w = le_bytes 8 (ucast (htonl w) :: 64 word)"

definition read_be32 :: "bytes \<Rightarrow> nat \<Rightarrow> 32 word" where
  "read_be32 data off = htonl (le_read32 (slice off 4 data))"

lemma length_be_bytes [simp]: "length (be_bytes w) = 4"
  by (simp add: be_bytes_def)

lemma length_put [simp]: "off + length bs \<le> length data \<Longrightarrow> length (put off bs data) = length data"
  by (simp add: put_def)

lemma le_read32_byte:
  fixes a b c d :: byte
  shows "ucast (le_read32 [a, b, c, d]) = a"
    and "ucast (drop_bit 8 (le_read32 [a, b, c, d])) = b"
    and "ucast (drop_bit 16 (le_read32 [a, b, c, d])) = c"
    and "ucast (drop_bit 24 (le_read32 [a, b, c, d])) = d"
  by (rule bit_eqI; auto simp: le_read32_def bit_simps dest: bit_imp_le_length)+

lemma htonl_htonl: "htonl (htonl w) = w"
proof -
  have "be_bytes (htonl w) = rev (be_bytes w)"
    by (simp add: htonl_def be_bytes_def le_read32_byte)
  then have "htonl (htonl w) = le_read32 (rev (be_bytes w))"
    by (simp only: htonl_def [of "htonl w"])
  also have "\<dots> = w"
  proof (rule bit_eqI)
    fix n assume "possible_bit TYPE(32 word) n"
    then have n: "n < 32" by simp
    show "bit (le_read32 (rev (be_bytes w))) n = bit w n"
      by (cases "n < 8"; cases "n < 16"; cases "n < 24"; use n in \<open>auto simp: le_read32_def be_bytes_def bit_simps\<close>)
  qed
  finally show ?thesis .
qed

lemma long_of_htonl_eq: "long_of_htonl w = be_bytes w @ [0, 0, 0, 0]"
proof -
  have upt: "[0..<8::nat] = [0, 1, 2, 3, 4, 5, 6, 7]" by (simp add: upt_rec)
  have high: "drop_bit (8 * i) (ucast (htonl w) :: 64 word) = 0" if "4 \<le> i" for i
    by (rule bit_eqI) (use that in \<open>auto simp: bit_simps dest!: bit_imp_le_length\<close>)
  have low: "ucast (drop_bit k (ucast x :: 64 word)) = (ucast (drop_bit k x) :: byte)" for k and x :: "32 word"
    by (rule bit_eqI) (auto simp: bit_simps dest: bit_imp_le_length)
  have bytes: "ucast (htonl w) = (ucast (drop_bit 24 w) :: byte)" "ucast (drop_bit 8 (htonl w)) = (ucast (drop_bit 16 w) :: byte)"
    "ucast (drop_bit 16 (htonl w)) = (ucast (drop_bit 8 w) :: byte)" "ucast (drop_bit 24 (htonl w)) = (ucast w :: byte)"
    unfolding htonl_def be_bytes_def by (rule le_read32_byte)+
  show ?thesis
    using high [of 4] high [of 5] high [of 6] high [of 7] low [of 0 "htonl w"]
    by (simp add: long_of_htonl_def le_bytes_def upt low bytes be_bytes_def)
qed

lemma read_be32_eq: "slice off 4 data = be_bytes w \<Longrightarrow> read_be32 data off = w"
  unfolding read_be32_def by (simp only: htonl_def [symmetric] htonl_htonl)

section \<open>State\<close>

definition JAN_1970 :: int where "JAN_1970 = 0x83AA7E80"
definition NTP_PCK_LEN :: nat where "NTP_PCK_LEN = 48"

record 'd fp_conv =
  fp_lit :: "rat \<Rightarrow> 'd"            \<comment> \<open>the value of a literal\<close>
  fp_int :: "int \<Rightarrow> 'd"            \<comment> \<open>conversion of an integer\<close>
  fp_trunc :: "'d \<Rightarrow> int"          \<comment> \<open>conversion to an integer, towards zero\<close>

record 'd ntp_client =
  nt_host :: string
  nt_port :: "16 word"
  nt_sock :: int
  nt_pack :: bytes             \<comment> \<open>\<open>NTP_PCK_LEN * 8\<close> characters\<close>
  nt_offset :: 'd
  nt_valid :: bool
  nt_nfail :: int
  nt_tSync :: 'd
  nt_autoSync :: bool

record ntp_packet =
  np_leap_ver_mode :: byte
  np_stratum :: byte
  np_poll :: byte
  np_precision :: byte
  np_root_delay :: "32 word"
  np_root_dispersion :: "32 word"
  np_refid :: bytes
  np_reference :: "32 word \<times> 32 word"
  np_originate :: "32 word \<times> 32 word"
  np_receive :: "32 word \<times> 32 word"
  np_transmit :: "32 word \<times> 32 word"

datatype 'd ntp_effect =
    Ntp_close int
  | Ntp_settime int int
  | Ntp_warn_drift 'd bytes 'd
  | Ntp_warn_lost string "16 word"
  | Ntp_warn_call string

definition new_ntp_client :: "'d::times fp_conv \<Rightarrow> bytes \<Rightarrow> string \<Rightarrow> 16 word \<Rightarrow> int \<Rightarrow> 'd ntp_client" where
  "new_ntp_client F fresh host port tSync =
     \<lparr>nt_host = host, nt_port = port, nt_sock = -1, nt_pack = fresh, nt_offset = fp_lit F 0,
      nt_valid = False, nt_nfail = 0, nt_tSync = fp_int F tSync * fp_lit F (1 / 1000),
      nt_autoSync = False\<rparr>"

definition SetHost :: "string \<Rightarrow> 16 word \<Rightarrow> 'd ntp_client \<Rightarrow> 'd ntp_client \<times> 'd ntp_effect list" where
  "SetHost ip port st =
     (let st1 = st\<lparr>nt_host := ip, nt_port := port\<rparr>
      in if 0 \<le> nt_sock st then (st1\<lparr>nt_sock := -1\<rparr>, [Ntp_close (nt_sock st)]) else (st1, []))"

definition SetSyncLimit :: "'d::times fp_conv \<Rightarrow> int \<Rightarrow> 'd ntp_client \<Rightarrow> 'd ntp_client" where
  "SetSyncLimit F tSync st = st\<lparr>nt_tSync := fp_int F tSync * fp_lit F (1 / 1000)\<rparr>"

definition EnableAutoSynch :: "bool \<Rightarrow> 'd ntp_client \<Rightarrow> 'd ntp_client" where
  "EnableAutoSynch b st = st\<lparr>nt_autoSync := b\<rparr>"

definition drifts :: "'d::{ord,uminus} ntp_client \<Rightarrow> bool" where
  "drifts st \<longleftrightarrow> nt_tSync st \<le> nt_offset st \<or> nt_offset st \<le> - nt_tSync st"

text \<open>\<open>now\<close> is what \<open>gettimeofday\<close> gives: seconds and microseconds.\<close>

definition SynchClock ::
  "'d::{plus,minus,times,uminus,ord} fp_conv \<Rightarrow> int \<times> int \<Rightarrow> 'd ntp_client
     \<Rightarrow> 'd ntp_client \<times> 'd ntp_effect list" where
  "SynchClock F now st =
     (if nt_valid st \<and> drifts st
      then let t = fp_int F (fst now) + fp_int F (snd now) * fp_lit F (1 / 10 ^ 6) + nt_offset st;
               tv_sec = fp_trunc F t;
               tv_usec = fp_trunc F ((t - fp_int F tv_sec) * fp_lit F (10 ^ 6))
           in (st\<lparr>nt_valid := False\<rparr>, [Ntp_settime tv_sec tv_usec])
      else (st, []))"

section \<open>The exchange with the server\<close>

definition ntp_head :: "32 word" where
  "ntp_head = push_bit 30 0 OR push_bit 27 4 OR push_bit 24 3 OR push_bit 16 0 OR push_bit 8 4
     OR (word_of_int (- 6) AND 0xFF)"

definition UINTMAX :: rat where "UINTMAX = 4294967295"

definition construct_packet :: "'d::times fp_conv \<Rightarrow> int \<times> int \<Rightarrow> bytes \<Rightarrow> bytes" where
  "construct_packet F now data =
     (let data = put 0 (replicate NTP_PCK_LEN 0) data;
          data = put 0 (long_of_htonl ntp_head) data;
          data = put 4 (long_of_htonl (push_bit 16 1)) data;
          data = put 8 (long_of_htonl (push_bit 16 1)) data;
          data = put 40 (long_of_htonl (word_of_int (JAN_1970 + fst now))) data
      in put 44 (long_of_htonl (word_of_int
           (fp_trunc F (fp_int F (snd now) * fp_lit F UINTMAX * fp_lit F (1 / 10 ^ 6))))) data)"

text \<open>
  The answers of the socket calls of one exchange: whether \<open>sendto\<close> succeeds, whether \<open>select\<close> sees
  data within ten seconds, and the datagram of \<open>recvfrom\<close> (\<open>None\<close> for an error).
\<close>

record ntp_io =
  io_sent :: bool
  io_ready :: bool
  io_datagram :: "bytes option"

text \<open>\<open>strcpy\<close> from an offset of the buffer into the array of four characters.\<close>

definition copy_refid :: "bytes \<Rightarrow> bytes \<Rightarrow> bytes outcome" where
  "copy_refid data old =
     (let s = takeWhile (\<lambda>c. c \<noteq> 0) (drop 12 data)
      in if 12 + length s < length data \<and> length s + 1 \<le> length old
         then Inr (s @ [0] @ drop (length s + 1) old) else Inl Out_of_bounds)"

definition parse_reply :: "bytes \<Rightarrow> ntp_packet \<Rightarrow> ntp_packet outcome" where
  "parse_reply data old =
     and_then (copy_refid data (np_refid old))
       (\<lambda>refid. Inr \<lparr>np_leap_ver_mode = data ! 0, np_stratum = data ! 1, np_poll = data ! 2,
          np_precision = data ! 3, np_root_delay = read_be32 data 4,
          np_root_dispersion = read_be32 data 8, np_refid = refid,
          np_reference = (read_be32 data 16, read_be32 data 20),
          np_originate = (read_be32 data 24, read_be32 data 28),
          np_receive = (read_be32 data 32, read_be32 data 36),
          np_transmit = (read_be32 data 40, read_be32 data 44)\<rparr>)"

definition get_time ::
  "'d::times fp_conv \<Rightarrow> int \<times> int \<Rightarrow> ntp_io \<Rightarrow> ntp_packet \<Rightarrow> 'd ntp_client
     \<Rightarrow> (bool \<times> ntp_packet \<times> 'd ntp_client \<times> 'd ntp_effect list) outcome" where
  "get_time F now io old st =
     (let data = construct_packet F now (nt_pack st); st1 = st\<lparr>nt_pack := data\<rparr>
      in if \<not> io_sent io
         then Inr (False, old, st1\<lparr>nt_sock := -1\<rparr>, [Ntp_warn_call ''NTPClient::sendto'', Ntp_close (nt_sock st)])
         else if \<not> io_ready io then Inr (False, old, st1, [])
         else case io_datagram io of
             None \<Rightarrow> Inr (False, old, st1\<lparr>nt_sock := -1\<rparr>,
                       [Ntp_warn_call ''NTPClient::recvfrom'', Ntp_close (nt_sock st)])
           | Some d \<Rightarrow>
               let data1 = put 0 (take (NTP_PCK_LEN * 8) d) data
               in and_then (parse_reply data1 old)
                    (\<lambda>p. Inr (True, p, st1\<lparr>nt_pack := data1, nt_valid := True, nt_nfail := 0\<rparr>, [])))"

definition ntp_seconds :: "'d::{plus,inverse} fp_conv \<Rightarrow> 32 word \<times> 32 word \<Rightarrow> 'd" where
  "ntp_seconds F x = fp_int F (uint (fst x)) + fp_int F (uint (snd x)) / fp_lit F UINTMAX"

text \<open>
  One iteration of the thread: \<open>resolved\<close> is the socket that \<open>getaddrinfo\<close> and \<open>socket\<close> give (negative
  for a failure), \<open>sent_at\<close>, \<open>got_at\<close> and \<open>set_at\<close> are the readings of the clock while building the
  request, after the reply and in \<open>SynchClock\<close>.
\<close>

definition ntp_round ::
  "'d::{plus,minus,times,inverse,uminus,ord} fp_conv \<Rightarrow> int \<Rightarrow> int \<times> int \<Rightarrow> int \<times> int \<Rightarrow> int \<times> int
     \<Rightarrow> ntp_io \<Rightarrow> ntp_packet \<Rightarrow> 'd ntp_client \<Rightarrow> (ntp_packet \<times> 'd ntp_client \<times> 'd ntp_effect list) outcome" where
  "ntp_round F resolved sent_at got_at set_at io old st0 =
     (let st = (if nt_sock st0 < 0 then st0\<lparr>nt_sock := resolved\<rparr> else st0)
      in if nt_sock st < 0 then Inr (old, st, [])
         else and_then (get_time F sent_at io old st)
           (\<lambda>(ok, pack, st1, effs).
              if ok
              then let t1 = ntp_seconds F (np_originate pack);
                       t2 = ntp_seconds F (np_receive pack);
                       t3 = ntp_seconds F (np_transmit pack);
                       t4 = fp_int F (JAN_1970 + fst got_at) + fp_int F (snd got_at) * fp_lit F (1 / 10 ^ 6);
                       st2 = st1\<lparr>nt_offset := ((t2 - t1) + (t3 - t4)) * fp_lit F (1 / 2)\<rparr>;
                       delay = (t4 - t1) - (t3 - t2)
                   in if drifts st2
                      then let (st3, effs3) = (if nt_autoSync st2 then SynchClock F set_at st2 else (st2, []))
                           in Inr (pack, st3, effs @ effs3 @
                                [Ntp_warn_drift (nt_offset st3) (np_refid pack) (delay * fp_int F 1000)])
                      else Inr (pack, st2, effs)
              else let st2 = st1\<lparr>nt_nfail := nt_nfail st1 + 1\<rparr>
                in Inr (pack,
                     (if 5 \<le> nt_nfail st2 \<and> nt_valid st2 then st2\<lparr>nt_valid := False\<rparr> else st2),
                     effs @ [Ntp_warn_lost (nt_host st2) (nt_port st2)])))"

section \<open>Request and reply\<close>

lemma ntp_head_bytes: "be_bytes ntp_head = [0x23, 0, 4, 0xFA]"
  by (simp add: be_bytes_def ntp_head_def)

lemma one_bytes: "be_bytes 65536 = [0, 1, 0, 0]"
  by (simp add: be_bytes_def)

lemma be_bytes_cells: obtains a b c d where "be_bytes w = [a, b, c, d]"
  by (simp add: be_bytes_def)

lemma construct_packet_eq:
  assumes "length data = NTP_PCK_LEN * 8"
  shows "construct_packet F now data =
    [0x23, 0, 4, 0xFA, 0, 1, 0, 0, 0, 1, 0, 0] @ replicate 28 0 @ be_bytes (word_of_int (JAN_1970 + fst now))
      @ be_bytes (word_of_int (fp_trunc F (fp_int F (snd now) * fp_lit F UINTMAX * fp_lit F (1 / 10 ^ 6))))
      @ [0, 0, 0, 0] @ drop 52 data"
proof -
  obtain a b c d where s: "be_bytes (word_of_int (JAN_1970 + fst now)) = [a, b, c, d]"
    by (rule be_bytes_cells)
  obtain e f g h where u: "be_bytes (word_of_int
      (fp_trunc F (fp_int F (snd now) * fp_lit F UINTMAX * fp_lit F (1 / 10 ^ 6)))) = [e, f, g, h]"
    by (rule be_bytes_cells)
  define q where "q = take 4 (drop 48 data)"
  have "length q = Suc (Suc (Suc (Suc 0)))"
    using assms by (simp add: q_def NTP_PCK_LEN_def)
  then obtain w x y z where "q = [w, x, y, z]"
    by (auto simp only: length_Suc_conv length_0_conv)
  then have cells: "take 4 (drop 48 data) = [w, x, y, z]" by (simp only: q_def)
  have "drop 48 data = take 4 (drop 48 data) @ drop 4 (drop 48 data)"
    by (simp only: append_take_drop_id)
  then have d48: "drop 48 data = [w, x, y, z] @ drop 52 data"
    by (simp add: cells)
  have zeros: "replicate NTP_PCK_LEN (0 :: byte) = [0, 0, 0, 0, 0, 0, 0, 0, 0, 0, 0, 0, 0, 0, 0, 0, 0, 0, 0, 0, 0, 0, 0, 0, 0, 0, 0, 0, 0, 0, 0, 0, 0, 0, 0, 0, 0, 0, 0, 0, 0, 0, 0, 0, 0, 0, 0, 0]" "replicate 28 (0 :: byte) = [0, 0, 0, 0, 0, 0, 0, 0, 0, 0, 0, 0, 0, 0, 0, 0, 0, 0, 0, 0, 0, 0, 0, 0, 0, 0, 0, 0]"
    by (simp_all add: NTP_PCK_LEN_def numeral_eq_Suc)
  have "put 0 (replicate NTP_PCK_LEN 0) data = replicate NTP_PCK_LEN 0 @ drop 48 data"
    by (simp add: put_def NTP_PCK_LEN_def)
  note cleared = this [unfolded zeros(1) d48]
  show ?thesis
    unfolding construct_packet_def Let_def zeros cleared
    by (simp add: long_of_htonl_eq s u ntp_head_bytes one_bytes put_def)
qed

section \<open>Reachable states\<close>

text \<open>
  What can happen to a client: the calls of its interface and the rounds of its thread, each with any
  answers of the clock and of the network.
\<close>

inductive ntp_reach ::
  "'d::{plus,minus,times,inverse,uminus,ord} fp_conv \<Rightarrow> 'd ntp_client \<Rightarrow> bool" for F where
  reach_new: "length fresh = NTP_PCK_LEN * 8 \<Longrightarrow> ntp_reach F (new_ntp_client F fresh host port tSync)"
| reach_host: "ntp_reach F st \<Longrightarrow> ntp_reach F (fst (SetHost ip port st))"
| reach_limit: "ntp_reach F st \<Longrightarrow> ntp_reach F (SetSyncLimit F tSync st)"
| reach_auto: "ntp_reach F st \<Longrightarrow> ntp_reach F (EnableAutoSynch b st)"
| reach_synch: "ntp_reach F st \<Longrightarrow> ntp_reach F (fst (SynchClock F now st))"
| reach_round: "ntp_reach F st \<Longrightarrow>
    ntp_round F resolved sent_at got_at set_at io old st = Inr (pack, st', effs) \<Longrightarrow> ntp_reach F st'"

definition ntp_ok :: "'d ntp_client \<Rightarrow> bool" where
  "ntp_ok st \<longleftrightarrow> length (nt_pack st) = NTP_PCK_LEN * 8 \<and> 0 \<le> nt_nfail st \<and> (nt_valid st \<longrightarrow> nt_nfail st < 5)"

lemma SynchClock_ok: "ntp_ok st \<Longrightarrow> ntp_ok (fst (SynchClock F now st))"
  by (simp add: SynchClock_def ntp_ok_def Let_def)

lemma length_construct_packet:
  "length data = NTP_PCK_LEN * 8 \<Longrightarrow> length (construct_packet F now data) = NTP_PCK_LEN * 8"
  by (simp add: construct_packet_eq NTP_PCK_LEN_def)

lemma get_time_ok:
  assumes "ntp_ok st" and "get_time F now io old st = Inr (ok, pack, st', effs)"
  shows "ntp_ok st' \<and> (ok \<longrightarrow> nt_valid st' \<and> nt_nfail st' = 0)"
proof -
  have len: "length (construct_packet F now (nt_pack st)) = NTP_PCK_LEN * 8"
    using assms(1) by (intro length_construct_packet) (simp add: ntp_ok_def)
  have "length (put 0 (take (NTP_PCK_LEN * 8) d) (construct_packet F now (nt_pack st))) = NTP_PCK_LEN * 8" for d
    by (subst length_put) (simp_all add: len)
  with assms len show ?thesis
    unfolding get_time_def Let_def
    by (auto simp: ntp_ok_def and_then_Inr_iff split: if_splits option.splits)
qed

lemma ntp_round_ok:
  assumes "ntp_ok st" and "ntp_round F resolved sent_at got_at set_at io old st = Inr (pack, st', effs)"
  shows "ntp_ok st'"
proof -
  define st1 where "st1 = (if nt_sock st < 0 then st\<lparr>nt_sock := resolved\<rparr> else st)"
  have ok1: "ntp_ok st1" using assms(1) by (simp add: st1_def ntp_ok_def)
  show ?thesis
  proof (cases "nt_sock st1 < 0")
    case True
    with assms(2) ok1 show ?thesis by (simp add: ntp_round_def flip: st1_def)
  next
    case False
    then obtain ok p st2 e where g: "get_time F sent_at io old st1 = Inr (ok, p, st2, e)"
      using assms(2) by (cases "get_time F sent_at io old st1") (auto simp: ntp_round_def simp flip: st1_def)
    with get_time_ok [OF ok1 g] have ok2: "ntp_ok st2" "ok \<longrightarrow> nt_valid st2 \<and> nt_nfail st2 = 0" by simp_all
    have upd: "ntp_ok (st2\<lparr>nt_offset := x\<rparr>)" for x using ok2(1) by (simp add: ntp_ok_def)
    show ?thesis
    proof (cases ok)
      case True
      with assms(2) False g have "\<exists>x. st' = st2\<lparr>nt_offset := x\<rparr> \<or> st' = fst (SynchClock F set_at (st2\<lparr>nt_offset := x\<rparr>))"
        unfolding ntp_round_def st1_def [symmetric] Let_def case_prod_unfold
        by (auto split: if_splits)
      then show ?thesis using upd by (auto intro: SynchClock_ok)
    next
      case no: False
      with assms(2) False g ok2(1) show ?thesis
        unfolding ntp_round_def st1_def [symmetric] Let_def
        by (auto simp: ntp_ok_def split: if_splits)
    qed
  qed
qed


definition exact_conv :: "rat fp_conv" where
  "exact_conv = \<lparr>fp_lit = (\<lambda>x. x), fp_int = of_int, fp_trunc = (\<lambda>x. if x < 0 then - floor (- x) else floor x)\<rparr>"


section \<open>Decoding\<close>

definition ntp_datagram ::
  "byte \<times> byte \<times> byte \<times> byte \<Rightarrow> 32 word \<Rightarrow> 32 word \<Rightarrow> bytes \<Rightarrow> 32 word \<times> 32 word \<Rightarrow> 32 word \<times> 32 word
     \<Rightarrow> 32 word \<times> 32 word \<Rightarrow> 32 word \<times> 32 word \<Rightarrow> bytes" where
  "ntp_datagram h delay disp refid ref orig rcv xmt =
     (case h of (a, b, c, d) \<Rightarrow> [a, b, c, d]) @ be_bytes delay @ be_bytes disp @ refid
       @ be_bytes (fst ref) @ be_bytes (snd ref) @ be_bytes (fst orig) @ be_bytes (snd orig)
       @ be_bytes (fst rcv) @ be_bytes (snd rcv) @ be_bytes (fst xmt) @ be_bytes (snd xmt)"

lemma read_be32_at:
  "length xs = off \<Longrightarrow> read_be32 (xs @ be_bytes w @ zs) off = w"
  by (rule read_be32_eq) (simp add: slice_def)

lemma length_4:
  assumes "length xs = 4"
  obtains a b c d where "xs = [a, b, c, d]"
proof -
  have "length xs = Suc (Suc (Suc (Suc 0)))" using assms by simp
  then show thesis using that by (auto simp only: length_Suc_conv length_0_conv)
qed

lemma ntp_datagram_fields:
  fixes a b c d :: byte
  assumes "length refid = 4"
    and data_eq: "data = ntp_datagram (a, b, c, d) delay disp refid ref orig rcv xmt @ rest"
  shows "data ! 0 = a" "data ! 1 = b" "data ! 2 = c" "data ! 3 = d"
    and "read_be32 data 4 = delay" "read_be32 data 8 = disp"
    and "(read_be32 data 16, read_be32 data 20) = ref" "(read_be32 data 24, read_be32 data 28) = orig"
    and "(read_be32 data 32, read_be32 data 36) = rcv" "(read_be32 data 40, read_be32 data 44) = xmt"
    and "drop 12 data = refid @ drop 16 data" "48 \<le> length data"
proof -
  let ?h = "[a, b, c, d]"
  note exp = data_eq ntp_datagram_def
  show "data ! 0 = a" "data ! 1 = b" "data ! 2 = c" "data ! 3 = d" by (simp_all add: exp)
  show "read_be32 data 4 = delay" unfolding exp using read_be32_at [of ?h 4] by simp
  show "read_be32 data 8 = disp" unfolding exp
    using read_be32_at [of "?h @ be_bytes delay" 8] by simp
  have at: "read_be32 (?h @ be_bytes delay @ be_bytes disp @ refid @ concat (map be_bytes ws) @ be_bytes w @ zs)
      (16 + 4 * length ws) = w" for ws w zs
  proof -
    have "length (concat (map be_bytes ws)) = 4 * length ws" by (induction ws) auto
    then show ?thesis
      using read_be32_at [of "?h @ be_bytes delay @ be_bytes disp @ refid @ concat (map be_bytes ws)"
          "16 + 4 * length ws" w zs] assms(1) by simp
  qed
  show "(read_be32 data 16, read_be32 data 20) = ref" unfolding exp
    using at [of "[]"] at [of "[fst ref]"] by (simp add: prod_eq_iff)
  show "(read_be32 data 24, read_be32 data 28) = orig" unfolding exp
    using at [of "[fst ref, snd ref]"] at [of "[fst ref, snd ref, fst orig]"] by (simp add: prod_eq_iff)
  show "(read_be32 data 32, read_be32 data 36) = rcv" unfolding exp
    using at [of "[fst ref, snd ref, fst orig, snd orig]"]
      at [of "[fst ref, snd ref, fst orig, snd orig, fst rcv]"] by (simp add: prod_eq_iff)
  show "(read_be32 data 40, read_be32 data 44) = xmt" unfolding exp
    using at [of "[fst ref, snd ref, fst orig, snd orig, fst rcv, snd rcv]"]
      at [of "[fst ref, snd ref, fst orig, snd orig, fst rcv, snd rcv, fst xmt]"] by (simp add: prod_eq_iff)
  show "drop 12 data = refid @ drop 16 data" using assms(1) by (simp add: exp)
  show "48 \<le> length data" using assms(1) by (simp add: exp)
qed

lemma copy_refid_eq:
  assumes "length refid = 4" and "drop 12 data = refid @ drop 16 data" and "48 \<le> length data" and "length old = 4"
  shows "copy_refid data old =
    (if 0 \<in> set refid
     then Inr (let s = takeWhile (\<lambda>c. c \<noteq> 0) refid in s @ [0] @ drop (length s + 1) old)
     else Inl Out_of_bounds)"
proof (cases "0 \<in> set refid")
  case True
  then have tw: "takeWhile (\<lambda>c. c \<noteq> 0) (drop 12 data) = takeWhile (\<lambda>c. c \<noteq> 0) refid"
    unfolding assms(2) by (simp add: takeWhile_append1)
  have "length (takeWhile (\<lambda>c. c \<noteq> 0) refid) < 4"
    using True assms(1) takeWhile_dropWhile_id [of "\<lambda>c. c \<noteq> 0" refid]
    by (metis (mono_tags, lifting) length_takeWhile_le le_neq_implies_less set_takeWhileD takeWhile_eq_take take_all_iff le_refl)
  with True tw assms show ?thesis by (simp add: copy_refid_def Let_def)
next
  case False
  then have "takeWhile (\<lambda>c. c \<noteq> 0) (drop 12 data) = refid @ takeWhile (\<lambda>c. c \<noteq> 0) (drop 16 data)"
    unfolding assms(2) by (subst takeWhile_append2) auto
  with False assms show ?thesis by (simp add: copy_refid_def Let_def)
qed

text \<open>
  Reading a reply inverts its encoding: from a datagram that carries the fields in network order
  every number is read back as it was sent. The reference identifier is copied up to its first zero
  byte; when all of its four bytes are different from zero, as in an internet address, the copy
  runs over the array.
\<close>

theorem ntp_reply_decoded:
  assumes "length refid = 4" and "length (np_refid old) = 4"
    and "data = ntp_datagram (a, b, c, d) delay disp refid ref orig rcv xmt @ rest"
  shows "parse_reply data old =
    (if 0 \<in> set refid
     then Inr \<lparr>np_leap_ver_mode = a, np_stratum = b, np_poll = c, np_precision = d,
            np_root_delay = delay, np_root_dispersion = disp,
            np_refid = (let s = takeWhile (\<lambda>c. c \<noteq> 0) refid in s @ [0] @ drop (length s + 1) (np_refid old)),
            np_reference = ref, np_originate = orig, np_receive = rcv, np_transmit = xmt\<rparr>
     else Inl Out_of_bounds)"
proof -
  note f = ntp_datagram_fields [OF assms(1,3)]
  show ?thesis
    unfolding parse_reply_def copy_refid_eq [OF assms(1) f(11,12) assms(2)]
    by (simp only: f(1-10)) simp
qed

definition blank_packet :: ntp_packet where
  "blank_packet = \<lparr>np_leap_ver_mode = 0, np_stratum = 0, np_poll = 0, np_precision = 0, np_root_delay = 0,
     np_root_dispersion = 0, np_refid = [0, 0, 0, 0], np_reference = (0, 0), np_originate = (0, 0),
     np_receive = (0, 0), np_transmit = (0, 0)\<rparr>"

theorem ntp_reply_decoded_witness:
  "parse_reply (ntp_datagram (0x24, 2, 6, 0xE9) 7 9 [192, 168, 1, 10] (1, 2) (3, 4) (5, 6) (7, 8)) blank_packet
     = Inl Out_of_bounds"
proof -
  have z: "(0 :: byte) \<notin> set [192, 168, 1, 10]" by code_simp
  have len: "length [192, 168, 1, 10 :: byte] = 4" "length (np_refid blank_packet) = 4"
    by (simp_all add: blank_packet_def)
  show ?thesis
    unfolding ntp_reply_decoded [OF len append_Nil2 [symmetric]] using z by (rule if_not_P)
qed

section \<open>The offset in exact arithmetic\<close>

definition clock :: "int \<times> int \<Rightarrow> rat" where
  "clock now = of_int (fst now) + of_int (snd now) / 10 ^ 6"

lemma exact_ops: "fp_lit exact_conv x = x" "fp_int exact_conv n = of_int n"
  "0 \<le> x \<Longrightarrow> fp_trunc exact_conv x = floor x"
  by (simp_all add: exact_conv_def)

lemma SynchClock_exact:
  assumes "nt_valid st" and "drifts st" and "0 \<le> clock now + nt_offset st"
  shows "\<exists>s u. SynchClock exact_conv now st = (st\<lparr>nt_valid := False\<rparr>, [Ntp_settime s u]) \<and>
    clock (s, u) \<le> clock now + nt_offset st \<and> clock now + nt_offset st < clock (s, u) + 1 / 10 ^ 6 \<and>
    0 \<le> u \<and> u < 10 ^ 6"
proof -
  define t where "t = clock now + nt_offset st"
  define s where "s = floor t"
  define x where "x = (t - of_int s) * 10 ^ 6"
  have t: "0 \<le> t" using assms(3) by (simp add: t_def)
  have "of_int s \<le> t" "t < of_int s + 1" using floor_correct [of t] by (simp_all add: s_def)
  then have x: "0 \<le> x" "x < 10 ^ 6" by (simp_all add: x_def)
  have fl: "of_int (floor x) \<le> x" "x < of_int (floor x) + 1" using floor_correct [of x] by simp_all
  have "t = of_int s + x / 10 ^ 6" by (simp add: x_def field_simps)
  then have "clock (s, floor x) \<le> t" "t < clock (s, floor x) + 1 / 10 ^ 6"
    using fl by (simp_all add: clock_def field_simps)
  moreover have "0 \<le> floor x" "floor x < 10 ^ 6" using x by (simp_all add: floor_less_iff)
  moreover have "SynchClock exact_conv now st = (st\<lparr>nt_valid := False\<rparr>, [Ntp_settime s (floor x)])"
  proof -
    have now: "of_int (fst now) + of_int (snd now) * (1 / 10 ^ 6) + nt_offset st = t"
      by (simp add: t_def clock_def)
    have "fp_trunc exact_conv t = s" using t by (simp add: exact_ops s_def)
    moreover have "fp_trunc exact_conv ((t - of_int s) * 10 ^ 6) = floor x"
      unfolding x_def [symmetric] using x(1) by (rule exact_ops)
    ultimately show ?thesis
      unfolding SynchClock_def exact_ops(1,2) now Let_def using assms(1,2) by simp
  qed
  ultimately show ?thesis by (auto simp: t_def)
qed

lemma get_time_answered:
  assumes "length (nt_pack st) = NTP_PCK_LEN * 8" and "io_sent io" and "io_ready io"
    and "io_datagram io = Some d" and "length (np_refid old) = 4" and "length refid = 4" and "0 \<in> set refid"
    and "d = ntp_datagram h delay disp refid ref orig rcv xmt"
  shows "\<exists>p data. get_time F now io old st =
      Inr (True, p, st\<lparr>nt_pack := data, nt_valid := True, nt_nfail := 0\<rparr>, []) \<and>
    np_originate p = orig \<and> np_receive p = rcv \<and> np_transmit p = xmt"
proof -
  obtain a b c e where h: "h = (a, b, c, e)" by (cases h) auto
  let ?buf = "construct_packet F now (nt_pack st)"
  have len: "length d = 48" using assms(6,8) by (simp add: ntp_datagram_def h)
  have "take (NTP_PCK_LEN * 8) d = d" using len by (simp add: NTP_PCK_LEN_def)
  then have data: "put 0 (take (NTP_PCK_LEN * 8) d) ?buf = ntp_datagram (a, b, c, e) delay disp refid ref orig rcv xmt @ drop 48 ?buf"
    using len assms(8) by (simp add: put_def h)
  note f = ntp_datagram_fields [OF assms(6) data]
  have refid: "\<exists>r. copy_refid (put 0 (take (NTP_PCK_LEN * 8) d) ?buf) (np_refid old) = Inr r"
    using copy_refid_eq [OF assms(6) f(11,12) assms(5)] assms(7) by simp
  then obtain r where r: "copy_refid (put 0 (take (NTP_PCK_LEN * 8) d) ?buf) (np_refid old) = Inr r" ..
  show ?thesis
    unfolding get_time_def parse_reply_def Let_def
    using assms(2-4) r by (simp add: f(1-10)) (rule exI, rule refl)
qed

lemma ntp_round_answered:
  assumes "0 \<le> nt_sock st" and "get_time F sent_at io old st = Inr (True, p, st1, [])"
    and "t1 = ntp_seconds F (np_originate p)" and "t2 = ntp_seconds F (np_receive p)"
    and "t3 = ntp_seconds F (np_transmit p)"
    and "t4 = fp_int F (JAN_1970 + fst got_at) + fp_int F (snd got_at) * fp_lit F (1 / 10 ^ 6)"
    and "st2 = st1\<lparr>nt_offset := ((t2 - t1) + (t3 - t4)) * fp_lit F (1 / 2)\<rparr>"
  shows "ntp_round F resolved sent_at got_at set_at io old st =
    (if drifts st2
     then let (st3, effs3) = (if nt_autoSync st2 then SynchClock F set_at st2 else (st2, []))
       in Inr (p, st3, effs3 @
            [Ntp_warn_drift (nt_offset st3) (np_refid p) (((t4 - t1) - (t3 - t2)) * fp_int F 1000)])
     else Inr (p, st2, []))"
  using assms by (simp add: ntp_round_def Let_def)

text \<open>
  C29. In exact arithmetic, when request and reply travel equally long, a round measures the clock's offset
  from the server exactly, makes it valid and clears the count of failures. With automatic
  synchronisation the clock is set, to the microsecond, when and only when the offset reaches the limit,
  and an offset is used only once.
\<close>

theorem ntp_offset_exact:
  assumes "length (nt_pack st) = NTP_PCK_LEN * 8" and "0 \<le> nt_sock st" and "io_sent io" and "io_ready io"
    and "io_datagram io = Some (ntp_datagram h delay disp refid ref orig rcv xmt)"
    and "length refid = 4" and "0 \<in> set refid" and "length (np_refid old) = 4"
    and "ntp_seconds exact_conv rcv = ntp_seconds exact_conv orig + lag + shift"
    and "of_int JAN_1970 + clock got_at = ntp_seconds exact_conv xmt - shift + lag"
    and "0 \<le> clock set_at + shift"
  shows "\<exists>pack st' effs. ntp_round exact_conv resolved sent_at got_at set_at io old st = Inr (pack, st', effs) \<and>
    nt_offset st' = shift \<and> nt_nfail st' = 0 \<and>
    (if nt_autoSync st \<and> (nt_tSync st \<le> shift \<or> shift \<le> - nt_tSync st)
     then \<not> nt_valid st' \<and> (\<exists>s u. Ntp_settime s u \<in> set effs \<and> 0 \<le> u \<and> u < 10 ^ 6 \<and>
            clock (s, u) \<le> clock set_at + shift \<and> clock set_at + shift < clock (s, u) + 1 / 10 ^ 6)
     else nt_valid st' \<and> (\<forall>s u. Ntp_settime s u \<notin> set effs))"
proof -
  from get_time_answered [OF assms(1,3,4,5,8,6,7) refl, of exact_conv sent_at] obtain p data where
    g: "get_time exact_conv sent_at io old st =
      Inr (True, p, st\<lparr>nt_pack := data, nt_valid := True, nt_nfail := 0\<rparr>, [])" and
    p: "np_originate p = orig" "np_receive p = rcv" "np_transmit p = xmt"
    by auto
  let ?st = "st\<lparr>nt_pack := data, nt_valid := True, nt_nfail := 0, nt_offset := shift\<rparr>"
  let ?t1 = "ntp_seconds exact_conv orig" and ?t3 = "ntp_seconds exact_conv xmt"
  have t4: "?t3 - shift + lag = fp_int exact_conv (JAN_1970 + fst got_at)
      + fp_int exact_conv (snd got_at) * fp_lit exact_conv (1 / 10 ^ 6)"
    using assms(10) by (simp add: clock_def exact_ops)
  have off: "(((?t1 + lag + shift) - ?t1) + (?t3 - (?t3 - shift + lag))) * fp_lit exact_conv (1 / 2) = shift"
    by (simp add: exact_ops)
  have t123: "?t1 = ntp_seconds exact_conv (np_originate p)"
    "?t1 + lag + shift = ntp_seconds exact_conv (np_receive p)" "?t3 = ntp_seconds exact_conv (np_transmit p)"
    using assms(9) p by simp_all
  note run = ntp_round_answered [OF assms(2) g t123 t4 refl, unfolded off]
  have dr: "drifts ?st \<longleftrightarrow> nt_tSync st \<le> shift \<or> shift \<le> - nt_tSync st" by (simp add: drifts_def)
  show ?thesis
  proof (cases "nt_autoSync st \<and> drifts ?st")
    case True
    with SynchClock_exact [of ?st set_at] assms(11) obtain s u where
      s: "SynchClock exact_conv set_at ?st = (?st\<lparr>nt_valid := False\<rparr>, [Ntp_settime s u])"
      "clock (s, u) \<le> clock set_at + shift" "clock set_at + shift < clock (s, u) + 1 / 10 ^ 6"
      "0 \<le> u" "u < 10 ^ 6"
      by auto
    show ?thesis
      unfolding run using True s by (auto simp: Let_def dr split: if_splits)
  next
    case False
    then show ?thesis
      unfolding run using dr by (cases "drifts ?st") (auto simp: Let_def)
  qed
qed

definition sample_ntp :: "rat ntp_client" where
  "sample_ntp = \<lparr>nt_host = ''ntp'', nt_port = 123, nt_sock = 3, nt_pack = replicate 384 0, nt_offset = 0,
     nt_valid = False, nt_nfail = 4, nt_tSync = 1 / 200, nt_autoSync = True\<rparr>"

definition sample_exchange :: ntp_io where
  "sample_exchange = \<lparr>io_sent = True, io_ready = True,
     io_datagram = Some (ntp_datagram (0x24, 1, 6, 0xE9) 0 0 [0x47, 0x50, 0x53, 0] (0, 0) (2208989800, 0)
       (2208989803, 0) (2208989804, 0))\<rparr>"

theorem ntp_offset_exact_witness:
  "\<exists>pack st' effs. ntp_round exact_conv 0 (1000, 0) (1003, 0) (1003, 0) sample_exchange blank_packet sample_ntp
      = Inr (pack, st', effs) \<and> nt_offset st' = 2 \<and> nt_nfail st' = 0 \<and> \<not> nt_valid st' \<and>
    (\<exists>s u. Ntp_settime s u \<in> set effs \<and> clock (s, u) \<le> 1005 \<and> 1005 < clock (s, u) + 1 / 10 ^ 6)"
proof -
  have len: "length (nt_pack sample_ntp) = NTP_PCK_LEN * 8" "0 \<le> nt_sock sample_ntp" "io_sent sample_exchange"
    "io_ready sample_exchange" "length (np_refid blank_packet) = 4" "length [0x47, 0x50, 0x53, 0 :: byte] = 4"
    "0 \<in> set [0x47, 0x50, 0x53, 0 :: byte]"
    by (simp_all add: sample_ntp_def sample_exchange_def blank_packet_def NTP_PCK_LEN_def)
  have d: "io_datagram sample_exchange = Some (ntp_datagram (0x24, 1, 6, 0xE9) 0 0 [0x47, 0x50, 0x53, 0] (0, 0)
      (2208989800, 0) (2208989803, 0) (2208989804, 0))"
    by (simp add: sample_exchange_def)
  have times: "ntp_seconds exact_conv (2208989803, 0) = ntp_seconds exact_conv (2208989800, 0) + 1 + 2"
    "of_int JAN_1970 + clock (1003, 0) = ntp_seconds exact_conv (2208989804, 0) - 2 + 1"
    "0 \<le> clock (1003, 0) + 2"
    by (simp_all add: ntp_seconds_def exact_ops clock_def JAN_1970_def)
  have "clock (1003, 0) + 2 = 1005" by (simp add: clock_def)
  with ntp_offset_exact [OF len(1-4) d len(6,7,5) times, of 0 "(1000, 0)"] show ?thesis
    by (simp add: sample_ntp_def) blast
qed

section \<open>The sockets over the life of a client\<close>

definition destroy_ntp :: "'d ntp_client \<Rightarrow> 'd ntp_effect list" where
  "destroy_ntp st = (if 0 \<le> nt_sock st then [Ntp_close (nt_sock st)] else [])"

fun closed_sockets :: "'d ntp_effect list \<Rightarrow> int list" where
  "closed_sockets [] = []"
| "closed_sockets (Ntp_close s # es) = s # closed_sockets es"
| "closed_sockets (e # es) = closed_sockets es"

lemma closed_sockets_append [simp]: "closed_sockets (xs @ ys) = closed_sockets xs @ closed_sockets ys"
  by (induction xs rule: closed_sockets.induct) auto

definition open_socket :: "'d ntp_client \<Rightarrow> int list" where
  "open_socket st = (if 0 \<le> nt_sock st then [nt_sock st] else [])"

lemma open_socket_cong: "nt_sock st' = nt_sock st \<Longrightarrow> open_socket st' = open_socket st"
  by (simp add: open_socket_def)

text \<open>The socket that a round opens: it tries to when there is none.\<close>

definition round_opens :: "int \<Rightarrow> 'd ntp_client \<Rightarrow> int list" where
  "round_opens resolved st = (if nt_sock st < 0 \<and> 0 \<le> resolved then [resolved] else [])"

text \<open>A client with the sockets that its rounds have opened and the effects it has had, in order.\<close>

inductive ntp_trace ::
  "'d::{plus,minus,times,inverse,uminus,ord} fp_conv \<Rightarrow> int list \<Rightarrow> 'd ntp_effect list \<Rightarrow> 'd ntp_client \<Rightarrow> bool"
  for F where
  trace_new: "ntp_trace F [] [] (new_ntp_client F fresh host port tSync)"
| trace_host: "ntp_trace F opened effs st \<Longrightarrow> SetHost ip port st = (st', es) \<Longrightarrow> ntp_trace F opened (effs @ es) st'"
| trace_limit: "ntp_trace F opened effs st \<Longrightarrow> ntp_trace F opened effs (SetSyncLimit F tSync st)"
| trace_auto: "ntp_trace F opened effs st \<Longrightarrow> ntp_trace F opened effs (EnableAutoSynch b st)"
| trace_synch: "ntp_trace F opened effs st \<Longrightarrow> SynchClock F now st = (st', es) \<Longrightarrow>
    ntp_trace F opened (effs @ es) st'"
| trace_round: "ntp_trace F opened effs st \<Longrightarrow>
    ntp_round F resolved sent_at got_at set_at io old st = Inr (pack, st', es) \<Longrightarrow>
    ntp_trace F (opened @ round_opens resolved st) (effs @ es) st'"

lemma SynchClock_sockets [simp]:
  "nt_sock (fst (SynchClock F now st)) = nt_sock st" "closed_sockets (snd (SynchClock F now st)) = []"
  by (simp_all add: SynchClock_def Let_def)

lemma get_time_sockets:
  "get_time F now io old st = Inr (ok, pack, st', es) \<Longrightarrow> 0 \<le> nt_sock st \<Longrightarrow>
   closed_sockets es @ open_socket st' = open_socket st"
  by (auto simp: get_time_def Let_def and_then_Inr_iff open_socket_def split: if_splits option.splits)

lemma ntp_round_sockets:
  assumes "ntp_round F resolved sent_at got_at set_at io old st = Inr (pack, st', es)"
  shows "closed_sockets es @ open_socket st' = open_socket st @ round_opens resolved st"
proof -
  define st1 where "st1 = (if nt_sock st < 0 then st\<lparr>nt_sock := resolved\<rparr> else st)"
  have opened: "open_socket st1 = open_socket st @ round_opens resolved st"
    by (simp add: st1_def open_socket_def round_opens_def)
  show ?thesis
  proof (cases "nt_sock st1 < 0")
    case True
    with assms opened show ?thesis
      by (auto simp: ntp_round_def open_socket_def simp flip: st1_def)
  next
    case False
    then obtain ok p st2 e where g: "get_time F sent_at io old st1 = Inr (ok, p, st2, e)"
      using assms by (cases "get_time F sent_at io old st1") (auto simp: ntp_round_def simp flip: st1_def)
    from get_time_sockets [OF g] False have "closed_sockets e @ open_socket st2 = open_socket st1" by simp
    moreover have "nt_sock st' = nt_sock st2 \<and> closed_sockets es = closed_sockets e"
    proof (cases ok)
      case True
      with assms g \<open>\<not> nt_sock st1 < 0\<close> show ?thesis
        unfolding ntp_round_def st1_def [symmetric] Let_def case_prod_unfold
        by (auto split: if_splits)
    next
      case False
      with assms g \<open>\<not> nt_sock st1 < 0\<close> show ?thesis
        unfolding ntp_round_def st1_def [symmetric] Let_def by (auto split: if_splits)
    qed
    ultimately show ?thesis using opened open_socket_cong [of st' st2] by simp
  qed
qed

text \<open>
  C31. A client closes every socket it opens, once, and before it opens the next one: whatever the network
  answers, and in whatever order the interface is used and rounds are made, the sockets closed until the
  end of the object are those that were opened, in that order.
\<close>

theorem ntp_sockets_closed_once:
  assumes "ntp_trace F opened effs st"
  shows "closed_sockets (effs @ destroy_ntp st) = opened"
proof -
  from assms have "closed_sockets effs @ open_socket st = opened"
  proof induction
    case trace_new
    then show ?case by (simp add: new_ntp_client_def open_socket_def)
  next
    case (trace_host opened effs st ip port st' es)
    then show ?case by (auto simp: SetHost_def open_socket_def Let_def split: if_splits)
  next
    case (trace_limit opened effs st tSync)
    then show ?case using open_socket_cong [of "SetSyncLimit F tSync st" st] by (simp add: SetSyncLimit_def)
  next
    case (trace_auto opened effs st b)
    then show ?case using open_socket_cong [of "EnableAutoSynch b st" st] by (simp add: EnableAutoSynch_def)
  next
    case (trace_synch opened effs st now st' es)
    then have "nt_sock st' = nt_sock st" "closed_sockets es = []"
      using SynchClock_sockets [of F now st] by simp_all
    with trace_synch open_socket_cong [of st' st] show ?case by simp
  next
    case (trace_round opened effs st resolved sent_at got_at set_at io old pack st' es)
    then show ?case using ntp_round_sockets [OF trace_round.hyps(2)] by simp
  qed
  then show ?thesis by (auto simp: destroy_ntp_def open_socket_def split: if_splits)
qed

text \<open>Socket 5 is closed after a failed \<open>sendto\<close>, socket 6 by \<open>SetHost\<close>, socket 7 by the destructor.\<close>

definition lost_io :: "bool \<Rightarrow> ntp_io" where
  "lost_io sent = \<lparr>io_sent = sent, io_ready = False, io_datagram = None\<rparr>"

theorem ntp_sockets_closed_once_witness:
  "\<exists>st effs. ntp_trace exact_conv [5, 6, 7] effs st \<and> closed_sockets (effs @ destroy_ntp st) = [5, 6, 7]"
proof -
  let ?st0 = "new_ntp_client exact_conv (replicate 384 0) ''h'' 123 5"
  have lost: "\<exists>st' es. ntp_round exact_conv k (0, 0) (0, 0) (0, 0) (lost_io sent) blank_packet st = Inr (blank_packet, st', es) \<and>
      nt_sock st' = (if sent then k else -1)" if "nt_sock st < 0" "0 \<le> k" for k sent and st :: "rat ntp_client"
    using that by (auto simp: ntp_round_def get_time_def lost_io_def Let_def)
  have neg: "nt_sock ?st0 < 0" by (simp add: new_ntp_client_def)
  from lost [OF neg, of 5 False] obtain st1 e1 where
    r1: "ntp_round exact_conv 5 (0, 0) (0, 0) (0, 0) (lost_io False) blank_packet ?st0 = Inr (blank_packet, st1, e1)"
    and s1: "nt_sock st1 < 0" by auto
  from trace_round [OF trace_new r1] neg have t1: "ntp_trace exact_conv [5] e1 st1"
    by (simp add: round_opens_def)
  from lost [OF s1, of 6 True] obtain st2 e2 where
    r2: "ntp_round exact_conv 6 (0, 0) (0, 0) (0, 0) (lost_io True) blank_packet st1 = Inr (blank_packet, st2, e2)"
    and s2: "nt_sock st2 = 6" by auto
  from trace_round [OF t1 r2] s1 have t2: "ntp_trace exact_conv [5, 6] (e1 @ e2) st2"
    by (simp add: round_opens_def)
  obtain st3 e3 where h: "SetHost ''ntp'' 123 st2 = (st3, e3)" and s3: "nt_sock st3 < 0"
    using s2 by (simp add: SetHost_def Let_def)
  note t3 = trace_host [OF t2 h]
  from lost [OF s3, of 7 True] obtain st4 e4 where
    r4: "ntp_round exact_conv 7 (0, 0) (0, 0) (0, 0) (lost_io True) blank_packet st3 = Inr (blank_packet, st4, e4)"
    by auto
  from trace_round [OF t3 r4] s3 have t4: "ntp_trace exact_conv [5, 6, 7] (((e1 @ e2) @ e3) @ e4) st4"
    by (simp add: round_opens_def)
  from ntp_sockets_closed_once [OF this] t4 show ?thesis by blast
qed

end
