(* ===== verification/GLog.thy ===== *)
theory GLog
  imports CMemory
begin

text \<open>
  The log (GLog.h, GLog.cpp): one file per day, opened on the first line of the day. The clock, the
  state of the directory, the outcome of \<open>fopen\<close>, the formatted text of a line (\<open>vfprintf\<close>) and Boost's
  renderings of date and time are arguments; the output appears as a list of effects.
\<close>

section \<open>State\<close>

datatype log_file = Std_out | Std_err | Log_path string

record glog =
  gl_day :: int
  gl_fd :: "log_file option"

datatype glog_effect =
    Gl_print log_file string
  | Gl_close log_file
  | Gl_mkdir string
  | Gl_open string

datatype LOG_TYPE = LOG_NORMAL | LOG_WARN | LOG_FAULT

text \<open>A local time: year, month and day, and the time of day as Boost renders it.\<close>

record ptime =
  pt_date :: "int \<times> int \<times> int"
  pt_time :: string

text \<open>What the calls of the file system return while a file is being opened.\<close>

record log_env =
  le_iso :: "int \<times> int \<times> int \<Rightarrow> string"   \<comment> \<open>\<open>to_iso_string\<close> of a date\<close>
  le_exists :: bool                      \<comment> \<open>\<open>access(gLogDir, F_OK)\<close> succeeds\<close>
  le_writable :: bool                    \<comment> \<open>\<open>access(gLogDir, W_OK | X_OK)\<close> succeeds\<close>
  le_fopen :: bool                       \<comment> \<open>\<open>fopen\<close> does not return a null pointer\<close>

definition gLogDir :: string where "gLogDir = ''/var/log/camannex''"
definition gLogPrefix :: string where "gLogPrefix = ''camannex_''"

definition new_glog :: "log_file option \<Rightarrow> glog" where
  "new_glog out = \<lparr>gl_day = -1, gl_fd = out\<rparr>"

definition destroy_glog :: "glog \<Rightarrow> glog_effect list" where
  "destroy_glog st =
     (case gl_fd st of
        Some (Log_path p) \<Rightarrow> [Gl_close (Log_path p)]
      | _ \<Rightarrow> [])"

section \<open>Operations\<close>

definition day_of :: "ptime \<Rightarrow> int" where
  "day_of t = snd (snd (pt_date t))"

definition log_name :: "log_env \<Rightarrow> int \<times> int \<times> int \<Rightarrow> string" where
  "log_name e d = gLogDir @ ''/'' @ gLogPrefix @ le_iso e d @ ''.log''"

text \<open>The part of \<open>valid_file\<close> that leaves yesterday's file.\<close>

definition change_day :: "ptime \<Rightarrow> glog \<Rightarrow> glog \<times> glog_effect list" where
  "change_day t st =
     (if gl_day st \<noteq> day_of t
      then case gl_fd st of
             None \<Rightarrow> (st\<lparr>gl_day := day_of t\<rparr>, [])
           | Some f \<Rightarrow> (st\<lparr>gl_day := day_of t, gl_fd := None\<rparr>,
               [Gl_print f (replicate 69 (CHR ''>'') @ '' continue'' @ [CHR 0x0A]), Gl_close f])
      else (st, []))"

text \<open>The part that opens a file: the result of \<open>fopen\<close> is used without a test.\<close>

definition open_file :: "log_env \<Rightarrow> ptime \<Rightarrow> glog \<Rightarrow> (glog \<times> glog_effect list) outcome" where
  "open_file e t st =
     (let made = (if le_exists e then [] else [Gl_mkdir gLogDir])
      in if le_writable e
         then let path = log_name e (pt_date t)
           in if le_fopen e
              then Inr (st\<lparr>gl_fd := Some (Log_path path)\<rparr>,
                     made @ [Gl_open path, Gl_print (Log_path path) (replicate 79 (CHR ''-'') @ [CHR 0x0A])])
              else Inl Null_pointer
         else Inr (st, made))"

definition valid_file :: "log_env \<Rightarrow> ptime \<Rightarrow> glog \<Rightarrow> (bool \<times> glog \<times> glog_effect list) outcome" where
  "valid_file e t st =
     (if gl_fd st = Some Std_out \<or> gl_fd st = Some Std_err then Inr (True, st, [])
      else case change_day t st of
             (st1, effs1) \<Rightarrow>
               and_then (if gl_fd st1 = None then open_file e t st1 else Inr (st1, []))
                 (\<lambda>(st2, effs2). Inr (gl_fd st2 \<noteq> None, st2, effs1 @ effs2)))"

definition log_label :: "LOG_TYPE \<Rightarrow> string" where
  "log_label ty = (case ty of LOG_NORMAL \<Rightarrow> [] | LOG_WARN \<Rightarrow> ''WARN: '' | LOG_FAULT \<Rightarrow> ''ERROR: '')"

text \<open>\<open>body\<close> is the formatted message; \<open>None\<close> stands for a null format.\<close>

definition gl_Write :: "log_env \<Rightarrow> ptime \<Rightarrow> string option \<Rightarrow> glog \<Rightarrow> (glog \<times> glog_effect list) outcome" where
  "gl_Write e t body st =
     (case body of
        None \<Rightarrow> Inr (st, [])
      | Some s \<Rightarrow>
          and_then (valid_file e t st)
            (\<lambda>(ok, st1, effs).
               Inr (st1, if ok then effs @ [Gl_print (the (gl_fd st1)) (pt_time t @ '' >> ''),
                       Gl_print (the (gl_fd st1)) s, Gl_print (the (gl_fd st1)) [CHR 0x0A]] else effs)))"

definition gl_Write_typed ::
  "log_env \<Rightarrow> ptime \<Rightarrow> LOG_TYPE \<Rightarrow> string option \<Rightarrow> string option \<Rightarrow> glog \<Rightarrow> (glog \<times> glog_effect list) outcome" where
  "gl_Write_typed e t ty whr body st =
     (case body of
        None \<Rightarrow> Inr (st, [])
      | Some s \<Rightarrow>
          and_then (valid_file e t st)
            (\<lambda>(ok, st1, effs).
               Inr (st1, if ok
                 then effs @ map (Gl_print (the (gl_fd st1)))
                   ([pt_time t @ '' >> ''] @ (if log_label ty = [] then [] else [log_label ty])
                     @ (case whr of None \<Rightarrow> [] | Some w \<Rightarrow> [w @ '', '']) @ [s, [CHR 0x0A]])
                 else effs)))"

section \<open>What the files contain\<close>

text \<open>The text that a list of effects appends to a file.\<close>

fun printed :: "log_file \<Rightarrow> glog_effect list \<Rightarrow> string" where
  "printed f [] = []"
| "printed f (Gl_print g s # es) = (if f = g then s @ printed f es else printed f es)"
| "printed f (_ # es) = printed f es"

lemma printed_append [simp]: "printed f (xs @ ys) = printed f xs @ printed f ys"
  by (induction f xs rule: printed.induct) auto

text \<open>The open file is that of a date \<open>d\<close>, and the stored day is the day of \<open>d\<close>.\<close>

definition logs_for :: "log_env \<Rightarrow> int \<times> int \<times> int \<Rightarrow> glog \<Rightarrow> bool" where
  "logs_for e d st \<longleftrightarrow> gl_day st = snd (snd d) \<and> gl_fd st = Some (Log_path (log_name e d))"

definition log_line :: "ptime \<Rightarrow> LOG_TYPE \<Rightarrow> string option \<Rightarrow> string \<Rightarrow> string" where
  "log_line t ty whr s =
     pt_time t @ '' >> '' @ log_label ty @ (case whr of None \<Rightarrow> [] | Some w \<Rightarrow> w @ '', '') @ s @ [CHR 0x0A]"

lemma valid_file_same_day:
  assumes "logs_for e d st" and "day_of t = snd (snd d)"
  shows "valid_file e t st = Inr (True, st, [])"
  using assms by (simp add: valid_file_def logs_for_def change_day_def)

lemma valid_file_new_day:
  assumes "st = new_glog None \<or> (\<exists>d. logs_for e d st \<and> snd (snd d) \<noteq> day_of t)" and "day_of t \<noteq> -1"
    and "le_writable e" and "le_fopen e"
  shows "\<exists>st' effs. valid_file e t st = Inr (True, st', effs) \<and> logs_for e (pt_date t) st' \<and>
    (\<forall>g. g \<noteq> Log_path (log_name e (pt_date t)) \<and> gl_fd st \<noteq> Some g \<longrightarrow> printed g effs = [])"
  using assms
  by (auto simp: valid_file_def new_glog_def logs_for_def change_day_def open_file_def Let_def day_of_def)

lemma printed_line:
  "printed f (map (Gl_print f) ss) = concat ss"
  by (induction ss) auto

text \<open>
  After a month without a line the day of the month is the same again, and the line goes to the old
  file.
\<close>

lemma valid_file_month_gap:
  assumes "logs_for e (y, m, d) st" and "pt_date t = (y', m', d)"
  shows "valid_file e t st = Inr (True, st, [])"
  using assms by (intro valid_file_same_day [OF assms(1)]) (simp add: day_of_def)

text \<open>A failing \<open>fopen\<close> is not noticed before the first use of the file.\<close>

lemma valid_file_null:
  assumes "gl_fd st = None" and "le_writable e" and "\<not> le_fopen e"
  shows "valid_file e t st = Inl Null_pointer"
  using assms by (auto simp: valid_file_def change_day_def open_file_def Let_def)

text \<open>
  A line goes to the file of its day: written while no file is open yet, or while the open file
  belongs to the same date or to a date with another day of the month, it is appended as one line (time,
  label of the type, place and text) to the file named after its date, which stays open.
\<close>

theorem log_line_in_daily_file:
  assumes "le_writable e" and "le_fopen e" and "day_of t \<noteq> -1"
    and "st = new_glog None \<or> (\<exists>d. logs_for e d st \<and> (snd (snd d) = day_of t \<longrightarrow> d = pt_date t))"
  shows "\<exists>st' effs rest. gl_Write_typed e t ty whr (Some s) st = Inr (st', effs) \<and> logs_for e (pt_date t) st' \<and>
    printed (Log_path (log_name e (pt_date t))) effs = rest @ log_line t ty whr s \<and>
    (\<forall>g. g \<noteq> Log_path (log_name e (pt_date t)) \<and> gl_fd st \<noteq> Some g \<longrightarrow> printed g effs = [])"
proof -
  let ?f = "Log_path (log_name e (pt_date t))"
  obtain st' effs where v: "valid_file e t st = Inr (True, st', effs)" "logs_for e (pt_date t) st'"
    "\<forall>g. g \<noteq> ?f \<and> gl_fd st \<noteq> Some g \<longrightarrow> printed g effs = []"
  proof (cases "logs_for e (pt_date t) st")
    case True
    then show thesis using that valid_file_same_day [OF True] by (auto simp: day_of_def)
  next
    case False
    with assms(4) have "st = new_glog None \<or> (\<exists>d. logs_for e d st \<and> snd (snd d) \<noteq> day_of t)" by auto
    from valid_file_new_day [OF this assms(3,1,2)] show thesis using that by blast
  qed
  define ss where "ss = [pt_time t @ '' >> ''] @ (if log_label ty = [] then [] else [log_label ty])
      @ (case whr of None \<Rightarrow> [] | Some w \<Rightarrow> [w @ '', '']) @ [s, [CHR 0x0A]]"
  have ss: "concat ss = log_line t ty whr s"
    by (auto simp: ss_def log_line_def split: option.split)
  have "gl_Write_typed e t ty whr (Some s) st = Inr (st', effs @ map (Gl_print ?f) ss)"
    using v by (simp add: gl_Write_typed_def ss_def logs_for_def)
  moreover have "printed g (map (Gl_print ?f) ss) = []" if "g \<noteq> ?f" for g
    using that by (induction ss) auto
  ultimately show ?thesis
    using v by (intro exI [of _ st'] exI [of _ "effs @ map (Gl_print ?f) ss"] exI [of _ "printed ?f effs"])
      (auto simp: printed_line ss)
qed

definition sample_log_env :: log_env where
  "sample_log_env = \<lparr>le_iso = (\<lambda>(y, m, d). show_nat (nat (y * 10000 + m * 100 + d))), le_exists = True,
     le_writable = True, le_fopen = True\<rparr>"

theorem log_line_in_daily_file_witness:
  "\<exists>st' effs rest. gl_Write_typed sample_log_env \<lparr>pt_date = (2017, 10, 15), pt_time = ''12:00:00''\<rparr> LOG_WARN None
      (Some ''down'') (new_glog None) = Inr (st', effs) \<and> logs_for sample_log_env (2017, 10, 15) st' \<and>
    printed (Log_path (log_name sample_log_env (2017, 10, 15))) effs = rest @ ''12:00:00 >> WARN: down'' @ [CHR 0x0A]"
  using log_line_in_daily_file [of sample_log_env "\<lparr>pt_date = (2017, 10, 15), pt_time = ''12:00:00''\<rparr>"
      "new_glog None" LOG_WARN None "''down''"]
  by (auto simp: sample_log_env_def day_of_def log_line_def log_label_def)

end
