(* ===== verification/Daemon.thy ===== *)
theory Daemon
  imports CMemory AnnexControl GLog
begin

text \<open>
  The process (daemon.cpp, IOServiceKeep.cpp, camannex.cpp): the change into a background process, the
  lock file that keeps a second instance away, and the main program. The operating system is explicit:
  the descriptors of the process and what they refer to, with \<open>open\<close> taking the lowest free one, and
  the outcomes of the calls that may fail.
\<close>

section \<open>Descriptors\<close>

type_synonym fd_table = "nat \<rightharpoonup> string"

text \<open>The lowest descriptor that is free among the first \<open>n\<close>, or \<open>n\<close>.\<close>

fun lowest_free :: "fd_table \<Rightarrow> nat \<Rightarrow> nat \<Rightarrow> nat" where
  "lowest_free T i 0 = i"
| "lowest_free T i (Suc n) = (if T i = None then i else lowest_free T (i + 1) n)"

text \<open>The number of descriptors a process may have.\<close>

definition OPEN_MAX :: nat where "OPEN_MAX = 1024"

definition sys_open :: "bool \<Rightarrow> string \<Rightarrow> fd_table \<Rightarrow> nat option \<times> fd_table" where
  "sys_open ok path T =
     (let fd = lowest_free T 0 OPEN_MAX
      in if ok \<and> fd < OPEN_MAX then (Some fd, T(fd \<mapsto> path)) else (None, T))"

section \<open>The lock file\<close>

record pid_env =
  pe_open :: bool
  pe_lock :: bool        \<comment> \<open>\<open>F_SETLK\<close> gets the write lock\<close>
  pe_truncate :: bool
  pe_write :: nat        \<comment> \<open>characters that \<open>write\<close> takes\<close>
  pe_getfd :: bool
  pe_setfd :: bool
  pe_pid :: int

datatype proc_effect =
    Pr_written nat string        \<comment> \<open>descriptor and text\<close>
  | Pr_cloexec nat
  | Pr_syslog string
  | Pr_notify string
  | Pr_setsid
  | Pr_chdir string
  | Pr_umask int

definition isProcSingleton :: "pid_env \<Rightarrow> string \<Rightarrow> fd_table \<Rightarrow> (bool \<times> fd_table \<times> proc_effect list) outcome" where
  "isProcSingleton e pidfile T =
     (case sys_open (pe_open e) pidfile T of
        (None, T') \<Rightarrow> Inr (False, T', [])
      | (Some fd, T') \<Rightarrow>
          if \<not> pe_lock e \<or> \<not> pe_truncate e then Inr (False, T', [])
          else and_then (sprintf_into 20 (show_int (pe_pid e) @ [CHR 0x0A]))
            (\<lambda>buff.
               let out = [Pr_written fd (take (pe_write e) buff)]
               in if pe_write e \<noteq> length buff then Inr (False, T', out)
                  else if \<not> pe_getfd e then Inr (False, T', out)
                  else if \<not> pe_setfd e then Inr (False, T', out)
                  else Inr (True, T', out @ [Pr_cloexec fd])))"

section \<open>The background process\<close>

text \<open>What \<open>fork\<close> returns in the process under consideration.\<close>

datatype fork_result = In_parent | In_child | Fork_failed

text \<open>The process ends with a code, or the function returns.\<close>

datatype daemon_result = Exits int | Returns bool

definition MakeItDaemon ::
  "fork_result \<Rightarrow> fork_result \<Rightarrow> bool \<Rightarrow> fd_table \<Rightarrow> daemon_result \<times> fd_table \<times> proc_effect list" where
  "MakeItDaemon fork1 fork2 null_ok T =
     (case fork1 of
        In_parent \<Rightarrow> (Exits 0, T, [Pr_notify ''fork_prepare''])
      | Fork_failed \<Rightarrow> (Returns False, T, [Pr_notify ''fork_prepare'', Pr_syslog ''First fork failed: %m''])
      | In_child \<Rightarrow>
          let session = [Pr_notify ''fork_prepare'', Pr_setsid, Pr_chdir ''/'', Pr_umask 0]
          in case fork2 of
               In_parent \<Rightarrow> (Exits 0, T, session)
             | Fork_failed \<Rightarrow> (Returns False, T, session @ [Pr_syslog ''Second fork failed: %m''])
             | In_child \<Rightarrow>
                 let T1 = T(0 := None, 1 := None, 2 := None)
                 in case sys_open null_ok ''/dev/null'' T1 of
                      (None, T2) \<Rightarrow> (Returns False, T2, session @ [Pr_syslog ''Unable to open /dev/null: %m''])
                    | (Some fd, T2) \<Rightarrow> (Returns True, T2, session @ [Pr_notify ''fork_child'']))"

section \<open>The service object that keeps running\<close>

record io_keep =
  ik_work :: bool       \<comment> \<open>\<open>work_\<close> holds an object\<close>
  ik_stopped :: bool
  ik_thread :: bool

definition new_io_keep :: io_keep where
  "new_io_keep = \<lparr>ik_work = True, ik_stopped = False, ik_thread = True\<rparr>"

text \<open>\<open>run\<close> returns when the service is stopped or when neither work nor a pending operation is left.\<close>

definition run_returns :: "nat \<Rightarrow> io_keep \<Rightarrow> bool" where
  "run_returns pending k \<longleftrightarrow> ik_stopped k \<or> (\<not> ik_work k \<and> pending = 0)"

definition destroy_io_keep :: "io_keep \<Rightarrow> io_keep" where
  "destroy_io_keep k =
     (let k1 = k\<lparr>ik_work := False\<rparr>; k2 = k1\<lparr>ik_stopped := True\<rparr> in k2\<lparr>ik_thread := False\<rparr>)"

lemma io_keep_lives: "\<not> run_returns pending new_io_keep" "run_returns pending (destroy_io_keep k)"
  by (simp_all add: run_returns_def new_io_keep_def destroy_io_keep_def Let_def)

section \<open>The main program\<close>

definition gPIDPath :: string where "gPIDPath = ''/var/run/camannex.pid''"
definition DAEMON_NAME :: string where "DAEMON_NAME = ''camannex''"
definition DAEMON_VERSION :: string where "DAEMON_VERSION = ''v0.1 @ Oct, 2017''"
definition DAEMON_AUTHORITY :: string where
  "DAEMON_AUTHORITY = [CHR 0xC2, CHR 0xA9] @ '' SVOM Group, NAOC''"

datatype main_effect =
    Mn_config "cfg_entry list"      \<comment> \<open>the file \<open>camannex.xml\<close>\<close>
  | Mn_usage
  | Mn_log LOG_TYPE string
  | Mn_service ac_effect
  | Mn_run                          \<comment> \<open>the main loop until a signal stops it\<close>

text \<open>
  The result is the exit code. \<open>args\<close> are the arguments after the program's name, \<open>back\<close> the outcome of
  \<open>MakeItDaemon\<close>, \<open>single\<close> that of \<open>isProcSingleton\<close>, \<open>service\<close> what \<open>StartService\<close> returns.
\<close>

definition camannex_main ::
  "boost_str \<Rightarrow> string \<Rightarrow> int \<Rightarrow> string list \<Rightarrow> daemon_result \<Rightarrow> bool \<Rightarrow> bool \<times> ac_effect list
     \<Rightarrow> int \<times> main_effect list" where
  "camannex_main S now junk args back single service =
     (case args of
        a # _ \<Rightarrow>
          (0, if a = ''-d'' then [Mn_config (snd (InitFile S now junk))] else [Mn_usage])
      | [] \<Rightarrow>
          (case back of
             Exits code \<Rightarrow> (code, [])
           | Returns ok \<Rightarrow>
               if \<not> ok then (1, [])
               else if \<not> single
               then (2, [Mn_log LOG_NORMAL (DAEMON_NAME @ '' is already running or failed to access PID file'')])
               else (0,
                 [Mn_log LOG_NORMAL (''Try to launch '' @ DAEMON_NAME @ '' '' @ DAEMON_VERSION @ '' ''
                    @ DAEMON_AUTHORITY @ '' as daemon'')] @ map Mn_service (snd service) @
                 (if fst service then [Mn_log LOG_NORMAL ''Daemon goes running'', Mn_run]
                  else [Mn_log LOG_FAULT (''Fail to launch '' @ DAEMON_NAME)]) @
                 [Mn_log LOG_NORMAL ''Daemon stopped''])))"

section \<open>Properties\<close>

lemma lowest_free_step:
  "0 < n \<Longrightarrow> lowest_free T i n = (if T i = None then i else lowest_free T (i + 1) (n - 1))"
  by (cases n) auto

text \<open>
  The background process starts with the standard descriptors closed except for 0, which is
  \<open>/dev/null\<close>, so that the lock file gets descriptor 1: what the program prints to its standard output
  afterwards goes into the lock file.
\<close>

theorem lock_file_is_standard_output:
  assumes "MakeItDaemon fork1 fork2 null_ok T = (Returns True, T1, effs)"
    and "isProcSingleton e pidfile T1 = Inr (True, T2, effs')"
  shows "T2 0 = Some ''/dev/null'' \<and> T2 1 = Some pidfile \<and> T2 2 = None \<and>
    effs' = [Pr_written 1 (show_int (pe_pid e) @ [CHR 0x0A]), Pr_cloexec 1]"
proof -
  have "lowest_free (T(0 := None, 1 := None, 2 := None)) 0 OPEN_MAX = 0"
    by (simp add: OPEN_MAX_def lowest_free_step)
  with assms(1) have T1: "T1 = T(0 \<mapsto> ''/dev/null'', 1 := None, 2 := None)"
    by (auto simp: MakeItDaemon_def sys_open_def OPEN_MAX_def Let_def split: fork_result.splits if_splits)
  have "lowest_free T1 0 OPEN_MAX = 1"
    by (simp add: OPEN_MAX_def lowest_free_step T1)
  with assms(2) T1 show ?thesis
    by (auto simp: isProcSingleton_def sys_open_def OPEN_MAX_def Let_def and_then_Inr_iff sprintf_into_def
        split: if_splits)
qed

definition sample_fds :: fd_table where
  "sample_fds = [0 \<mapsto> ''tty'', 1 \<mapsto> ''tty'', 2 \<mapsto> ''tty'', 3 \<mapsto> ''epoll'']"

definition sample_pid :: pid_env where
  "sample_pid = \<lparr>pe_open = True, pe_lock = True, pe_truncate = True, pe_write = 5, pe_getfd = True,
     pe_setfd = True, pe_pid = 4711\<rparr>"

theorem lock_file_is_standard_output_witness:
  "\<exists>T1 T2 effs effs'. MakeItDaemon In_child In_child True sample_fds = (Returns True, T1, effs) \<and>
    isProcSingleton sample_pid gPIDPath T1 = Inr (True, T2, effs') \<and> T2 1 = Some gPIDPath \<and> T2 2 = None"
proof -
  have len: "length (show_int 4711) = 4" by (simp add: show_int_def show_nat.simps)
  let ?T1 = "sample_fds(0 \<mapsto> ''/dev/null'', 1 := None, 2 := None)"
  have a: "MakeItDaemon In_child In_child True sample_fds = (Returns True, ?T1,
      [Pr_notify ''fork_prepare'', Pr_setsid, Pr_chdir ''/'', Pr_umask 0, Pr_notify ''fork_child''])"
    by (simp add: MakeItDaemon_def sys_open_def OPEN_MAX_def lowest_free_step Let_def fun_upd_twist)
  have b: "\<exists>T2 effs'. isProcSingleton sample_pid gPIDPath ?T1 = Inr (True, T2, effs')"
    by (simp add: isProcSingleton_def sys_open_def OPEN_MAX_def lowest_free_step sample_pid_def len Let_def)
  then obtain T2 effs' where b: "isProcSingleton sample_pid gPIDPath ?T1 = Inr (True, T2, effs')" by blast
  from lock_file_is_standard_output [OF a b] a b show ?thesis by blast
qed

end
