(* ===== verification/KSelect.thy ===== *)
theory KSelect
  imports Prelude "HOL-Library.Multiset"
begin

text \<open>
  The selection algorithm \<open>k_select\<close> of AMath.h. The array is a list that is read and written by
  index; an access outside the list makes the result \<open>None\<close>. The element type is only compared,
  so the definitions ask for an \<open>ord\<close> and the correctness proof for a \<open>linorder\<close>.
\<close>

section \<open>The algorithm\<close>

definition swap :: "'a list \<Rightarrow> nat \<Rightarrow> nat \<Rightarrow> 'a list" where
  "swap xs i j = xs[i := xs ! j, j := xs ! i]"

text \<open>\<open>while (array[++i] < a);\<close> and \<open>while (array[--j] > a);\<close>\<close>

function scan_up :: "'a::ord list \<Rightarrow> 'a \<Rightarrow> nat \<Rightarrow> nat option" where
  "scan_up xs a i =
     (if length xs \<le> i + 1 then None
      else if xs ! (i + 1) < a then scan_up xs a (i + 1) else Some (i + 1))"
  by pat_completeness auto
termination by (relation "measure (\<lambda>(xs, a, i). length xs - i)") auto

declare scan_up.simps [simp del]

fun scan_down :: "'a::ord list \<Rightarrow> 'a \<Rightarrow> nat \<Rightarrow> nat option" where
  "scan_down xs a 0 = None"
| "scan_down xs a (Suc j) =
     (if length xs \<le> j then None else if a < xs ! j then scan_down xs a j else Some j)"

lemma scan_up_greater: "scan_up xs a i = Some i' \<Longrightarrow> i < i'"
proof (induction xs a i rule: scan_up.induct)
  case (1 xs a i)
  then show ?case by (subst (asm) (2) scan_up.simps) (auto split: if_splits)
qed

lemma scan_down_less: "scan_down xs a j = Some j' \<Longrightarrow> j' < j"
  by (induction xs a j rule: scan_down.induct) (auto split: if_splits)

text \<open>The loop that exchanges elements on the wrong sides, with its final indices.\<close>

function part_loop :: "'a::ord list \<Rightarrow> 'a \<Rightarrow> nat \<Rightarrow> nat \<Rightarrow> ('a list \<times> nat \<times> nat) option" where
  "part_loop xs a i j =
     (case scan_up xs a i of
        None \<Rightarrow> None
      | Some i' \<Rightarrow>
          (case scan_down xs a j of
             None \<Rightarrow> None
           | Some j' \<Rightarrow>
               if j' \<le> i' then Some (xs, i', j') else part_loop (swap xs i' j') a i' j'))"
  by pat_completeness auto
termination
  by (relation "measure (\<lambda>(xs, a, i, j). j - i)")
    (auto dest!: scan_up_greater scan_down_less)

declare part_loop.simps [simp del]

lemma part_loop_bounds: "part_loop xs a i j = Some (ys, i', j') \<Longrightarrow> i < i' \<and> j' < j"
proof (induction xs a i j rule: part_loop.induct)
  case (1 xs a i j)
  from 1(2) obtain p q where up: "scan_up xs a i = Some p" and down: "scan_down xs a j = Some q"
    by (subst (asm) part_loop.simps) (auto split: option.splits)
  then have pq: "i < p" "q < j" by (auto dest: scan_up_greater scan_down_less)
  show ?case
  proof (cases "q \<le> p")
    case True
    with 1(2) pq up down show ?thesis by (subst (asm) part_loop.simps) simp
  next
    case False
    with 1(2) up down have "part_loop (swap xs p q) a p q = Some (ys, i', j')"
      by (subst (asm) part_loop.simps) simp
    from 1(1) [OF up down False this] pq show ?thesis by simp
  qed
qed

text \<open>The three conditional exchanges that put the median of three in place.\<close>

definition order_pair :: "'a::ord list \<Rightarrow> nat \<Rightarrow> nat \<Rightarrow> 'a list" where
  "order_pair xs i j = (if xs ! j < xs ! i then swap xs i j else xs)"

definition median3 :: "'a::ord list \<Rightarrow> nat \<Rightarrow> nat \<Rightarrow> 'a list" where
  "median3 xs l ir =
     order_pair (order_pair (order_pair (swap xs ((l + ir) div 2) (l + 1)) l ir) (l + 1) ir) l (l + 1)"

function select_loop :: "'a::ord list \<Rightarrow> nat \<Rightarrow> nat \<Rightarrow> nat \<Rightarrow> 'a list option" where
  "select_loop xs k l ir =
     (if length xs \<le> ir then None
      else if ir \<le> l + 1
      then Some (if ir = l + 1 then order_pair xs l ir else xs)
      else let ys = median3 xs l ir; a = ys ! (l + 1)
        in case part_loop ys a (l + 1) ir of
             None \<Rightarrow> None
           | Some (zs, i, j) \<Rightarrow>
               select_loop (zs[l + 1 := zs ! j, j := a]) k
                 (if j \<le> k then i else l) (if k \<le> j then j - 1 else ir))"
  by pat_completeness auto
termination
proof (relation "measure (\<lambda>(xs, k, l, ir). ir - l)", goal_cases)
  case 1
  show ?case by simp
next
  case (2 xs k l ir ys a r p zs i j)
  then have "l + 1 < i \<and> j < ir" by (auto dest: part_loop_bounds)
  with 2 show ?case by auto
qed

declare select_loop.simps [simp del]

text \<open>\<open>minus_one\<close> is \<open>(DType) -1\<close>; the second component is the array afterwards.\<close>

definition k_select :: "'a::ord \<Rightarrow> 'a list \<Rightarrow> int \<Rightarrow> int \<Rightarrow> ('a \<times> 'a list) option" where
  "k_select minus_one xs n k =
     (if k < 0 \<or> n \<le> k then Some (minus_one, xs)
      else case select_loop xs (nat k) 0 (nat (n - 1)) of
             None \<Rightarrow> None
           | Some ys \<Rightarrow> Some (ys ! nat k, ys))"

section \<open>Exchanges\<close>

lemma length_swap [simp]: "length (swap xs i j) = length xs"
  by (simp add: swap_def)

lemma mset_swap_id: "i < length xs \<Longrightarrow> j < length xs \<Longrightarrow> mset (swap xs i j) = mset xs"
  by (simp add: swap_def mset_swap)

lemma nth_swap: "i < length xs \<Longrightarrow> j < length xs \<Longrightarrow> p < length xs \<Longrightarrow>
    swap xs i j ! p = (if p = j then xs ! i else if p = i then xs ! j else xs ! p)"
  by (simp add: swap_def nth_list_update)

lemma length_order_pair [simp]: "length (order_pair xs i j) = length xs"
  by (simp add: order_pair_def)

lemma mset_order_pair: "i < length xs \<Longrightarrow> j < length xs \<Longrightarrow> mset (order_pair xs i j) = mset xs"
  by (simp add: order_pair_def mset_swap_id)

lemma nth_order_pair:
  fixes xs :: "'a::linorder list"
  shows "i < length xs \<Longrightarrow> j < length xs \<Longrightarrow> i \<noteq> j \<Longrightarrow> p < length xs \<Longrightarrow>
    order_pair xs i j ! p =
      (if p = i then min (xs ! i) (xs ! j) else if p = j then max (xs ! i) (xs ! j) else xs ! p)"
  by (auto simp: order_pair_def nth_swap min_def max_def)

section \<open>The scans\<close>

lemma scan_up_spec:
  fixes xs :: "'a::linorder list"
  assumes "i < s" and "s < length xs" and "a \<le> xs ! s"
  shows "\<exists>i'. scan_up xs a i = Some i' \<and> i < i' \<and> i' \<le> s \<and> a \<le> xs ! i' \<and> (\<forall>p. i < p \<longrightarrow> p < i' \<longrightarrow> xs ! p < a)"
  using assms
proof (induction xs a i rule: scan_up.induct)
  case (1 xs a i)
  show ?case
  proof (cases "xs ! (i + 1) < a")
    case True
    with 1(2-4) have "i + 1 < s" by (cases "i + 1 = s") auto
    with 1 True obtain i' where i': "scan_up xs a (i + 1) = Some i'" "i + 1 < i'" "i' \<le> s" "a \<le> xs ! i'"
      "\<forall>p. i + 1 < p \<longrightarrow> p < i' \<longrightarrow> xs ! p < a" by auto
    have "xs ! p < a" if "i < p" "p < i'" for p
      using i'(5) True that by (cases "p = i + 1") auto
    with 1(2-4) True i' show ?thesis by (subst scan_up.simps) auto
  next
    case False
    with 1(2-4) show ?thesis by (subst scan_up.simps) auto
  qed
qed

lemma scan_down_spec:
  fixes xs :: "'a::linorder list"
  assumes "s < j" and "j \<le> length xs" and "xs ! s \<le> a"
  shows "\<exists>j'. scan_down xs a j = Some j' \<and> s \<le> j' \<and> j' < j \<and> xs ! j' \<le> a \<and> (\<forall>p. j' < p \<longrightarrow> p < j \<longrightarrow> a < xs ! p)"
  using assms
proof (induction xs a j rule: scan_down.induct)
  case (1 xs a)
  then show ?case by simp
next
  case (2 xs a j)
  show ?case
  proof (cases "a < xs ! j")
    case True
    with 2(2-4) have "s < j" by (cases "s = j") auto
    with 2 True obtain j' where j': "scan_down xs a j = Some j'" "s \<le> j'" "j' < j" "xs ! j' \<le> a"
      "\<forall>p. j' < p \<longrightarrow> p < j \<longrightarrow> a < xs ! p" by auto
    have "a < xs ! p" if "j' < p" "p < Suc j" for p
      using j'(5) True that by (cases "p = j") auto
    with 2(2-4) True j' show ?thesis by auto
  next
    case False
    with 2(2-4) show ?thesis by auto
  qed
qed

section \<open>The partition\<close>

text \<open>Everything in a range of positions is at most, or at least, a value.\<close>

definition below :: "'a::linorder list \<Rightarrow> nat \<Rightarrow> nat \<Rightarrow> 'a \<Rightarrow> bool" where
  "below xs l r a \<longleftrightarrow> (\<forall>p. l \<le> p \<longrightarrow> p < r \<longrightarrow> xs ! p \<le> a)"

definition above :: "'a::linorder list \<Rightarrow> nat \<Rightarrow> nat \<Rightarrow> 'a \<Rightarrow> bool" where
  "above xs l r a \<longleftrightarrow> (\<forall>p. l \<le> p \<longrightarrow> p < r \<longrightarrow> a \<le> xs ! p)"

lemma below_mono: "below xs l r a \<Longrightarrow> c \<le> r \<Longrightarrow> below xs l c a"
  by (simp add: below_def)

lemma above_mono: "above xs l r a \<Longrightarrow> l \<le> c \<Longrightarrow> above xs c r a"
  by (simp add: above_def)

text \<open>
  Started between two sentinels, the loop stays inside the array, keeps the elements and everything
  outside the range, and ends with adjacent or equal indices.
\<close>

lemma part_loop_spec:
  fixes xs :: "'a::linorder list"
  assumes "m \<le> i" and "i < j" and "j < r" and "r \<le> length xs"
    and "below xs m (i + 1) a" and "above xs j r a"
  shows "\<exists>ys i' j'. part_loop xs a i j = Some (ys, i', j') \<and> mset ys = mset xs \<and>
    i < i' \<and> i' \<le> j \<and> i \<le> j' \<and> j' < j \<and> j' \<le> i' \<and> i' \<le> j' + 1 \<and>
    below ys m i' a \<and> above ys (j' + 1) r a \<and> ys ! j' \<le> a \<and> a \<le> ys ! i' \<and>
    (\<forall>p<length xs. p \<le> i \<or> j \<le> p \<longrightarrow> ys ! p = xs ! p)"
  using assms
proof (induction xs a i j rule: part_loop.induct)
  case (1 xs a i j)
  note pre = 1(2-7)
  have "a \<le> xs ! j" "xs ! i \<le> a" using pre by (simp_all add: above_def below_def)
  with pre obtain p q where
    up: "scan_up xs a i = Some p" "i < p" "p \<le> j" "a \<le> xs ! p" "\<forall>s. i < s \<longrightarrow> s < p \<longrightarrow> xs ! s < a" and
    down: "scan_down xs a j = Some q" "i \<le> q" "q < j" "xs ! q \<le> a" "\<forall>s. q < s \<longrightarrow> s < j \<longrightarrow> a < xs ! s"
    using scan_up_spec [of i j xs a] scan_down_spec [of i j xs a] by auto
  have bel: "below xs m p a"
    unfolding below_def
  proof (intro allI impI)
    fix s assume "m \<le> s" "s < p"
    with pre(5) up(5) show "xs ! s \<le> a" by (cases "s \<le> i") (auto simp: below_def less_imp_le)
  qed
  have abv: "above xs (q + 1) r a"
    unfolding above_def
  proof (intro allI impI)
    fix s assume "q + 1 \<le> s" "s < r"
    with pre(6) down(5) show "a \<le> xs ! s" by (cases "j \<le> s") (auto simp: above_def less_imp_le)
  qed
  show ?case
  proof (cases "q \<le> p")
    case True
    have "p \<le> q + 1"
    proof (rule ccontr)
      assume "\<not> p \<le> q + 1"
      with up(5) down(2,5) up(3) have "xs ! (q + 1) < a" "a < xs ! (q + 1)" by auto
      then show False by simp
    qed
    with True up down bel abv show ?thesis by (subst part_loop.simps) auto
  next
    case False
    let ?ys = "swap xs p q"
    have in_range: "p < length xs" "q < length xs" using False down(3) pre(3,4) by simp_all
    have "below ?ys m (p + 1) a"
      using bel down(4) False in_range pre by (auto simp: below_def nth_swap less_Suc_eq)
    moreover have "above ?ys q r a"
      unfolding above_def
    proof (intro allI impI)
      fix s assume "q \<le> s" "s < r"
      then show "a \<le> ?ys ! s"
        using abv up(4) False in_range pre by (cases "s = q") (auto simp: above_def nth_swap)
    qed
    ultimately obtain ys i' j' where rec: "part_loop ?ys a p q = Some (ys, i', j')" "mset ys = mset ?ys"
      "p < i'" "i' \<le> q" "p \<le> j'" "j' < q" "j' \<le> i'" "i' \<le> j' + 1"
      "below ys m i' a" "above ys (j' + 1) r a" "ys ! j' \<le> a" "a \<le> ys ! i'"
      "\<forall>s<length xs. s \<le> p \<or> q \<le> s \<longrightarrow> ys ! s = ?ys ! s"
      using 1(1) [OF up(1) down(1) False] False up(2) down(3) pre by auto
    have "ys ! s = xs ! s" if "s < length xs" "s \<le> i \<or> j \<le> s" for s
      using rec(13) that False up(2) down(3) in_range by (auto simp: nth_swap)
    then show ?thesis
      using rec False up down in_range by (subst part_loop.simps) (auto simp: mset_swap_id)
  qed
qed

section \<open>The selection\<close>

lemma range_perm:
  assumes "mset ws = mset xs" and "r \<le> length xs" and "\<forall>p<length xs. p < l \<or> r \<le> p \<longrightarrow> ws ! p = xs ! p"
    and "l \<le> q" and "q < r"
  shows "\<exists>q'. l \<le> q' \<and> q' < r \<and> ws ! q = xs ! q'"
proof -
  have len: "length ws = length xs" using assms(1) by (rule mset_eq_length)
  have "r - l + l = r" using assms(4,5) by simp
  then have parts: "zs = take l zs @ slice l (r - l) zs @ drop r zs" for zs :: "'a list"
    using append_take_drop_id [of "r - l" "drop l zs"] by (simp add: slice_def)
  have "take l ws = take l xs" "drop r ws = drop r xs"
    using assms(2,3) len by (auto intro!: nth_equalityI)
  with arg_cong [OF parts [of ws], of mset] arg_cong [OF parts [of xs], of mset] assms(1)
  have "mset (slice l (r - l) ws) = mset (slice l (r - l) xs)"
    by simp
  then have "set (slice l (r - l) ws) = set (slice l (r - l) xs)" by (rule mset_eq_setD)
  moreover have "ws ! q \<in> set (slice l (r - l) ws)"
    using assms(2,4,5) len by (auto simp: in_set_conv_nth nth_slice intro!: exI [of _ "q - l"])
  ultimately obtain t where "t < r - l" "l + t < length xs" "ws ! q = slice l (r - l) xs ! t"
    by (auto simp: in_set_conv_nth)
  then show ?thesis by (intro exI [of _ "l + t"]) (simp add: nth_slice)
qed

text \<open>Every element left of a position is at most every element from it on.\<close>

definition split_at :: "'a::linorder list \<Rightarrow> nat \<Rightarrow> nat \<Rightarrow> bool" where
  "split_at xs c n \<longleftrightarrow> (\<forall>p q. p < c \<longrightarrow> c \<le> q \<longrightarrow> q < n \<longrightarrow> xs ! p \<le> xs ! q)"

definition in_place :: "'a::linorder list \<Rightarrow> nat \<Rightarrow> nat \<Rightarrow> bool" where
  "in_place xs k n \<longleftrightarrow> (\<forall>p<k. xs ! p \<le> xs ! k) \<and> (\<forall>q. k < q \<longrightarrow> q < n \<longrightarrow> xs ! k \<le> xs ! q)"

lemma split_at_outside:
  fixes xs :: "'a::linorder list"
  assumes "mset ws = mset xs" and "n \<le> length xs" and "r \<le> n" and "l \<le> r"
    and "\<forall>p<length xs. p < l \<or> r \<le> p \<longrightarrow> ws ! p = xs ! p" and "split_at xs l n" and "split_at xs r n"
  shows "split_at ws l n \<and> split_at ws r n"
proof -
  have from_range: "\<exists>q'. l \<le> q' \<and> q' < r \<and> ws ! q = xs ! q'" if "l \<le> q" "q < r" for q
    using range_perm [OF assms(1) _ assms(5) that] assms(2,3) by simp
  have "ws ! p \<le> ws ! q" if "p < l" "l \<le> q" "q < n" for p q
  proof (cases "q < r")
    case True
    with that from_range [of q] assms(2-6) show ?thesis by (auto simp: split_at_def)
  next
    case False
    with that assms(2-6) show ?thesis by (auto simp: split_at_def)
  qed
  moreover have "ws ! p \<le> ws ! q" if "p < r" "r \<le> q" "q < n" for p q
  proof (cases "l \<le> p")
    case True
    with that from_range [of p] assms(2-5,7) show ?thesis by (auto simp: split_at_def)
  next
    case False
    with that assms(2-5,7) show ?thesis by (auto simp: split_at_def)
  qed
  ultimately show ?thesis by (simp add: split_at_def)
qed

lemma split_at_pivot:
  assumes "split_at ws l n" and "split_at ws r n" and "l \<le> c" and "c \<le> r" and "r \<le> n"
    and "below ws l c a" and "above ws c r a"
  shows "split_at ws c n"
  unfolding split_at_def
proof (intro allI impI)
  fix p q assume pq: "p < c" "c \<le> q" "q < n"
  show "ws ! p \<le> ws ! q"
  proof (cases "p < l \<or> r \<le> q")
    case True
    with pq assms(1-5) show ?thesis by (auto simp: split_at_def)
  next
    case False
    with pq assms(6,7) have "ws ! p \<le> a" "a \<le> ws ! q" by (auto simp: below_def above_def)
    then show ?thesis by simp
  qed
qed

lemma order_three:
  fixes xs :: "'a::linorder list"
  assumes "i < length xs" and "j < length xs" and "r < length xs" and "i \<noteq> j" and "i \<noteq> r" and "j \<noteq> r"
  defines "ys \<equiv> order_pair (order_pair (order_pair xs i r) j r) i j"
  shows "ys ! i = min (min (xs ! i) (xs ! r)) (min (xs ! j) (max (xs ! i) (xs ! r)))"
    and "ys ! j = max (min (xs ! i) (xs ! r)) (min (xs ! j) (max (xs ! i) (xs ! r)))"
    and "ys ! r = max (xs ! j) (max (xs ! i) (xs ! r))"
    and "p < length xs \<Longrightarrow> p \<noteq> i \<Longrightarrow> p \<noteq> j \<Longrightarrow> p \<noteq> r \<Longrightarrow> ys ! p = xs ! p"
  using assms by (simp_all add: nth_order_pair)

lemma median3_spec:
  fixes xs :: "'a::linorder list"
  assumes "l + 1 < ir" and "ir < length xs"
  defines "ys \<equiv> median3 xs l ir"
  shows "mset ys = mset xs \<and> ys ! l \<le> ys ! (l + 1) \<and> ys ! (l + 1) \<le> ys ! ir \<and>
    (\<forall>p<length xs. p < l \<or> ir < p \<longrightarrow> ys ! p = xs ! p)"
proof -
  let ?x0 = "swap xs ((l + ir) div 2) (l + 1)"
  have ys: "ys = order_pair (order_pair (order_pair ?x0 l ir) (l + 1) ir) l (l + 1)"
    by (simp add: ys_def median3_def)
  have mid: "l < (l + ir) div 2" "(l + ir) div 2 < ir" using assms(1) by auto
  have "mset ys = mset xs"
    using assms(1,2) mid by (simp add: ys mset_order_pair mset_swap_id)
  moreover have idx: "l < length ?x0" "l + 1 < length ?x0" "ir < length ?x0" "l \<noteq> l + 1" "l \<noteq> ir" "l + 1 \<noteq> ir"
    using assms(1,2) by simp_all
  note three = order_three [OF idx, folded ys]
  have "ys ! l \<le> ys ! (l + 1) \<and> ys ! (l + 1) \<le> ys ! ir"
    unfolding three(1-3) by (intro conjI max.boundedI) (simp_all add: min.coboundedI1 max.coboundedI1 max.coboundedI2 min.coboundedI2)
  moreover have "ys ! p = xs ! p" if "p < length xs" "p < l \<or> ir < p" for p
    using three(4) [of p] assms(1,2) mid that by (auto simp: nth_swap)
  ultimately show ?thesis by blast
qed

text \<open>One round on the range from \<open>l\<close> to \<open>ir\<close>: the pivot ends between the two sides.\<close>

lemma select_round:
  fixes xs :: "'a::linorder list"
  assumes "l + 1 < ir" and "ir < n" and "n \<le> length xs" and "split_at xs l n" and "split_at xs (ir + 1) n"
    and ys_def: "ys = median3 xs l ir" and a_def: "a = ys ! (l + 1)"
  shows "\<exists>zs i j ws. part_loop ys a (l + 1) ir = Some (zs, i, j) \<and> ws = zs[l + 1 := zs ! j, j := a] \<and>
      mset ws = mset xs \<and> l + 1 \<le> j \<and> j < ir \<and> l + 1 < i \<and> i \<le> ir \<and> j \<le> i \<and> i \<le> j + 1 \<and>
      (\<forall>p<length xs. p < l \<or> ir < p \<longrightarrow> ws ! p = xs ! p) \<and>
      split_at ws l n \<and> split_at ws (ir + 1) n \<and> split_at ws i n \<and> split_at ws j n \<and> split_at ws (j + 1) n"
proof -
  from median3_spec [OF assms(1), of xs] assms(2,3) have
    ys: "mset ys = mset xs" "ys ! l \<le> a" "a \<le> ys ! ir" "\<forall>p<length xs. p < l \<or> ir < p \<longrightarrow> ys ! p = xs ! p"
    by (simp_all add: ys_def a_def)
  from ys(1) have len: "length ys = length xs" by (rule mset_eq_length)
  have "below ys l (l + 1 + 1) a" "above ys ir (ir + 1) a"
    using ys(2,3) by (auto simp: below_def above_def a_def less_Suc_eq le_less_Suc_eq)
  from part_loop_spec [OF _ assms(1) _ _ this] assms(2,3) len obtain zs i j where
    part: "part_loop ys a (l + 1) ir = Some (zs, i, j)" and zs: "mset zs = mset ys" and
    ij: "l + 1 < i" "i \<le> ir" "l + 1 \<le> j" "j < ir" "j \<le> i" "i \<le> j + 1" and
    sides: "below zs l i a" "above zs (j + 1) (ir + 1) a" "zs ! j \<le> a" and
    frame: "\<forall>p<length ys. p \<le> l + 1 \<or> ir \<le> p \<longrightarrow> zs ! p = ys ! p"
    by auto
  let ?ws = "zs[l + 1 := zs ! j, j := a]"
  have lenz: "length zs = length xs" using zs len by (metis mset_eq_length)
  have piv: "zs ! (l + 1) = a" using frame len assms(1-3) by (simp add: a_def)
  have ws: "?ws = swap zs (l + 1) j" by (simp only: swap_def piv)
  have "mset ?ws = mset xs"
    unfolding ws using zs ys(1) ij(3,4) assms(2,3) lenz by (simp add: mset_swap_id)
  moreover have fr: "\<forall>p<length xs. p < l \<or> ir < p \<longrightarrow> ?ws ! p = xs ! p"
    using frame ys(4) ij(3,4) assms(1-3) lenz len by (auto simp: nth_list_update)
  ultimately have outside: "split_at ?ws l n \<and> split_at ?ws (ir + 1) n"
    using assms by (intro split_at_outside) auto
  have nth: "?ws ! p = (if p = j then a else if p = l + 1 then zs ! j else zs ! p)" if "p < n" for p
    using that ij(3,4) assms(2,3) lenz by (auto simp: nth_list_update)
  have bel: "below ?ws l i a" "below ?ws l (j + 1) a"
    using sides(1,3) ij assms(2) nth by (auto simp: below_def)
  have abv: "above ?ws j (ir + 1) a"
    using sides(2) ij assms(2) nth by (auto simp: above_def)
  have cut: "split_at ?ws c n" if "below ?ws l c a" "above ?ws c (ir + 1) a" "l \<le> c" "c \<le> ir + 1" for c
    using outside that assms(2) by (intro split_at_pivot [of ?ws l n "ir + 1" c a]) auto
  have "split_at ?ws i n \<and> split_at ?ws j n \<and> split_at ?ws (j + 1) n"
    using cut [OF bel(1) above_mono [OF abv]] cut [OF below_mono [OF bel(2)] abv]
      cut [OF bel(2) above_mono [OF abv]] ij by simp
  with part \<open>mset ?ws = mset xs\<close> ij fr outside show ?thesis by blast
qed

lemma select_loop_step:
  assumes "l + 1 < ir" and "ir < length xs" and "ys = median3 xs l ir" and "a = ys ! (l + 1)"
    and "part_loop ys a (l + 1) ir = Some (zs, i, j)"
  shows "select_loop xs k l ir = select_loop (zs[l + 1 := zs ! j, j := a]) k
    (if j \<le> k then i else l) (if k \<le> j then j - 1 else ir)"
  using assms by (subst select_loop.simps) (simp add: Let_def)

lemma in_place_from_splits: "split_at ys k n \<Longrightarrow> split_at ys (k + 1) n \<Longrightarrow> k < n \<Longrightarrow> in_place ys k n"
  by (auto simp: split_at_def in_place_def)

lemma select_loop_spec:
  fixes xs :: "'a::linorder list"
  assumes "l \<le> k" and "k \<le> ir" and "ir < n" and "n \<le> length xs" and "split_at xs l n" and "split_at xs (ir + 1) n"
  shows "\<exists>ys. select_loop xs k l ir = Some ys \<and> mset ys = mset xs \<and> in_place ys k n \<and>
    (\<forall>p<length xs. n \<le> p \<longrightarrow> ys ! p = xs ! p)"
  using assms
proof (induction xs k l ir rule: select_loop.induct)
  case (1 xs k l ir)
  note pre = 1(2-7)
  consider "ir \<le> l" | "ir = l + 1" | "l + 1 < ir" by linarith
  then show ?case
  proof cases
    case 1
    with pre have "k = l" "ir = l" by simp_all
    with pre show ?thesis by (subst select_loop.simps) (auto intro: in_place_from_splits)
  next
    case 2
    let ?ys = "order_pair xs l ir"
    have ys: "mset ?ys = mset xs" "\<forall>p<length xs. p < l \<or> ir < p \<longrightarrow> ?ys ! p = xs ! p" "?ys ! l \<le> ?ys ! ir"
      using 2 pre by (auto simp: mset_order_pair nth_order_pair min_le_iff_disj le_max_iff_disj)
    then have out: "split_at ?ys l n \<and> split_at ?ys (ir + 1) n"
      using pre by (intro split_at_outside) auto
    moreover have "split_at ?ys ir n"
      using out ys(3) 2 pre by (intro split_at_pivot [of ?ys l n "ir + 1" ir "?ys ! l"])
        (auto simp: below_def above_def less_Suc_eq le_less_Suc_eq)
    moreover have "k = l \<or> k = ir" using 2 pre by auto
    ultimately have "in_place ?ys k n"
      using 2 pre by (auto intro!: in_place_from_splits)
    then show ?thesis
      using 2 pre ys by (subst select_loop.simps) auto
  next
    case 3
    define ys where "ys = median3 xs l ir"
    define a where "a = ys ! (l + 1)"
    from select_round [OF 3 pre(3-6) ys_def a_def] obtain zs i j ws where
      part: "part_loop ys a (l + 1) ir = Some (zs, i, j)" and ws_def: "ws = zs[l + 1 := zs ! j, j := a]" and
      ws: "mset ws = mset xs" and ij: "l + 1 \<le> j" "j < ir" "l + 1 < i" "i \<le> ir" "j \<le> i" "i \<le> j + 1" and
      fr: "\<forall>p<length xs. p < l \<or> ir < p \<longrightarrow> ws ! p = xs ! p" and
      cuts: "split_at ws l n" "split_at ws (ir + 1) n" "split_at ws i n" "split_at ws j n" "split_at ws (j + 1) n"
      by blast
    have "ir < length xs" using pre by simp
    note step = select_loop_step [OF 3 this ys_def a_def part, of k, folded ws_def]
    have len: "length ws = length xs" using ws by (rule mset_eq_length)
    have *: "\<exists>vs. select_loop ws k (if j \<le> k then i else l) (if k \<le> j then j - 1 else ir) = Some vs \<and>
        mset vs = mset ws \<and> in_place vs k n \<and> (\<forall>p<length ws. n \<le> p \<longrightarrow> vs ! p = ws ! p)"
    proof (cases "j = k")
      case True
      then have "in_place ws k n"
        using cuts(4,5) ij(2) pre(3) by (auto intro: in_place_from_splits)
      then show ?thesis
        using True ij pre(3,4) len by (subst select_loop.simps) auto
    next
      case False
      have "\<not> length xs \<le> ir" "\<not> ir \<le> l + 1" using 3 pre by simp_all
      from 1(1) [OF this ys_def a_def part refl refl, folded ws_def] show ?thesis
        using False ij pre cuts len by (auto split: if_splits)
    qed
    then show ?thesis
      using step ws fr len pre(3) by auto
  qed
qed

lemma sort_in_place:
  fixes zs :: "'a::linorder list"
  assumes "in_place zs k (length zs)" and "k < length zs"
  shows "sort zs ! k = zs ! k"
proof -
  let ?ss = "sort (take k zs) @ zs ! k # sort (drop (k + 1) zs)"
  have zs: "zs = take k zs @ zs ! k # drop (k + 1) zs"
    using assms(2) by (simp add: id_take_nth_drop)
  then have "mset ?ss = mset zs"
    by (metis mset_append mset.simps(2) mset_sort)
  moreover have "x \<le> zs ! k" if "x \<in> set (take k zs)" for x
    using assms that by (auto simp: in_place_def in_set_conv_nth)
  moreover have "zs ! k \<le> y" if "y \<in> set (drop (k + 1) zs)" for y
    using assms that by (auto simp: in_place_def in_set_conv_nth)
  ultimately have "sort zs = ?ss"
    by (intro properties_for_sort) (auto simp: sorted_append intro: order_trans)
  then show ?thesis using assms(2) by (simp add: nth_append)
qed

section \<open>Properties\<close>

text \<open>
  C28. For every index \<open>k\<close> of the first \<open>n\<close> elements the loops end, no access leaves the array, and
  the result is the element at index \<open>k\<close> of the sorted first \<open>n\<close> elements; the array afterwards is a
  permutation of what it was and is unchanged behind the first \<open>n\<close> elements.
\<close>

theorem k_select_is_sorted_nth:
  fixes xs :: "'a::linorder list"
  assumes "0 \<le> k" and "k < n" and "n \<le> int (length xs)"
  shows "\<exists>ys. k_select minus_one xs n k = Some (sort (take (nat n) xs) ! nat k, ys) \<and>
    mset ys = mset xs \<and> drop (nat n) ys = drop (nat n) xs"
proof -
  let ?n = "nat n" and ?k = "nat k"
  have bounds: "?k < ?n" "?n \<le> length xs" "nat (n - 1) + 1 = ?n" using assms by simp_all
  have "split_at xs 0 ?n" "split_at xs (nat (n - 1) + 1) ?n"
    unfolding bounds(3) by (simp_all add: split_at_def)
  with select_loop_spec [of 0 ?k "nat (n - 1)" ?n xs] bounds obtain ys where
    ys: "select_loop xs ?k 0 (nat (n - 1)) = Some ys" "mset ys = mset xs" "in_place ys ?k ?n"
      "\<forall>p<length xs. ?n \<le> p \<longrightarrow> ys ! p = xs ! p"
    by auto
  from ys(2) have len: "length ys = length xs" by (rule mset_eq_length)
  have drop: "drop ?n ys = drop ?n xs"
    using ys(4) len bounds(2) by (auto intro!: nth_equalityI)
  with ys(2) have "mset (take ?n ys) = mset (take ?n xs)"
    by (metis add_right_cancel append_take_drop_id mset_append)
  then have "sort (take ?n xs) = sort (take ?n ys)"
    by (intro properties_for_sort) simp_all
  moreover have "p < ?n" if "p < ?k" for p by (rule less_trans [OF that bounds(1)])
  then have "in_place (take ?n ys) ?k (length (take ?n ys))"
    using ys(3) bounds(1,2) len by (auto simp: in_place_def)
  then have "sort (take ?n ys) ! ?k = ys ! ?k"
    using sort_in_place [of "take ?n ys" ?k] bounds(1,2) len by simp
  ultimately show ?thesis
    using ys(1,2) drop assms by (auto simp: k_select_def)
qed

theorem k_select_is_sorted_nth_witness:
  "\<exists>ys. k_select (-1) [5, 1, 4, 1, 3, 9, 2, (0::int)] 7 4 =
      Some (sort (take (nat 7) [5, 1, 4, 1, 3, 9, 2, 0]) ! nat 4, ys) \<and>
    mset ys = mset [5, 1, 4, 1, 3, 9, 2, 0] \<and> drop (nat 7) ys = drop (nat 7) [5, 1, 4, 1, 3, 9, 2, 0]"
  by (rule k_select_is_sorted_nth) simp_all

lemma k_select_outside: "k < 0 \<or> n \<le> k \<Longrightarrow> k_select minus_one xs n k = Some (minus_one, xs)"
  by (simp add: k_select_def)

end
