(* ===== verification/ArrayLoops.thy ===== *)
theory ArrayLoops
  imports Main "HOL-Library.Monad_Syntax"
begin

text \<open>
  The vocabulary of the numerical code (AMath.h, AMath.cpp): arrays are lists, reading and writing
  outside of an array gives \<open>None\<close>, and a counting loop is \<open>for_up\<close> or \<open>for_down\<close> with the loop's body
  as a function of the index and the variables it changes. \<open>yields r Q\<close> says that a computation ends
  without such an access and that its result satisfies \<open>Q\<close>; the collection \<open>yield_rules\<close> holds
  one rule per construct, and the loop rules take an invariant.
\<close>

section \<open>Arrays\<close>

definition array_get :: "'a list \<Rightarrow> nat \<Rightarrow> 'a option" where
  "array_get xs i = (if i < length xs then Some (xs ! i) else None)"

definition array_put :: "'a list \<Rightarrow> nat \<Rightarrow> 'a \<Rightarrow> 'a list option" where
  "array_put xs i v = (if i < length xs then Some (xs[i := v]) else None)"

text \<open>The exchange of two cells through a temporary variable.\<close>

definition array_swap :: "nat \<Rightarrow> nat \<Rightarrow> 'a list \<Rightarrow> 'a list option" where
  "array_swap p q A = do { t \<leftarrow> array_get A p; u \<leftarrow> array_get A q; A \<leftarrow> array_put A p u; array_put A q t }"

section \<open>Loops\<close>

fun for_each :: "nat list \<Rightarrow> (nat \<Rightarrow> 's \<Rightarrow> 's option) \<Rightarrow> 's \<Rightarrow> 's option" where
  "for_each [] f s = Some s"
| "for_each (i # is) f s = do { s' \<leftarrow> f i s; for_each is f s' }"

text \<open>\<open>for (i = a; i < b; ++i)\<close> and \<open>for (i = b - 1; i >= a; --i)\<close>\<close>

definition for_up :: "nat \<Rightarrow> nat \<Rightarrow> (nat \<Rightarrow> 's \<Rightarrow> 's option) \<Rightarrow> 's \<Rightarrow> 's option" where
  "for_up a b f s = for_each [a..<b] f s"

definition for_down :: "nat \<Rightarrow> nat \<Rightarrow> (nat \<Rightarrow> 's \<Rightarrow> 's option) \<Rightarrow> 's \<Rightarrow> 's option" where
  "for_down a b f s = for_each (rev [a..<b]) f s"

section \<open>Results of computations\<close>

definition yields :: "'a option \<Rightarrow> ('a \<Rightarrow> bool) \<Rightarrow> bool" where
  "yields r Q \<longleftrightarrow> (\<exists>x. r = Some x \<and> Q x)"

named_theorems yield_rules

lemma yields_Some [yield_rules]: "Q x \<Longrightarrow> yields (Some x) Q"
  by (simp add: yields_def)

lemma yields_Some_iff [simp]: "yields (Some x) Q \<longleftrightarrow> Q x"
  by (simp add: yields_def)

lemma yields_None [simp]: "\<not> yields None Q"
  by (simp add: yields_def)

lemma yields_bind: "yields (r \<bind> f) Q \<longleftrightarrow> yields r (\<lambda>x. yields (f x) Q)"
  by (cases r) simp_all

lemma yields_bindI [yield_rules]: "yields r (\<lambda>x. yields (f x) Q) \<Longrightarrow> yields (r \<bind> f) Q"
  by (simp add: yields_bind)

lemma yields_get [yield_rules]: "i < length xs \<Longrightarrow> Q (xs ! i) \<Longrightarrow> yields (array_get xs i) Q"
  by (simp add: array_get_def)

lemma yields_put [yield_rules]: "i < length xs \<Longrightarrow> Q (xs[i := v]) \<Longrightarrow> yields (array_put xs i v) Q"
  by (simp add: array_put_def)

lemma yields_get_iff: "yields (array_get xs i) Q \<longleftrightarrow> i < length xs \<and> Q (xs ! i)"
  by (simp add: array_get_def)

lemma yields_put_iff: "yields (array_put xs i v) Q \<longleftrightarrow> i < length xs \<and> Q (xs[i := v])"
  by (simp add: array_put_def)

lemmas yields_simps = yields_bind yields_get_iff yields_put_iff

lemma yields_mono: "yields r P \<Longrightarrow> (\<And>x. P x \<Longrightarrow> Q x) \<Longrightarrow> yields r Q"
  by (auto simp: yields_def)

lemma yieldsE:
  assumes "yields r Q" obtains x where "r = Some x" and "Q x"
  using assms by (auto simp: yields_def)

section \<open>Loop rules\<close>

lemma for_each_Nil [simp]: "for_up a a f s = Some s"
  by (simp add: for_up_def)

lemma for_each_append: "for_each (xs @ ys) f s = for_each xs f s \<bind> for_each ys f"
  by (induction xs arbitrary: s) (auto split: bind_split)

lemma for_up_Suc: "a \<le> b \<Longrightarrow> for_up a (Suc b) f s = for_up a b f s \<bind> f b"
  by (cases "for_each [a..<b] f s"; cases "f b (the (for_each [a..<b] f s))")
    (simp_all add: for_up_def for_each_append)

lemma for_up_first: "a < b \<Longrightarrow> for_up a b f s = f a s \<bind> for_up (Suc a) b f"
  by (cases "f a s") (simp_all add: for_up_def upt_rec [of a b])

lemma for_down_first: "a \<le> b \<Longrightarrow> for_down a (Suc b) f s = f b s \<bind> for_down a b f"
  by (cases "f b s") (simp_all add: for_down_def)

lemma for_down_Nil [simp]: "b \<le> a \<Longrightarrow> for_down a b f s = Some s"
  by (simp add: for_down_def)

lemma for_up_Nil [simp]: "b \<le> a \<Longrightarrow> for_up a b f s = Some s"
  by (simp add: for_up_def)

text \<open>The invariant \<open>I i s\<close> holds when the loop is about to test the index \<open>i\<close>.\<close>

lemma for_up_rule:
  assumes start: "I a s" and "a \<le> b"
    and step: "\<And>i s. a \<le> i \<Longrightarrow> i < b \<Longrightarrow> I i s \<Longrightarrow> yields (f i s) (I (Suc i))"
  shows "yields (for_up a b f s) (I b)"
proof -
  have "yields (for_up a (a + n) f s) (I (a + n))" if "a + n \<le> b" for n
    using that
  proof (induction n)
    case 0
    then show ?case using start by simp
  next
    case (Suc n)
    then have "yields (for_up a (a + n) f s) (I (a + n))" by simp
    then have "yields (for_up a (a + n) f s) (\<lambda>s. yields (f (a + n) s) (I (Suc (a + n))))"
      by (rule yields_mono) (use Suc.prems in \<open>auto intro: step\<close>)
    then show ?case by (simp add: for_up_Suc yields_bind)
  qed
  from this [of "b - a"] \<open>a \<le> b\<close> show ?thesis by simp
qed

lemma for_down_rule:
  assumes start: "I b s" and "a \<le> b"
    and step: "\<And>i s. a \<le> i \<Longrightarrow> i < b \<Longrightarrow> I (Suc i) s \<Longrightarrow> yields (f i s) (I i)"
  shows "yields (for_down a b f s) (I a)"
  using \<open>a \<le> b\<close> start step
proof (induction b arbitrary: s)
  case 0
  then show ?case by simp
next
  case (Suc b)
  show ?case
  proof (cases "a \<le> b")
    case True
    have "yields (f b s) (I b)" using Suc.prems True by simp
    then have "yields (f b s) (\<lambda>s'. yields (for_down a b f s') (I a))"
      by (rule yields_mono) (use Suc True in auto)
    then show ?thesis using True by (simp add: for_down_first yields_bind)
  next
    case False
    then show ?thesis using Suc.prems by (simp add: le_antisym not_less_eq_eq)
  qed
qed

lemma for_up_yields:
  assumes "I a s" and "a \<le> b"
    and "\<And>i s. a \<le> i \<Longrightarrow> i < b \<Longrightarrow> I i s \<Longrightarrow> yields (f i s) (I (Suc i))"
    and "\<And>s. I b s \<Longrightarrow> Q s"
  shows "yields (for_up a b f s) Q"
  using for_up_rule [of I a s b f, OF assms(1-3)] assms(4) by (rule yields_mono)

lemma for_down_yields:
  assumes "I b s" and "a \<le> b"
    and "\<And>i s. a \<le> i \<Longrightarrow> i < b \<Longrightarrow> I (Suc i) s \<Longrightarrow> yields (f i s) (I i)"
    and "\<And>s. I a s \<Longrightarrow> Q s"
  shows "yields (for_down a b f s) Q"
  using for_down_rule [of I b s a f, OF assms(1-3)] assms(4) by (rule yields_mono)

text \<open>The same with the states given: \<open>\<alpha> i\<close> is the state when the loop tests \<open>i\<close>.\<close>

lemma for_up_states:
  assumes "a \<le> b" and "\<And>i. a \<le> i \<Longrightarrow> i < b \<Longrightarrow> f i (\<alpha> i) = Some (\<alpha> (Suc i))"
  shows "for_up a b f (\<alpha> a) = Some (\<alpha> b)"
proof -
  have "yields (for_up a b f (\<alpha> a)) (\<lambda>s. s = \<alpha> b)"
    by (rule for_up_rule [where I = "\<lambda>i s. s = \<alpha> i"]) (use assms in auto)
  then show ?thesis by (auto simp: yields_def)
qed

lemma for_down_states:
  assumes "a \<le> b" and "\<And>i. a \<le> i \<Longrightarrow> i < b \<Longrightarrow> f i (\<alpha> (Suc i)) = Some (\<alpha> i)"
  shows "for_down a b f (\<alpha> b) = Some (\<alpha> a)"
proof -
  have "yields (for_down a b f (\<alpha> b)) (\<lambda>s. s = \<alpha> a)"
    by (rule for_down_rule [where I = "\<lambda>i s. s = \<alpha> i"]) (use assms in auto)
  then show ?thesis by (auto simp: yields_def)
qed

text \<open>A loop that cannot fail is a fold.\<close>

lemma for_each_pure: "for_each is (\<lambda>i s. Some (f i s)) s = Some (fold f is s)"
  by (induction "is" arbitrary: s) auto

lemma for_each_cong_total:
  "(\<And>i s. i \<in> set is \<Longrightarrow> f i s = Some (g i s)) \<Longrightarrow> for_each is f s = Some (fold g is s)"
  by (induction "is" arbitrary: s) auto

section \<open>Vectors\<close>

definition vec_array :: "nat \<Rightarrow> (nat \<Rightarrow> 'a) \<Rightarrow> 'a list" where
  "vec_array n g = map g [0..<n]"

named_theorems cell_simps

lemma length_vec_array [simp]: "length (vec_array n g) = n"
  by (simp add: vec_array_def)

lemma nth_vec_array [simp]: "i < n \<Longrightarrow> vec_array n g ! i = g i"
  by (simp add: vec_array_def)

lemma get_vec_array [cell_simps]: "i < n \<Longrightarrow> array_get (vec_array n g) i = Some (g i)"
  by (simp add: array_get_def)

lemma put_vec_array [cell_simps]: "i < n \<Longrightarrow> array_put (vec_array n g) i v = Some (vec_array n (g(i := v)))"
  by (auto simp: array_put_def nth_list_update intro!: nth_equalityI)

lemma vec_array_nth: "vec_array (length xs) ((!) xs) = xs"
  by (auto intro: nth_equalityI)

lemma vec_array_cong: "(\<And>i. i < n \<Longrightarrow> f i = g i) \<Longrightarrow> vec_array n f = vec_array n g"
  by (simp add: vec_array_def)

section \<open>Rows and columns\<close>

lemma cell_bound:
  fixes i j :: nat
  assumes "i < m" and "j < n"
  shows "i * n + j < m * n"
proof -
  have "i * n + j < Suc i * n" using assms(2) by simp
  also have "\<dots> \<le> m * n" using assms(1) by (intro mult_le_mono1) simp
  finally show ?thesis .
qed

lemma cell_inject:
  fixes i j i' j' :: nat
  assumes "j < n" and "j' < n"
  shows "i * n + j = i' * n + j' \<longleftrightarrow> i = i' \<and> j = j'"
proof
  assume eq: "i * n + j = i' * n + j'"
  from eq assms have "(i * n + j) div n = (i' * n + j') div n" "(i * n + j) mod n = (i' * n + j') mod n"
    by simp_all
  with assms show "i = i' \<and> j = j'" by simp
qed simp

lemma cell_less_len: "i < m \<Longrightarrow> j < n \<Longrightarrow> m * n \<le> len \<Longrightarrow> i * n + j < (len::nat)"
  using cell_bound [of i m j n] by linarith

end
