(* ===== verification/AMatrix.thy ===== *)
theory AMatrix
  imports ArrayLoops
begin

text \<open>
  Products and transposes of matrices (AMath.cpp, \<open>MatRealMult\<close> and \<open>MatTrans\<close>). A matrix is stored row
  by row in one array. The walking pointers of the code are written as the positions they have in the
  current round. The definitions use the arithmetic operators alone, so they fit any type of numbers;
  a product's entry is the sum in the order in which the code adds.
\<close>

section \<open>The operations\<close>

definition MatRealMult ::
  "nat \<Rightarrow> nat \<Rightarrow> nat \<Rightarrow> 'a::{zero,plus,times} list \<Rightarrow> 'a list \<Rightarrow> 'a list \<Rightarrow> 'a list option" where
  "MatRealMult M L N A B RM =
     do { (q0, RM) \<leftarrow> for_up 0 N (\<lambda>i (q0, RM). do {
            q0 \<leftarrow> for_up 0 L (\<lambda>k q0. do { p \<leftarrow> array_get B (k * N + i); array_put q0 k p }) q0;
            RM \<leftarrow> for_up 0 M (\<lambda>j RM. do {
                    z \<leftarrow> for_up 0 L (\<lambda>k z. do { p \<leftarrow> array_get A (j * L + k); q \<leftarrow> array_get q0 k;
                                               Some (z + p * q) }) 0;
                    array_put RM (j * N + i) z }) RM;
            Some (q0, RM) }) (replicate L 0, RM);
          Some RM }"

definition MatTrans :: "nat \<Rightarrow> nat \<Rightarrow> 'a list \<Rightarrow> 'a list \<Rightarrow> 'a list option" where
  "MatTrans M N A B =
     for_up 0 N (\<lambda>i. for_up 0 M (\<lambda>j B. do { p \<leftarrow> array_get A (j * N + i); array_put B (i * M + j) p })) B"

section \<open>Matrices as functions\<close>

text \<open>The array of an \<open>m\<close> times \<open>n\<close> matrix, and the entry of an array.\<close>

definition mat_array :: "nat \<Rightarrow> nat \<Rightarrow> (nat \<Rightarrow> nat \<Rightarrow> 'a) \<Rightarrow> 'a list" where
  "mat_array m n f = map (\<lambda>p. f (p div n) (p mod n)) [0..<m * n]"

definition mat_entry :: "'a list \<Rightarrow> nat \<Rightarrow> nat \<Rightarrow> nat \<Rightarrow> 'a" where
  "mat_entry A n i j = A ! (i * n + j)"

definition row_times_column :: "'a::{zero,plus,times} list \<Rightarrow> 'a list \<Rightarrow> nat \<Rightarrow> nat \<Rightarrow> nat \<Rightarrow> nat \<Rightarrow> 'a" where
  "row_times_column A B L N j i = foldl (\<lambda>z k. z + mat_entry A L j k * mat_entry B N k i) 0 [0..<L]"

lemma length_mat_array [simp]: "length (mat_array m n f) = m * n"
  by (simp add: mat_array_def)

lemma nth_mat_array: "i < m \<Longrightarrow> j < n \<Longrightarrow> mat_array m n f ! (i * n + j) = f i j"
  by (simp add: mat_array_def cell_bound)

lemma entry_mat_array [simp]: "i < m \<Longrightarrow> j < n \<Longrightarrow> mat_entry (mat_array m n f) n i j = f i j"
  by (simp add: mat_entry_def nth_mat_array)

lemma mat_array_eqI:
  assumes "length xs = m * n" and "\<And>i j. i < m \<Longrightarrow> j < n \<Longrightarrow> xs ! (i * n + j) = f i j"
  shows "xs = mat_array m n f"
proof (rule nth_equalityI)
  fix p assume "p < length xs"
  then have p: "p < m * n" using assms(1) by simp
  then have "0 < n" by (cases n) auto
  then have "p div n < m" "p mod n < n" using p by (auto simp: less_mult_imp_div_less)
  then have "xs ! (p div n * n + p mod n) = f (p div n) (p mod n)" by (rule assms(2))
  then show "xs ! p = mat_array m n f ! p" using p by (simp add: mat_array_def)
qed (use assms in simp)

lemma mat_array_cong: "(\<And>i j. i < m \<Longrightarrow> j < n \<Longrightarrow> f i j = g i j) \<Longrightarrow> mat_array m n f = mat_array m n g"
  by (rule mat_array_eqI) (simp_all add: nth_mat_array)

lemma mat_array_entries: "length A = m * n \<Longrightarrow> mat_array m n (mat_entry A n) = A"
  by (rule sym, rule mat_array_eqI) (simp_all add: mat_entry_def)

lemma get_mat_array [cell_simps]:
  "i < m \<Longrightarrow> j < n \<Longrightarrow> array_get (mat_array m n f) (i * n + j) = Some (f i j)"
  by (simp add: array_get_def cell_bound nth_mat_array)

lemma put_mat_array [cell_simps]:
  "i < m \<Longrightarrow> j < n \<Longrightarrow>
     array_put (mat_array m n f) (i * n + j) v = Some (mat_array m n (f(i := (f i)(j := v))))"
  by (auto simp: array_put_def cell_bound nth_list_update cell_inject nth_mat_array intro!: mat_array_eqI)

section \<open>Correctness\<close>

definition column_of :: "'a list \<Rightarrow> nat \<Rightarrow> nat \<Rightarrow> nat \<Rightarrow> 'a list" where
  "column_of B L N i = map (\<lambda>k. mat_entry B N k i) [0..<L]"

lemma length_column_of [simp]: "length (column_of B L N i) = L"
  by (simp add: column_of_def)

lemma load_column:
  assumes "L * N \<le> length B" and "i < N" and "length q0 = L"
  shows "for_up 0 L (\<lambda>k q0. do { p \<leftarrow> array_get B (k * N + i); array_put q0 k p }) q0 = Some (column_of B L N i)"
proof -
  have "yields (for_up 0 L (\<lambda>k q0. do { p \<leftarrow> array_get B (k * N + i); array_put q0 k p }) q0)
     (\<lambda>q. length q = L \<and> (\<forall>k<L. q ! k = mat_entry B N k i))"
    by (rule for_up_rule)
      (use assms in \<open>auto simp: yields_simps cell_less_len mat_entry_def less_Suc_eq\<close>)
  then show ?thesis
    by (auto simp: yields_def column_of_def intro!: nth_equalityI)
qed

lemma dot_loop:
  assumes "M * L \<le> length A" and "j < M" and "length q0 = L"
  shows "for_up 0 L (\<lambda>k z. do { p \<leftarrow> array_get A (j * L + k); q \<leftarrow> array_get q0 k; Some (z + p * q) }) 0
     = Some (foldl (\<lambda>z k. z + mat_entry A L j k * q0 ! k) 0 [0..<L])"
proof -
  have "yields (for_up 0 L (\<lambda>k z. do { p \<leftarrow> array_get A (j * L + k); q \<leftarrow> array_get q0 k; Some (z + p * q) }) 0)
     (\<lambda>z. z = foldl (\<lambda>z k. z + mat_entry A L j k * q0 ! k) 0 [0..<L])"
    by (rule for_up_rule) (use assms in \<open>auto simp: yields_simps cell_less_len mat_entry_def\<close>)
  then show ?thesis by (auto simp: yields_def)
qed

lemma dot_column: "foldl (\<lambda>z k. z + mat_entry A L j k * column_of B L N i ! k) 0 [0..<L] = row_times_column A B L N j i"
  unfolding row_times_column_def by (rule foldl_cong) (auto simp: column_of_def)

lemma MatRealMult_eq:
  assumes A: "M * L \<le> length A" and B: "L * N \<le> length B" and R: "length RM = M * N"
  shows "MatRealMult M L N A B RM = Some (mat_array M N (row_times_column A B L N))"
proof -
  let ?dot = "row_times_column A B L N"
  let ?done = "\<lambda>i R. length R = M * N \<and> (\<forall>j i'. j < M \<longrightarrow> i' < i \<longrightarrow> R ! (j * N + i') = ?dot j i')"
  have column: "yields (for_up 0 M (\<lambda>j RM. do {
        z \<leftarrow> for_up 0 L (\<lambda>k z. do { p \<leftarrow> array_get A (j * L + k); q \<leftarrow> array_get (column_of B L N i) k;
                                   Some (z + p * q) }) 0;
        array_put RM (j * N + i) z }) R) (?done (Suc i))" if i: "i < N" and R: "?done i R" for i R
  proof (rule for_up_yields [where I = "\<lambda>j R. ?done i R \<and> (\<forall>j'<j. R ! (j' * N + i) = ?dot j' i)"])
    fix j R assume j: "0 \<le> j" "j < M" and I: "?done i R \<and> (\<forall>j'<j. R ! (j' * N + i) = ?dot j' i)"
    from j I i show "yields (do {
        z \<leftarrow> for_up 0 L (\<lambda>k z. do { p \<leftarrow> array_get A (j * L + k); q \<leftarrow> array_get (column_of B L N i) k;
                                   Some (z + p * q) }) 0;
        array_put R (j * N + i) z })
        (\<lambda>R. ?done i R \<and> (\<forall>j'<Suc j. R ! (j' * N + i) = ?dot j' i))"
      by (auto simp: dot_loop [OF A] dot_column yields_simps cell_bound cell_inject nth_list_update less_Suc_eq)
  qed (use R in \<open>auto simp: less_Suc_eq\<close>)
  have "yields (for_up 0 N (\<lambda>i (q0, RM). do {
            q0 \<leftarrow> for_up 0 L (\<lambda>k q0. do { p \<leftarrow> array_get B (k * N + i); array_put q0 k p }) q0;
            RM \<leftarrow> for_up 0 M (\<lambda>j RM. do {
                    z \<leftarrow> for_up 0 L (\<lambda>k z. do { p \<leftarrow> array_get A (j * L + k); q \<leftarrow> array_get q0 k;
                                               Some (z + p * q) }) 0;
                    array_put RM (j * N + i) z }) RM;
            Some (q0, RM) }) (replicate L 0, RM)) (\<lambda>(q0, R). length q0 = L \<and> ?done N R)"
  proof (rule for_up_rule [where I = "\<lambda>i (q0, R). length q0 = L \<and> ?done i R"])
    fix i and s :: "'a list \<times> 'a list"
    assume i: "0 \<le> i" "i < N" and I: "case s of (q0, R) \<Rightarrow> length q0 = L \<and> ?done i R"
    obtain q0 R where s: "s = (q0, R)" by (cases s)
    with I have q0: "length q0 = L" and R: "?done i R" by auto
    show "yields ((\<lambda>(q0, RM). do {
            q0 \<leftarrow> for_up 0 L (\<lambda>k q0. do { p \<leftarrow> array_get B (k * N + i); array_put q0 k p }) q0;
            RM \<leftarrow> for_up 0 M (\<lambda>j RM. do {
                    z \<leftarrow> for_up 0 L (\<lambda>k z. do { p \<leftarrow> array_get A (j * L + k); q \<leftarrow> array_get q0 k;
                                               Some (z + p * q) }) 0;
                    array_put RM (j * N + i) z }) RM;
            Some (q0, RM) }) s) (\<lambda>(q0, R). length q0 = L \<and> ?done (Suc i) R)"
      using yields_mono [OF column [OF i(2) R]]
      by (simp add: s load_column [OF B i(2) q0] yields_bind length_column_of)
  qed (use R in auto)
  then show ?thesis
    by (auto simp: yields_def MatRealMult_def intro!: mat_array_eqI)
qed

lemma MatTrans_eq:
  assumes A: "M * N \<le> length A" and B: "length B = N * M"
  shows "MatTrans M N A B = Some (mat_array N M (\<lambda>i j. mat_entry A N j i))"
proof -
  let ?done = "\<lambda>i B. length B = N * M \<and> (\<forall>i' j. i' < i \<longrightarrow> j < M \<longrightarrow> B ! (i' * M + j) = mat_entry A N j i')"
  have row: "yields (for_up 0 M (\<lambda>j B. do { p \<leftarrow> array_get A (j * N + i); array_put B (i * M + j) p }) B)
      (?done (Suc i))" if i: "i < N" and B: "?done i B" for i B
  proof (rule for_up_yields
      [where I = "\<lambda>j B. ?done i B \<and> (\<forall>j'<j. B ! (i * M + j') = mat_entry A N j' i)"])
    fix j B assume j: "0 \<le> j" "j < M" and I: "?done i B \<and> (\<forall>j'<j. B ! (i * M + j') = mat_entry A N j' i)"
    from j I i A show "yields (do { p \<leftarrow> array_get A (j * N + i); array_put B (i * M + j) p })
        (\<lambda>B. ?done i B \<and> (\<forall>j'<Suc j. B ! (i * M + j') = mat_entry A N j' i))"
      by (auto simp: yields_simps cell_bound cell_less_len cell_inject nth_list_update less_Suc_eq mat_entry_def)
  qed (use B in \<open>auto simp: less_Suc_eq\<close>)
  have "yields (MatTrans M N A B) (?done N)"
    unfolding MatTrans_def by (rule for_up_rule [where I = ?done]) (use B row in auto)
  then show ?thesis
    by (auto simp: yields_def intro!: mat_array_eqI)
qed

section \<open>Properties\<close>

text \<open>
  \<open>MatRealMult\<close> computes the product of an \<open>M\<close> times \<open>L\<close> and an \<open>L\<close> times \<open>N\<close> matrix without an access
  outside of the arrays: the result array is the product row by row, each entry the sum, in the order of the index,
  of the products of a row of the first and a column of the second matrix. Transposing the computed
  product gives exactly what multiplying the transposed matrices in the other order computes, for
  every commutative multiplication (floating point multiplication is one).
\<close>

theorem matrix_product_transposed:
  fixes A B :: "'a::{zero,plus,ab_semigroup_mult} list"
  assumes "length A = M * L" and "length B = L * N" and "length P = M * N" and "length T = N * M"
    and "length A' = L * M" and "length B' = N * L"
  shows "MatRealMult M L N A B P = Some (mat_array M N (row_times_column A B L N)) \<and>
    do { P \<leftarrow> MatRealMult M L N A B P; MatTrans M N P T }
      = do { B' \<leftarrow> MatTrans L N B B'; A' \<leftarrow> MatTrans M L A A'; MatRealMult N L M B' A' T } \<and>
    do { A' \<leftarrow> MatTrans M L A A'; MatTrans L M A' A } = Some A"
proof -
  have "row_times_column (mat_array N L (\<lambda>i j. mat_entry B N j i)) (mat_array L M (\<lambda>i j. mat_entry A L j i)) L M i j
      = row_times_column A B L N j i" if "i < N" "j < M" for i j
    unfolding row_times_column_def by (rule foldl_cong) (use that in \<open>auto simp: mult.commute\<close>)
  then have "mat_array N M (row_times_column (mat_array N L (\<lambda>i j. mat_entry B N j i))
        (mat_array L M (\<lambda>i j. mat_entry A L j i)) L M)
      = mat_array N M (\<lambda>i j. mat_entry (mat_array M N (row_times_column A B L N)) N j i)"
    by (intro mat_array_eqI) (simp_all add: nth_mat_array)
  moreover have "mat_array M L (\<lambda>i j. mat_entry (mat_array L M (\<lambda>i j. mat_entry A L j i)) M j i) = A"
    using assms(1) by (intro sym [OF mat_array_eqI]) (simp_all add: mat_entry_def [of A])
  ultimately show ?thesis
    using assms by (simp add: MatRealMult_eq MatTrans_eq)
qed

theorem matrix_product_transposed_witness:
  "MatRealMult 1 2 2 [1, 2] [3, 4, 5, 6] [0, 0] = Some [13, 16::int] \<and>
   do { P \<leftarrow> MatRealMult 1 2 2 [1, 2] [3, 4, 5, 6] [0, 0]; MatTrans 1 2 P [0, 0] } = Some [13, 16::int]"
proof -
  have "row_times_column [1, 2] [3, 4, 5, 6] 2 2 0 0 = (13::int)" "row_times_column [1, 2] [3, 4, 5, 6] 2 2 0 1 = (16::int)"
    by (simp_all add: row_times_column_def mat_entry_def upt_rec)
  then have "mat_array 1 2 (row_times_column [1, 2] [3, 4, 5, 6] 2 2) = [13, 16::int]"
    by (simp add: mat_array_def upt_rec)
  moreover have "MatTrans 1 2 [13, 16::int] [0, 0] = Some [13, 16]"
    by (simp add: MatTrans_def for_up_def array_get_def array_put_def upt_rec)
  ultimately show ?thesis
    using matrix_product_transposed [of "[1, 2::int]" 1 2 "[3, 4, 5, 6]" 2 "[0, 0]" "[0, 0]" "[0, 0]" "[0, 0, 0, 0]"]
    by simp
qed

end
