(* ===== verification/AInvert.thy ===== *)
theory AInvert
  imports AMatrix Complex_Main
begin

text \<open>
  The inverse of a matrix in place (AMath.cpp, \<open>MatInvert\<close>) and the linear systems solved with it
  (\<open>LSLinearSolve\<close>). The algorithm factors the matrix with row pivoting into a lower and an
  upper triangular part, inverts both, multiplies the inverses and undoes the row exchanges on the columns.
  Numbers are elements of an ordered field, so the theorems are about exact arithmetic. The contents of the two
  blocks that \<open>malloc\<close> returns are arguments: no result depends on them.
\<close>

section \<open>The operations\<close>

text \<open>The column \<open>j\<close> minus the products with the columns before it, through the work array \<open>q0\<close>.\<close>

definition mi_reduce_column :: "nat \<Rightarrow> nat \<Rightarrow> 'a::linordered_field list \<times> 'a list \<Rightarrow> ('a list \<times> 'a list) option" where
  "mi_reduce_column N j = (\<lambda>(A, q0). do {
     q0 \<leftarrow> for_up 0 N (\<lambda>i q0. do { p \<leftarrow> array_get A (i * N + j); array_put q0 i p }) q0;
     q0 \<leftarrow> for_up 1 N (\<lambda>i q0. do {
             let lc = (if i < j then i else j);
             t \<leftarrow> for_up 0 lc (\<lambda>k t. do { p \<leftarrow> array_get A (i * N + k); q \<leftarrow> array_get q0 k; Some (t + p * q) }) 0;
             q \<leftarrow> array_get q0 i;
             array_put q0 i (q - t) }) q0;
     A \<leftarrow> for_up 0 N (\<lambda>i A. do { q \<leftarrow> array_get q0 i; array_put A (i * N + j) q }) A;
     Some (A, q0) })"

text \<open>The greatest absolute value of the column from the diagonal on, and its row.\<close>

definition mi_pivot :: "nat \<Rightarrow> nat \<Rightarrow> 'a::linordered_field list \<Rightarrow> ('a \<times> nat) option" where
  "mi_pivot N j A = do {
     d \<leftarrow> array_get A (j * N + j);
     for_up (j + 1) N (\<lambda>k (s, lc). do { p \<leftarrow> array_get A (k * N + j);
                                       Some (if \<bar>p\<bar> > s then (\<bar>p\<bar>, k) else (s, lc)) }) (\<bar>d\<bar>, j) }"

definition mi_swap_rows :: "nat \<Rightarrow> nat \<Rightarrow> nat \<Rightarrow> 'a list \<Rightarrow> 'a list option" where
  "mi_swap_rows N j lc A =
     (if lc \<noteq> j then for_up 0 N (\<lambda>k. array_swap (j * N + k) (lc * N + k)) A else Some A)"

definition mi_scale :: "nat \<Rightarrow> nat \<Rightarrow> 'a::linordered_field list \<Rightarrow> 'a list option" where
  "mi_scale N j A = do {
     d \<leftarrow> array_get A (j * N + j);
     let t = 1 / d;
     A \<leftarrow> for_up (j + 1) N (\<lambda>k A. do { p \<leftarrow> array_get A (k * N + j); array_put A (k * N + j) (p * t) }) A;
     array_put A (j * N + j) t }"

text \<open>The first loop; it stops where a pivot is too small.\<close>

fun mi_decompose :: "nat \<Rightarrow> nat list \<Rightarrow> 'a::linordered_field \<Rightarrow> 'a list \<times> 'a list \<times> nat list
    \<Rightarrow> (bool \<times> 'a list \<times> 'a list \<times> nat list) option" where
  "mi_decompose N [] tq (A, q0, le) = Some (True, A, q0, le)"
| "mi_decompose N (j # js) tq (A, q0, le) = do {
     (A, q0) \<leftarrow> (if 0 < j then mi_reduce_column N j (A, q0) else Some (A, q0));
     (s, lc) \<leftarrow> mi_pivot N j A;
     let tq = (if tq > s then tq else s);
     if s < 1 / 10 ^ 15 * tq then Some (False, A, q0, le)
     else do {
       le \<leftarrow> array_put le j lc;
       A \<leftarrow> mi_swap_rows N j lc A;
       A \<leftarrow> mi_scale N j A;
       mi_decompose N js tq (A, q0, le) } }"

text \<open>The upper part is divided by the diagonal and inverted.\<close>

definition mi_scale_upper :: "nat \<Rightarrow> 'a::linordered_field list \<Rightarrow> 'a list option" where
  "mi_scale_upper N =
     for_up 1 N (\<lambda>j. for_up 0 j (\<lambda>k A. do {
       d \<leftarrow> array_get A (j * N + j); q \<leftarrow> array_get A (k * N + j); array_put A (k * N + j) (q * d) }))"

definition mi_invert_upper :: "nat \<Rightarrow> 'a::linordered_field list \<times> 'a list \<Rightarrow> ('a list \<times> 'a list) option" where
  "mi_invert_upper N =
     for_up 1 N (\<lambda>j (A, q0). do {
       q0 \<leftarrow> for_up 0 j (\<lambda>i q0. do { p \<leftarrow> array_get A (i * N + j); array_put q0 i p }) q0;
       q0 \<leftarrow> for_up 0 j (\<lambda>k q0. do {
               t \<leftarrow> for_up k j (\<lambda>i t. do { p \<leftarrow> array_get A (k * N + i); q \<leftarrow> array_get q0 i; Some (t - p * q) }) 0;
               array_put q0 k t }) q0;
       A \<leftarrow> for_up 0 j (\<lambda>i A. do { q \<leftarrow> array_get q0 i; array_put A (i * N + j) q }) A;
       Some (A, q0) })"

text \<open>The lower part is inverted, column by column from the right; \<open>q0\<close> holds the column below the diagonal.\<close>

definition mi_invert_lower :: "nat \<Rightarrow> 'a::linordered_field list \<times> 'a list \<Rightarrow> ('a list \<times> 'a list) option" where
  "mi_invert_lower N =
     for_down 0 (N - 1) (\<lambda>j (A, q0). do {
       let m = N - j - 1;
       q0 \<leftarrow> for_up 0 m (\<lambda>i q0. do { p \<leftarrow> array_get A ((j + 1 + i) * N + j); array_put q0 i p }) q0;
       q0 \<leftarrow> for_down (j + 1) N (\<lambda>k q0. do {
               p0 \<leftarrow> array_get A (k * N + j);
               t \<leftarrow> for_up (j + 1) k (\<lambda>i t. do { p \<leftarrow> array_get A (k * N + i); q \<leftarrow> array_get q0 (i - (j + 1));
                                               Some (t - p * q) }) (- p0);
               array_put q0 (k - (j + 1)) t }) q0;
       A \<leftarrow> for_up 0 m (\<lambda>i A. do { q \<leftarrow> array_get q0 i; array_put A ((j + 1 + i) * N + j) q }) A;
       Some (A, q0) })"

text \<open>The product of the two inverses, column by column.\<close>

definition mi_multiply :: "nat \<Rightarrow> 'a::linordered_field list \<times> 'a list \<Rightarrow> ('a list \<times> 'a list) option" where
  "mi_multiply N =
     for_up 0 (N - 1) (\<lambda>k (A, q0). do {
       q0 \<leftarrow> for_up 0 N (\<lambda>i q0. do { p \<leftarrow> array_get A (i * N + k); array_put q0 i p }) q0;
       q0 \<leftarrow> for_up 0 N (\<lambda>j q0. do {
               t0 \<leftarrow> (if j > k then Some 0 else array_get q0 j);
               t \<leftarrow> for_up (if j > k then j else k + 1) N
                      (\<lambda>i t. do { p \<leftarrow> array_get A (j * N + i); q \<leftarrow> array_get q0 i; Some (t + p * q) }) t0;
               array_put q0 j t }) q0;
       A \<leftarrow> for_up 0 N (\<lambda>i A. do { q \<leftarrow> array_get q0 i; array_put A (i * N + k) q }) A;
       Some (A, q0) })"

definition mi_swap_columns :: "nat \<Rightarrow> nat list \<Rightarrow> 'a list \<Rightarrow> 'a list option" where
  "mi_swap_columns N le =
     for_down 0 (N - 1) (\<lambda>j A. do {
       lc \<leftarrow> array_get le j;
       for_up 0 N (\<lambda>k. array_swap (k * N + j) (k * N + lc)) A })"

definition MatInvert :: "nat \<Rightarrow> nat list \<Rightarrow> 'a::linordered_field list \<Rightarrow> 'a list \<Rightarrow> (int \<times> 'a list) option" where
  "MatInvert N le q0 A = do {
     (ok, A, q0, le) \<leftarrow> mi_decompose N [0..<N] 0 (A, q0, le);
     if \<not> ok then Some (-1, A)
     else do {
       A \<leftarrow> mi_scale_upper N A;
       (A, q0) \<leftarrow> mi_invert_upper N (A, q0);
       (A, q0) \<leftarrow> mi_invert_lower N (A, q0);
       (A, q0) \<leftarrow> mi_multiply N (A, q0);
       A \<leftarrow> mi_swap_columns N le A;
       Some (0, A) } }"

definition LSLinearSolve ::
  "nat \<Rightarrow> nat list \<Rightarrow> 'a::linordered_field list \<Rightarrow> 'a list \<Rightarrow> 'a list \<Rightarrow> 'a list \<Rightarrow> (bool \<times> 'a list \<times> 'a list) option" where
  "LSLinearSolve M le q0 Y A X = do {
     (r, A) \<leftarrow> MatInvert M le q0 A;
     if r \<noteq> 0 then Some (False, A, X)
     else do { X \<leftarrow> MatRealMult M M 1 A Y X; Some (True, A, X) } }"

section \<open>The steps on entries\<close>

text \<open>
  What each step does to the matrix with the entries \<open>f\<close>. \<open>reduced f j\<close> is the column \<open>j\<close> after its reduction.
\<close>

declare sum.cong [fundef_cong]

function reduced :: "(nat \<Rightarrow> nat \<Rightarrow> 'a::linordered_field) \<Rightarrow> nat \<Rightarrow> nat \<Rightarrow> 'a" where
  "reduced f j i = f i j - (\<Sum>k<min i j. f i k * reduced f j k)"
  by auto
termination by (relation "measure (\<lambda>(f, j, i). i)") auto

declare reduced.simps [simp del]

lemma reduced_0 [simp]: "reduced f 0 r = f r 0"
  by (subst reduced.simps) simp

definition with_column :: "nat \<Rightarrow> (nat \<Rightarrow> 'a) \<Rightarrow> (nat \<Rightarrow> nat \<Rightarrow> 'a) \<Rightarrow> nat \<Rightarrow> nat \<Rightarrow> 'a" where
  "with_column j v f = (\<lambda>r c. if c = j then v r else f r c)"

lemma load_mat_column:
  assumes "j < n" and "m' \<le> m"
  shows "for_up 0 m' (\<lambda>i q0. do { p \<leftarrow> array_get (mat_array m n f) (i * n + j); array_put q0 i p }) (vec_array m g)
    = Some (vec_array m (\<lambda>i. if i < m' then f i j else g i))"
proof -
  have "for_up 0 m' (\<lambda>i q0. do { p \<leftarrow> array_get (mat_array m n f) (i * n + j); array_put q0 i p })
      (vec_array m (\<lambda>i. if i < 0 then f i j else g i))
    = Some (vec_array m (\<lambda>i. if i < m' then f i j else g i))"
    by (rule for_up_states [where \<alpha> = "\<lambda>k. vec_array m (\<lambda>i. if i < k then f i j else g i)"])
      (use assms in \<open>auto simp: cell_simps intro!: vec_array_cong\<close>)
  then show ?thesis by simp
qed

lemma store_mat_column:
  assumes "j < n" and "m' \<le> m"
  shows "for_up 0 m' (\<lambda>i A. do { q \<leftarrow> array_get (vec_array m g) i; array_put A (i * n + j) q }) (mat_array m n f)
    = Some (mat_array m n (with_column j (\<lambda>r. if r < m' then g r else f r j) f))"
proof -
  have "for_up 0 m' (\<lambda>i A. do { q \<leftarrow> array_get (vec_array m g) i; array_put A (i * n + j) q })
      (mat_array m n (with_column j (\<lambda>r. if r < 0 then g r else f r j) f))
    = Some (mat_array m n (with_column j (\<lambda>r. if r < m' then g r else f r j) f))"
    by (rule for_up_states [where \<alpha> = "\<lambda>k. mat_array m n (with_column j (\<lambda>r. if r < k then g r else f r j) f)"])
      (use assms in \<open>auto simp: cell_simps with_column_def intro!: mat_array_cong\<close>)
  moreover have "with_column j (\<lambda>r. f r j) f = f" by (auto simp: with_column_def fun_eq_iff)
  ultimately show ?thesis by simp
qed

lemma inner_loop:
  assumes "a \<le> b" and "b \<le> n" and "r < m" and "\<And>k. a \<le> k \<Longrightarrow> k < b \<Longrightarrow> k - d < l" and "0 < n"
  shows "for_up a b (\<lambda>k t. do { p \<leftarrow> array_get (mat_array m n f) (r * n + k); q \<leftarrow> array_get (vec_array l g) (k - d);
      Some (t + p * q) }) t0 = Some (t0 + (\<Sum>k=a..<b. f r k * g (k - d)))"
    and "for_up a b (\<lambda>k t. do { p \<leftarrow> array_get (mat_array m n f) (r * n + k); q \<leftarrow> array_get (vec_array l g) (k - d);
      Some (t - p * q) }) t0 = Some (t0 - (\<Sum>k=a..<b. f r k * g (k - d) :: 'b::linordered_field))"
proof -
  have "for_up a b (\<lambda>k t. do { p \<leftarrow> array_get (mat_array m n f) (r * n + k); q \<leftarrow> array_get (vec_array l g) (k - d);
      Some (t + p * q) }) (t0 + (\<Sum>k=a..<a. f r k * g (k - d))) = Some (t0 + (\<Sum>k=a..<b. f r k * g (k - d)))"
    by (rule for_up_states [where \<alpha> = "\<lambda>i. t0 + (\<Sum>k=a..<i. f r k * g (k - d))"])
      (use assms in \<open>auto simp: cell_simps\<close>)
  moreover have "for_up a b (\<lambda>k t. do { p \<leftarrow> array_get (mat_array m n f) (r * n + k); q \<leftarrow> array_get (vec_array l g) (k - d);
      Some (t - p * q) }) (t0 - (\<Sum>k=a..<a. f r k * g (k - d))) = Some (t0 - (\<Sum>k=a..<b. f r k * g (k - d)))"
    by (rule for_up_states [where \<alpha> = "\<lambda>i. t0 - (\<Sum>k=a..<i. f r k * g (k - d))"])
      (use assms in \<open>auto simp: cell_simps\<close>)
  ultimately show "for_up a b (\<lambda>k t. do { p \<leftarrow> array_get (mat_array m n f) (r * n + k); q \<leftarrow> array_get (vec_array l g) (k - d);
      Some (t + p * q) }) t0 = Some (t0 + (\<Sum>k=a..<b. f r k * g (k - d)))"
    and "for_up a b (\<lambda>k t. do { p \<leftarrow> array_get (mat_array m n f) (r * n + k); q \<leftarrow> array_get (vec_array l g) (k - d);
      Some (t - p * q) }) t0 = Some (t0 - (\<Sum>k=a..<b. f r k * g (k - d)))"
    by simp_all
qed

lemmas inner_loop_0 = inner_loop [where d = 0, unfolded diff_zero]

lemma reduce_column_array:
  assumes j: "j < N"
  shows "mi_reduce_column N j (mat_array N N f, vec_array N g)
    = Some (mat_array N N (with_column j (reduced f j) f), vec_array N (reduced f j))"
proof -
  have "for_up 1 N (\<lambda>i q0. do {
             let lc = (if i < j then i else j);
             t \<leftarrow> for_up 0 lc (\<lambda>k t. do { p \<leftarrow> array_get (mat_array N N f) (i * N + k); q \<leftarrow> array_get q0 k; Some (t + p * q) }) 0;
             q \<leftarrow> array_get q0 i;
             array_put q0 i (q - t) }) (vec_array N (\<lambda>i. if i < 1 then reduced f j i else f i j))
      = Some (vec_array N (\<lambda>i. if i < N then reduced f j i else f i j))"
  proof (rule for_up_states [where \<alpha> = "\<lambda>k. vec_array N (\<lambda>i. if i < k then reduced f j i else f i j)"])
    fix i assume i: "1 \<le> i" "i < N"
    have "(\<Sum>k=0..<min i j. f i k * (if k < i then reduced f j k else f k j)) = (\<Sum>k<min i j. f i k * reduced f j k)"
      by (rule sum.cong) auto
    then have "reduced f j i = f i j - (\<Sum>k=0..<min i j. f i k * (if k < i then reduced f j k else f k j))"
      by (simp add: reduced.simps [of f j i])
    then show "do {
             let lc = (if i < j then i else j);
             t \<leftarrow> for_up 0 lc (\<lambda>k t. do { p \<leftarrow> array_get (mat_array N N f) (i * N + k);
                q \<leftarrow> array_get (vec_array N (\<lambda>k. if k < i then reduced f j k else f k j)) k; Some (t + p * q) }) 0;
             q \<leftarrow> array_get (vec_array N (\<lambda>k. if k < i then reduced f j k else f k j)) i;
             array_put (vec_array N (\<lambda>k. if k < i then reduced f j k else f k j)) i (q - t) }
        = Some (vec_array N (\<lambda>k. if k < Suc i then reduced f j k else f k j))"
      using i j inner_loop_0(1) [of 0 "if i < j then i else j" N i N N f "\<lambda>k. if k < i then reduced f j k else f k j" 0]
      by (auto simp: cell_simps min_def Let_def intro!: vec_array_cong)
  qed (use j in simp)
  moreover have "vec_array N (\<lambda>i. if i < 1 then reduced f j i else f i j) = vec_array N (\<lambda>i. if i < N then f i j else g i)"
    by (intro vec_array_cong) (auto simp: reduced.simps [of f j 0])
  moreover have "vec_array N (\<lambda>i. if i < N then reduced f j i else f i j) = vec_array N (reduced f j)"
    by (intro vec_array_cong) simp
  moreover have "mat_array N N (with_column j (\<lambda>r. if r < N then reduced f j r else f r j) f)
      = mat_array N N (with_column j (reduced f j) f)"
    by (intro mat_array_cong) (simp add: with_column_def)
  ultimately show ?thesis
    using j by (simp add: mi_reduce_column_def load_mat_column store_mat_column)
qed

text \<open>The exchange of two rows or of two columns.\<close>

definition exchange :: "nat \<Rightarrow> nat \<Rightarrow> nat \<Rightarrow> nat" where
  "exchange a b i = (if i = a then b else if i = b then a else i)"

lemma exchange_invol [simp]: "exchange a b (exchange a b i) = i"
  by (simp add: exchange_def)

lemma exchange_same [simp]: "exchange a a i = i"
  by (simp add: exchange_def)

lemma exchange_less: "a < n \<Longrightarrow> b < n \<Longrightarrow> exchange a b i < n \<longleftrightarrow> i < n"
  by (auto simp: exchange_def)

lemma swap_rows_array:
  assumes "j < N" and "lc < N"
  shows "mi_swap_rows N j lc (mat_array N N f) = Some (mat_array N N (\<lambda>r. f (exchange j lc r)))"
proof (cases "lc = j")
  case True
  then show ?thesis by (simp add: mi_swap_rows_def)
next
  case False
  let ?st = "\<lambda>k. mat_array N N (\<lambda>r c. if c < k then f (exchange j lc r) c else f r c)"
  have "for_up 0 N (\<lambda>k. array_swap (j * N + k) (lc * N + k)) (?st 0) = Some (?st N)"
  proof (rule for_up_states [where \<alpha> = ?st])
    fix k assume k: "0 \<le> k" "k < N"
    from False assms k show "array_swap (j * N + k) (lc * N + k) (?st k) = Some (?st (Suc k))"
      by (auto simp: array_swap_def cell_simps exchange_def less_Suc_eq intro!: mat_array_cong)
  qed simp
  moreover have "?st N = mat_array N N (\<lambda>r. f (exchange j lc r))"
    by (intro mat_array_cong) simp
  ultimately show ?thesis using False by (simp add: mi_swap_rows_def)
qed

lemma swap_columns_array:
  assumes "N - 1 \<le> length le" and "\<And>j. j < N - 1 \<Longrightarrow> le ! j < N"
  shows "mi_swap_columns N le (mat_array N N f)
    = Some (mat_array N N (\<lambda>r c. f r (fold (\<lambda>j. exchange j (le ! j)) [0..<N - 1] c)))"
proof -
  let ?\<sigma> = "\<lambda>k. fold (\<lambda>j. exchange j (le ! j)) [k..<N - 1]"
  let ?step = "\<lambda>j A. do { lc \<leftarrow> array_get le j; for_up 0 N (\<lambda>k. array_swap (k * N + j) (k * N + lc)) A }"
  have "for_down 0 (N - 1) ?step (mat_array N N (\<lambda>r c. f r (?\<sigma> (N - 1) c)))
      = Some (mat_array N N (\<lambda>r c. f r (?\<sigma> 0 c)))"
  proof (rule for_down_states [where \<alpha> = "\<lambda>k. mat_array N N (\<lambda>r c. f r (?\<sigma> k c))"])
    fix j assume j: "0 \<le> j" "j < N - 1"
    let ?lc = "le ! j"
    let ?g = "\<lambda>r c. f r (?\<sigma> (Suc j) c)"
    let ?st = "\<lambda>k. mat_array N N (\<lambda>r c. if r < k then ?g r (exchange j ?lc c) else ?g r c)"
    from j assms have lc: "?lc < N" "j < length le" by auto
    have "for_up 0 N (\<lambda>k. array_swap (k * N + j) (k * N + ?lc)) (?st 0) = Some (?st N)"
      by (rule for_up_states [where \<alpha> = ?st])
        (use j lc in \<open>auto simp: array_swap_def cell_simps exchange_def less_Suc_eq intro!: mat_array_cong\<close>)
    moreover have "?st N = mat_array N N (\<lambda>r c. f r (?\<sigma> j c))"
      using j by (intro mat_array_cong) (simp add: upt_rec [of j])
    ultimately show "?step j (mat_array N N ?g) = Some (mat_array N N (\<lambda>r c. f r (?\<sigma> j c)))"
      using lc by (simp add: array_get_def)
  qed simp
  then show ?thesis by (simp add: mi_swap_columns_def)
qed

lemma scale_array:
  assumes j: "j < N"
  shows "mi_scale N j (mat_array N N f) = Some (mat_array N N
    (with_column j (\<lambda>r. if r = j then 1 / f j j else if j < r then f r j * (1 / f j j) else f r j) f))"
proof -
  let ?st = "\<lambda>k. mat_array N N (with_column j (\<lambda>r. if j < r \<and> r < k then f r j * (1 / f j j) else f r j) f)"
  have "for_up (j + 1) N (\<lambda>k A. do { p \<leftarrow> array_get A (k * N + j); array_put A (k * N + j) (p * (1 / f j j)) })
      (?st (j + 1)) = Some (?st N)"
    by (rule for_up_states [where \<alpha> = ?st])
      (use j in \<open>auto simp: cell_simps with_column_def less_Suc_eq intro!: mat_array_cong\<close>)
  moreover have "?st (j + 1) = mat_array N N f"
    by (intro mat_array_cong) (auto simp: with_column_def)
  ultimately show ?thesis
    using j by (auto simp: mi_scale_def cell_simps Let_def with_column_def intro!: mat_array_cong)
qed

lemma scale_upper_array:
  "mi_scale_upper N (mat_array N N f) = Some (mat_array N N (\<lambda>r c. if r < c then f r c * f c c else f r c))"
proof (cases "N = 0")
  case True
  then show ?thesis by (simp add: mi_scale_upper_def mat_array_def)
next
  case False
  let ?st = "\<lambda>j. mat_array N N (\<lambda>r c. if r < c \<and> c < j then f r c * f c c else f r c)"
  let ?in = "\<lambda>j k. mat_array N N (\<lambda>r c. if r < c \<and> c < j \<or> c = j \<and> r < k then f r c * f c c else f r c)"
  have inner: "for_up 0 j (\<lambda>k A. do { d \<leftarrow> array_get A (j * N + j); q \<leftarrow> array_get A (k * N + j);
      array_put A (k * N + j) (q * d) }) (?in j 0) = Some (?in j j)" if "j < N" for j
    by (rule for_up_states [where \<alpha> = "?in j"])
      (use that in \<open>auto simp: cell_simps less_Suc_eq intro!: mat_array_cong\<close>)
  have "mi_scale_upper N (?st 1) = Some (?st N)" unfolding mi_scale_upper_def
  proof (rule for_up_states [where \<alpha> = ?st])
    fix j assume j: "1 \<le> j" "j < N"
    have "?in j 0 = ?st j" "?in j j = ?st (Suc j)"
      by (intro mat_array_cong; auto simp: less_Suc_eq)+
    with inner [OF j(2)] show "for_up 0 j (\<lambda>k A. do { d \<leftarrow> array_get A (j * N + j); q \<leftarrow> array_get A (k * N + j);
      array_put A (k * N + j) (q * d) }) (?st j) = Some (?st (Suc j))" by simp
  qed (use False in simp)
  moreover have "?st 1 = mat_array N N f" "?st N = mat_array N N (\<lambda>r c. if r < c then f r c * f c c else f r c)"
    by (intro mat_array_cong; auto)+
  ultimately show ?thesis by simp
qed

text \<open>One round of the three loops that work on a column through \<open>q0\<close>.\<close>

definition upper_step :: "nat \<Rightarrow> (nat \<Rightarrow> nat \<Rightarrow> 'a::linordered_field) \<Rightarrow> nat \<Rightarrow> nat \<Rightarrow> 'a" where
  "upper_step j f = with_column j (\<lambda>r. if r < j then - (\<Sum>i=r..<j. f r i * f i j) else f r j) f"

definition lower_step :: "nat \<Rightarrow> (nat \<Rightarrow> nat \<Rightarrow> 'a::linordered_field) \<Rightarrow> nat \<Rightarrow> nat \<Rightarrow> 'a" where
  "lower_step j f = with_column j (\<lambda>r. if j < r then - f r j - (\<Sum>i=j+1..<r. f r i * f i j) else f r j) f"

definition mult_step :: "nat \<Rightarrow> nat \<Rightarrow> (nat \<Rightarrow> nat \<Rightarrow> 'a::linordered_field) \<Rightarrow> nat \<Rightarrow> nat \<Rightarrow> 'a" where
  "mult_step N k f = with_column k (\<lambda>r. if k < r then (\<Sum>i=r..<N. f r i * f i k)
                                       else f r k + (\<Sum>i=k+1..<N. f r i * f i k)) f"

lemma upper_round:
  assumes j: "1 \<le> j" "j < N"
  shows "yields (do {
       q0 \<leftarrow> for_up 0 j (\<lambda>i q0. do { p \<leftarrow> array_get (mat_array N N f) (i * N + j); array_put q0 i p }) (vec_array N g);
       q0 \<leftarrow> for_up 0 j (\<lambda>k q0. do {
               t \<leftarrow> for_up k j (\<lambda>i t. do { p \<leftarrow> array_get (mat_array N N f) (k * N + i); q \<leftarrow> array_get q0 i; Some (t - p * q) }) 0;
               array_put q0 k t }) q0;
       A \<leftarrow> for_up 0 j (\<lambda>i A. do { q \<leftarrow> array_get q0 i; array_put A (i * N + j) q }) (mat_array N N f);
       Some (A, q0) }) (\<lambda>(A, q0). A = mat_array N N (upper_step j f) \<and> length q0 = N)"
proof -
  let ?w = "\<lambda>r. - (\<Sum>i=r..<j. f r i * f i j)"
  let ?st = "\<lambda>k. vec_array N (\<lambda>i. if i < k then ?w i else if i < j then f i j else g i)"
  have "for_up 0 j (\<lambda>k q0. do {
               t \<leftarrow> for_up k j (\<lambda>i t. do { p \<leftarrow> array_get (mat_array N N f) (k * N + i); q \<leftarrow> array_get q0 i; Some (t - p * q) }) 0;
               array_put q0 k t }) (?st 0) = Some (?st j)"
  proof (rule for_up_states [where \<alpha> = ?st])
    fix k assume k: "0 \<le> k" "k < j"
    have "(\<Sum>i=k..<j. f k i * (if i < k then ?w i else if i < j then f i j else g i)) = (\<Sum>i=k..<j. f k i * f i j)"
      by (rule sum.cong) auto
    with k j inner_loop_0(2) [of k j N k N N f "\<lambda>i. if i < k then ?w i else if i < j then f i j else g i" 0]
    show "do { t \<leftarrow> for_up k j (\<lambda>i t. do { p \<leftarrow> array_get (mat_array N N f) (k * N + i); q \<leftarrow> array_get (?st k) i; Some (t - p * q) }) 0;
               array_put (?st k) k t } = Some (?st (Suc k))"
      by (auto simp: cell_simps intro!: vec_array_cong)
  qed simp
  then show ?thesis
    using j by (auto simp: load_mat_column store_mat_column upper_step_def with_column_def intro!: mat_array_cong)
qed

lemma invert_upper_array:
  assumes "length q0 = N"
  shows "yields (mi_invert_upper N (mat_array N N f, q0))
    (\<lambda>(A, q0). A = mat_array N N (fold upper_step [1..<N] f) \<and> length q0 = N)"
proof (cases "N = 0")
  case True
  then show ?thesis using assms by (simp add: mi_invert_upper_def)
next
  case False
  show ?thesis unfolding mi_invert_upper_def
  proof (rule for_up_rule [where I = "\<lambda>j (A, q0). A = mat_array N N (fold upper_step [1..<j] f) \<and> length q0 = N"],
      goal_cases)
    case (3 j s)
    then obtain q0 where s: "s = (mat_array N N (fold upper_step [1..<j] f), q0)" and q0: "length q0 = N" by auto
    show ?case
      using upper_round [OF 3(1,2), of "fold upper_step [1..<j] f" "(!) q0"] vec_array_nth [of q0] q0 3
      by (simp add: s)
  qed (use assms False in auto)
qed

lemma lower_round:
  assumes j: "j < N - 1"
  shows "yields (do {
       let m = N - j - 1;
       q0 \<leftarrow> for_up 0 m (\<lambda>i q0. do { p \<leftarrow> array_get (mat_array N N f) ((j + 1 + i) * N + j); array_put q0 i p }) (vec_array N g);
       q0 \<leftarrow> for_down (j + 1) N (\<lambda>k q0. do {
               p0 \<leftarrow> array_get (mat_array N N f) (k * N + j);
               t \<leftarrow> for_up (j + 1) k (\<lambda>i t. do { p \<leftarrow> array_get (mat_array N N f) (k * N + i); q \<leftarrow> array_get q0 (i - (j + 1));
                                               Some (t - p * q) }) (- p0);
               array_put q0 (k - (j + 1)) t }) q0;
       A \<leftarrow> for_up 0 m (\<lambda>i A. do { q \<leftarrow> array_get q0 i; array_put A ((j + 1 + i) * N + j) q }) (mat_array N N f);
       Some (A, q0) }) (\<lambda>(A, q0). A = mat_array N N (lower_step j f) \<and> length q0 = N)"
proof -
  let ?m = "N - j - 1"
  let ?x = "\<lambda>r. - f r j - (\<Sum>i=j+1..<r. f r i * f i j)"
  let ?ld = "\<lambda>k. vec_array N (\<lambda>i. if i < k then f (j + 1 + i) j else g i)"
  have load: "for_up 0 ?m (\<lambda>i q0. do { p \<leftarrow> array_get (mat_array N N f) ((j + 1 + i) * N + j); array_put q0 i p }) (?ld 0)
      = Some (?ld ?m)"
  proof (rule for_up_states [where \<alpha> = ?ld])
    fix i assume "0 \<le> i" "i < ?m"
    then have "j + 1 + i < N" "j < N" "i < N" by auto
    then show "do { p \<leftarrow> array_get (mat_array N N f) ((j + 1 + i) * N + j); array_put (?ld i) i p } = Some (?ld (Suc i))"
      unfolding get_mat_array [OF \<open>j + 1 + i < N\<close> \<open>j < N\<close>]
      by (auto simp: cell_simps intro!: vec_array_cong)
  qed simp
  let ?st = "\<lambda>k. vec_array N (\<lambda>i. if i < ?m then (if k \<le> j + 1 + i then ?x (j + 1 + i) else f (j + 1 + i) j) else g i)"
  have work: "for_down (j + 1) N (\<lambda>k q0. do {
               p0 \<leftarrow> array_get (mat_array N N f) (k * N + j);
               t \<leftarrow> for_up (j + 1) k (\<lambda>i t. do { p \<leftarrow> array_get (mat_array N N f) (k * N + i); q \<leftarrow> array_get q0 (i - (j + 1));
                                               Some (t - p * q) }) (- p0);
               array_put q0 (k - (j + 1)) t }) (?st N) = Some (?st (j + 1))"
  proof (rule for_down_states [where \<alpha> = ?st])
    fix k assume k: "j + 1 \<le> k" "k < N"
    let ?g = "\<lambda>i. if i < ?m then (if Suc k \<le> j + 1 + i then ?x (j + 1 + i) else f (j + 1 + i) j) else g i"
    have "(\<Sum>i=j+1..<k. f k i * ?g (i - (j + 1))) = (\<Sum>i=j+1..<k. f k i * f i j)"
      using k by (intro sum.cong) auto
    moreover have "for_up (j + 1) k (\<lambda>i t. do { p \<leftarrow> array_get (mat_array N N f) (k * N + i);
          q \<leftarrow> array_get (vec_array N ?g) (i - (j + 1)); Some (t - p * q) }) (- f k j)
        = Some (- f k j - (\<Sum>i=j+1..<k. f k i * ?g (i - (j + 1))))"
      by (rule inner_loop) (use k in auto)
    moreover have "(vec_array N (?g (k - (j + 1) := ?x k))) = ?st k"
      using k by (intro vec_array_cong) auto
    ultimately show "do {
               p0 \<leftarrow> array_get (mat_array N N f) (k * N + j);
               t \<leftarrow> for_up (j + 1) k (\<lambda>i t. do { p \<leftarrow> array_get (mat_array N N f) (k * N + i);
                     q \<leftarrow> array_get (vec_array N ?g) (i - (j + 1)); Some (t - p * q) }) (- p0);
               array_put (vec_array N ?g) (k - (j + 1)) t } = Some (?st k)"
      using k j by (simp add: get_mat_array put_vec_array del: diff_Suc_Suc add_Suc_right One_nat_def)
  qed (use j in simp)
  let ?ad = "\<lambda>k. mat_array N N (with_column j (\<lambda>r. if j < r \<and> r < j + 1 + k then ?x r else f r j) f)"
  have store: "for_up 0 ?m (\<lambda>i A. do { q \<leftarrow> array_get (?st (j + 1)) i; array_put A ((j + 1 + i) * N + j) q }) (?ad 0)
      = Some (?ad ?m)"
  proof (rule for_up_states [where \<alpha> = ?ad])
    fix i assume i: "0 \<le> i" "i < ?m"
    then have b: "j + 1 + i < N" "j < N" "i < N" by auto
    have "?ad (Suc i) = mat_array N N ((with_column j (\<lambda>r. if j < r \<and> r < j + 1 + i then ?x r else f r j) f)
        (j + 1 + i := (with_column j (\<lambda>r. if j < r \<and> r < j + 1 + i then ?x r else f r j) f (j + 1 + i))(j := ?x (j + 1 + i))))"
      by (intro mat_array_cong) (auto simp: with_column_def less_Suc_eq)
    then show "do { q \<leftarrow> array_get (?st (j + 1)) i; array_put (?ad i) ((j + 1 + i) * N + j) q } = Some (?ad (Suc i))"
      unfolding put_mat_array [OF b(1,2)] get_vec_array [OF b(3)] using i by simp
  qed simp
  have "?ld 0 = vec_array N g" "?ad 0 = mat_array N N f" "?ad ?m = mat_array N N (lower_step j f)" "?ld ?m = ?st N"
    by (intro vec_array_cong mat_array_cong; auto simp: lower_step_def with_column_def)+
  then show ?thesis using load work store by (simp add: Let_def)
qed

lemma invert_lower_array:
  assumes "length q0 = N"
  shows "yields (mi_invert_lower N (mat_array N N f, q0))
    (\<lambda>(A, q0). A = mat_array N N (fold lower_step (rev [0..<N - 1]) f) \<and> length q0 = N)"
  unfolding mi_invert_lower_def
proof (rule for_down_yields [where
    I = "\<lambda>j (A, q0). A = mat_array N N (fold lower_step (rev [j..<N - 1]) f) \<and> length q0 = N"], goal_cases)
  case (3 j s)
  then obtain q0 where s: "s = (mat_array N N (fold lower_step (rev [Suc j..<N - 1]) f), q0)" and q0: "length q0 = N"
    by auto
  have "rev [j..<N - 1] = rev [Suc j..<N - 1] @ [j]" using 3 by (simp add: upt_rec [of j])
  then have step: "fold lower_step (rev [j..<N - 1]) f = lower_step j (fold lower_step (rev [Suc j..<N - 1]) f)"
    by simp
  show ?case
    unfolding step s prod.case
    using lower_round [OF 3(2), of "fold lower_step (rev [Suc j..<N - 1]) f" "(!) q0"] vec_array_nth [of q0] q0
    by simp
qed (use assms in auto)

lemma multiply_round:
  assumes k: "k < N - 1"
  shows "yields (do {
       q0 \<leftarrow> for_up 0 N (\<lambda>i q0. do { p \<leftarrow> array_get (mat_array N N f) (i * N + k); array_put q0 i p }) (vec_array N g);
       q0 \<leftarrow> for_up 0 N (\<lambda>j q0. do {
               t0 \<leftarrow> (if j > k then Some 0 else array_get q0 j);
               t \<leftarrow> for_up (if j > k then j else k + 1) N
                      (\<lambda>i t. do { p \<leftarrow> array_get (mat_array N N f) (j * N + i); q \<leftarrow> array_get q0 i; Some (t + p * q) }) t0;
               array_put q0 j t }) q0;
       A \<leftarrow> for_up 0 N (\<lambda>i A. do { q \<leftarrow> array_get q0 i; array_put A (i * N + k) q }) (mat_array N N f);
       Some (A, q0) }) (\<lambda>(A, q0). A = mat_array N N (mult_step N k f) \<and> length q0 = N)"
proof -
  let ?y = "\<lambda>r. mult_step N k f r k"
  let ?st = "\<lambda>j. vec_array N (\<lambda>i. if i < j then ?y i else f i k)"
  have work: "for_up 0 N (\<lambda>j q0. do {
               t0 \<leftarrow> (if j > k then Some 0 else array_get q0 j);
               t \<leftarrow> for_up (if j > k then j else k + 1) N
                      (\<lambda>i t. do { p \<leftarrow> array_get (mat_array N N f) (j * N + i); q \<leftarrow> array_get q0 i; Some (t + p * q) }) t0;
               array_put q0 j t }) (?st 0) = Some (?st N)"
  proof (rule for_up_states [where \<alpha> = ?st])
    fix j assume j: "0 \<le> j" "j < N"
    let ?g = "\<lambda>i. if i < j then ?y i else f i k"
    let ?a = "if j > k then j else k + 1"
    let ?t0 = "if j > k then 0 else f j k"
    have loop: "for_up ?a N (\<lambda>i t. do { p \<leftarrow> array_get (mat_array N N f) (j * N + i); q \<leftarrow> array_get (vec_array N ?g) i;
        Some (t + p * q) }) ?t0 = Some (?t0 + (\<Sum>i=?a..<N. f j i * ?g i))"
      by (rule inner_loop_0) (use j k in auto)
    have "(\<Sum>i=?a..<N. f j i * ?g i) = (\<Sum>i=?a..<N. f j i * f i k)"
      by (rule sum.cong) (auto split: if_splits)
    then have y: "?t0 + (\<Sum>i=?a..<N. f j i * ?g i) = ?y j"
      by (simp add: mult_step_def with_column_def)
    have t0: "(if j > k then Some 0 else array_get (vec_array N ?g) j) = Some ?t0"
      using j by (simp add: cell_simps)
    have "vec_array N (?g(j := ?y j)) = ?st (Suc j)"
      by (intro vec_array_cong) auto
    then show "do {
               t0 \<leftarrow> (if j > k then Some 0 else array_get (?st j) j);
               t \<leftarrow> for_up ?a N
                      (\<lambda>i t. do { p \<leftarrow> array_get (mat_array N N f) (j * N + i); q \<leftarrow> array_get (?st j) i; Some (t + p * q) }) t0;
               array_put (?st j) j t } = Some (?st (Suc j))"
      unfolding t0 using loop j by (simp add: y put_vec_array)
  qed simp
  have "vec_array N (\<lambda>i. if i < N then f i k else g i) = ?st 0" "?st N = vec_array N ?y"
    "mat_array N N (with_column k (\<lambda>r. if r < N then ?y r else f r k) f) = mat_array N N (mult_step N k f)"
    by (intro vec_array_cong mat_array_cong; simp add: mult_step_def with_column_def)+
  then show ?thesis using work k
    by (simp add: load_mat_column store_mat_column)
qed

lemma multiply_array:
  assumes "length q0 = N"
  shows "yields (mi_multiply N (mat_array N N f, q0))
    (\<lambda>(A, q0). A = mat_array N N (fold (mult_step N) [0..<N - 1] f) \<and> length q0 = N)"
  unfolding mi_multiply_def
proof (rule for_up_rule [where
    I = "\<lambda>j (A, q0). A = mat_array N N (fold (mult_step N) [0..<j] f) \<and> length q0 = N"], goal_cases)
  case (3 k s)
  then obtain q0 where s: "s = (mat_array N N (fold (mult_step N) [0..<k] f), q0)" and q0: "length q0 = N"
    by auto
  show ?case
    using multiply_round [OF 3(2), of "fold (mult_step N) [0..<k] f" "(!) q0"] vec_array_nth [of q0] q0
    by (simp add: s)
qed (use assms in auto)

section \<open>The inverses of the two factors\<close>

definition mprod :: "nat \<Rightarrow> (nat \<Rightarrow> nat \<Rightarrow> 'a::linordered_field) \<Rightarrow> (nat \<Rightarrow> nat \<Rightarrow> 'a) \<Rightarrow> nat \<Rightarrow> nat \<Rightarrow> 'a" where
  "mprod N f g r c = (\<Sum>k<N. f r k * g k c)"

definition is_one :: "nat \<Rightarrow> (nat \<Rightarrow> nat \<Rightarrow> 'a::linordered_field) \<Rightarrow> bool" where
  "is_one N f \<longleftrightarrow> (\<forall>r<N. \<forall>c<N. f r c = (if r = c then 1 else 0))"

lemma mprod_assoc: "mprod N (mprod N f g) h = mprod N f (mprod N g h)"
proof (intro ext)
  fix r c
  have "mprod N (mprod N f g) h r c = (\<Sum>k<N. \<Sum>i<N. f r i * (g i k * h k c))"
    by (simp add: mprod_def sum_distrib_right mult.assoc)
  also have "\<dots> = (\<Sum>i<N. \<Sum>k<N. f r i * (g i k * h k c))" by (rule sum.swap)
  also have "\<dots> = mprod N f (mprod N g h) r c" by (simp add: mprod_def sum_distrib_left)
  finally show "mprod N (mprod N f g) h r c = mprod N f (mprod N g h) r c" .
qed

lemma mprod_cong:
  "(\<And>k. k < N \<Longrightarrow> f r k = f' r k) \<Longrightarrow> (\<And>k. k < N \<Longrightarrow> g k c = g' k c) \<Longrightarrow> mprod N f g r c = mprod N f' g' r c"
  unfolding mprod_def by (rule sum.cong) auto

lemma mprod_one_left:
  assumes "is_one N e" and "r < N" shows "mprod N e g r c = g r c"
proof -
  have "mprod N e g r c = (\<Sum>k<N. if k = r then g r c else 0)"
    unfolding mprod_def by (rule sum.cong) (use assms in \<open>auto simp: is_one_def\<close>)
  with assms(2) show ?thesis by simp
qed

lemma mprod_one_right:
  assumes "is_one N e" and "c < N" shows "mprod N g e r c = g r c"
proof -
  have "mprod N g e r c = (\<Sum>k<N. if k = c then g r c else 0)"
    unfolding mprod_def by (rule sum.cong) (use assms in \<open>auto simp: is_one_def\<close>)
  with assms(2) show ?thesis by simp
qed

lemma mprod_is_one_chain:
  assumes xl: "is_one N (mprod N x l)" and wu: "is_one N (mprod N w u)"
  shows "is_one N (mprod N (mprod N w x) (mprod N l u))"
  unfolding is_one_def
proof (intro allI impI)
  fix r c assume rc: "r < N" "c < N"
  have "mprod N (mprod N w x) (mprod N l u) r c = mprod N w (mprod N (mprod N x l) u) r c"
    by (simp add: mprod_assoc)
  also have "\<dots> = mprod N w u r c"
    by (rule mprod_cong) (use xl in \<open>auto simp: mprod_one_left\<close>)
  finally show "mprod N (mprod N w x) (mprod N l u) r c = (if r = c then 1 else 0)"
    using wu rc by (simp add: is_one_def)
qed

text \<open>The factors that a decomposed matrix holds: below the diagonal, and from the inverted diagonal on.\<close>

definition lower_of :: "(nat \<Rightarrow> nat \<Rightarrow> 'a::linordered_field) \<Rightarrow> nat \<Rightarrow> nat \<Rightarrow> 'a" where
  "lower_of f r k = (if k < r then f r k else if k = r then 1 else 0)"

definition upper_of :: "(nat \<Rightarrow> nat \<Rightarrow> 'a::linordered_field) \<Rightarrow> nat \<Rightarrow> nat \<Rightarrow> 'a" where
  "upper_of f k c = (if k < c then f k c else if k = c then 1 / f k k else 0)"

text \<open>The same parts without the inversion of the diagonal, as they are after the inversions.\<close>

definition upper_part :: "(nat \<Rightarrow> nat \<Rightarrow> 'a::linordered_field) \<Rightarrow> nat \<Rightarrow> nat \<Rightarrow> 'a" where
  "upper_part f k c = (if k \<le> c then f k c else 0)"

lemma sum_lessThan_split:
  fixes f :: "nat \<Rightarrow> 'b::comm_monoid_add"
  assumes "\<And>k. k < a \<Longrightarrow> f k = 0" and "\<And>k. b \<le> k \<Longrightarrow> k < N \<Longrightarrow> f k = 0" and "a \<le> b" and "b \<le> N"
  shows "(\<Sum>k<N. f k) = (\<Sum>k=a..<b. f k)"
  by (rule sum.mono_neutral_right) (use assms in auto)

lemma fold_with_columns:
  assumes "\<And>j f r. j \<in> set js \<Longrightarrow> c \<noteq> j \<Longrightarrow> step j f r c = f r c" and "c \<notin> set js"
  shows "fold step js f r c = f r c"
  using assms by (induction js arbitrary: f) auto

lemma upper_fold:
  assumes "n \<le> N"
  shows "(\<forall>r c. n \<le> c \<or> c \<le> r \<longrightarrow> fold upper_step [1..<n] f r c = f r c) \<and>
    (\<forall>r c. c < n \<longrightarrow> r < c \<longrightarrow>
       fold upper_step [1..<n] f r c = - (\<Sum>i=r..<c. fold upper_step [1..<n] f r i * f i c))"
  using assms
proof (induction n)
  case 0
  then show ?case by simp
next
  case (Suc n)
  let ?f = "fold upper_step [1..<n] f"
  from Suc have IH: "\<And>r c. n \<le> c \<or> c \<le> r \<Longrightarrow> ?f r c = f r c"
    "\<And>r c. c < n \<Longrightarrow> r < c \<Longrightarrow> ?f r c = - (\<Sum>i=r..<c. ?f r i * f i c)" by auto
  show ?case
  proof (cases "n = 0")
    case True
    then show ?thesis by simp
  next
    case False
    then have step: "fold upper_step [1..<Suc n] f = upper_step n ?f" by simp
    have same: "upper_step n ?f r c = ?f r c" if "c \<noteq> n \<or> n \<le> r" for r c
      using that by (auto simp: upper_step_def with_column_def)
    have "upper_step n ?f r c = f r c" if "Suc n \<le> c \<or> c \<le> r" for r c
      using that IH(1) [of c r] same [of c r] by force
    moreover have "upper_step n ?f r c = - (\<Sum>i=r..<c. upper_step n ?f r i * f i c)" if "c < Suc n" "r < c" for r c
    proof -
      have "(\<Sum>i=r..<c. upper_step n ?f r i * f i c) = (\<Sum>i=r..<c. ?f r i * f i c)"
        by (rule sum.cong, simp) (use that same in \<open>metis atLeastLessThan_iff less_SucE less_trans nat_neq_iff\<close>)
      then show ?thesis
        using IH that same by (cases "c = n") (auto simp: upper_step_def with_column_def intro!: sum.cong)
    qed
    ultimately show ?thesis unfolding step by blast
  qed
qed

lemma lower_fold:
  assumes "n \<le> M"
  shows "(\<forall>r c. c < n \<or> M \<le> c \<or> r \<le> c \<longrightarrow> fold lower_step (rev [n..<M]) f r c = f r c) \<and>
    (\<forall>r c. n \<le> c \<longrightarrow> c < M \<longrightarrow> c < r \<longrightarrow> fold lower_step (rev [n..<M]) f r c
       = - f r c - (\<Sum>i=c+1..<r. (if i < M then fold lower_step (rev [n..<M]) f r i else f r i) * f i c))"
  using assms
proof (induction "M - n" arbitrary: n)
  case 0
  then show ?case by auto
next
  case (Suc d)
  let ?f = "fold lower_step (rev [Suc n..<M]) f"
  from Suc have n: "n < M" by simp
  have IH: "\<And>r c. c < Suc n \<or> M \<le> c \<or> r \<le> c \<Longrightarrow> ?f r c = f r c"
    "\<And>r c. Suc n \<le> c \<Longrightarrow> c < M \<Longrightarrow> c < r \<Longrightarrow>
       ?f r c = - f r c - (\<Sum>i=c+1..<r. (if i < M then ?f r i else f r i) * f i c)"
    using Suc.hyps(1) [of "Suc n"] Suc.hyps(2) n by auto
  have step: "fold lower_step (rev [n..<M]) f = lower_step n ?f"
    using n by (simp add: upt_rec [of n])
  have same: "lower_step n ?f r c = ?f r c" if "c \<noteq> n \<or> r \<le> n" for r c
    using that by (auto simp: lower_step_def with_column_def)
  have "lower_step n ?f r c = f r c" if "c < n \<or> M \<le> c \<or> r \<le> c" for r c
    using that IH(1) [of c r] same [of c r] n by force
  moreover have "lower_step n ?f r c
      = - f r c - (\<Sum>i=c+1..<r. (if i < M then lower_step n ?f r i else f r i) * f i c)"
    if c: "n \<le> c" "c < M" "c < r" for r c
  proof -
    have eq: "(\<Sum>i=c+1..<r. (if i < M then lower_step n ?f r i else f r i) * f i c)
        = (\<Sum>i=c+1..<r. (if i < M then ?f r i else f r i) * f i c)"
      by (rule sum.cong) (use c in \<open>auto simp: same\<close>)
    show ?thesis
    proof (cases "c = n")
      case True
      have "(\<Sum>i=n+1..<r. ?f r i * ?f i n) = (\<Sum>i=n+1..<r. (if i < M then ?f r i else f r i) * f i n)"
        by (rule sum.cong) (use IH(1) in auto)
      then show ?thesis unfolding eq using c True IH(1) [of n r]
        by (simp add: lower_step_def with_column_def)
    next
      case False
      then show ?thesis unfolding eq using c IH(2) same by simp
    qed
  qed
  ultimately show ?case unfolding step by blast
qed

lemma mult_fold:
  assumes "n \<le> N"
  shows "fold (mult_step N) [0..<n] f r c =
    (if c < n then if c < r then (\<Sum>i=r..<N. f r i * f i c) else f r c + (\<Sum>i=c+1..<N. f r i * f i c) else f r c)"
  using assms
proof (induction n arbitrary: r c)
  case 0
  then show ?case by simp
next
  case (Suc n)
  let ?f = "fold (mult_step N) [0..<n] f"
  have IH: "\<And>r c. ?f r c =
    (if c < n then if c < r then (\<Sum>i=r..<N. f r i * f i c) else f r c + (\<Sum>i=c+1..<N. f r i * f i c) else f r c)"
    using Suc by simp
  have "fold (mult_step N) [0..<Suc n] f r c = mult_step N n ?f r c" by simp
  also have "\<dots> = (if c = n then if n < r then (\<Sum>i=r..<N. f r i * f i n)
       else f r n + (\<Sum>i=n+1..<N. f r i * f i n) else ?f r c)"
  proof -
    have "(\<Sum>i=r..<N. ?f r i * ?f i n) = (\<Sum>i=r..<N. f r i * f i n)" if "n < r"
      by (rule sum.cong) (use that IH in auto)
    moreover have "(\<Sum>i=n+1..<N. ?f r i * ?f i n) = (\<Sum>i=n+1..<N. f r i * f i n)"
      by (rule sum.cong) (use IH in auto)
    moreover have "?f r n = f r n" using IH by simp
    ultimately show ?thesis by (simp add: mult_step_def with_column_def)
  qed
  finally show ?case using IH [of r c] by (auto simp: less_Suc_eq)
qed

text \<open>The matrix after the inversion of both parts, and after their multiplication.\<close>

definition inverted :: "nat \<Rightarrow> (nat \<Rightarrow> nat \<Rightarrow> 'a::linordered_field) \<Rightarrow> nat \<Rightarrow> nat \<Rightarrow> 'a" where
  "inverted N g = fold lower_step (rev [0..<N - 1])
     (fold upper_step [1..<N] (\<lambda>r c. if r < c then g r c * g c c else g r c))"

definition combined :: "nat \<Rightarrow> (nat \<Rightarrow> nat \<Rightarrow> 'a::linordered_field) \<Rightarrow> nat \<Rightarrow> nat \<Rightarrow> 'a" where
  "combined N g = fold (mult_step N) [0..<N - 1] (inverted N g)"

lemma inverted_entries:
  assumes "r < N" and "c < N"
  shows "r = c \<Longrightarrow> inverted N g r c = g c c"
    and "r < c \<Longrightarrow> inverted N g r c = - (\<Sum>i=r..<c. inverted N g r i * (g i c * g c c))"
    and "c < r \<Longrightarrow> inverted N g r c = - g r c - (\<Sum>i=c+1..<r. inverted N g r i * g i c)"
proof -
  let ?h0 = "\<lambda>r c. if r < c then g r c * g c c else g r c"
  let ?h1 = "fold upper_step [1..<N] ?h0"
  have U: "c < N \<Longrightarrow> r < c \<Longrightarrow> ?h1 r c = - (\<Sum>i=r..<c. ?h1 r i * ?h0 i c)"
    "c \<le> r \<Longrightarrow> ?h1 r c = ?h0 r c" for r c
    using upper_fold [of N N ?h0] by auto
  have L: "r \<le> c \<Longrightarrow> inverted N g r c = ?h1 r c"
    "c < N - 1 \<Longrightarrow> c < r \<Longrightarrow> inverted N g r c
       = - ?h1 r c - (\<Sum>i=c+1..<r. (if i < N - 1 then inverted N g r i else ?h1 r i) * ?h1 i c)" for r c
    using lower_fold [of 0 "N - 1" ?h1] unfolding inverted_def [symmetric] by auto
  show "r = c \<Longrightarrow> inverted N g r c = g c c" using L(1) U(2) by simp
  show "inverted N g r c = - (\<Sum>i=r..<c. inverted N g r i * (g i c * g c c))" if "r < c"
  proof -
    have "(\<Sum>i=r..<c. inverted N g r i * (g i c * g c c)) = (\<Sum>i=r..<c. ?h1 r i * ?h0 i c)"
      by (rule sum.cong) (use L(1) in auto)
    then show ?thesis using that assms L(1) [of r c] U(1) [of c r] by simp
  qed
  show "inverted N g r c = - g r c - (\<Sum>i=c+1..<r. inverted N g r i * g i c)" if "c < r"
  proof -
    have "(\<Sum>i=c+1..<r. inverted N g r i * g i c)
        = (\<Sum>i=c+1..<r. (if i < N - 1 then inverted N g r i else ?h1 r i) * ?h1 i c)"
      by (rule sum.cong) (use that assms U(2) in auto)
    then show ?thesis using that assms L(2) [of c r] U(2) [of c r] by simp
  qed
qed

lemma upper_inverse:
  assumes "\<And>c. c < N \<Longrightarrow> g c c \<noteq> 0"
  shows "is_one N (mprod N (upper_part (inverted N g)) (upper_of g))"
  unfolding is_one_def
proof (intro allI impI)
  fix r c assume rc: "r < N" "c < N"
  let ?w = "inverted N g"
  consider "c < r" | "r = c" | "r < c" by linarith
  then show "mprod N (upper_part ?w) (upper_of g) r c = (if r = c then 1 else 0)"
  proof cases
    case 1
    then show ?thesis by (auto simp: mprod_def upper_part_def upper_of_def intro!: sum.neutral)
  next
    case 2
    have "mprod N (upper_part ?w) (upper_of g) c c = (\<Sum>k=c..<Suc c. upper_part ?w c k * upper_of g k c)"
      unfolding mprod_def by (rule sum_lessThan_split) (use rc in \<open>auto simp: upper_part_def upper_of_def\<close>)
    then show ?thesis
      using rc assms 2 inverted_entries(1) [of c N c g] by (simp add: upper_part_def upper_of_def)
  next
    case 3
    have "mprod N (upper_part ?w) (upper_of g) r c = (\<Sum>k=r..<Suc c. upper_part ?w r k * upper_of g k c)"
      unfolding mprod_def by (rule sum_lessThan_split) (use 3 rc in \<open>auto simp: upper_part_def upper_of_def\<close>)
    also have "\<dots> = (\<Sum>k=r..<c. ?w r k * g k c) + ?w r c * (1 / g c c)"
      using 3 by (simp add: upper_part_def upper_of_def)
    also have "?w r c = - (\<Sum>k=r..<c. ?w r k * g k c) * g c c"
      using inverted_entries(2) [OF rc 3, of g] by (simp add: sum_distrib_right mult.assoc)
    finally show ?thesis using 3 assms rc by simp
  qed
qed

lemma lower_inverse: "is_one N (mprod N (lower_of (inverted N g)) (lower_of g))"
  unfolding is_one_def
proof (intro allI impI)
  fix r c assume rc: "r < N" "c < N"
  let ?x = "inverted N g"
  consider "r < c" | "r = c" | "c < r" by linarith
  then show "mprod N (lower_of ?x) (lower_of g) r c = (if r = c then 1 else 0)"
  proof cases
    case 1
    then show ?thesis by (auto simp: mprod_def lower_of_def intro!: sum.neutral)
  next
    case 2
    have "mprod N (lower_of ?x) (lower_of g) c c = (\<Sum>k=c..<Suc c. lower_of ?x c k * lower_of g k c)"
      unfolding mprod_def by (rule sum_lessThan_split) (use rc in \<open>auto simp: lower_of_def\<close>)
    then show ?thesis using 2 by (simp add: lower_of_def)
  next
    case 3
    have "mprod N (lower_of ?x) (lower_of g) r c = (\<Sum>k=c..<Suc r. lower_of ?x r k * lower_of g k c)"
      unfolding mprod_def by (rule sum_lessThan_split) (use 3 rc in \<open>auto simp: lower_of_def\<close>)
    also have "\<dots> = ?x r c + (\<Sum>k=c+1..<r. ?x r k * g k c) + g r c"
      using 3 by (simp add: lower_of_def sum.atLeast_Suc_lessThan)
    also have "\<dots> = 0" using inverted_entries(3) [OF rc 3, of g] by simp
    finally show ?thesis using 3 by simp
  qed
qed

lemma combined_product:
  assumes rc: "r < N" "c < N"
  shows "combined N g r c = mprod N (upper_part (inverted N g)) (lower_of (inverted N g)) r c"
proof -
  let ?h = "inverted N g"
  have m: "combined N g r c = (if c < N - 1 then if c < r then (\<Sum>i=r..<N. ?h r i * ?h i c)
      else ?h r c + (\<Sum>i=c+1..<N. ?h r i * ?h i c) else ?h r c)"
    unfolding combined_def by (rule mult_fold) simp
  show ?thesis
  proof (cases "c < r")
    case True
    have "mprod N (upper_part ?h) (lower_of ?h) r c = (\<Sum>i=r..<N. upper_part ?h r i * lower_of ?h i c)"
      unfolding mprod_def by (rule sum_lessThan_split) (use rc in \<open>auto simp: upper_part_def\<close>)
    also have "\<dots> = (\<Sum>i=r..<N. ?h r i * ?h i c)"
      by (rule sum.cong) (use True in \<open>auto simp: upper_part_def lower_of_def\<close>)
    finally show ?thesis using True rc m by (simp add: less_diff_conv)
  next
    case False
    have "mprod N (upper_part ?h) (lower_of ?h) r c = (\<Sum>i=c..<N. upper_part ?h r i * lower_of ?h i c)"
      unfolding mprod_def by (rule sum_lessThan_split) (use rc in \<open>auto simp: lower_of_def\<close>)
    also have "\<dots> = ?h r c + (\<Sum>i=c+1..<N. upper_part ?h r i * lower_of ?h i c)"
      using rc False by (simp add: sum.atLeast_Suc_lessThan upper_part_def lower_of_def)
    also have "(\<Sum>i=c+1..<N. upper_part ?h r i * lower_of ?h i c) = (\<Sum>i=c+1..<N. ?h r i * ?h i c)"
      by (rule sum.cong) (use False in \<open>auto simp: upper_part_def lower_of_def\<close>)
    finally show ?thesis using False rc m by (cases "c = N - 1") auto
  qed
qed

text \<open>A left inverse of one of the factors is a right inverse too.\<close>

lemma lower_cancel:
  assumes zero: "\<And>r. r < N \<Longrightarrow> mprod N (lower_of x) e r c = 0"
  shows "r < N \<Longrightarrow> e r c = 0"
proof (induction r rule: less_induct)
  case (less r)
  have "mprod N (lower_of x) e r c = (\<Sum>k=0..<Suc r. lower_of x r k * e k c)"
    unfolding mprod_def by (rule sum_lessThan_split) (use less.prems in \<open>auto simp: lower_of_def\<close>)
  also have "\<dots> = e r c" using less by (simp add: lower_of_def)
  finally show ?case using zero less.prems by simp
qed

lemma upper_cancel:
  assumes zero: "\<And>r. r < N \<Longrightarrow> mprod N (upper_part w) e r c = 0" and diag: "\<And>r. r < N \<Longrightarrow> w r r \<noteq> 0"
  shows "r < N \<Longrightarrow> e r c = 0"
proof (induction "N - r" arbitrary: r rule: less_induct)
  case less
  have "mprod N (upper_part w) e r c = (\<Sum>k=r..<N. upper_part w r k * e k c)"
    unfolding mprod_def by (rule sum_lessThan_split) (use less.prems in \<open>auto simp: upper_part_def\<close>)
  also have "\<dots> = w r r * e r c + (\<Sum>k=r+1..<N. upper_part w r k * e k c)"
    using less.prems by (simp add: sum.atLeast_Suc_lessThan upper_part_def)
  also have "(\<Sum>k=r+1..<N. upper_part w r k * e k c) = 0"
    by (rule sum.neutral) (use less in auto)
  finally show ?case using zero [OF less.prems] diag [OF less.prems] by simp
qed

lemma right_inverse:
  assumes one: "is_one N (mprod N x l)"
    and cancel: "\<And>e c. (\<And>r. r < N \<Longrightarrow> mprod N x e r c = 0) \<Longrightarrow> (\<And>r. r < N \<Longrightarrow> e r c = 0)"
  shows "is_one N (mprod N l x)"
proof -
  define e where "e r c = mprod N l x r c - (if r = c then 1 else 0)" for r c
  have "mprod N x e r c = 0" if "r < N" "c < N" for r c
  proof -
    have "mprod N x e r c = mprod N x (mprod N l x) r c - mprod N x (\<lambda>r c. if r = c then 1 else 0) r c"
      by (simp add: mprod_def e_def right_diff_distrib sum_subtractf)
    also have "mprod N x (mprod N l x) r c = x r c"
      using mprod_one_left [OF one that(1), of x c] by (simp add: mprod_assoc)
    also have "mprod N x (\<lambda>r c. if r = c then 1 else 0) r c = x r c"
      by (rule mprod_one_right) (use that in \<open>auto simp: is_one_def\<close>)
    finally show ?thesis by simp
  qed
  then have "e r c = 0" if "r < N" "c < N" for r c using cancel that by blast
  then show ?thesis by (auto simp: is_one_def e_def)
qed

section \<open>The decomposition\<close>

text \<open>
  The first \<open>j\<close> columns of \<open>f\<close> hold the factors of those of \<open>B\<close>, the others are those of \<open>B\<close>.
\<close>

definition decomposed :: "nat \<Rightarrow> nat \<Rightarrow> (nat \<Rightarrow> nat \<Rightarrow> 'a::linordered_field) \<Rightarrow> (nat \<Rightarrow> nat \<Rightarrow> 'a) \<Rightarrow> bool" where
  "decomposed N j f B \<longleftrightarrow>
     (\<forall>c<j. f c c \<noteq> 0) \<and>
     (\<forall>r<N. \<forall>c<j. B r c = mprod N (lower_of f) (upper_of f) r c) \<and>
     (\<forall>r<N. \<forall>c. j \<le> c \<longrightarrow> c < N \<longrightarrow> f r c = B r c)"

lemma factors_above:
  assumes "r \<le> c" and "c < N"
  shows "mprod N (lower_of f) (upper_of f) r c = (\<Sum>k<r. f r k * f k c) + upper_of f r c"
proof -
  have "mprod N (lower_of f) (upper_of f) r c = (\<Sum>k=0..<Suc r. lower_of f r k * upper_of f k c)"
    unfolding mprod_def by (rule sum_lessThan_split) (use assms in \<open>auto simp: lower_of_def\<close>)
  also have "\<dots> = (\<Sum>k=0..<r. lower_of f r k * upper_of f k c) + upper_of f r c" by (simp add: lower_of_def)
  also have "(\<Sum>k=0..<r. lower_of f r k * upper_of f k c) = (\<Sum>k<r. f r k * f k c)"
    by (rule sum.cong) (use assms in \<open>auto simp: lower_of_def upper_of_def\<close>)
  finally show ?thesis .
qed

lemma factors_below:
  assumes "c < r" and "r < N"
  shows "mprod N (lower_of f) (upper_of f) r c = (\<Sum>k<c. f r k * f k c) + f r c * (1 / f c c)"
proof -
  have "mprod N (lower_of f) (upper_of f) r c = (\<Sum>k=0..<Suc c. lower_of f r k * upper_of f k c)"
    unfolding mprod_def by (rule sum_lessThan_split) (use assms in \<open>auto simp: upper_of_def\<close>)
  also have "\<dots> = (\<Sum>k=0..<c. lower_of f r k * upper_of f k c) + f r c * (1 / f c c)"
    using assms by (simp add: lower_of_def upper_of_def)
  also have "(\<Sum>k=0..<c. lower_of f r k * upper_of f k c) = (\<Sum>k<c. f r k * f k c)"
    by (rule sum.cong) (use assms in \<open>auto simp: lower_of_def upper_of_def\<close>)
  finally show ?thesis .
qed

text \<open>One round of the first loop: reduction of the column, exchange of rows, division by the pivot.\<close>

definition pivoted :: "nat \<Rightarrow> nat \<Rightarrow> (nat \<Rightarrow> nat \<Rightarrow> 'a::linordered_field) \<Rightarrow> nat \<Rightarrow> nat \<Rightarrow> 'a" where
  "pivoted j lc f = (\<lambda>r. with_column j (reduced f j) f (exchange j lc r))"

definition rounded :: "nat \<Rightarrow> nat \<Rightarrow> (nat \<Rightarrow> nat \<Rightarrow> 'a::linordered_field) \<Rightarrow> nat \<Rightarrow> nat \<Rightarrow> 'a" where
  "rounded j lc f = with_column j (\<lambda>r. if r = j then 1 / pivoted j lc f j j
      else if j < r then pivoted j lc f r j * (1 / pivoted j lc f j j) else pivoted j lc f r j) (pivoted j lc f)"

lemma decomposed_round:
  assumes dec: "decomposed N j f B" and j: "j < N" and lc: "j \<le> lc" "lc < N"
    and piv: "reduced f j lc \<noteq> 0"
  shows "decomposed N (Suc j) (rounded j lc f) (\<lambda>r. B (exchange j lc r))"
proof -
  let ?x = "exchange j lc" and ?f = "rounded j lc f"
  have x: "r < j \<Longrightarrow> ?x r = r" "j \<le> r \<Longrightarrow> j \<le> ?x r" "r < N \<Longrightarrow> ?x r < N" for r
    using j lc by (auto simp: exchange_def)
  have other: "?f r c = f (?x r) c" if "c \<noteq> j" for r c
    using that by (simp add: rounded_def pivoted_def with_column_def)
  have col: "?f r j = reduced f j r" if "r < j" for r
    using that by (simp add: rounded_def pivoted_def with_column_def x)
  have diag: "?f j j = 1 / reduced f j lc"
    by (simp add: rounded_def pivoted_def with_column_def exchange_def)
  have below: "?f r j = reduced f j (?x r) * (1 / reduced f j lc)" if "j < r" for r
    using that by (simp add: rounded_def pivoted_def with_column_def exchange_def)
  have B: "B r c = mprod N (lower_of f) (upper_of f) r c" if "r < N" "c < j" for r c
    using dec that by (auto simp: decomposed_def)
  have rest: "f r c = B r c" if "r < N" "j \<le> c" "c < N" for r c
    using dec that by (auto simp: decomposed_def)
  have "?f c c \<noteq> 0" if "c < Suc j" for c
    using that dec piv diag other [of c c] x(1) [of c] by (cases "c = j") (auto simp: decomposed_def)
  moreover have "B (?x r) c = mprod N (lower_of ?f) (upper_of ?f) r c" if r: "r < N" and c: "c < j" for r c
  proof -
    have "lower_of ?f r k * upper_of ?f k c = lower_of f (?x r) k * upper_of f k c" for k
    proof (cases "k \<le> c")
      case True
      with c have "upper_of ?f k c = upper_of f k c" by (auto simp: upper_of_def other x)
      moreover have "lower_of ?f r k = lower_of f (?x r) k"
        using True c x(1) [of r] x(2) [of r] by (cases "r < j") (auto simp: lower_of_def other)
      ultimately show ?thesis by simp
    qed (simp add: upper_of_def)
    then show ?thesis using B [OF x(3) [OF r] c] by (simp add: mprod_def)
  qed
  moreover have "B (?x r) j = mprod N (lower_of ?f) (upper_of ?f) r j" if r: "r < N" for r
  proof -
    have "reduced f j (?x r) = B (?x r) j - (\<Sum>k<min (?x r) j. f (?x r) k * reduced f j k)"
      using rest [OF x(3) [OF r], of j] j by (simp add: reduced.simps [of f j "?x r"])
    then have Bj: "B (?x r) j = (\<Sum>k<min (?x r) j. f (?x r) k * reduced f j k) + reduced f j (?x r)" by simp
    have sums: "(\<Sum>k<m. ?f r k * ?f k j) = (\<Sum>k<m. f (?x r) k * reduced f j k)" if "m \<le> j" for m
      by (rule sum.cong) (use that in \<open>auto simp: other col\<close>)
    consider "r < j" | "r = j" | "j < r" by linarith
    then show ?thesis
    proof cases
      case 1
      then show ?thesis using Bj j sums [of r] by (simp add: factors_above upper_of_def col x)
    next
      case 2
      then have "?x r = lc" by (simp add: exchange_def)
      with 2 show ?thesis using Bj j lc sums [of j] diag by (simp add: factors_above upper_of_def min_def)
    next
      case 3
      have "min (?x r) j = j" using 3 x(2) [of r] by (simp add: min_def)
      with 3 show ?thesis using Bj r sums [of j] piv by (simp add: factors_below diag below)
    qed
  qed
  moreover have "?f r c = B (?x r) c" if "r < N" "Suc j \<le> c" "c < N" for r c
    using that rest [OF x(3) [OF that(1)], of c] by (simp add: other)
  ultimately show ?thesis by (auto simp: decomposed_def less_Suc_eq)
qed

lemma pivot_array:
  assumes j: "j < N"
  shows "yields (mi_pivot N j (mat_array N N f))
    (\<lambda>(s, lc). j \<le> lc \<and> lc < N \<and> s = \<bar>f lc j\<bar> \<and> (\<forall>k. j \<le> k \<longrightarrow> k < N \<longrightarrow> \<bar>f k j\<bar> \<le> s))"
proof -
  have "yields (for_up (j + 1) N (\<lambda>k (s, lc). do { p \<leftarrow> array_get (mat_array N N f) (k * N + j);
      Some (if \<bar>p\<bar> > s then (\<bar>p\<bar>, k) else (s, lc)) }) (\<bar>f j j\<bar>, j))
    ((\<lambda>m (s, lc). j \<le> lc \<and> lc < m \<and> s = \<bar>f lc j\<bar> \<and> (\<forall>k. j \<le> k \<longrightarrow> k < m \<longrightarrow> \<bar>f k j\<bar> \<le> s)) N)"
  proof (rule for_up_rule, goal_cases)
    case (3 i s)
    have "(\<forall>k. j \<le> k \<longrightarrow> k < i \<longrightarrow> \<bar>f k j\<bar> \<le> fst s) \<Longrightarrow> fst s < \<bar>f i j\<bar> \<Longrightarrow>
        \<forall>k. j \<le> k \<longrightarrow> k < i \<longrightarrow> \<bar>f k j\<bar> \<le> \<bar>f i j\<bar>"
      by (meson less_imp_le order.trans)
    with 3 j show ?case by (cases s) (auto simp: cell_simps yields_bind less_Suc_eq)
  qed (use j in \<open>auto simp: less_Suc_eq\<close>)
  then show ?thesis using j by (simp add: mi_pivot_def cell_simps)
qed

text \<open>The rows of the decomposed matrix are those of the given one, exchanged as \<open>le\<close> records.\<close>

definition row_order :: "nat list \<Rightarrow> nat list \<Rightarrow> nat \<Rightarrow> nat" where
  "row_order js le = foldr (\<lambda>j. exchange j (le ! j)) js"

lemma decompose_round:
  assumes dec: "decomposed N j f B" and j: "j < N" and q0: "length q0 = N" and le: "length le = N"
    and tq: "0 \<le> tq" and big: "0 < tq \<or> j = 0 \<and> (\<exists>r<N. B r 0 \<noteq> 0)"
  obtains (small) q1 f1 where "mi_decompose N (j # js) tq (mat_array N N f, q0, le) = Some (False, mat_array N N f1, q1, le)"
  | (next_column) q1 tq1 lc where "length q1 = N" and "0 < tq1" and "j \<le> lc" and "lc < N"
      and "decomposed N (Suc j) (rounded j lc f) (\<lambda>r. B (exchange j lc r))"
      and "mi_decompose N (j # js) tq (mat_array N N f, q0, le)
        = mi_decompose N js tq1 (mat_array N N (rounded j lc f), q1, le[j := lc])"
proof -
  let ?f1 = "with_column j (reduced f j) f"
  have "yields (if 0 < j then mi_reduce_column N j (mat_array N N f, q0) else Some (mat_array N N f, q0))
      (\<lambda>(A, q1). A = mat_array N N ?f1 \<and> length q1 = N)"
  proof (cases "j = 0")
    case True
    have "mat_array N N ?f1 = mat_array N N f"
      by (intro mat_array_cong) (simp add: with_column_def True)
    then show ?thesis using True q0 by simp
  next
    case False
    then show ?thesis using reduce_column_array [OF j, of f "(!) q0"] vec_array_nth [of q0] q0 by simp
  qed
  then obtain q1 where reduce: "(if 0 < j then mi_reduce_column N j (mat_array N N f, q0) else Some (mat_array N N f, q0))
      = Some (mat_array N N ?f1, q1)" and q1: "length q1 = N"
    by (auto simp: yields_def)
  obtain s lc where pivot: "mi_pivot N j (mat_array N N ?f1) = Some (s, lc)" and lc: "j \<le> lc" "lc < N"
    and s: "s = \<bar>?f1 lc j\<bar>" and great: "\<And>k. j \<le> k \<Longrightarrow> k < N \<Longrightarrow> \<bar>?f1 k j\<bar> \<le> s"
    using pivot_array [OF j, of ?f1] by (auto simp: yields_def)
  let ?tq = "if tq > s then tq else s"
  show ?thesis
  proof (cases "s < 1 / 10 ^ 15 * ?tq")
    case True
    then have "mi_decompose N (j # js) tq (mat_array N N f, q0, le) = Some (False, mat_array N N ?f1, q1, le)"
      by (simp add: reduce pivot)
    then show ?thesis by (rule small)
  next
    case False
    have "0 < ?tq"
    proof (cases "0 < tq")
      case False
      with big obtain r where r: "r < N" "B r 0 \<noteq> 0" and "j = 0" by auto
      moreover have "?f1 r j = B r 0"
        using dec r \<open>j = 0\<close> j by (simp add: with_column_def decomposed_def)
      ultimately have "0 < s" using great [of r] by simp
      then show ?thesis using False by auto
    qed auto
    with False have "0 < s" by (auto simp: not_less intro: less_le_trans)
    then have piv: "reduced f j lc \<noteq> 0" using s by (simp add: with_column_def)
    have swap: "mi_swap_rows N j lc (mat_array N N ?f1) = Some (mat_array N N (pivoted j lc f))"
      unfolding pivoted_def by (rule swap_rows_array [OF j lc(2)])
    have scale: "mi_scale N j (mat_array N N (pivoted j lc f)) = Some (mat_array N N (rounded j lc f))"
      unfolding rounded_def by (rule scale_array [OF j])
    have step: "mi_decompose N (j # js) tq (mat_array N N f, q0, le)
        = mi_decompose N js ?tq (mat_array N N (rounded j lc f), q1, le[j := lc])"
      using False j le by (simp add: reduce pivot array_put_def swap scale Let_def)
    show ?thesis by (rule next_column [OF q1 \<open>0 < ?tq\<close> lc decomposed_round [OF dec j lc piv] step])
  qed
qed

lemma decompose_array:
  assumes "decomposed N j f B" and "j \<le> N" and "length q0 = N" and "length le = N"
    and "0 \<le> tq" and "j < N \<Longrightarrow> 0 < tq \<or> j = 0 \<and> (\<exists>r<N. B r 0 \<noteq> 0)"
  shows "yields (mi_decompose N [j..<N] tq (mat_array N N f, q0, le)) (\<lambda>(ok, A, q0', le').
    length A = N * N \<and> (ok \<longrightarrow> (\<exists>g. A = mat_array N N g \<and> length q0' = N \<and> length le' = N \<and>
      (\<forall>i<j. le' ! i = le ! i) \<and> (\<forall>i. j \<le> i \<longrightarrow> i < N \<longrightarrow> i \<le> le' ! i \<and> le' ! i < N) \<and>
      decomposed N N g (\<lambda>r. B (row_order [j..<N] le' r)))))"
  using assms
proof (induction "N - j" arbitrary: j f B q0 le tq)
  case 0
  then show ?case by (auto simp: row_order_def)
next
  case (Suc d)
  then have j: "j < N" and js: "[j..<N] = j # [Suc j..<N]" by (simp_all add: upt_rec)
  show ?case
  proof (rule decompose_round [OF Suc.prems(1) j Suc.prems(3-5) Suc.prems(6) [OF j], of "[Suc j..<N]"], goal_cases)
    case (1 q1 f1)
    then show ?case by (simp add: js)
  next
    case (2 q1 tq1 lc)
    have "yields (mi_decompose N [Suc j..<N] tq1 (mat_array N N (rounded j lc f), q1, le[j := lc])) (\<lambda>(ok, A, q0', le').
      length A = N * N \<and> (ok \<longrightarrow> (\<exists>g. A = mat_array N N g \<and> length q0' = N \<and> length le' = N \<and>
      (\<forall>i<Suc j. le' ! i = le[j := lc] ! i) \<and> (\<forall>i. Suc j \<le> i \<longrightarrow> i < N \<longrightarrow> i \<le> le' ! i \<and> le' ! i < N) \<and>
      decomposed N N g (\<lambda>r. B (exchange j lc (row_order [Suc j..<N] le' r))))))"
      using Suc.hyps(1) [of "Suc j" "rounded j lc f" "\<lambda>r. B (exchange j lc r)" q1 "le[j := lc]" tq1]
        2 Suc.prems(4) Suc.hyps(2) j by auto
    then have "yields (mi_decompose N [j..<N] tq (mat_array N N f, q0, le)) (\<lambda>(ok, A, q0', le').
      length A = N * N \<and> (ok \<longrightarrow> (\<exists>g. A = mat_array N N g \<and> length q0' = N \<and> length le' = N \<and>
      (\<forall>i<Suc j. le' ! i = le[j := lc] ! i) \<and> (\<forall>i. Suc j \<le> i \<longrightarrow> i < N \<longrightarrow> i \<le> le' ! i \<and> le' ! i < N) \<and>
      decomposed N N g (\<lambda>r. B (exchange j lc (row_order [Suc j..<N] le' r))))))"
      unfolding js 2(6) .
    then show ?case
    proof (rule yields_mono, goal_cases)
      case (1 res)
      obtain ok A q0' le' where res: "res = (ok, A, q0', le')" by (cases res)
      show ?case
      proof (cases ok)
        case True
        with 1 obtain g where g: "A = mat_array N N g" "length q0' = N" "length le' = N"
          and before: "\<forall>i<Suc j. le' ! i = le[j := lc] ! i"
          and after: "\<forall>i. Suc j \<le> i \<longrightarrow> i < N \<longrightarrow> i \<le> le' ! i \<and> le' ! i < N"
          and dec: "decomposed N N g (\<lambda>r. B (exchange j lc (row_order [Suc j..<N] le' r)))"
          by (auto simp: res)
        have lej: "le' ! j = lc" using before j Suc.prems(4) by simp
        have "row_order [j..<N] le' r = exchange j lc (row_order [Suc j..<N] le' r)" for r
          by (simp add: js row_order_def lej del: upt_Suc)
        moreover have "\<forall>i<j. le' ! i = le ! i" using before by auto
        moreover have "i \<le> le' ! i \<and> le' ! i < N" if "j \<le> i" "i < N" for i
          using after that lej 2(3,4) by (cases "i = j") auto
        ultimately show ?thesis using g dec by (auto simp: res)
      qed (use 1 in \<open>simp add: res\<close>)
    qed
  qed
qed

lemma row_order_facts:
  assumes "\<And>j. j \<in> set js \<Longrightarrow> j < N \<and> le ! j < N" and "r < N"
  shows "row_order js le r < N" and "fold (\<lambda>j. exchange j (le ! j)) js (row_order js le r) = r"
  using assms by (induction js arbitrary: r) (auto simp: row_order_def exchange_less)

text \<open>The inverse of a matrix from its factors, with the columns put back in order.\<close>

lemma reordered_inverse:
  assumes left: "is_one N (mprod N h (\<lambda>r c. a (\<sigma> r) c))" and right: "is_one N (mprod N (\<lambda>r c. a (\<sigma> r) c) h)"
    and \<sigma>: "\<And>r. r < N \<Longrightarrow> \<sigma> r < N" and \<tau>: "\<And>r. r < N \<Longrightarrow> \<tau> (\<sigma> r) = r"
  shows "is_one N (mprod N (\<lambda>r c. h r (\<tau> c)) a)" and "is_one N (mprod N a (\<lambda>r c. h r (\<tau> c)))"
proof -
  have inj: "inj_on \<sigma> {..<N}" using \<tau> by (metis inj_onI lessThan_iff)
  have img: "\<sigma> ` {..<N} = {..<N}"
    by (rule card_seteq) (use \<sigma> inj in \<open>auto simp: card_image\<close>)
  have \<tau>N: "\<tau> c < N \<and> \<sigma> (\<tau> c) = c" if c: "c < N" for c
  proof -
    from c img obtain r where "r < N" "c = \<sigma> r" by (metis imageE lessThan_iff)
    then show ?thesis using \<tau> by simp
  qed
  show "is_one N (mprod N (\<lambda>r c. h r (\<tau> c)) a)" unfolding is_one_def
  proof (intro allI impI)
    fix r c assume rc: "r < N" "c < N"
    have "mprod N (\<lambda>r c. h r (\<tau> c)) a r c = (\<Sum>k\<in>\<sigma> ` {..<N}. h r (\<tau> k) * a k c)"
      by (simp add: mprod_def img)
    also have "\<dots> = (\<Sum>k<N. h r (\<tau> (\<sigma> k)) * a (\<sigma> k) c)"
      by (simp add: sum.reindex [OF inj])
    also have "\<dots> = mprod N h (\<lambda>r c. a (\<sigma> r) c) r c"
      unfolding mprod_def by (rule sum.cong) (use \<tau> in auto)
    finally show "mprod N (\<lambda>r c. h r (\<tau> c)) a r c = (if r = c then 1 else 0)"
      using left rc by (simp add: is_one_def)
  qed
  show "is_one N (mprod N a (\<lambda>r c. h r (\<tau> c)))" unfolding is_one_def
  proof (intro allI impI)
    fix r c assume rc: "r < N" "c < N"
    have "mprod N a (\<lambda>r c. h r (\<tau> c)) r c = mprod N (\<lambda>r c. a (\<sigma> r) c) h (\<tau> r) (\<tau> c)"
      using \<tau>N rc by (simp add: mprod_def)
    also have "\<dots> = (if \<tau> r = \<tau> c then 1 else 0)" using right \<tau>N rc by (simp add: is_one_def)
    also have "\<dots> = (if r = c then 1 else 0)" using \<tau>N rc by metis
    finally show "mprod N a (\<lambda>r c. h r (\<tau> c)) r c = (if r = c then 1 else 0)" .
  qed
qed

lemma decomposed_inverse:
  assumes dec: "decomposed N N g B"
  shows "is_one N (mprod N (combined N g) B)" and "is_one N (mprod N B (combined N g))"
proof -
  let ?h = "inverted N g"
  have diag: "c < N \<Longrightarrow> g c c \<noteq> 0" for c using dec by (simp add: decomposed_def)
  have B: "B r c = mprod N (lower_of g) (upper_of g) r c" if "r < N" "c < N" for r c
    using dec that by (simp add: decomposed_def)
  have wu: "is_one N (mprod N (upper_part ?h) (upper_of g))" by (rule upper_inverse) (rule diag)
  have xl: "is_one N (mprod N (lower_of ?h) (lower_of g))" by (rule lower_inverse)
  have "?h r r \<noteq> 0" if "r < N" for r using inverted_entries(1) [of r N r g] diag that by simp
  then have uw: "is_one N (mprod N (upper_of g) (upper_part ?h))"
    using upper_cancel [of N ?h] by (intro right_inverse [OF wu]) blast
  have lx: "is_one N (mprod N (lower_of g) (lower_of ?h))"
    using lower_cancel [of N ?h] by (intro right_inverse [OF xl]) blast
  have "mprod N (combined N g) B r c = mprod N (mprod N (upper_part ?h) (lower_of ?h)) (mprod N (lower_of g) (upper_of g)) r c"
    if "r < N" "c < N" for r c
    by (rule mprod_cong) (use that B combined_product in auto)
  then show "is_one N (mprod N (combined N g) B)"
    using mprod_is_one_chain [OF xl wu] by (simp add: is_one_def)
  have "mprod N B (combined N g) r c = mprod N (mprod N (lower_of g) (upper_of g)) (mprod N (upper_part ?h) (lower_of ?h)) r c"
    if "r < N" "c < N" for r c
    by (rule mprod_cong) (use that B combined_product in auto)
  then show "is_one N (mprod N B (combined N g))"
    using mprod_is_one_chain [OF uw lx] by (simp add: is_one_def)
qed

lemma MatInvert_cases:
  assumes A: "length A = N * N" and q0: "length q0 = N" and le: "length le = N"
    and column: "\<exists>r<N. mat_entry A N r 0 \<noteq> 0"
  obtains (rejected) A' where "MatInvert N le q0 A = Some (-1, A')" and "length A' = N * N"
  | (inverted) R where "MatInvert N le q0 A = Some (0, R)" and "length R = N * N"
      and "is_one N (mprod N (mat_entry R N) (mat_entry A N))" and "is_one N (mprod N (mat_entry A N) (mat_entry R N))"
proof -
  let ?a = "mat_entry A N"
  have "decomposed N 0 ?a ?a" by (simp add: decomposed_def)
  from decompose_array [OF this _ q0 le order_refl] column
  have "yields (mi_decompose N [0..<N] 0 (mat_array N N ?a, q0, le)) (\<lambda>(ok, A', q1, le').
    length A' = N * N \<and> (ok \<longrightarrow> (\<exists>g. A' = mat_array N N g \<and> length q1 = N \<and> length le' = N \<and>
      (\<forall>i<0. le' ! i = le ! i) \<and> (\<forall>i. 0 \<le> i \<longrightarrow> i < N \<longrightarrow> i \<le> le' ! i \<and> le' ! i < N) \<and>
      decomposed N N g (\<lambda>r. ?a (row_order [0..<N] le' r)))))" by simp
  then have "yields (mi_decompose N [0..<N] 0 (A, q0, le)) (\<lambda>(ok, A', q1, le').
    length A' = N * N \<and> (ok \<longrightarrow> (\<exists>g. A' = mat_array N N g \<and> length q1 = N \<and> length le' = N \<and>
      (\<forall>i<N. i \<le> le' ! i \<and> le' ! i < N) \<and> decomposed N N g (\<lambda>r. ?a (row_order [0..<N] le' r)))))"
    (is "yields _ ?Q") unfolding mat_array_entries [OF A] by simp
  then obtain res where run0: "mi_decompose N [0..<N] 0 (A, q0, le) = Some res" and "?Q res"
    by (rule yieldsE)
  moreover obtain ok A' q1 le' where "res = (ok, A', q1, le')" by (cases res)
  ultimately have run: "mi_decompose N [0..<N] 0 (A, q0, le) = Some (ok, A', q1, le')" and len: "length A' = N * N" and
    good: "ok \<Longrightarrow> \<exists>g. A' = mat_array N N g \<and> length q1 = N \<and> length le' = N \<and>
      (\<forall>i<N. i \<le> le' ! i \<and> le' ! i < N) \<and> decomposed N N g (\<lambda>r. ?a (row_order [0..<N] le' r))"
    by simp_all
  show ?thesis
  proof (cases ok)
    case False
    then show ?thesis using run len by (intro rejected [of A']) (simp_all add: MatInvert_def)
  next
    case True
    with good obtain g where A': "A' = mat_array N N g" and q1: "length q1 = N" and le': "length le' = N"
      and le'_N: "\<And>i. i < N \<Longrightarrow> i \<le> le' ! i \<and> le' ! i < N"
      and dec: "decomposed N N g (\<lambda>r. ?a (row_order [0..<N] le' r))" by auto
    let ?h0 = "\<lambda>r c. if r < c then g r c * g c c else g r c"
    obtain q2 where up: "mi_invert_upper N (mat_array N N ?h0, q1) = Some (mat_array N N (fold upper_step [1..<N] ?h0), q2)"
      and q2: "length q2 = N" using invert_upper_array [OF q1, of ?h0] by (auto simp: yields_def)
    obtain q3 where low: "mi_invert_lower N (mat_array N N (fold upper_step [1..<N] ?h0), q2)
        = Some (mat_array N N (inverted N g), q3)" and q3: "length q3 = N"
      using invert_lower_array [OF q2, of "fold upper_step [1..<N] ?h0"] unfolding inverted_def by (auto simp: yields_def)
    obtain q4 where mul: "mi_multiply N (mat_array N N (inverted N g), q3) = Some (mat_array N N (combined N g), q4)"
      using multiply_array [OF q3, of "inverted N g"] unfolding combined_def by (auto simp: yields_def)
    let ?\<tau> = "fold (\<lambda>j. exchange j (le' ! j)) [0..<N - 1]"
    let ?R = "mat_array N N (\<lambda>r c. combined N g r (?\<tau> c))"
    have cols: "mi_swap_columns N le' (mat_array N N (combined N g)) = Some ?R"
      by (rule swap_columns_array) (use le' le'_N in auto)
    have res: "MatInvert N le q0 A = Some (0, ?R)"
      using run True by (simp add: MatInvert_def A' scale_upper_array up low mul cols del: One_nat_def)
    have \<tau>: "?\<tau> (row_order [0..<N] le' r) = r" if r: "r < N" for r
    proof -
      have last: "le' ! (N - 1) = N - 1" using le'_N [of "N - 1"] r by auto
      have "fold (\<lambda>j. exchange j (le' ! j)) [0..<N] c = ?\<tau> c" for c
        using r last by (cases N) auto
      then show ?thesis using row_order_facts(2) [of "[0..<N]" N le' r] le'_N r by simp
    qed
    have one: "is_one N (mprod N (\<lambda>r c. combined N g r (?\<tau> c)) ?a)"
      "is_one N (mprod N ?a (\<lambda>r c. combined N g r (?\<tau> c)))"
      using reordered_inverse [of N "combined N g" ?a "row_order [0..<N] le'" ?\<tau>]
        decomposed_inverse [OF dec] row_order_facts(1) [of "[0..<N]" N le'] le'_N \<tau> by auto
    have "is_one N (mprod N (mat_entry ?R N) ?a)" "is_one N (mprod N ?a (mat_entry ?R N))"
      using one by (simp_all add: is_one_def mprod_def)
    then show ?thesis by (intro inverted [OF res]) simp_all
  qed
qed

lemma LSLinearSolve_accepts:
  assumes "mi_decompose M [0..<M] 0 (A, q0, le) = Some (True, A1, q1, le1)"
    and "LSLinearSolve M le q0 Y A X = Some (ok, A', X')"
  shows "ok"
proof -
  have "r = 0" if "MatInvert M le q0 A = Some (r, R)" for r R
    using assms(1) that by (auto simp: MatInvert_def split: bind_splits)
  with assms(2) show ?thesis
    by (auto simp: LSLinearSolve_def split: bind_splits if_splits)
qed

section \<open>Properties\<close>

lemma row_times_column_mprod:
  "row_times_column A B L N j i = (\<Sum>k<L. mat_entry A L j k * mat_entry (B::'a::linordered_field list) N k i)"
proof -
  have "foldl (\<lambda>z k. z + f k) (0::'a) [0..<n] = (\<Sum>k<n. f k)" for f n
    by (induction n) auto
  then show ?thesis by (simp add: row_times_column_def)
qed

definition identity :: "nat \<Rightarrow> 'a::linordered_field list" where
  "identity N = mat_array N N (\<lambda>i j. if i = j then 1 else 0)"

lemma product_is_identity:
  assumes "length A = N * N" and "length B = N * N" and "length P = N * N"
    and "is_one N (mprod N (mat_entry A N) (mat_entry B N))"
  shows "MatRealMult N N N A B P = Some (identity N)"
  using assms
  by (auto simp: MatRealMult_eq row_times_column_mprod identity_def is_one_def mprod_def intro!: mat_array_cong)

lemma sample_inverse: "MatInvert 2 [0, 0] [0, 0] [2, 1, 1, 1::real] = Some (0, [1, -1, -1, 2])"
  by (simp add: MatInvert_def mi_reduce_column_def mi_pivot_def mi_swap_rows_def mi_scale_def mi_scale_upper_def
      mi_invert_upper_def mi_invert_lower_def mi_multiply_def mi_swap_columns_def array_swap_def
      for_up_def for_down_def array_get_def array_put_def upt_rec Let_def)



lemma LSLinearSolve_cases:
  assumes A: "length A = M * M" and q0: "length q0 = M" and le: "length le = M" and X: "length X = M"
    and Y: "M \<le> length Y" and column: "\<exists>r<M. mat_entry A M r 0 \<noteq> 0"
  obtains (rejected) A' where "LSLinearSolve M le q0 Y A X = Some (False, A', X)"
  | (solved) R C where "LSLinearSolve M le q0 Y A X = Some (True, R, C)" and "length C = M"
      and "\<And>i. i < M \<Longrightarrow> (\<Sum>j<M. mat_entry A M i j * C ! j) = Y ! i"
      and "\<And>D i. (\<And>i. i < M \<Longrightarrow> (\<Sum>j<M. mat_entry A M i j * D j) = Y ! i) \<Longrightarrow> i < M \<Longrightarrow> D i = C ! i"
proof (rule MatInvert_cases [OF A q0 le column])
  fix A' assume "MatInvert M le q0 A = Some (-1, A')"
  then show ?thesis by (intro rejected [of A']) (simp add: LSLinearSolve_def)
next
  fix R assume inv: "MatInvert M le q0 A = Some (0, R)" and R: "length R = M * M"
    and RA: "is_one M (mprod M (mat_entry R M) (mat_entry A M))"
    and AR: "is_one M (mprod M (mat_entry A M) (mat_entry R M))"
  let ?C = "mat_array M 1 (row_times_column R Y M 1)"
  have C: "?C ! i = mprod M (mat_entry R M) (\<lambda>j c. Y ! j) i 0" if "i < M" for i
    using that nth_mat_array [of i M 0 1 "row_times_column R Y M 1"]
    by (simp add: row_times_column_mprod mprod_def mat_entry_def [of Y])
  have "LSLinearSolve M le q0 Y A X = Some (True, R, ?C)"
    using inv R X Y by (simp add: LSLinearSolve_def MatRealMult_eq)
  moreover have "(\<Sum>j<M. mat_entry A M i j * ?C ! j) = Y ! i" if i: "i < M" for i
  proof -
    have "(\<Sum>j<M. mat_entry A M i j * ?C ! j) = mprod M (mat_entry A M) (mprod M (mat_entry R M) (\<lambda>j c. Y ! j)) i 0"
      unfolding mprod_def [of M "mat_entry A M"] by (rule sum.cong) (use C in simp_all)
    then show ?thesis using mprod_one_left [OF AR i, of "\<lambda>j c. Y ! j" 0] by (simp add: mprod_assoc)
  qed
  moreover have "D i = ?C ! i" if D: "\<And>i. i < M \<Longrightarrow> (\<Sum>j<M. mat_entry A M i j * D j) = Y ! i" and i: "i < M" for D i
  proof -
    have "D i = mprod M (mprod M (mat_entry R M) (mat_entry A M)) (\<lambda>j c. D j) i 0"
      by (simp add: mprod_one_left [OF RA i, of "\<lambda>j c. D j" 0])
    also have "\<dots> = mprod M (mat_entry R M) (mprod M (mat_entry A M) (\<lambda>j c. D j)) i 0" by (simp add: mprod_assoc)
    also have "\<dots> = mprod M (mat_entry R M) (\<lambda>j c. Y ! j) i 0"
      by (rule mprod_cong) (use D in \<open>auto simp: mprod_def\<close>)
    finally show ?thesis using C [OF i] by simp
  qed
  ultimately show ?thesis by (intro solved [of R ?C]) auto
qed

text \<open>
  \<open>LSLinearSolve\<close> returns the only solution of the linear system, or false without touching the
  result array, for every matrix whose first column is not zero.
\<close>

theorem linear_system_solved:
  assumes "length A = M * M" and "length q0 = M" and "length le = M" and "length X = M" and "length Y = M"
    and "\<exists>r<M. mat_entry A M r 0 \<noteq> 0"
  shows "(\<exists>A'. LSLinearSolve M le q0 Y A X = Some (False, A', X)) \<or>
    (\<exists>R C. LSLinearSolve M le q0 Y A X = Some (True, R, C) \<and>
       (\<forall>D. length D = M \<longrightarrow> (\<forall>i<M. (\<Sum>j<M. mat_entry A M i j * D ! j) = Y ! i) \<longleftrightarrow> D = C))"
proof (rule LSLinearSolve_cases [OF assms(1-4) _ assms(6), of Y])
  fix R C assume run: "LSLinearSolve M le q0 Y A X = Some (True, R, C)" and C: "length C = M"
    and sol: "\<And>i. i < M \<Longrightarrow> (\<Sum>j<M. mat_entry A M i j * C ! j) = Y ! i"
    and uniq: "\<And>D i. (\<And>i. i < M \<Longrightarrow> (\<Sum>j<M. mat_entry A M i j * D j) = Y ! i) \<Longrightarrow> i < M \<Longrightarrow> D i = C ! i"
  have "(\<forall>i<M. (\<Sum>j<M. mat_entry A M i j * D ! j) = Y ! i) \<longleftrightarrow> D = C" if "length D = M" for D
    using C sol uniq [of "(!) D"] that by (auto intro!: nth_equalityI)
  with run show ?thesis by blast
qed (use assms in auto)

theorem linear_system_solved_witness:
  "\<exists>R. LSLinearSolve 2 [0, 0] [0, 0] [3, 2] [2, 1, 1, 1::real] [0, 0] = Some (True, R, [1, 1])"
proof -
  let ?A = "[2, 1, 1, 1::real]"
  have col: "\<exists>r<2. mat_entry ?A 2 r 0 \<noteq> 0"
    by (rule exI [of _ 0]) (simp add: mat_entry_def)
  have "\<forall>i<2. (\<Sum>j<2. mat_entry ?A 2 i j * [1, 1] ! j) = [3, 2] ! i"
    by (auto simp: mat_entry_def numeral_2_eq_2 less_Suc_eq)
  moreover have "LSLinearSolve 2 [0, 0] [0, 0] [3, 2] ?A [0, 0] \<noteq> Some (False, A', [0, 0])" for A'
    by (auto simp: LSLinearSolve_def sample_inverse MatRealMult_eq)
  ultimately show ?thesis
    using linear_system_solved [of ?A 2 "[0, 0]" "[0, 0]" "[0, 0]" "[3, 2]", OF _ _ _ _ _ col]
    by (auto dest!: spec [of _ "[1, 1]"])
qed

end
