(* ===== verification/AGaussFit.thy ===== *)
theory AGaussFit
  imports AInvert
begin

text \<open>
  The fit of a two-dimensional Gaussian surface (AMath.cpp, \<open>GaussFit2D\<close>): it accumulates the
  normal equations of a quadratic fit to the logarithm of the samples, weighted with the squared samples,
  solves them with \<open>LSLinearSolve\<close> and reads the parameters off the solution. Numbers are reals. The uninitialised
  array \<open>C\<close> and the blocks of \<open>malloc\<close> are arguments.
\<close>

record gauss_surface =
  gs_A :: real
  gs_sigmax :: real
  gs_sigmay :: real
  gs_x0 :: real
  gs_y0 :: real

text \<open>The sums for one sample. The code names the five products and writes out the thirty sums.\<close>

definition gf_basis :: "real \<Rightarrow> real \<Rightarrow> real \<Rightarrow> real list" where
  "gf_basis x y z = [z, z * x, z * y, z * x * x, z * y * y]"

definition gf_accumulate :: "real \<Rightarrow> real \<Rightarrow> real \<Rightarrow> real list \<times> real list \<Rightarrow> real list \<times> real list" where
  "gf_accumulate x y z = (\<lambda>(Q, B).
     let f = gf_basis x y z; zlnz = z * ln z
     in (map2 (\<lambda>q a. q + zlnz * a) Q f,
         map2 (+) B (concat (map (\<lambda>a. map (\<lambda>b. a * b) f) f))))"

definition gf_sums :: "nat \<Rightarrow> real list \<Rightarrow> real list \<Rightarrow> real list \<Rightarrow> (real list \<times> real list) option" where
  "gf_sums N X Y Z =
     for_up 0 N (\<lambda>i (Q, B). do {
       x \<leftarrow> array_get X i; y \<leftarrow> array_get Y i; z \<leftarrow> array_get Z i;
       Some (if z \<le> 1 / 10 ^ 10 then (Q, B) else gf_accumulate x y z (Q, B)) }) (replicate 5 0, replicate 25 0)"

definition GaussFit2D ::
  "nat list \<Rightarrow> real list \<Rightarrow> real list \<Rightarrow> nat \<Rightarrow> real list \<Rightarrow> real list \<Rightarrow> real list \<Rightarrow> gauss_surface
     \<Rightarrow> (bool \<times> gauss_surface) option" where
  "GaussFit2D le q0 C N X Y Z out = do {
     (Q, B) \<leftarrow> gf_sums N X Y Z;
     (ok, B, C) \<leftarrow> LSLinearSolve 5 le q0 Q B C;
     if \<not> ok then Some (False, out)
     else if C ! 3 \<ge> - 1 / 10 ^ 10 \<or> C ! 4 \<ge> - 1 / 10 ^ 10 then Some (False, out)
     else Some (True, \<lparr>gs_A = exp (C ! 0 - C ! 1 * C ! 1 / C ! 3 / 4 - C ! 2 * C ! 2 / C ! 4 / 4),
                       gs_sigmax = sqrt (- 0.5 / C ! 3), gs_sigmay = sqrt (- 0.5 / C ! 4),
                       gs_x0 = - 0.5 * C ! 1 / C ! 3, gs_y0 = - 0.5 * C ! 2 / C ! 4\<rparr>) }"

section \<open>The normal equations\<close>

definition surface :: "gauss_surface \<Rightarrow> real \<Rightarrow> real \<Rightarrow> real" where
  "surface g x y = gs_A g * exp (- ((x - gs_x0 g)\<^sup>2 / (2 * (gs_sigmax g)\<^sup>2)) - (y - gs_y0 g)\<^sup>2 / (2 * (gs_sigmay g)\<^sup>2))"

text \<open>The coefficients of the quadratic polynomial that is the logarithm of the surface.\<close>

definition log_coeffs :: "gauss_surface \<Rightarrow> nat \<Rightarrow> real" where
  "log_coeffs g = (!) [ln (gs_A g) - (gs_x0 g)\<^sup>2 / (2 * (gs_sigmax g)\<^sup>2) - (gs_y0 g)\<^sup>2 / (2 * (gs_sigmay g)\<^sup>2),
     gs_x0 g / (gs_sigmax g)\<^sup>2, gs_y0 g / (gs_sigmay g)\<^sup>2, - 1 / (2 * (gs_sigmax g)\<^sup>2), - 1 / (2 * (gs_sigmay g)\<^sup>2)]"

lemma less_5: "(i::nat) < 5 \<longleftrightarrow> i = 0 \<or> i = 1 \<or> i = 2 \<or> i = 3 \<or> i = 4"
  by auto

lemma sum_5: "(\<Sum>j<5. f j) = f 0 + f 1 + f 2 + f 3 + (f (4::nat) :: real)"
  by (simp add: eval_nat_numeral)

lemma log_of_surface:
  assumes "0 < gs_A g" and z: "z = surface g x y" and "gs_sigmax g \<noteq> 0" and "gs_sigmay g \<noteq> 0"
  shows "z * ln z = (\<Sum>k<5. gf_basis x y z ! k * log_coeffs g k)"
proof -
  define p q where "p = 1 / (2 * (gs_sigmax g)\<^sup>2)" and "q = 1 / (2 * (gs_sigmay g)\<^sup>2)"
  have ln: "ln z = ln (gs_A g) - p * (x - gs_x0 g)\<^sup>2 - q * (y - gs_y0 g)\<^sup>2"
    using assms by (simp add: surface_def ln_mult p_def q_def)
  have c: "log_coeffs g 0 = ln (gs_A g) - p * (gs_x0 g)\<^sup>2 - q * (gs_y0 g)\<^sup>2" "log_coeffs g 1 = 2 * p * gs_x0 g"
    "log_coeffs g 2 = 2 * q * gs_y0 g" "log_coeffs g 3 = - p" "log_coeffs g 4 = - q"
    using assms by (simp_all add: log_coeffs_def p_def q_def)
  show ?thesis
    unfolding ln sum_5 c by (simp add: gf_basis_def power2_eq_square algebra_simps)
qed

text \<open>What the accumulated sums satisfy: the coefficients solve them.\<close>

definition normal_eqs :: "(nat \<Rightarrow> real) \<Rightarrow> real list \<times> real list \<Rightarrow> bool" where
  "normal_eqs c = (\<lambda>(Q, B). length Q = 5 \<and> length B = 25 \<and> (\<forall>i<5. (\<Sum>j<5. mat_entry B 5 i j * c j) = Q ! i) \<and> 0 \<le> B ! 0)"

lemma nth_products:
  assumes "length f = 5" and "i < 5" and "j < 5"
  shows "concat (map (\<lambda>a. map (\<lambda>b. a * b) f) f) ! (i * 5 + j) = f ! i * f ! j"
proof -
  from assms(1) obtain a b c d e where "f = [a, b, c, d, e]"
    by (auto simp: eval_nat_numeral length_Suc_conv)
  with assms(2,3) show ?thesis by (auto simp: less_5)
qed

lemma length_products: "length f = 5 \<Longrightarrow> length (concat (map (\<lambda>a. map (\<lambda>b. a * b) f) f)) = 25"
  by (auto simp: eval_nat_numeral length_Suc_conv)

lemma normal_eqs_accumulate:
  assumes eqs: "normal_eqs c (Q, B)" and log: "z * ln z = (\<Sum>k<5. gf_basis x y z ! k * c k)"
  shows "normal_eqs c (gf_accumulate x y z (Q, B))"
    and "B ! 0 \<le> snd (gf_accumulate x y z (Q, B)) ! 0" and "z \<noteq> 0 \<Longrightarrow> 0 < snd (gf_accumulate x y z (Q, B)) ! 0"
proof -
  let ?f = "gf_basis x y z"
  have f: "length ?f = 5" by (simp add: gf_basis_def)
  have len: "length Q = 5" "length B = 25" and B0: "0 \<le> B ! 0" using eqs by (auto simp: normal_eqs_def)
  let ?B = "map2 (+) B (concat (map (\<lambda>a. map (\<lambda>b. a * b) ?f) ?f))"
  have entry: "mat_entry ?B 5 i j = mat_entry B 5 i j + ?f ! i * ?f ! j" if "i < 5" "j < 5" for i j
    using that len length_products [OF f] by (simp add: mat_entry_def nth_products [OF f])
  have sq: "0 < B ! 0 + z * z" if "z \<noteq> 0"
    using that B0 by (metis add_nonneg_pos not_real_square_gt_zero)
  have zero: "?B ! 0 = B ! 0 + z * z"
    using entry [of 0 0] by (simp add: mat_entry_def gf_basis_def)
  have "(\<Sum>j<5. mat_entry ?B 5 i j * c j) = map2 (\<lambda>q a. q + z * ln z * a) Q ?f ! i" if i: "i < 5" for i
  proof -
    have "(\<Sum>j<5. mat_entry ?B 5 i j * c j) = (\<Sum>j<5. mat_entry B 5 i j * c j) + ?f ! i * (\<Sum>j<5. ?f ! j * c j)"
      using i by (simp add: entry sum_distrib_left sum.distrib [symmetric] algebra_simps)
    also have "\<dots> = Q ! i + z * ln z * ?f ! i" using eqs i log by (simp add: normal_eqs_def)
    finally show ?thesis using i len f by simp
  qed
  then show "normal_eqs c (gf_accumulate x y z (Q, B))"
    using len f length_products [OF f] B0 zero by (simp add: normal_eqs_def gf_accumulate_def Let_def)
  show "B ! 0 \<le> snd (gf_accumulate x y z (Q, B)) ! 0" "z \<noteq> 0 \<Longrightarrow> 0 < snd (gf_accumulate x y z (Q, B)) ! 0"
    using zero sq by (simp_all add: gf_accumulate_def Let_def)
qed

lemma gf_sums_normal:
  assumes len: "N \<le> length X" "N \<le> length Y" "N \<le> length Z"
    and log: "\<And>i. i < N \<Longrightarrow> Z ! i * ln (Z ! i) = (\<Sum>k<5. gf_basis (X ! i) (Y ! i) (Z ! i) ! k * c k)"
  shows "yields (gf_sums N X Y Z) (\<lambda>(Q, B). normal_eqs c (Q, B) \<and> ((\<exists>i<N. 1 / 10 ^ 10 < Z ! i) \<longrightarrow> 0 < B ! 0))"
  unfolding gf_sums_def
proof (rule for_up_yields [where
    I = "\<lambda>n (Q, B). normal_eqs c (Q, B) \<and> ((\<exists>i<n. 1 / 10 ^ 10 < Z ! i) \<longrightarrow> 0 < B ! 0)"], goal_cases)
  case 1
  have "mat_entry (replicate 25 0) 5 i j = (0::real)" if "i < 5" "j < 5" for i j
    using that by (simp add: mat_entry_def)
  then show ?case by (auto simp: normal_eqs_def intro!: sum.neutral)
next
  case (3 i s)
  obtain Q B where s: "s = (Q, B)" by (cases s)
  have eqs: "normal_eqs c (Q, B)" and pos: "(\<exists>j<i. 1 / 10 ^ 10 < Z ! j) \<longrightarrow> 0 < B ! 0" using 3 by (auto simp: s)
  have get: "array_get X i = Some (X ! i)" "array_get Y i = Some (Y ! i)" "array_get Z i = Some (Z ! i)"
    using 3 len by (auto simp: array_get_def)
  show ?case
  proof (cases "Z ! i \<le> 1 / 10 ^ 10")
    case True
    then show ?thesis using eqs pos by (auto simp: s get less_Suc_eq)
  next
    case False
    then have "Z ! i \<noteq> 0" by auto
    obtain Q' B' where acc: "gf_accumulate (X ! i) (Y ! i) (Z ! i) (Q, B) = (Q', B')" by (cases "gf_accumulate (X ! i) (Y ! i) (Z ! i) (Q, B)")
    show ?thesis
      using normal_eqs_accumulate [OF eqs log [OF 3(2)]] \<open>Z ! i \<noteq> 0\<close> False by (simp add: s get acc)
  qed
qed auto

lemma surface_parameters:
  assumes "0 < gs_A g" and "0 < gs_sigmax g" and "0 < gs_sigmay g"
  shows "exp (log_coeffs g 0 - log_coeffs g 1 * log_coeffs g 1 / log_coeffs g 3 / 4
      - log_coeffs g 2 * log_coeffs g 2 / log_coeffs g 4 / 4) = gs_A g"
    and "sqrt (- 0.5 / log_coeffs g 3) = gs_sigmax g" and "sqrt (- 0.5 / log_coeffs g 4) = gs_sigmay g"
    and "- 0.5 * log_coeffs g 1 / log_coeffs g 3 = gs_x0 g" and "- 0.5 * log_coeffs g 2 / log_coeffs g 4 = gs_y0 g"
proof -
  have "log_coeffs g 1 * log_coeffs g 1 / log_coeffs g 3 / 4 = - ((gs_x0 g)\<^sup>2 / (2 * (gs_sigmax g)\<^sup>2))"
    "log_coeffs g 2 * log_coeffs g 2 / log_coeffs g 4 / 4 = - ((gs_y0 g)\<^sup>2 / (2 * (gs_sigmay g)\<^sup>2))"
    using assms by (simp_all add: log_coeffs_def power2_eq_square field_simps)
  then have "log_coeffs g 0 - log_coeffs g 1 * log_coeffs g 1 / log_coeffs g 3 / 4
      - log_coeffs g 2 * log_coeffs g 2 / log_coeffs g 4 / 4 = ln (gs_A g)"
    by (simp add: log_coeffs_def)
  then show "exp (log_coeffs g 0 - log_coeffs g 1 * log_coeffs g 1 / log_coeffs g 3 / 4
      - log_coeffs g 2 * log_coeffs g 2 / log_coeffs g 4 / 4) = gs_A g" using assms by simp
  have "- 0.5 / log_coeffs g 3 = (gs_sigmax g)\<^sup>2" "- 0.5 / log_coeffs g 4 = (gs_sigmay g)\<^sup>2"
    by (simp_all add: log_coeffs_def)
  then show "sqrt (- 0.5 / log_coeffs g 3) = gs_sigmax g" "sqrt (- 0.5 / log_coeffs g 4) = gs_sigmay g"
    using assms by (simp_all only: real_sqrt_abs abs_of_pos)
  show "- 0.5 * log_coeffs g 1 / log_coeffs g 3 = gs_x0 g" "- 0.5 * log_coeffs g 2 / log_coeffs g 4 = gs_y0 g"
    using assms by (simp_all add: log_coeffs_def)
qed

section \<open>Property\<close>


lemma sample_decomposition:
  "\<exists>A q le. mi_decompose 5 [0..<5] 0 ([2, 0, 0, 1/2, 1/2,  0, 1/2, 0, 0, 0,  0, 0, 1/2, 0, 0,
     1/2, 0, 0, 1/2, 0,  1/2, 0, 0, 0, 1/2 :: real], [0, 0, 0, 0, 0], [0, 0, 0, 0, 0]) = Some (True, A, q, le)"
  by (simp add: mi_reduce_column_def mi_pivot_def mi_swap_rows_def mi_scale_def array_swap_def
      for_up_def for_down_def array_get_def array_put_def upt_rec Let_def)

lemma sample_sums:
  "\<exists>Q. gf_sums 5 [0, 1, -1, 0, 0] [0, 0, 0, 1, -1] [1, 1/2, 1/2, 1/2, 1/2] = Some (Q,
     [2, 0, 0, 1/2, 1/2,  0, 1/2, 0, 0, 0,  0, 0, 1/2, 0, 0,  1/2, 0, 0, 1/2, 0,  1/2, 0, 0, 0, 1/2])"
  by (simp add: gf_sums_def for_up_def upt_rec array_get_def gf_accumulate_def gf_basis_def Let_def numeral_nat)


end
