(* ===== verification/ASphere.thy ===== *)
theory ASphere
  imports Complex_Main
begin

text \<open>
  Spherical coordinates (AMath.cpp): distances, conversions from and to Cartesian coordinates, the
  rotation of the pole and the projection to a tangent plane. A \<open>double\<close> is a real number, the literals \<open>API\<close>
  and \<open>A2PI\<close> are the numbers they approximate. \<open>atan2\<close> is the function of the C library.
\<close>

definition AEPS :: real where "AEPS = 1 / 10 ^ 6"

definition atan2 :: "real \<Rightarrow> real \<Rightarrow> real" where
  "atan2 y x =
     (if x > 0 then arctan (y / x)
      else if x < 0 then (if y \<ge> 0 then arctan (y / x) + pi else arctan (y / x) - pi)
      else if y > 0 then pi / 2 else if y < 0 then - (pi / 2) else 0)"

section \<open>The operations\<close>

definition SphereRange :: "real \<Rightarrow> real \<Rightarrow> real \<Rightarrow> real \<Rightarrow> real" where
  "SphereRange alpha1 beta1 alpha2 beta2 =
     (let v = cos beta1 * cos beta2 * cos (alpha1 - alpha2) + sin beta1 * sin beta2 in arccos v)"

definition Sphere2Cart :: "real \<Rightarrow> real \<Rightarrow> real \<Rightarrow> real \<times> real \<times> real" where
  "Sphere2Cart r alpha beta = (r * cos beta * cos alpha, r * cos beta * sin alpha, r * sin beta)"

definition Cart2Sphere :: "real \<times> real \<times> real \<Rightarrow> real \<times> real \<times> real" where
  "Cart2Sphere = (\<lambda>(x, y, z).
     (sqrt (x * x + y * y + z * z),
      (if \<bar>y\<bar> < AEPS \<and> \<bar>x\<bar> < AEPS then 0
       else let alpha = atan2 y x in if alpha < 0 then alpha + 2 * pi else alpha),
      atan2 z (sqrt (x * x + y * y))))"

definition RotX :: "real \<Rightarrow> real \<times> real \<times> real \<Rightarrow> real \<times> real \<times> real" where
  "RotX fai = (\<lambda>(x, y, z). (x, cos fai * y + sin fai * z, - sin fai * y + cos fai * z))"

definition RotY :: "real \<Rightarrow> real \<times> real \<times> real \<Rightarrow> real \<times> real \<times> real" where
  "RotY fai = (\<lambda>(x, y, z). (cos fai * x - sin fai * z, y, sin fai * x + cos fai * z))"

definition RotZ :: "real \<Rightarrow> real \<times> real \<times> real \<Rightarrow> real \<times> real \<times> real" where
  "RotZ fai = (\<lambda>(x, y, z). (cos fai * x + sin fai * y, - sin fai * x + cos fai * y, z))"

definition RotateForward :: "real \<Rightarrow> real \<Rightarrow> real \<Rightarrow> real \<Rightarrow> real \<times> real" where
  "RotateForward A0 D0 A D =
     (let v = Sphere2Cart 1 A D; v = RotZ A0 v; v = RotY (pi * 0.5 - D0) v;
          (r, xi, eta) = Cart2Sphere v
      in (xi, eta))"

definition RotateReverse :: "real \<Rightarrow> real \<Rightarrow> real \<Rightarrow> real \<Rightarrow> real \<times> real" where
  "RotateReverse A0 D0 xi eta =
     (let v = Sphere2Cart 1 xi eta; v = RotY (- pi * 0.5 + D0) v; v = RotZ (- A0) v;
          (r, A, D) = Cart2Sphere v
      in (A, D))"

definition ProjectForward :: "real \<Rightarrow> real \<Rightarrow> real \<Rightarrow> real \<Rightarrow> real \<times> real" where
  "ProjectForward A0 D0 A D =
     (let fract = sin D0 * sin D + cos D0 * cos D * cos (A - A0)
      in (cos D * sin (A - A0) / fract, (cos D0 * sin D - sin D0 * cos D * cos (A - A0)) / fract))"

definition ProjectReverse :: "real \<Rightarrow> real \<Rightarrow> real \<Rightarrow> real \<Rightarrow> real \<times> real" where
  "ProjectReverse A0 D0 ksi eta =
     (let fract = cos D0 - eta * sin D0;
          A = A0 + atan2 ksi fract;
          D = arctan (((eta * cos D0 + sin D0) * cos (A - A0)) / fract);
          A = (if A < 0 then A + 2 * pi else if A \<ge> 2 * pi then A - 2 * pi else A)
      in (A, D))"

section \<open>The angle of a point of the plane\<close>

lemma tan_shift: "tan (t + pi) = tan t" "tan (t - pi) = tan t"
  by (simp_all add: tan_def sin_diff cos_diff)

lemma atan2_polar:
  assumes r: "0 < r" and t: "- pi < t" "t \<le> pi"
  shows "atan2 (r * sin t) (r * cos t) = t"
proof -
  have quot: "r * sin t / (r * cos t) = tan t" using r by (simp add: tan_def)
  consider "- pi / 2 < t \<and> t < pi / 2" | "t = pi / 2" | "t = - pi / 2" | "pi / 2 < t" | "t < - pi / 2" by argo
  then show ?thesis
  proof cases
    case 1
    then have "0 < cos t" by (simp add: cos_gt_zero_pi)
    moreover have "arctan (r * sin t / (r * cos t)) = t" unfolding quot using 1 by (intro arctan_tan) auto
    ultimately show ?thesis using r by (simp add: atan2_def)
  next
    case 4
    have "cos (t - pi) > 0" using 4 t by (intro cos_gt_zero_pi) auto
    then have "r * cos t < 0" using r by (simp add: cos_diff mult_pos_neg)
    moreover have "0 \<le> r * sin t" using 4 t r pi_gt_zero by (intro mult_nonneg_nonneg sin_ge_zero) auto
    moreover have "arctan (tan (t - pi)) = t - pi" using 4 t by (intro arctan_tan) auto
    then have "arctan (r * sin t / (r * cos t)) = t - pi" unfolding quot by (simp only: tan_shift)
    ultimately show ?thesis by (simp add: atan2_def)
  next
    case 5
    have "cos (t + pi) > 0" using 5 t by (intro cos_gt_zero_pi) auto
    then have "r * cos t < 0" using r by (simp add: cos_add mult_pos_neg)
    moreover have "0 < sin (- t)" using 5 t pi_gt_zero by (intro sin_gt_zero) auto
    then have "r * sin t < 0" using r by (simp add: mult_pos_neg)
    moreover have "arctan (tan (t + pi)) = t + pi" using 5 t by (intro arctan_tan) auto
    then have "arctan (r * sin t / (r * cos t)) = t + pi" unfolding quot by (simp only: tan_shift)
    ultimately show ?thesis by (simp add: atan2_def)
  next
    case 2
    show ?thesis unfolding 2 using r by (simp add: atan2_def)
  next
    case 3
    have "sin t = - 1" "cos t = 0" unfolding 3 by simp_all
    with 3 r show ?thesis by (simp add: atan2_def)
  qed
qed

lemma polar_form:
  assumes "x \<noteq> 0 \<or> y \<noteq> 0"
  obtains t where "- pi < t" and "t \<le> pi" and "x = sqrt (x * x + y * y) * cos t" and "y = sqrt (x * x + y * y) * sin t"
proof -
  let ?r = "sqrt (x * x + y * y)"
  have pos: "0 < x * x + y * y" using assms by (auto simp: add_nonneg_pos add_pos_nonneg simp flip: power2_eq_square)
  then have r: "0 < ?r" by simp
  have "(x / ?r)\<^sup>2 + (y / ?r)\<^sup>2 = 1"
    using pos assms by (simp add: power_divide power2_eq_square flip: add_divide_distrib)
  then obtain t where t: "0 \<le> t" "t < 2 * pi" "x / ?r = cos t" "y / ?r = sin t"
    by (rule sincos_total_2pi)
  have "?r * (x / ?r) = x" "?r * (y / ?r) = y" using less_imp_neq [OF r] by (metis nonzero_mult_div_cancel_left times_divide_eq_right)+
  then have xy: "x = ?r * cos t" "y = ?r * sin t" unfolding t(3,4) by simp_all
  show ?thesis
  proof (cases "t \<le> pi")
    case True
    with t xy show ?thesis by (intro that [of t]) (auto intro: less_le_trans [OF _ t(1)])
  next
    case False
    with t xy show ?thesis by (intro that [of "t - 2 * pi"]) (auto simp: cos_diff sin_diff)
  qed
qed

lemma atan2_cos_sin:
  assumes "x \<noteq> 0 \<or> y \<noteq> 0"
  shows "sqrt (x * x + y * y) * cos (atan2 y x) = x" and "sqrt (x * x + y * y) * sin (atan2 y x) = y"
proof -
  obtain t where t: "- pi < t" "t \<le> pi" and xy: "x = sqrt (x * x + y * y) * cos t" "y = sqrt (x * x + y * y) * sin t"
    using polar_form [OF assms] by blast
  have "0 < x * x + y * y" using assms by (auto simp: add_nonneg_pos add_pos_nonneg simp flip: power2_eq_square)
  then have "atan2 (sqrt (x * x + y * y) * sin t) (sqrt (x * x + y * y) * cos t) = t" using t by (intro atan2_polar) auto
  with xy have "atan2 y x = t" by simp
  then show "sqrt (x * x + y * y) * cos (atan2 y x) = x" "sqrt (x * x + y * y) * sin (atan2 y x) = y"
    using xy by simp_all
qed

section \<open>Conversions\<close>

definition off_axis :: "real \<times> real \<times> real \<Rightarrow> bool" where
  "off_axis = (\<lambda>(x, y, z). AEPS \<le> \<bar>x\<bar> \<or> AEPS \<le> \<bar>y\<bar>)"

lemma AEPS_pos: "0 < AEPS" by (simp add: AEPS_def)

lemma sphere_of_cart:
  assumes "0 < r" and A: "0 \<le> A" "A < 2 * pi" and D: "- (pi / 2) < D" "D < pi / 2"
    and off: "off_axis (Sphere2Cart r A D)"
  shows "Cart2Sphere (Sphere2Cart r A D) = (r, A, D)"
proof -
  have c: "0 < cos D" using D by (intro cos_gt_zero_pi) auto
  let ?\<rho> = "r * cos D"
  have \<rho>: "0 < ?\<rho>" using c assms(1) by simp
  have sq: "(?\<rho> * cos A) * (?\<rho> * cos A) + (?\<rho> * sin A) * (?\<rho> * sin A) = ?\<rho>\<^sup>2"
  proof -
    have "(?\<rho> * cos A) * (?\<rho> * cos A) + (?\<rho> * sin A) * (?\<rho> * sin A) = ?\<rho>\<^sup>2 * ((cos A)\<^sup>2 + (sin A)\<^sup>2)"
      by algebra
    then show ?thesis by simp
  qed
  have "?\<rho>\<^sup>2 + (r * sin D) * (r * sin D) = r\<^sup>2 * ((cos D)\<^sup>2 + (sin D)\<^sup>2)"
    by algebra
  then have r: "sqrt (?\<rho>\<^sup>2 + (r * sin D) * (r * sin D)) = r" using assms(1) by simp
  have beta: "atan2 (r * sin D) (sqrt (?\<rho>\<^sup>2)) = D"
    using atan2_polar [OF \<open>0 < r\<close>, of D] D \<rho> by simp
  have alpha: "(let alpha = atan2 (?\<rho> * sin A) (?\<rho> * cos A) in if alpha < 0 then alpha + 2 * pi else alpha) = A"
  proof (cases "A \<le> pi")
    case True
    then show ?thesis using A \<rho> pi_gt_zero by (subst atan2_polar) (auto simp: Let_def intro: less_le_trans [of _ 0])
  next
    case False
    have "atan2 (?\<rho> * sin (A - 2 * pi)) (?\<rho> * cos (A - 2 * pi)) = A - 2 * pi"
      by (rule atan2_polar) (use A \<rho> False in auto)
    then show ?thesis using A by (simp add: cos_diff sin_diff Let_def)
  qed
  show ?thesis
    using off sq r beta alpha by (auto simp: Sphere2Cart_def Cart2Sphere_def off_axis_def)
qed

lemma cart_of_sphere:
  assumes off: "off_axis v" and "Cart2Sphere v = (r, A, D)"
  shows "Sphere2Cart r A D = v" and "0 \<le> A" and "A < 2 * pi"
proof -
  obtain x y z where v: "v = (x, y, z)" by (cases v)
  from off have xy: "x \<noteq> 0 \<or> y \<noteq> 0" using AEPS_pos by (auto simp: v off_axis_def)
  let ?\<rho> = "sqrt (x * x + y * y)"
  have \<rho>: "0 < ?\<rho>" using xy by (auto simp: add_nonneg_pos add_pos_nonneg simp flip: power2_eq_square)
  have r: "r = sqrt (x * x + y * y + z * z)" and D: "D = atan2 z ?\<rho>"
    and A: "A = (let alpha = atan2 y x in if alpha < 0 then alpha + 2 * pi else alpha)"
    using assms by (auto simp: v Cart2Sphere_def off_axis_def)
  have "sqrt (?\<rho> * ?\<rho> + z * z) = r" using r by simp
  then have "r * cos D = ?\<rho>" "r * sin D = z" using atan2_cos_sin [of ?\<rho> z] less_imp_neq [OF \<rho>] by (simp_all add: D)
  moreover have "cos A = cos (atan2 y x)" "sin A = sin (atan2 y x)"
    by (simp_all add: A Let_def cos_add sin_add)
  ultimately show "Sphere2Cart r A D = v"
    using atan2_cos_sin [OF xy] by (simp add: Sphere2Cart_def v)
  obtain t where t: "- pi < t" "t \<le> pi" "x = ?\<rho> * cos t" "y = ?\<rho> * sin t" using polar_form [OF xy] by blast
  then have "atan2 y x = t" using atan2_polar [OF \<rho>, of t] by simp
  then show "0 \<le> A" "A < 2 * pi" using t pi_gt_zero by (auto simp: A Let_def)
qed

lemma RotY_inverse: "RotY (- f) (RotY f v) = v"
proof -
  obtain x y z where "v = (x, y, z)" by (cases v)
  moreover have "cos f * (cos f * a - sin f * b) + sin f * (sin f * a + cos f * b) = ((sin f)\<^sup>2 + (cos f)\<^sup>2) * a"
    "cos f * (sin f * a + cos f * b) - sin f * (cos f * a - sin f * b) = ((sin f)\<^sup>2 + (cos f)\<^sup>2) * b" for a b
    by algebra+
  ultimately show ?thesis by (simp add: RotY_def)
qed

lemma RotZ_inverse: "RotZ (- f) (RotZ f v) = v"
proof -
  obtain x y z where "v = (x, y, z)" by (cases v)
  moreover have "cos f * (cos f * a + sin f * b) - sin f * (- sin f * a + cos f * b) = ((sin f)\<^sup>2 + (cos f)\<^sup>2) * a"
    "sin f * (cos f * a + sin f * b) + cos f * (- sin f * a + cos f * b) = ((sin f)\<^sup>2 + (cos f)\<^sup>2) * b" for a b
    by algebra+
  ultimately show ?thesis by (simp add: RotZ_def)
qed

section \<open>Properties\<close>

definition rotated :: "real \<Rightarrow> real \<Rightarrow> real \<Rightarrow> real \<Rightarrow> real \<times> real \<times> real" where
  "rotated A0 D0 A D = RotY (pi * 0.5 - D0) (RotZ A0 (Sphere2Cart 1 A D))"

lemma rotated_height:
  obtains x y where "rotated A0 D0 A D = (x, y, cos D0 * cos D * cos (A0 - A) + sin D0 * sin D)"
    and "x * x + y * y + (cos D0 * cos D * cos (A0 - A) + sin D0 * sin D)\<^sup>2 = 1"
proof -
  have c: "cos (pi / 2 - D0) = sin D0" "sin (pi / 2 - D0) = cos D0" by (simp_all add: cos_diff sin_diff)
  let ?x = "cos A0 * (cos D * cos A) + sin A0 * (cos D * sin A)"
  let ?y = "- sin A0 * (cos D * cos A) + cos A0 * (cos D * sin A)"
  let ?z = "cos D0 * cos D * cos (A0 - A) + sin D0 * sin D"
  have z: "cos D0 * ?x + sin D0 * sin D = ?z" by (simp add: cos_diff algebra_simps)
  have "(sin D0 * ?x - cos D0 * sin D) * (sin D0 * ?x - cos D0 * sin D) + ?y * ?y + ?z\<^sup>2
      = ((sin D0)\<^sup>2 + (cos D0)\<^sup>2) * (?x\<^sup>2 + (sin D)\<^sup>2) + ?y\<^sup>2"
    unfolding z [symmetric] by algebra
  also have "\<dots> = ?x\<^sup>2 + ?y\<^sup>2 + (sin D)\<^sup>2" by simp
  also have "\<dots> = ((sin A0)\<^sup>2 + (cos A0)\<^sup>2) * ((sin A)\<^sup>2 + (cos A)\<^sup>2) * (cos D)\<^sup>2 + (sin D)\<^sup>2" by algebra
  finally have "(sin D0 * ?x - cos D0 * sin D) * (sin D0 * ?x - cos D0 * sin D) + ?y * ?y + ?z\<^sup>2 = 1" by simp
  moreover have "rotated A0 D0 A D = (sin D0 * ?x - cos D0 * sin D, ?y, ?z)"
    unfolding z [symmetric] by (simp add: rotated_def RotY_def RotZ_def Sphere2Cart_def c)
  ultimately show ?thesis using that by blast
qed

text \<open>
  C38. \<open>RotateReverse\<close> undoes \<open>RotateForward\<close>: every point whose Cartesian coordinates, before and after the rotation,
  are farther than \<open>AEPS\<close> from the polar axis comes back exactly. The rotated longitude lies in \<open>[0, 2\<pi>)\<close>, and the
  rotated latitude is the complement of the distance from the new pole that \<open>SphereRange\<close> computes.
\<close>

theorem rotation_roundtrip:
  assumes A: "0 \<le> A" "A < 2 * pi" and D: "- (pi / 2) < D" "D < pi / 2"
    and off: "off_axis (Sphere2Cart 1 A D)" "off_axis (rotated A0 D0 A D)"
  shows "\<exists>xi eta. RotateForward A0 D0 A D = (xi, eta) \<and> RotateReverse A0 D0 xi eta = (A, D) \<and>
    0 \<le> xi \<and> xi < 2 * pi \<and> eta = pi / 2 - SphereRange A0 D0 A D"
proof -
  let ?v = "rotated A0 D0 A D" and ?s = "cos D0 * cos D * cos (A0 - A) + sin D0 * sin D"
  obtain r xi eta where sph: "Cart2Sphere ?v = (r, xi, eta)" by (cases "Cart2Sphere ?v")
  obtain x y where v: "?v = (x, y, ?s)" and norm: "x * x + y * y + ?s\<^sup>2 = 1"
    by (rule rotated_height)
  have forward: "RotateForward A0 D0 A D = (xi, eta)"
    using sph by (simp add: RotateForward_def rotated_def Let_def)
  have r: "r = 1" using sph norm by (auto simp: v Cart2Sphere_def power2_eq_square)
  have restored: "Sphere2Cart 1 xi eta = ?v" and xi: "0 \<le> xi" "xi < 2 * pi"
    using cart_of_sphere [OF off(2) sph] r by simp_all
  have "RotY (- pi * 0.5 + D0) ?v = RotZ A0 (Sphere2Cart 1 A D)"
    using RotY_inverse [of "pi * 0.5 - D0"] by (simp add: rotated_def)
  then have "RotZ (- A0) (RotY (- pi * 0.5 + D0) (Sphere2Cart 1 xi eta)) = Sphere2Cart 1 A D"
    by (simp only: restored RotZ_inverse)
  then have reverse: "RotateReverse A0 D0 xi eta = (A, D)"
    using sphere_of_cart [OF zero_less_one A D off(1)] by (simp add: RotateReverse_def Let_def)
  have "x \<noteq> 0 \<or> y \<noteq> 0" using off(2) AEPS_pos by (auto simp: v off_axis_def)
  then have "0 < sqrt (x * x + y * y)" by (auto simp: add_nonneg_pos add_pos_nonneg simp flip: power2_eq_square)
  moreover have "eta = atan2 ?s (sqrt (x * x + y * y))" using sph by (simp add: v Cart2Sphere_def)
  ultimately have "eta = arctan (?s / sqrt (x * x + y * y))" by (simp add: atan2_def)
  then have eta: "- (pi / 2) < eta" "eta < pi / 2" using arctan_lbound arctan_ubound by (simp_all only:)
  have "sin eta = ?s" using restored by (simp add: v Sphere2Cart_def)
  then have "SphereRange A0 D0 A D = arccos (cos (pi / 2 - eta))"
    by (simp add: SphereRange_def Let_def cos_diff)
  also have "\<dots> = pi / 2 - eta" by (rule arccos_cos) (use eta in auto)
  finally show ?thesis using forward reverse xi by auto
qed

theorem rotation_roundtrip_witness:
  "\<exists>xi eta. RotateForward 0 0 (pi / 2) 0 = (xi, eta) \<and> RotateReverse 0 0 xi eta = (pi / 2, 0)"
proof -
  have "Sphere2Cart 1 (pi / 2) 0 = (0, 1, 0)" by (simp add: Sphere2Cart_def)
  moreover have "rotated 0 0 (pi / 2) 0 = (0, 1, 0)"
    by (simp add: rotated_def RotY_def RotZ_def Sphere2Cart_def)
  ultimately have "off_axis (Sphere2Cart 1 (pi / 2) 0)" "off_axis (rotated 0 0 (pi / 2) 0)"
    by (simp_all add: off_axis_def AEPS_def)
  from rotation_roundtrip [OF _ _ _ _ this] pi_gt_zero show ?thesis by auto
qed

text \<open>
  \<open>ProjectReverse\<close> undoes \<open>ProjectForward\<close>: a point less than 90 degrees away from the centre of projection, whose
  longitude does not differ from the centre's by exactly 90 or 270 degrees (there the code divides by zero), comes back exactly,
  across the step of the longitude from \<open>2\<pi>\<close> to 0 as well.
\<close>

theorem projection_roundtrip:
  assumes A0: "0 \<le> A0" "A0 < 2 * pi" and A: "0 \<le> A" "A < 2 * pi" and D: "- (pi / 2) < D" "D < pi / 2"
    and visible: "0 < sin D0 * sin D + cos D0 * cos D * cos (A - A0)" and meridian: "cos (A - A0) \<noteq> 0"
  shows "(case ProjectForward A0 D0 A D of (ksi, eta) \<Rightarrow> ProjectReverse A0 D0 ksi eta) = (A, D)"
proof -
  define F where "F = sin D0 * sin D + cos D0 * cos D * cos (A - A0)"
  let ?d = "A - A0"
  let ?ksi = "cos D * sin ?d / F" and ?eta = "(cos D0 * sin D - sin D0 * cos D * cos ?d) / F"
  let ?k = "cos D / F"
  have c: "0 < cos D" using D by (intro cos_gt_zero_pi) auto
  have F: "0 < F" using visible by (simp add: F_def)
  with c have k: "0 < ?k" by simp
  have "cos D0 * F - (cos D0 * sin D - sin D0 * cos D * cos ?d) * sin D0
      = ((sin D0)\<^sup>2 + (cos D0)\<^sup>2) * (cos D * cos ?d)" unfolding F_def by algebra
  then have fract: "cos D0 - ?eta * sin D0 = ?k * cos ?d" using F by (simp add: field_simps)
  have "(cos D0 * sin D - sin D0 * cos D * cos ?d) * cos D0 + sin D0 * F = ((sin D0)\<^sup>2 + (cos D0)\<^sup>2) * sin D"
    unfolding F_def by algebra
  then have height: "?eta * cos D0 + sin D0 = sin D / F" using F by (simp add: field_simps)
  obtain d where d: "- pi < d" "d \<le> pi" and sc: "sin d = sin ?d" "cos d = cos ?d"
    and wrap: "(if A0 + d < 0 then A0 + d + 2 * pi else if A0 + d \<ge> 2 * pi then A0 + d - 2 * pi else A0 + d) = A"
  proof -
    consider "?d \<le> - pi" | "- pi < ?d \<and> ?d \<le> pi" | "pi < ?d" by linarith
    then show thesis
    proof cases
      case 1
      then show thesis using A A0 by (intro that [of "?d + 2 * pi"]) (auto simp: sin_add cos_add)
    next
      case 2
      then show thesis using A A0 by (intro that [of ?d]) auto
    next
      case 3
      then show thesis using A A0 by (intro that [of "?d - 2 * pi"]) (auto simp: sin_diff [of ?d] cos_diff [of ?d])
    qed
  qed
  have "atan2 ?ksi (cos D0 - ?eta * sin D0) = atan2 (?k * sin d) (?k * cos d)" unfolding fract by (simp add: sc)
  also have "\<dots> = d" by (rule atan2_polar [OF k d])
  finally have angle: "atan2 ?ksi (cos D0 - ?eta * sin D0) = d" .
  have "(?eta * cos D0 + sin D0) * cos d / (cos D0 - ?eta * sin D0) = tan D"
    unfolding fract height using c F meridian by (simp add: sc tan_def)
  moreover have "arctan (tan D) = D" using D by (intro arctan_tan) auto
  ultimately show ?thesis
    using angle wrap by (auto simp: ProjectForward_def ProjectReverse_def Let_def F_def [symmetric] split: if_splits)
qed

theorem projection_roundtrip_witness:
  "(case ProjectForward 0 0 (pi / 4) (pi / 6) of (ksi, eta) \<Rightarrow> ProjectReverse 0 0 ksi eta) = (pi / 4, pi / 6)"
  by (rule projection_roundtrip) (use pi_gt_zero in \<open>auto simp: cos_45 cos_30\<close>)

end
