(* ===== verification/AInterp.thy ===== *)
theory AInterp
  imports ArrayLoops ASphere
begin

text \<open>
  Interpolation (AMath.cpp): the coefficients of a cubic spline and its evaluation in one and two
  dimensions. A \<open>double\<close> is a real number. An output array is
  an argument and its new contents are the result; \<open>calloc\<close> gives an array of zeros, and the contents of an array from
  \<open>new\<close> are an argument.
\<close>

definition AMAX :: real where "AMAX = 10 ^ 30"

section \<open>Splines\<close>

text \<open>Arrays of fewer than two points make \<open>spline\<close> access a place before or behind them.\<close>

definition spline :: "nat \<Rightarrow> real list \<Rightarrow> real list \<Rightarrow> real \<Rightarrow> real \<Rightarrow> real list \<Rightarrow> real list option" where
  "spline n x y c1 cn c =
     (if n < 2 then None
      else do {
        let u = replicate n 0;
        let limit = 0.99 * AMAX;
        (c, u) \<leftarrow> (if c1 > limit
                   then do { c \<leftarrow> array_put c 0 0; u \<leftarrow> array_put u 0 0; Some (c, u) }
                   else do {
                     x0 \<leftarrow> array_get x 0; x1 \<leftarrow> array_get x 1; y0 \<leftarrow> array_get y 0; y1 \<leftarrow> array_get y 1;
                     c \<leftarrow> array_put c 0 (- 0.5);
                     u \<leftarrow> array_put u 0 ((3 / (x1 - x0)) * (y1 - y0) / (y1 - y0 - c1));
                     Some (c, u) });
        (c, u) \<leftarrow> for_up 1 (n - 1) (\<lambda>i (c, u). do {
                     xi \<leftarrow> array_get x i; xm \<leftarrow> array_get x (i - 1); xp \<leftarrow> array_get x (i + 1);
                     yi \<leftarrow> array_get y i; ym \<leftarrow> array_get y (i - 1); yp \<leftarrow> array_get y (i + 1);
                     cm \<leftarrow> array_get c (i - 1); um \<leftarrow> array_get u (i - 1);
                     let t1 = xi - xm;
                     let t2 = xp - xm;
                     let sig = t1 / t2;
                     let p = sig * cm + 2;
                     c \<leftarrow> array_put c i ((sig - 1) / p);
                     u \<leftarrow> array_put u i ((6 * ((yp - yi) / (xp - xi) - (yi - ym) / t1) / t2 - sig * um) / p);
                     Some (c, u) }) (c, u);
        (qn, un) \<leftarrow> (if cn > limit then Some (0, 0)
                     else do {
                       xl \<leftarrow> array_get x (n - 1); xk \<leftarrow> array_get x (n - 2);
                       yl \<leftarrow> array_get y (n - 1); yk \<leftarrow> array_get y (n - 2);
                       Some (0.5, 3 / (xl - xk) * (cn - (yl - yk) / (xl - xk))) });
        uk \<leftarrow> array_get u (n - 2); ck \<leftarrow> array_get c (n - 2);
        c \<leftarrow> array_put c (n - 1) ((un - qn * uk) / (qn * ck + 1));
        for_down 0 (n - 1) (\<lambda>i c. do {
          ci \<leftarrow> array_get c i; cp \<leftarrow> array_get c (i + 1); ui \<leftarrow> array_get u i;
          array_put c i (ci * cp + ui) }) c })"

text \<open>The bisection loop of \<open>splint\<close>.\<close>

function bisect :: "real list \<Rightarrow> real \<Rightarrow> nat \<Rightarrow> nat \<Rightarrow> (nat \<times> nat) option" where
  "bisect x xo klo khi =
     (if khi - klo > 1
      then let k = (khi + klo) div 2
           in if length x \<le> k then None
              else if x ! k > xo then bisect x xo klo k else bisect x xo k khi
      else Some (klo, khi))"
  by pat_completeness auto
termination by (relation "measure (\<lambda>(x, xo, klo, khi). khi - klo)") (auto simp: less_diff_conv)

declare bisect.simps [simp del]

text \<open>The value is the last component; it keeps its old contents when the two points are too close.\<close>

definition splint :: "nat \<Rightarrow> real list \<Rightarrow> real list \<Rightarrow> real list \<Rightarrow> real \<Rightarrow> real \<Rightarrow> (bool \<times> real) option" where
  "splint n x y c xo yo = do {
     (klo, khi) \<leftarrow> bisect x xo 0 (n - 1);
     xh \<leftarrow> array_get x khi; xl \<leftarrow> array_get x klo;
     let h = xh - xl;
     if \<bar>h\<bar> < AEPS then Some (False, yo)
     else do {
       yl \<leftarrow> array_get y klo; yh \<leftarrow> array_get y khi; cl \<leftarrow> array_get c klo; ch \<leftarrow> array_get c khi;
       let a = (xh - xo) / h;
       let b = (xo - xl) / h;
       Some (True, a * yl + b * yh + ((a * a - 1) * a * cl + (b * b - 1) * b * ch) * h * h / 6) } }"

text \<open>The loops that copy one row of a matrix into an array and back.\<close>

definition load_row :: "nat \<Rightarrow> nat \<Rightarrow> real list \<Rightarrow> real list \<Rightarrow> real list option" where
  "load_row nc j y ytmp = for_up 0 nc (\<lambda>k ytmp. do { v \<leftarrow> array_get y (j * nc + k); array_put ytmp k v }) ytmp"

definition store_row :: "nat \<Rightarrow> nat \<Rightarrow> real list \<Rightarrow> real list \<Rightarrow> real list option" where
  "store_row nc j ctmp c = for_up 0 nc (\<lambda>k c. do { v \<leftarrow> array_get ctmp k; array_put c (j * nc + k) v }) c"

definition spline2 :: "nat \<Rightarrow> nat \<Rightarrow> real list \<Rightarrow> real list \<Rightarrow> real list \<Rightarrow> real list \<Rightarrow> real list option" where
  "spline2 nr nc x1 x2 y c = do {
     (ytmp, ctmp, c) \<leftarrow> for_up 0 nr (\<lambda>j (ytmp, ctmp, c). do {
        ytmp \<leftarrow> load_row nc j y ytmp;
        ctmp \<leftarrow> spline nc x2 ytmp AMAX AMAX ctmp;
        c \<leftarrow> store_row nc j ctmp c;
        Some (ytmp, ctmp, c) }) (replicate nc 0, replicate nc 0, c);
     Some c }"

text \<open>The loop over the rows stops at a row that \<open>splint\<close> rejects.\<close>

fun splint2_rows :: "nat list \<Rightarrow> nat \<Rightarrow> real list \<Rightarrow> real list \<Rightarrow> real list \<Rightarrow> real
    \<Rightarrow> real list \<times> real list \<times> real list \<Rightarrow> (bool \<times> real list \<times> real list) option" where
  "splint2_rows [] nc x2 y c x2o (ytmp, ctmp, yytmp) = Some (True, ctmp, yytmp)"
| "splint2_rows (j # js) nc x2 y c x2o (ytmp, ctmp, yytmp) = do {
     ytmp \<leftarrow> load_row nc j y ytmp;
     ctmp \<leftarrow> load_row nc j c ctmp;
     old \<leftarrow> array_get yytmp j;
     (bret, v) \<leftarrow> splint nc x2 ytmp ctmp x2o old;
     yytmp \<leftarrow> array_put yytmp j v;
     if bret then splint2_rows js nc x2 y c x2o (ytmp, ctmp, yytmp) else Some (False, ctmp, yytmp) }"

definition splint2 ::
  "nat \<Rightarrow> nat \<Rightarrow> real list \<Rightarrow> real list \<Rightarrow> real list \<Rightarrow> real list \<Rightarrow> real \<Rightarrow> real \<Rightarrow> real \<Rightarrow> (bool \<times> real) option" where
  "splint2 nr nc x1 x2 y c x1o x2o yo = do {
     (bret, ctmp, yytmp) \<leftarrow> splint2_rows [0..<nr] nc x2 y c x2o
        (replicate nc 0, replicate (if nr > nc then nr else nc) 0, replicate nr 0);
     if bret then do {
       ctmp \<leftarrow> spline nr x1 yytmp AMAX AMAX ctmp;
       splint nr x1 yytmp ctmp x1o yo }
     else Some (False, yo) }"

section \<open>The bisection\<close>

lemma bisect_bracket:
  assumes "klo < khi" and "khi < length x"
  shows "yields (bisect x xo klo khi) (\<lambda>(a, b). b = a + 1 \<and> klo \<le> a \<and> b \<le> khi \<and>
    (a = klo \<or> x ! a \<le> xo) \<and> (b = khi \<or> xo < x ! b))"
  using assms
proof (induction x xo klo khi rule: bisect.induct)
  case (1 x xo klo khi)
  show ?case
  proof (cases "khi - klo > 1")
    case False
    with 1(3) show ?thesis by (subst bisect.simps) auto
  next
    case True
    let ?k = "(khi + klo) div 2"
    have k: "klo < ?k" "?k < khi" "?k < length x" using True 1(4) by auto
    show ?thesis
    proof (cases "x ! ?k > xo")
      case gr: True
      have "yields (bisect x xo klo ?k) (\<lambda>(a, b). b = a + 1 \<and> klo \<le> a \<and> b \<le> ?k \<and>
          (a = klo \<or> x ! a \<le> xo) \<and> (b = ?k \<or> xo < x ! b))"
        using 1(1) True gr k by simp
      then have "yields (bisect x xo klo ?k) (\<lambda>(a, b). b = a + 1 \<and> klo \<le> a \<and> b \<le> khi \<and>
          (a = klo \<or> x ! a \<le> xo) \<and> (b = khi \<or> xo < x ! b))"
        by (rule yields_mono) (use gr k in auto)
      then show ?thesis using True gr k by (subst bisect.simps) (simp add: Let_def)
    next
      case le: False
      have "yields (bisect x xo ?k khi) (\<lambda>(a, b). b = a + 1 \<and> ?k \<le> a \<and> b \<le> khi \<and>
          (a = ?k \<or> x ! a \<le> xo) \<and> (b = khi \<or> xo < x ! b))"
        using 1(2) True le k 1(4) by simp
      then have "yields (bisect x xo ?k khi) (\<lambda>(a, b). b = a + 1 \<and> klo \<le> a \<and> b \<le> khi \<and>
          (a = klo \<or> x ! a \<le> xo) \<and> (b = khi \<or> xo < x ! b))"
        by (rule yields_mono) (use le k in auto)
      then show ?thesis using True le k by (subst bisect.simps) (simp add: Let_def)
    qed
  qed
qed

text \<open>The segment in which \<open>splint\<close> evaluates, and the cubic polynomial of a segment.\<close>

definition segment :: "nat \<Rightarrow> real list \<Rightarrow> real \<Rightarrow> nat" where
  "segment n x t = (case bisect x t 0 (n - 1) of None \<Rightarrow> 0 | Some (a, b) \<Rightarrow> a)"

definition cubic :: "real list \<Rightarrow> real list \<Rightarrow> real list \<Rightarrow> nat \<Rightarrow> real \<Rightarrow> real" where
  "cubic x y c k t =
     (let h = x ! (k + 1) - x ! k; a = (x ! (k + 1) - t) / h; b = (t - x ! k) / h
      in a * y ! k + b * y ! (k + 1) + ((a * a - 1) * a * c ! k + (b * b - 1) * b * c ! (k + 1)) * h * h / 6)"

definition increasing :: "nat \<Rightarrow> real list \<Rightarrow> bool" where
  "increasing n x \<longleftrightarrow> 2 \<le> n \<and> length x = n \<and> (\<forall>i. i + 1 < n \<longrightarrow> x ! i < x ! (i + 1))"

definition spaced :: "nat \<Rightarrow> real list \<Rightarrow> bool" where
  "spaced n x \<longleftrightarrow> 2 \<le> n \<and> length x = n \<and> (\<forall>i. i + 1 < n \<longrightarrow> x ! i + AEPS \<le> x ! (i + 1))"

lemma spaced_increasing: "spaced n x \<Longrightarrow> increasing n x"
  using AEPS_pos unfolding spaced_def increasing_def by (metis add_less_cancel_left add.right_neutral less_le_trans)

lemma increasing_step: "increasing n x \<Longrightarrow> i + 1 < n \<Longrightarrow> x ! i < x ! (i + 1)"
  by (simp add: increasing_def)

lemma increasing_mono:
  assumes x: "increasing n x" and "i < j" and "j < n"
  shows "x ! i < x ! j"
  using assms(2,3)
proof (induction j)
  case (Suc j)
  then show ?case using increasing_step [OF x, of j] by (cases "i = j") auto
qed simp

lemma segment_facts:
  assumes x: "increasing n x"
  shows "bisect x t 0 (n - 1) = Some (segment n x t, segment n x t + 1)" and "segment n x t + 1 < n"
    and "segment n x t = 0 \<or> x ! segment n x t \<le> t" and "segment n x t + 1 = n - 1 \<or> t < x ! (segment n x t + 1)"
proof -
  have n: "2 \<le> n" "length x = n" using x by (auto simp: increasing_def)
  then have "yields (bisect x t 0 (n - 1)) (\<lambda>(a, b). b = a + 1 \<and> 0 \<le> a \<and> b \<le> n - 1 \<and>
      (a = 0 \<or> x ! a \<le> t) \<and> (b = n - 1 \<or> t < x ! b))" by (intro bisect_bracket) auto
  then obtain a where a: "bisect x t 0 (n - 1) = Some (a, a + 1)" "a + 1 \<le> n - 1" "a = 0 \<or> x ! a \<le> t"
    "a + 1 = n - 1 \<or> t < x ! (a + 1)" by (auto simp: yields_def)
  then have "segment n x t = a" by (simp add: segment_def)
  with a n show "bisect x t 0 (n - 1) = Some (segment n x t, segment n x t + 1)" "segment n x t + 1 < n"
    "segment n x t = 0 \<or> x ! segment n x t \<le> t" "segment n x t + 1 = n - 1 \<or> t < x ! (segment n x t + 1)" by auto
qed

lemma segmentI:
  assumes x: "increasing n x" and k: "k + 1 < n" "k = 0 \<or> x ! k \<le> t" "k + 1 = n - 1 \<or> t < x ! (k + 1)"
  shows "segment n x t = k"
proof -
  let ?s = "segment n x t"
  note s = segment_facts [OF x, of t]
  have "\<not> ?s < k"
  proof
    assume less: "?s < k"
    then have "t < x ! (?s + 1)" "x ! k \<le> t" using s k by auto
    moreover have "x ! (?s + 1) \<le> x ! k" using increasing_mono [OF x, of "?s + 1" k] less k by (cases "?s + 1 = k") auto
    ultimately show False by simp
  qed
  moreover have "\<not> k < ?s"
  proof
    assume less: "k < ?s"
    then have "t < x ! (k + 1)" "x ! ?s \<le> t" using s k by auto
    moreover have "x ! (k + 1) \<le> x ! ?s" using increasing_mono [OF x, of "k + 1" ?s] less s by (cases "k + 1 = ?s") auto
    ultimately show False by simp
  qed
  ultimately show ?thesis by simp
qed

lemma splint_eq:
  assumes x: "spaced n x" and "n \<le> length y" and "n \<le> length c"
  shows "splint n x y c t yo = Some (True, cubic x y c (segment n x t) t)"
proof -
  note s = segment_facts [OF spaced_increasing [OF x], of t]
  have "x ! segment n x t + AEPS \<le> x ! (segment n x t + 1)" using x s(2) by (simp add: spaced_def)
  then have "\<not> \<bar>x ! (segment n x t + 1) - x ! segment n x t\<bar> < AEPS" by simp
  moreover have "array_get v (segment n x t) = Some (v ! segment n x t)"
    "array_get v (segment n x t + 1) = Some (v ! (segment n x t + 1))" if "n \<le> length v" for v :: "real list"
    using that s(2) by (simp_all add: array_get_def)
  ultimately show ?thesis
    using assms unfolding spaced_def by (simp add: splint_def s(1) cubic_def Let_def del: One_nat_def)
qed

lemma cubic_left: "x ! k \<noteq> x ! (k + 1) \<Longrightarrow> cubic x y c k (x ! k) = y ! k"
  by (simp add: cubic_def Let_def)

lemma cubic_right: "x ! k \<noteq> x ! (k + 1) \<Longrightarrow> cubic x y c k (x ! (k + 1)) = y ! (k + 1)"
  by (simp add: cubic_def Let_def)

text \<open>At the sampling points the value does not depend on the coefficients.\<close>

lemma cubic_at_node:
  assumes x: "increasing n x" and i: "i < n"
  shows "cubic x y c (segment n x (x ! i)) (x ! i) = y ! i"
proof (cases "i + 1 < n")
  case True
  then have "segment n x (x ! i) = i" using increasing_step [OF x True] by (intro segmentI [OF x]) auto
  then show ?thesis using cubic_left [of x i y c] increasing_step [OF x True] by simp
next
  case False
  then have n: "i = n - 1" "2 \<le> n" using i x by (auto simp: increasing_def)
  then have "segment n x (x ! i) = n - 2"
    using increasing_step [OF x, of "n - 2"] by (intro segmentI [OF x]) (auto simp: Suc_diff_Suc numeral_2_eq_2)
  then show ?thesis using cubic_right [of x "n - 2" y c] increasing_step [OF x, of "n - 2"] n
    by (simp add: Suc_diff_Suc numeral_2_eq_2)
qed

section \<open>Smoothness of piecewise functions\<close>

lemma glue_derivatives:
  fixes S f g :: "real \<Rightarrow> real"
  assumes f: "(f has_real_derivative D) (at a)" and g: "(g has_real_derivative D) (at a)" and e: "0 < e"
    and left: "\<And>t. a - e < t \<Longrightarrow> t \<le> a \<Longrightarrow> S t = f t" and right: "\<And>t. a \<le> t \<Longrightarrow> t < a + e \<Longrightarrow> S t = g t"
  shows "(S has_real_derivative D) (at a)"
  unfolding DERIV_def
proof (rule LIM_I)
  fix r :: real assume "0 < r"
  obtain s1 where s1: "0 < s1" "\<forall>h. h \<noteq> 0 \<and> norm (h - 0) < s1 \<longrightarrow> norm ((f (a + h) - f a) / h - D) < r"
    using LIM_D [OF f [unfolded DERIV_def] \<open>0 < r\<close>] by blast
  obtain s2 where s2: "0 < s2" "\<forall>h. h \<noteq> 0 \<and> norm (h - 0) < s2 \<longrightarrow> norm ((g (a + h) - g a) / h - D) < r"
    using LIM_D [OF g [unfolded DERIV_def] \<open>0 < r\<close>] by blast
  show "\<exists>s>0. \<forall>h. h \<noteq> 0 \<and> norm (h - 0) < s \<longrightarrow> norm ((S (a + h) - S a) / h - D) < r"
  proof (intro exI [of _ "min e (min s1 s2)"] conjI allI impI)
    fix h :: real assume h: "h \<noteq> 0 \<and> norm (h - 0) < min e (min s1 s2)"
    show "norm ((S (a + h) - S a) / h - D) < r"
    proof (cases "h < 0")
      case True
      then have "S (a + h) = f (a + h)" "S a = f a" using h e by (auto intro!: left)
      then show ?thesis using s1 h by simp
    next
      case False
      then have "S (a + h) = g (a + h)" "S a = g a" using h e by (auto intro!: right)
      then show ?thesis using s2 h by simp
    qed
  qed (use e s1 s2 in auto)
qed

lemma piecewise_derivative:
  assumes x: "increasing n x"
    and F: "\<And>k t. k + 1 < n \<Longrightarrow> (F k has_real_derivative F' k t) (at t)"
    and meet: "\<And>k. k + 2 < n \<Longrightarrow> F k (x ! (k + 1)) = F (k + 1) (x ! (k + 1))"
    and meet': "\<And>k. k + 2 < n \<Longrightarrow> F' k (x ! (k + 1)) = F' (k + 1) (x ! (k + 1))"
  shows "((\<lambda>t. F (segment n x t) t) has_real_derivative F' (segment n x t) t) (at t)"
proof -
  let ?s = "segment n x t"
  note s = segment_facts [OF x, of t]
  have piece: "F (segment n x u) u = F k u"
    if k: "k + 1 < n" and lo: "k = 0 \<or> x ! k \<le> u" and hi: "k + 1 = n - 1 \<or> u \<le> x ! (k + 1)" for k u
  proof (cases "k + 1 = n - 1 \<or> u < x ! (k + 1)")
    case True
    then show ?thesis using segmentI [OF x k lo] by simp
  next
    case False
    then have u: "u = x ! (k + 1)" and k2: "k + 2 < n" using hi k by auto
    have "segment n x u = k + 1"
      using increasing_step [OF x, of "k + 1"] k2 by (intro segmentI [OF x]) (auto simp: u)
    then show ?thesis using meet [OF k2] u by simp
  qed
  define lo where "lo = (if ?s = 0 then t - 1 else x ! ?s)"
  define hi where "hi = (if ?s + 1 = n - 1 then t + 1 else x ! (?s + 1))"
  have "lo \<le> t" "t < hi" using s by (auto simp: lo_def hi_def)
  show ?thesis
  proof (cases "lo < t")
    case True
    let ?e = "min (t - lo) (hi - t)"
    show ?thesis
    proof (rule glue_derivatives [where f = "F ?s" and g = "F ?s" and e = ?e])
      fix u assume u: "t - ?e < u" "u \<le> t"
      then show "F (segment n x u) u = F ?s u"
        using \<open>t < hi\<close> s(2) by (intro piece) (auto simp: lo_def hi_def split: if_splits)
    next
      fix u assume u: "t \<le> u" "u < t + ?e"
      then show "F (segment n x u) u = F ?s u"
        using True s(2) by (intro piece) (auto simp: lo_def hi_def split: if_splits)
    qed (use F [OF s(2)] True \<open>t < hi\<close> in auto)
  next
    case False
    then have t: "t = x ! ?s" and s0: "?s \<noteq> 0" using \<open>lo \<le> t\<close> by (auto simp: lo_def split: if_splits)
    define p where "p = ?s - 1"
    have p: "?s = p + 1" "p + 2 < n" using s0 s(2) by (auto simp: p_def)
    have plo: "x ! p < t" using increasing_step [OF x, of p] p t by simp
    let ?e = "min (t - x ! p) (hi - t)"
    have D: "F' p t = F' ?s t" using meet' [OF p(2)] p t by simp
    show ?thesis
    proof (rule glue_derivatives [where f = "F p" and g = "F ?s" and e = ?e])
      show "(F p has_real_derivative F' ?s t) (at t)" using F [of p t] p D by simp
    next
      fix u assume u: "t - ?e < u" "u \<le> t"
      then show "F (segment n x u) u = F p u" using p t by (intro piece) auto
    next
      fix u assume u: "t \<le> u" "u < t + ?e"
      then show "F (segment n x u) u = F ?s u"
        using s(2) t by (intro piece) (auto simp: hi_def split: if_splits)
    qed (use F [OF s(2)] plo \<open>t < hi\<close> in auto)
  qed
qed

section \<open>The coefficients\<close>

definition cubic' :: "real list \<Rightarrow> real list \<Rightarrow> real list \<Rightarrow> nat \<Rightarrow> real \<Rightarrow> real" where
  "cubic' x y c k t =
     (let h = x ! (k + 1) - x ! k; a = (x ! (k + 1) - t) / h; b = (t - x ! k) / h
      in (y ! (k + 1) - y ! k) / h + ((1 - 3 * a\<^sup>2) * c ! k + (3 * b\<^sup>2 - 1) * c ! (k + 1)) * h / 6)"

definition cubic'' :: "real list \<Rightarrow> real list \<Rightarrow> nat \<Rightarrow> real \<Rightarrow> real" where
  "cubic'' x c k t =
     (let h = x ! (k + 1) - x ! k in (x ! (k + 1) - t) / h * c ! k + (t - x ! k) / h * c ! (k + 1))"

lemma cubic_derivative:
  assumes "x ! k < x ! (k + 1)"
  shows "(cubic x y c k has_real_derivative cubic' x y c k t) (at t)"
proof -
  define h p q where "h = x ! (k + 1) - x ! k" and "p = x ! (k + 1)" and "q = x ! k"
  have h: "h \<noteq> 0" using assms by (simp add: h_def)
  have "((\<lambda>t. (p - t) / h * y ! k + (t - q) / h * y ! (k + 1) +
      ((((p - t) / h) * ((p - t) / h) - 1) * ((p - t) / h) * c ! k +
       (((t - q) / h) * ((t - q) / h) - 1) * ((t - q) / h) * c ! (k + 1)) * h * h / 6)
    has_real_derivative (y ! (k + 1) - y ! k) / h +
      ((1 - 3 * ((p - t) / h)\<^sup>2) * c ! k + (3 * ((t - q) / h)\<^sup>2 - 1) * c ! (k + 1)) * h / 6) (at t)"
    using h by (auto intro!: derivative_eq_intros simp: power2_eq_square) (simp add: field_simps)
  then show ?thesis
    by (simp add: cubic_def [abs_def] cubic'_def Let_def h_def p_def q_def)
qed

lemma cubic'_derivative:
  assumes "x ! k < x ! (k + 1)"
  shows "(cubic' x y c k has_real_derivative cubic'' x c k t) (at t)"
proof -
  define h p q where "h = x ! (k + 1) - x ! k" and "p = x ! (k + 1)" and "q = x ! k"
  have h: "h \<noteq> 0" using assms by (simp add: h_def)
  have "((\<lambda>t. (y ! (k + 1) - y ! k) / h +
      ((1 - 3 * ((p - t) / h)\<^sup>2) * c ! k + (3 * ((t - q) / h)\<^sup>2 - 1) * c ! (k + 1)) * h / 6)
    has_real_derivative (p - t) / h * c ! k + (t - q) / h * c ! (k + 1)) (at t)"
    using h by (auto intro!: derivative_eq_intros simp: power2_eq_square) (simp add: field_simps)
  then show ?thesis
    by (simp add: cubic'_def [abs_def] cubic''_def Let_def h_def p_def q_def)
qed

text \<open>The condition on the coefficients that makes the derivative continuous at the point \<open>i\<close>.\<close>

definition smooth_at :: "real list \<Rightarrow> real list \<Rightarrow> real list \<Rightarrow> nat \<Rightarrow> bool" where
  "smooth_at x y c i \<longleftrightarrow>
     (x ! i - x ! (i - 1)) * c ! (i - 1) + 2 * (x ! (i + 1) - x ! (i - 1)) * c ! i + (x ! (i + 1) - x ! i) * c ! (i + 1)
     = 6 * ((y ! (i + 1) - y ! i) / (x ! (i + 1) - x ! i) - (y ! i - y ! (i - 1)) / (x ! i - x ! (i - 1)))"

lemma smooth_meets:
  assumes x: "x ! k < x ! (k + 1)" "x ! (k + 1) < x ! (k + 2)" and smooth: "smooth_at x y c (k + 1)"
  shows "cubic' x y c k (x ! (k + 1)) = cubic' x y c (k + 1) (x ! (k + 1))"
proof -
  define h where "h = x ! (k + 1) - x ! k"
  define h' where "h' = x ! (k + 2) - x ! (k + 1)"
  have pos: "h \<noteq> 0" "h' \<noteq> 0" using x by (simp_all add: h_def h'_def)
  define s where "s = (y ! (k + 1) - y ! k) / h"
  define s' where "s' = (y ! (k + 2) - y ! (k + 1)) / h'"
  have "x ! (k + 2) - x ! k = h + h'" by (simp add: h_def h'_def)
  then have "h * c ! k + 2 * (h + h') * c ! (k + 1) + h' * c ! (k + 2) = 6 * (s' - s)"
    using smooth by (simp add: smooth_at_def h_def h'_def s_def s'_def)
  then have row: "s + (c ! k + 2 * c ! (k + 1)) * h / 6 = s' + (- 2 * c ! (k + 1) - c ! (k + 2)) * h' / 6"
    by (simp add: field_simps)
  have "cubic' x y c k (x ! (k + 1)) = s + (c ! k + 2 * c ! (k + 1)) * h / 6"
    using pos by (simp add: cubic'_def Let_def h_def s_def)
  moreover have "cubic' x y c (k + 1) (x ! (k + 1)) = s' + (- 2 * c ! (k + 1) - c ! (k + 2)) * h' / 6"
    using pos by (simp add: cubic'_def Let_def h'_def s'_def)
  ultimately show ?thesis using row by simp
qed

text \<open>The sequences that the two loops of \<open>spline\<close> compute for free ends.\<close>

definition sp_sig :: "real list \<Rightarrow> nat \<Rightarrow> real" where
  "sp_sig x i = (x ! i - x ! (i - 1)) / (x ! (i + 1) - x ! (i - 1))"

definition sp_rhs :: "real list \<Rightarrow> real list \<Rightarrow> nat \<Rightarrow> real" where
  "sp_rhs x y i = 6 * ((y ! (i + 1) - y ! i) / (x ! (i + 1) - x ! i) - (y ! i - y ! (i - 1)) / (x ! i - x ! (i - 1)))
     / (x ! (i + 1) - x ! (i - 1))"

fun sp_gam :: "real list \<Rightarrow> nat \<Rightarrow> real" where
  "sp_gam x 0 = 0"
| "sp_gam x (Suc i) = (sp_sig x (Suc i) - 1) / (sp_sig x (Suc i) * sp_gam x i + 2)"

fun sp_ups :: "real list \<Rightarrow> real list \<Rightarrow> nat \<Rightarrow> real" where
  "sp_ups x y 0 = 0"
| "sp_ups x y (Suc i) = (sp_rhs x y (Suc i) - sp_sig x (Suc i) * sp_ups x y i) / (sp_sig x (Suc i) * sp_gam x i + 2)"

text \<open>The coefficient at the point \<open>n - 1 - d\<close>.\<close>

fun sp_back :: "real list \<Rightarrow> real list \<Rightarrow> nat \<Rightarrow> nat \<Rightarrow> real" where
  "sp_back x y n 0 = 0"
| "sp_back x y n (Suc d) = sp_gam x (n - 2 - d) * sp_back x y n d + sp_ups x y (n - 2 - d)"

definition sp_coeff :: "real list \<Rightarrow> real list \<Rightarrow> nat \<Rightarrow> nat \<Rightarrow> real" where
  "sp_coeff x y n i = sp_back x y n (n - 1 - i)"

lemma sp_coeff_last: "sp_coeff x y n (n - 1) = 0"
  by (simp add: sp_coeff_def)

lemma sp_coeff_step: "i + 1 < n \<Longrightarrow> sp_coeff x y n i = sp_gam x i * sp_coeff x y n (i + 1) + sp_ups x y i"
proof -
  assume i: "i + 1 < n"
  then have "n - 1 - i = Suc (n - 1 - (i + 1))" and "n - 2 - (n - 1 - (i + 1)) = i" by auto
  then show ?thesis by (simp add: sp_coeff_def del: diff_Suc_Suc)
qed

lemma sp_gam_bounds:
  assumes x: "increasing n x"
  shows "i + 1 < n \<Longrightarrow> - 1 < sp_gam x i \<and> sp_gam x i \<le> 0"
proof (induction i)
  case (Suc i)
  have "x ! i < x ! (i + 1)" "x ! (i + 1) < x ! (i + 2)"
    using increasing_step [OF x, of i] increasing_step [OF x, of "i + 1"] Suc.prems by auto
  then have sig: "0 < sp_sig x (Suc i)" "sp_sig x (Suc i) < 1" by (simp_all add: sp_sig_def)
  have "- 1 < sp_sig x (Suc i) * sp_gam x i"
  proof -
    have "- 1 < sp_gam x i" "sp_gam x i \<le> 0" using Suc by auto
    then have "- 1 < sp_gam x i \<and> sp_gam x i \<le> sp_sig x (Suc i) * sp_gam x i"
      using sig mult_right_mono_neg [of "sp_sig x (Suc i)" 1 "sp_gam x i"] by simp
    then show ?thesis by linarith
  qed
  then have p: "1 < sp_sig x (Suc i) * sp_gam x i + 2" by linarith
  with sig show ?case by (simp add: divide_le_0_iff less_divide_eq)
qed simp

lemma sp_pivot:
  assumes x: "increasing n x" and i: "Suc i + 1 < n"
  shows "0 < sp_sig x (Suc i) * sp_gam x i + 2"
proof -
  have "x ! i < x ! (i + 1)" "x ! (i + 1) < x ! (i + 2)"
    using increasing_step [OF x, of i] increasing_step [OF x, of "i + 1"] i by auto
  then have sig: "0 < sp_sig x (Suc i)" "sp_sig x (Suc i) < 1" by (simp_all add: sp_sig_def)
  have "- 1 < sp_gam x i" "sp_gam x i \<le> 0" using sp_gam_bounds [OF x, of i] i by auto
  then have "sp_gam x i \<le> sp_sig x (Suc i) * sp_gam x i"
    using sig mult_right_mono_neg [of "sp_sig x (Suc i)" 1 "sp_gam x i"] by simp
  with \<open>- 1 < sp_gam x i\<close> show ?thesis by linarith
qed

lemma sp_coeff_smooth:
  assumes x: "increasing n x" and i: "i + 2 < n"
  shows "smooth_at x y (vec_array n (sp_coeff x y n)) (i + 1)"
proof -
  let ?c = "sp_coeff x y n" and ?p = "sp_sig x (Suc i) * sp_gam x i + 2"
  define t2 where "t2 = x ! (i + 2) - x ! i"
  have lt: "x ! i < x ! (i + 1)" "x ! (i + 1) < x ! (i + 2)"
    using increasing_step [OF x, of i] increasing_step [OF x, of "i + 1"] i by auto
  then have t2: "t2 \<noteq> 0" by (simp add: t2_def)
  have p: "?p \<noteq> 0" using sp_pivot [OF x, of i] i by simp
  have c0: "?c i = sp_gam x i * ?c (i + 1) + sp_ups x y i" using sp_coeff_step [of i n x y] i by simp
  have "?c (i + 1) = sp_gam x (Suc i) * ?c (i + 2) + sp_ups x y (Suc i)"
    using sp_coeff_step [of "Suc i" n x y] i by simp
  also have "\<dots> = ((sp_sig x (Suc i) - 1) * ?c (i + 2) + sp_rhs x y (Suc i) - sp_sig x (Suc i) * sp_ups x y i) / ?p"
    by (simp add: add_diff_eq flip: add_divide_distrib)
  finally have "?c (i + 1) * ?p = (sp_sig x (Suc i) - 1) * ?c (i + 2) + sp_rhs x y (Suc i) - sp_sig x (Suc i) * sp_ups x y i"
    using p by (simp add: field_simps)
  then have row: "sp_sig x (Suc i) * ?c i + 2 * ?c (i + 1) + (1 - sp_sig x (Suc i)) * ?c (i + 2) = sp_rhs x y (Suc i)"
    unfolding c0 by (simp add: algebra_simps)
  have sig: "t2 * sp_sig x (Suc i) = x ! (i + 1) - x ! i" using t2 by (simp add: sp_sig_def t2_def)
  have "(t2 * sp_sig x (Suc i)) * ?c i + 2 * t2 * ?c (i + 1) + (t2 - t2 * sp_sig x (Suc i)) * ?c (i + 2)
      = t2 * (sp_sig x (Suc i) * ?c i + 2 * ?c (i + 1) + (1 - sp_sig x (Suc i)) * ?c (i + 2))"
    by (simp add: algebra_simps)
  also have "\<dots> = t2 * sp_rhs x y (Suc i)" unfolding row ..
  also have "\<dots> = 6 * ((y ! (i + 2) - y ! (i + 1)) / (x ! (i + 2) - x ! (i + 1))
      - (y ! (i + 1) - y ! i) / (x ! (i + 1) - x ! i))" using t2 by (simp add: sp_rhs_def t2_def)
  finally show ?thesis unfolding sig using i by (simp add: smooth_at_def t2_def)
qed

text \<open>The first loop and the back substitution.\<close>

lemma spline_natural_eq:
  assumes n: "2 \<le> n" and len: "length x = n" "length y = n" "n \<le> length c"
    and ends: "c1 > 0.99 * AMAX" "cn > 0.99 * AMAX"
  shows "spline n x y c1 cn c =
    Some (vec_array (length c) (\<lambda>k. if k < n then sp_coeff x y n k else c ! k))"
proof -
  let ?N = "length c"
  let ?g = "\<lambda>j k. if k < j then sp_gam x k else c ! k"
  let ?u = "\<lambda>j k. if k < j then sp_ups x y k else 0 :: real"
  let ?fwd = "\<lambda>i (c, u). do {
                     xi \<leftarrow> array_get x i; xm \<leftarrow> array_get x (i - 1); xp \<leftarrow> array_get x (i + 1);
                     yi \<leftarrow> array_get y i; ym \<leftarrow> array_get y (i - 1); yp \<leftarrow> array_get y (i + 1);
                     cm \<leftarrow> array_get c (i - 1); um \<leftarrow> array_get u (i - 1);
                     let t1 = xi - xm;
                     let t2 = xp - xm;
                     let sig = t1 / t2;
                     let p = sig * cm + 2;
                     c \<leftarrow> array_put c i ((sig - 1) / p);
                     u \<leftarrow> array_put u i ((6 * ((yp - yi) / (xp - xi) - (yi - ym) / t1) / t2 - sig * um) / p);
                     Some (c, u) }"
  let ?bwd = "\<lambda>i c. do { ci \<leftarrow> array_get c i; cp \<leftarrow> array_get c (i + 1); ui \<leftarrow> array_get (vec_array n (?u (n - 1))) i;
                       array_put c i (ci * cp + ui) }"
  have get: "array_get x i = Some (x ! i)" "array_get y i = Some (y ! i)" if "i < n" for i
    using that len by (simp_all add: array_get_def)
  have "vec_array ?N (((!) c)(0 := 0)) = vec_array ?N (?g 1)" "vec_array n ((\<lambda>_. 0)(0 := 0)) = vec_array n (?u 1)"
    by (intro vec_array_cong; simp)+
  moreover have "vec_array ?N ((!) c) = c" "vec_array n (\<lambda>_. 0 :: real) = replicate n 0"
    using vec_array_nth [of c] len by (simp_all add: vec_array_def map_replicate_const)
  moreover have "0 < n" "c \<noteq> []" using n len by auto
  ultimately have c0: "array_put c 0 0 = Some (vec_array ?N (?g 1))"
    and u0: "array_put (replicate n 0) 0 0 = Some (vec_array n (?u 1))"
    using len put_vec_array [of 0 ?N "(!) c" 0] put_vec_array [of 0 n "\<lambda>_. 0 :: real" 0] by simp_all
  have fwd: "for_up 1 (n - 1) ?fwd (vec_array ?N (?g 1), vec_array n (?u 1))
      = Some (vec_array ?N (?g (n - 1)), vec_array n (?u (n - 1)))"
  proof (rule for_up_states [where \<alpha> = "\<lambda>j. (vec_array ?N (?g j), vec_array n (?u j))"])
    fix i assume i: "1 \<le> i" "i < n - 1"
    then obtain m where m: "i = Suc m" by (cases i) auto
    let ?sig = "(x ! i - x ! (i - 1)) / (x ! (i + 1) - x ! (i - 1))"
    have eqs: "(?sig - 1) / (?sig * sp_gam x (i - 1) + 2) = sp_gam x i"
      "(6 * ((y ! (i + 1) - y ! i) / (x ! (i + 1) - x ! i) - (y ! i - y ! (i - 1)) / (x ! i - x ! (i - 1)))
         / (x ! (i + 1) - x ! (i - 1)) - ?sig * sp_ups x y (i - 1)) / (?sig * sp_gam x (i - 1) + 2) = sp_ups x y i"
      by (simp_all add: m sp_sig_def sp_rhs_def)
    have cells: "vec_array ?N ((?g i)(i := sp_gam x i)) = vec_array ?N (?g (Suc i))"
      "vec_array n ((?u i)(i := sp_ups x y i)) = vec_array n (?u (Suc i))"
      by (intro vec_array_cong; simp)+
    have b: "i < n" "i - 1 < n" "i + 1 < n" "i - 1 < i" "i < ?N" "i - 1 < ?N" using i len by auto
    show "?fwd i (vec_array ?N (?g i), vec_array n (?u i)) = Some (vec_array ?N (?g (Suc i)), vec_array n (?u (Suc i)))"
      using b(4) by (simp only: prod.case get [OF b(1)] get [OF b(2)] get [OF b(3)] get_vec_array [OF b(2)] get_vec_array [OF b(6)]
          put_vec_array [OF b(1)] put_vec_array [OF b(5)] Let_def if_True Option.bind.bind_lunit eqs cells)
  qed (use n in auto)
  let ?c = "\<lambda>j k. if k < j then sp_gam x k else if k < n then sp_coeff x y n k else c ! k"
  have bwd: "for_down 0 (n - 1) ?bwd (vec_array ?N (?c (n - 1))) = Some (vec_array ?N (?c 0))"
  proof (rule for_down_states [where \<alpha> = "\<lambda>j. vec_array ?N (?c j)"])
    fix i assume i: "0 \<le> i" "i < n - 1"
    then have b: "i < n" "i + 1 < n" "i < ?N" "i + 1 < ?N" using len by auto
    have "vec_array ?N ((?c (Suc i))(i := sp_gam x i * sp_coeff x y n (i + 1) + sp_ups x y i)) = vec_array ?N (?c i)"
      by (intro vec_array_cong) (use sp_coeff_step [OF b(2), of x y] b(1) in auto)
    then show "?bwd i (vec_array ?N (?c (Suc i))) = Some (vec_array ?N (?c i))"
      using i b by (simp add: get_vec_array put_vec_array)
  qed simp
  have top: "array_put (vec_array ?N (?g (n - 1))) (n - 1) ((0 - 0 * uk) / (0 * ck + 1)) = Some (vec_array ?N (?c (n - 1)))" for uk ck :: real
  proof -
    have "vec_array ?N ((?g (n - 1))(n - 1 := 0)) = vec_array ?N (?c (n - 1))"
      by (intro vec_array_cong) (use sp_coeff_last [of x y n] n in auto)
    then show ?thesis using n len by (simp add: put_vec_array)
  qed
  have "vec_array ?N (?c 0) = vec_array ?N (\<lambda>k. if k < n then sp_coeff x y n k else c ! k)" by simp
  moreover have "n - 2 < n" "n - 1 < ?N" "n - 2 < ?N" using n len by simp_all
  ultimately show ?thesis
    using n len ends fwd bwd top by (simp add: spline_def c0 u0 get_vec_array Let_def del: One_nat_def)
qed

lemma spline_natural_exact:
  "2 \<le> n \<Longrightarrow> length x = n \<Longrightarrow> length y = n \<Longrightarrow> length c = n \<Longrightarrow>
    spline n x y AMAX AMAX c = Some (vec_array n (sp_coeff x y n))"
  by (subst spline_natural_eq) (auto simp: AMAX_def intro!: vec_array_cong)

text \<open>The coefficients are the second derivatives at the sampling points.\<close>

lemma cubic''_at_node:
  assumes x: "increasing n x" and i: "i < n"
  shows "cubic'' x c (segment n x (x ! i)) (x ! i) = c ! i"
proof (cases "i + 1 < n")
  case True
  then have "segment n x (x ! i) = i" using increasing_step [OF x True] by (intro segmentI [OF x]) auto
  then show ?thesis using increasing_step [OF x True] by (simp add: cubic''_def)
next
  case False
  then have "n = (n - 2) + 2" "i = (n - 2) + 1" using i x by (auto simp: increasing_def)
  then obtain m where m: "n = m + 2" "i = m + 1" by blast
  then have "segment n x (x ! i) = m" using increasing_step [OF x, of m] by (intro segmentI [OF x]) auto
  then show ?thesis using m increasing_step [OF x, of m] by (simp add: cubic''_def)
qed

text \<open>Coefficients that satisfy the condition at every inner point give a twice differentiable function.\<close>

lemma cubic_spline_smooth:
  assumes x: "increasing n x" and smooth: "\<And>k. k + 2 < n \<Longrightarrow> smooth_at x y c (k + 1)"
  shows "((\<lambda>t. cubic x y c (segment n x t) t) has_real_derivative cubic' x y c (segment n x t) t) (at t)"
    and "((\<lambda>t. cubic' x y c (segment n x t) t) has_real_derivative cubic'' x c (segment n x t) t) (at t)"
proof -
  have step: "k + 1 < n \<Longrightarrow> x ! k < x ! (k + 1)" for k using increasing_step [OF x] .
  have meets: "cubic' x y c k (x ! (k + 1)) = cubic' x y c (k + 1) (x ! (k + 1))" if "k + 2 < n" for k
    using step [of k] step [of "k + 1"] that smooth by (intro smooth_meets) simp_all
  show "((\<lambda>t. cubic x y c (segment n x t) t) has_real_derivative cubic' x y c (segment n x t) t) (at t)"
  proof (rule piecewise_derivative [OF x, of "cubic x y c" "cubic' x y c"])
    fix k assume k: "k + 2 < n"
    show "cubic x y c k (x ! (k + 1)) = cubic x y c (k + 1) (x ! (k + 1))"
      using step [of k] step [of "k + 1"] k cubic_right [of x k y c] cubic_left [of x "k + 1" y c] by simp
  qed (use meets cubic_derivative [OF step] in blast)+
  show "((\<lambda>t. cubic' x y c (segment n x t) t) has_real_derivative cubic'' x c (segment n x t) t) (at t)"
  proof (rule piecewise_derivative [OF x, of "cubic' x y c" "cubic'' x c"])
    fix k assume k: "k + 2 < n"
    show "cubic'' x c k (x ! (k + 1)) = cubic'' x c (k + 1) (x ! (k + 1))"
      using step [of k] step [of "k + 1"] k by (simp add: cubic''_def)
  qed (use meets cubic'_derivative [OF step] in blast)+
qed

section \<open>Properties\<close>

text \<open>
  C34. The natural spline. For sampling points at least \<open>AEPS\<close> apart, \<open>spline\<close> with unknown end derivatives (\<open>AMAX\<close>)
  computes coefficients with which \<open>splint\<close> evaluates everywhere a function that passes through all
  samples, is twice differentiable on the whole line, and has a vanishing second derivative at both
  ends. Nothing depends on what the output array held before.
\<close>

theorem spline_natural:
  assumes sp: "spaced n x" and "length y = n" and "length c = n"
  shows "\<exists>M S S' S''. spline n x y AMAX AMAX c = Some M \<and>
    (\<forall>t yo. splint n x y M t yo = Some (True, S t)) \<and>
    (\<forall>i<n. S (x ! i) = y ! i) \<and>
    (\<forall>t. (S has_real_derivative S' t) (at t)) \<and> (\<forall>t. (S' has_real_derivative S'' t) (at t)) \<and>
    S'' (x ! 0) = 0 \<and> S'' (x ! (n - 1)) = 0"
proof -
  have x: "increasing n x" by (rule spaced_increasing [OF sp])
  let ?M = "vec_array n (sp_coeff x y n)"
  let ?S = "\<lambda>t. cubic x y ?M (segment n x t) t"
  let ?S' = "\<lambda>t. cubic' x y ?M (segment n x t) t"
  let ?S'' = "\<lambda>t. cubic'' x ?M (segment n x t) t"
  have n: "2 \<le> n" "length x = n" using x by (auto simp: increasing_def)
  have step: "k + 1 < n \<Longrightarrow> x ! k < x ! (k + 1)" for k using increasing_step [OF x] .
  have "spline n x y AMAX AMAX c = Some ?M"
    by (rule spline_natural_exact) (use n assms(2,3) in \<open>simp_all\<close>)
  moreover have "splint n x y ?M t yo = Some (True, ?S t)" for t yo
    by (rule splint_eq [OF sp]) (simp_all add: assms(2))
  moreover have "?S (x ! i) = y ! i" if "i < n" for i by (rule cubic_at_node [OF x that])
  moreover have "(?S has_real_derivative ?S' t) (at t)" for t
    by (rule cubic_spline_smooth(1) [OF x sp_coeff_smooth [OF x]])
  moreover have "(?S' has_real_derivative ?S'' t) (at t)" for t
    by (rule cubic_spline_smooth(2) [OF x sp_coeff_smooth [OF x]])
  moreover have "?S'' (x ! 0) = 0"
    using sp_coeff_step [of 0 n x y] n by (simp add: cubic''_at_node [OF x])
  moreover have "?S'' (x ! (n - 1)) = 0"
    using sp_coeff_last [of x y n] n by (simp add: cubic''_at_node [OF x])
  ultimately show ?thesis
    by (intro exI [of _ ?M] exI [of _ ?S] exI [of _ ?S'] exI [of _ ?S''] conjI allI impI)
qed

theorem spline_natural_witness:
  "\<exists>M S S' S''. spline 3 [0, 1, 3] [0, 1, 0] AMAX AMAX [7, 7, 7] = Some M \<and>
    (\<forall>t yo. splint 3 [0, 1, 3] [0, 1, 0] M t yo = Some (True, S t)) \<and> S 1 = 1 \<and> S 3 = 0 \<and>
    (\<forall>t. (S has_real_derivative S' t) (at t)) \<and> (\<forall>t. (S' has_real_derivative S'' t) (at t)) \<and> S'' 0 = 0 \<and> S'' 3 = 0"
proof -
  have "spaced 3 [0, 1, 3]"
    by (auto simp: spaced_def AEPS_def less_Suc_eq nth_Cons' numeral_3_eq_3)
  then obtain M S S' S'' where "spline 3 [0, 1, 3] [0, 1, 0] AMAX AMAX [7, 7, 7] = Some M"
    and "\<forall>t yo. splint 3 [0, 1, 3] [0, 1, 0] M t yo = Some (True, S t)" and nodes: "\<forall>i<3. S ([0, 1, 3] ! i) = [0, 1, 0] ! i"
    and "\<forall>t. (S has_real_derivative S' t) (at t)" "\<forall>t. (S' has_real_derivative S'' t) (at t)" "S'' 0 = 0" "S'' 3 = 0"
    using spline_natural [of 3 "[0, 1, 3]" "[0, 1, 0]" "[7, 7, 7]"] by auto
  moreover have "S 1 = 1" "S 3 = 0" using nodes [rule_format, of 1] nodes [rule_format, of 2] by simp_all
  ultimately show ?thesis by blast
qed

end
