(* ===== verification/ACurves.thy ===== *)
theory ACurves
  imports AInterp
begin

text \<open>
  The interpolations of AMath.cpp that do everything in one call: \<open>CubicSpline\<close>, \<open>Bilinear\<close> and
  \<open>Lagrange\<close>. The contents of the arrays that \<open>new\<close> returns are arguments.
\<close>

section \<open>CubicSpline\<close>

record spline_arrays =
  sa_A :: "real list"
  sa_B :: "real list"
  sa_C :: "real list"
  sa_D :: "real list"

text \<open>Boundary conditions and the coefficients of the equations.\<close>

definition cs_boundary :: "nat \<Rightarrow> spline_arrays \<Rightarrow> spline_arrays option" where
  "cs_boundary L w = do {
     A \<leftarrow> array_put (sa_A w) 0 0; A \<leftarrow> array_put A L 1;
     B \<leftarrow> array_put (sa_B w) 0 1; B \<leftarrow> array_put B L (- 1);
     C \<leftarrow> array_put (sa_C w) 0 (- 1); C \<leftarrow> array_put C L 0;
     D \<leftarrow> array_put (sa_D w) 0 0; D \<leftarrow> array_put D L 0;
     Some \<lparr>sa_A = A, sa_B = B, sa_C = C, sa_D = D\<rparr> }"

definition cs_coefficients :: "nat \<Rightarrow> real list \<Rightarrow> real list \<Rightarrow> spline_arrays \<Rightarrow> spline_arrays option" where
  "cs_coefficients L XI YI = for_up 1 L (\<lambda>i w. do {
     xi \<leftarrow> array_get XI i; xm \<leftarrow> array_get XI (i - 1); xp \<leftarrow> array_get XI (i + 1);
     yi \<leftarrow> array_get YI i; ym \<leftarrow> array_get YI (i - 1); yp \<leftarrow> array_get YI (i + 1);
     let t = xi - xm;
     let p = xp - xi;
     A \<leftarrow> array_put (sa_A w) i (t / 6); C \<leftarrow> array_put (sa_C w) i (p / 6);
     B \<leftarrow> array_put (sa_B w) i (2 * (t / 6 + p / 6));
     D \<leftarrow> array_put (sa_D w) i ((yp - yi) / p - (yi - ym) / t);
     Some \<lparr>sa_A = A, sa_B = B, sa_C = C, sa_D = D\<rparr> })"

definition cs_eliminate :: "nat \<Rightarrow> spline_arrays \<Rightarrow> spline_arrays option" where
  "cs_eliminate N = for_up 1 N (\<lambda>i w. do {
     a \<leftarrow> array_get (sa_A w) i; b \<leftarrow> array_get (sa_B w) i; c \<leftarrow> array_get (sa_C w) i; d \<leftarrow> array_get (sa_D w) i;
     cm \<leftarrow> array_get (sa_C w) (i - 1); dm \<leftarrow> array_get (sa_D w) (i - 1);
     let t = b - a * cm;
     C \<leftarrow> array_put (sa_C w) i (c / t); D \<leftarrow> array_put (sa_D w) i ((d - a * dm) / t);
     Some (w\<lparr>sa_C := C, sa_D := D\<rparr>) })"

definition cs_substitute :: "nat \<Rightarrow> spline_arrays \<Rightarrow> spline_arrays option" where
  "cs_substitute N w = do {
     d \<leftarrow> array_get (sa_D w) (N - 1); A \<leftarrow> array_put (sa_A w) (N - 1) d;
     for_up 0 (N - 1) (\<lambda>i w. do {
       let j = N - i - 2;
       d \<leftarrow> array_get (sa_D w) j; c \<leftarrow> array_get (sa_C w) j; a \<leftarrow> array_get (sa_A w) (j + 1);
       A \<leftarrow> array_put (sa_A w) j (d - c * a);
       Some (w\<lparr>sa_A := A\<rparr>) }) (w\<lparr>sa_A := A\<rparr>) }"

text \<open>The first segment that contains the point; past the last segment the search ends at \<open>L\<close>.\<close>

function cs_search :: "nat \<Rightarrow> real list \<Rightarrow> real \<Rightarrow> nat \<Rightarrow> nat option" where
  "cs_search L XI t j =
     (if j < L
      then do { xj \<leftarrow> array_get XI j; xk \<leftarrow> array_get XI (j + 1);
                if xj \<le> t \<and> t \<le> xk then Some j else cs_search L XI t (j + 1) }
      else Some j)"
  by pat_completeness auto
termination by (relation "measure (\<lambda>(L, XI, t, j). L - j)") auto

declare cs_search.simps [simp del]

definition cs_value :: "nat \<Rightarrow> real list \<Rightarrow> real list \<Rightarrow> spline_arrays \<Rightarrow> real \<Rightarrow> real option" where
  "cs_value L XI YI w t = do {
     x0 \<leftarrow> array_get XI 0; xL \<leftarrow> array_get XI L;
     j \<leftarrow> (if t < x0 then Some 0 else if t > xL then Some (L - 1) else cs_search L XI t 0);
     let k = j + 1;
     xk \<leftarrow> array_get XI k; xj \<leftarrow> array_get XI j; aj \<leftarrow> array_get (sa_A w) j; ak \<leftarrow> array_get (sa_A w) k;
     yj \<leftarrow> array_get YI j; yk \<leftarrow> array_get YI k;
     let p = xk - xj;
     Some ((aj * (xk - t) ^ 3 + ak * (t - xj) ^ 3) / 6 / p
           + (xk - t) * (yj / p - aj * p / 6) + (t - xj) * (yk / p - ak * p / 6)) }"

definition CubicSpline ::
  "spline_arrays \<Rightarrow> nat \<Rightarrow> real list \<Rightarrow> real list \<Rightarrow> nat \<Rightarrow> real list \<Rightarrow> real list \<Rightarrow> real list option" where
  "CubicSpline w N XI YI M XO YO = do {
     let L = N - 1;
     w \<leftarrow> cs_boundary L w;
     w \<leftarrow> cs_coefficients L XI YI w;
     w \<leftarrow> cs_eliminate N w;
     w \<leftarrow> cs_substitute N w;
     for_up 0 M (\<lambda>i YO. do { t \<leftarrow> array_get XO i; v \<leftarrow> cs_value L XI YI w t; array_put YO i v }) YO }"

section \<open>Bilinear and Lagrange\<close>

definition Bilinear :: "real list \<Rightarrow> real list \<Rightarrow> real list \<Rightarrow> real \<Rightarrow> real \<Rightarrow> real option" where
  "Bilinear XI YI ZI X0 Y0 = do {
     x0 \<leftarrow> array_get XI 0; x1 \<leftarrow> array_get XI 1; y0 \<leftarrow> array_get YI 0; y1 \<leftarrow> array_get YI 1;
     z0 \<leftarrow> array_get ZI 0; z1 \<leftarrow> array_get ZI 1; z2 \<leftarrow> array_get ZI 2; z3 \<leftarrow> array_get ZI 3;
     let f1 = z0 * (x1 - X0) * (y1 - Y0);
     let f2 = z1 * (X0 - x0) * (y1 - Y0);
     let f3 = z2 * (x1 - X0) * (Y0 - y0);
     let f4 = z3 * (X0 - x0) * (Y0 - y0);
     Some ((f1 + f2 + f3 + f4) / (x1 - x0) / (y1 - y0)) }"

text \<open>The search for the first sampling point beyond \<open>x\<close>.\<close>

function lg_search :: "nat \<Rightarrow> real list \<Rightarrow> real \<Rightarrow> nat \<Rightarrow> nat option" where
  "lg_search N XI x j =
     (if j < N then do { xj \<leftarrow> array_get XI j; if xj > x then Some j else lg_search N XI x (j + 1) } else Some j)"
  by pat_completeness auto
termination by (relation "measure (\<lambda>(N, XI, x, j). N - j)") auto

declare lg_search.simps [simp del]

text \<open>The window of points that take part; the indices are computed as signed numbers.\<close>

definition lg_window :: "int \<Rightarrow> int \<Rightarrow> int \<Rightarrow> int \<times> int" where
  "lg_window N OD j =
     (let OH = OD div 2; SI = j - OH; EI = SI + OD - 1;
          (SI, EI) = (if SI < 0 then (0, OD - 1) else (SI, EI))
      in if EI \<ge> N then (N - 1 - OD + 1, N - 1) else (SI, EI))"

definition lg_factor :: "real list \<Rightarrow> real \<Rightarrow> nat \<Rightarrow> nat \<Rightarrow> real \<Rightarrow> real option" where
  "lg_factor XI x i j t1 = do { xj \<leftarrow> array_get XI j; xi \<leftarrow> array_get XI i; Some (t1 * (x - xj) / (xi - xj)) }"

definition lg_value :: "real list \<Rightarrow> real list \<Rightarrow> real \<Rightarrow> nat \<Rightarrow> nat \<Rightarrow> real option" where
  "lg_value XI YI x SI EI = for_up SI (EI + 1) (\<lambda>i t0. do {
     t1 \<leftarrow> for_up SI i (lg_factor XI x i) 1;
     t1 \<leftarrow> for_up (i + 1) (EI + 1) (lg_factor XI x i) t1;
     yi \<leftarrow> array_get YI i;
     Some (t0 + t1 * yi) }) 0"

definition Lagrange :: "nat \<Rightarrow> real list \<Rightarrow> real list \<Rightarrow> int \<Rightarrow> nat \<Rightarrow> real list \<Rightarrow> real list \<Rightarrow> real list option" where
  "Lagrange N XI YI OD M XO YO = do {
     let OD = (if OD < 2 then 2 else OD);
     let OD = (if OD > int N then int N else OD);
     for_up 0 M (\<lambda>k YO. do {
       x \<leftarrow> array_get XO k;
       j \<leftarrow> lg_search N XI x 0;
       let (SI, EI) = lg_window (int N) OD (int j);
       v \<leftarrow> (if EI < SI then Some 0 else lg_value XI YI x (nat SI) (nat EI));
       array_put YO k v }) YO }"

section \<open>Polynomial functions\<close>

definition polynomial :: "nat \<Rightarrow> (real \<Rightarrow> real) \<Rightarrow> bool" where
  "polynomial d f \<longleftrightarrow> (\<exists>c. \<forall>x. f x = (\<Sum>e\<le>d. c e * x ^ e))"

lemma polynomial_const: "polynomial 0 (\<lambda>x. a)"
  unfolding polynomial_def by (rule exI [of _ "\<lambda>e. a"]) simp

lemma polynomial_add: "polynomial d f \<Longrightarrow> polynomial d g \<Longrightarrow> polynomial d (\<lambda>x. f x + g x)"
proof -
  assume "polynomial d f" "polynomial d g"
  then obtain a b where "\<forall>x. f x = (\<Sum>e\<le>d. a e * x ^ e)" "\<forall>x. g x = (\<Sum>e\<le>d. b e * x ^ e)"
    by (auto simp: polynomial_def)
  then show ?thesis unfolding polynomial_def
    by (intro exI [of _ "\<lambda>e. a e + b e"]) (simp add: distrib_right sum.distrib)
qed

lemma polynomial_scale: "polynomial d f \<Longrightarrow> polynomial d (\<lambda>x. f x * k)"
proof -
  assume "polynomial d f"
  then obtain a where "\<forall>x. f x = (\<Sum>e\<le>d. a e * x ^ e)" by (auto simp: polynomial_def)
  then show ?thesis unfolding polynomial_def
    by (intro exI [of _ "\<lambda>e. a e * k"]) (simp add: sum_distrib_left sum_distrib_right mult.commute mult.left_commute)
qed

lemma polynomial_mono: "polynomial d f \<Longrightarrow> d \<le> d' \<Longrightarrow> polynomial d' f"
proof -
  assume "polynomial d f" and d: "d \<le> d'"
  then obtain a where a: "\<forall>x. f x = (\<Sum>e\<le>d. a e * x ^ e)" by (auto simp: polynomial_def)
  have "(\<Sum>e\<le>d'. (if e \<le> d then a e else 0) * x ^ e) = (\<Sum>e\<le>d. a e * x ^ e)" for x :: real
    by (rule sum.mono_neutral_cong_right) (use d in auto)
  with a show ?thesis unfolding polynomial_def by (intro exI [of _ "\<lambda>e. if e \<le> d then a e else 0"]) simp
qed

lemma polynomial_shift: "polynomial d f \<Longrightarrow> polynomial (Suc d) (\<lambda>x. x * f x)"
proof -
  assume "polynomial d f"
  then obtain a where a: "\<forall>x. f x = (\<Sum>e\<le>d. a e * x ^ e)" by (auto simp: polynomial_def)
  have "(\<Sum>e\<le>Suc d. (case e of 0 \<Rightarrow> 0 | Suc e' \<Rightarrow> a e') * x ^ e) = x * f x" for x
    by (simp add: sum.atMost_Suc_shift a sum_distrib_left mult.left_commute del: sum.atMost_Suc)
  then show ?thesis unfolding polynomial_def by (intro exI [of _ "\<lambda>e. case e of 0 \<Rightarrow> 0 | Suc e' \<Rightarrow> a e'"]) simp
qed

lemma polynomial_factor: "polynomial d f \<Longrightarrow> polynomial (Suc d) (\<lambda>x. f x * (x - a) / b)"
proof -
  assume f: "polynomial d f"
  have "polynomial (Suc d) (\<lambda>x. x * f x * (1 / b) + f x * (- a / b))"
    by (intro polynomial_add polynomial_scale polynomial_shift f polynomial_mono [OF f]) simp
  then show ?thesis by (simp add: field_simps diff_divide_distrib)
qed

lemma polynomial_sum: "finite A \<Longrightarrow> (\<And>i. i \<in> A \<Longrightarrow> polynomial d (f i)) \<Longrightarrow> polynomial d (\<lambda>x. \<Sum>i\<in>A. f i x)"
proof (induction A rule: finite_induct)
  case empty
  then show ?case using polynomial_mono [OF polynomial_const [of 0]] by simp
next
  case (insert i A)
  then show ?case using polynomial_add [of d "f i" "\<lambda>x. \<Sum>i\<in>A. f i x"] by simp
qed

lemma polynomial_prod: "finite A \<Longrightarrow> polynomial (card A) (\<lambda>x. \<Prod>j\<in>A. (x - a j) / b j)"
proof (induction A rule: finite_induct)
  case empty
  then show ?case using polynomial_const [of 1] by simp
next
  case (insert j A)
  then show ?case using polynomial_factor [of "card A" "\<lambda>x. \<Prod>j\<in>A. (x - a j) / b j" "a j" "b j"]
    by (simp add: mult.commute)
qed

lemma polynomial_zero:
  assumes f: "polynomial d f" and Z: "finite Z" "d < card Z" "\<And>z. z \<in> Z \<Longrightarrow> f z = 0"
  shows "f x = 0"
proof -
  from f obtain c where c: "\<And>x. f x = (\<Sum>e\<le>d. c e * x ^ e)" by (auto simp: polynomial_def)
  have "c e = 0" if "e \<le> d" for e
  proof (rule ccontr)
    assume "c e \<noteq> 0"
    then have "finite {z. (\<Sum>e\<le>d. c e * z ^ e) = 0} \<and> card {z. (\<Sum>e\<le>d. c e * z ^ e) = 0} \<le> d"
      using polyfun_rootbound [of c e d] that by auto
    moreover have "Z \<subseteq> {z. (\<Sum>e\<le>d. c e * z ^ e) = 0}" using Z(3) by (auto simp flip: c)
    ultimately have "card Z \<le> d" by (meson card_mono le_trans)
    then show False using Z(2) by simp
  qed
  then show ?thesis by (simp add: c)
qed

section \<open>Lagrange interpolation\<close>

definition lagrange_poly :: "(nat \<Rightarrow> real) \<Rightarrow> (nat \<Rightarrow> real) \<Rightarrow> nat set \<Rightarrow> real \<Rightarrow> real" where
  "lagrange_poly X Y W x = (\<Sum>i\<in>W. (\<Prod>j\<in>W - {i}. (x - X j) / (X i - X j)) * Y i)"

lemma lagrange_poly_node:
  assumes "finite W" and "inj_on X W" and "m \<in> W"
  shows "lagrange_poly X Y W (X m) = Y m"
proof -
  have "(\<Prod>j\<in>W - {i}. (X m - X j) / (X i - X j)) = (if i = m then 1 else 0)" if "i \<in> W" for i
  proof (cases "i = m")
    case True
    have "X m - X j \<noteq> 0" if "j \<in> W - {m}" for j using assms that by (auto dest: inj_onD)
    then show ?thesis using True by (simp add: prod.neutral)
  next
    case False
    then have "m \<in> W - {i}" using assms by simp
    then show ?thesis using False assms(1) by (auto intro!: prod_zero)
  qed
  then have "lagrange_poly X Y W (X m) = (\<Sum>i\<in>W. if i = m then Y m else 0)"
    unfolding lagrange_poly_def by (intro sum.cong) auto
  then show ?thesis using assms by simp
qed

lemma lagrange_poly_exact:
  assumes W: "finite W" "inj_on X W" and d: "d < card W" and p: "polynomial d p" and Y: "\<And>i. i \<in> W \<Longrightarrow> Y i = p (X i)"
  shows "lagrange_poly X Y W x = p x"
proof -
  let ?n = "card W - 1"
  have "polynomial ?n (\<lambda>x. (\<Prod>j\<in>W - {i}. (x - X j) / (X i - X j)) * Y i)" if "i \<in> W" for i
    using polynomial_scale [OF polynomial_prod [of "W - {i}" X "\<lambda>j. X i - X j"]] W that by simp
  then have "polynomial ?n (lagrange_poly X Y W)"
    unfolding lagrange_poly_def [abs_def] by (intro polynomial_sum W)
  moreover have "polynomial ?n (\<lambda>x. p x * (- 1))" using polynomial_mono [OF p] d by (intro polynomial_scale) simp
  ultimately have "polynomial ?n (\<lambda>x. lagrange_poly X Y W x + p x * (- 1))" by (rule polynomial_add)
  then have "lagrange_poly X Y W x + p x * (- 1) = 0"
  proof (rule polynomial_zero)
    show "finite (X ` W)" "?n < card (X ` W)" using W d by (auto simp: card_image)
    fix z assume "z \<in> X ` W"
    then show "lagrange_poly X Y W z + p z * (- 1) = 0" using lagrange_poly_node [OF W] Y by auto
  qed
  then show ?thesis by simp
qed

lemma lg_factors:
  assumes "a \<le> b" and "b \<le> length XI" and "i < length XI"
  shows "for_up a b (lg_factor XI x i) t1 = Some (t1 * (\<Prod>j=a..<b. (x - XI ! j) / (XI ! i - XI ! j)))"
proof -
  have "for_up a b (lg_factor XI x i) (t1 * (\<Prod>j=a..<a. (x - XI ! j) / (XI ! i - XI ! j)))
      = Some (t1 * (\<Prod>j=a..<b. (x - XI ! j) / (XI ! i - XI ! j)))"
    by (rule for_up_states [where \<alpha> = "\<lambda>k. t1 * (\<Prod>j=a..<k. (x - XI ! j) / (XI ! i - XI ! j))"])
      (use assms in \<open>auto simp: lg_factor_def array_get_def\<close>)
  then show ?thesis by simp
qed

lemma lg_value_eq:
  assumes "s \<le> e" and "e < length XI" and "length YI = length XI"
  shows "lg_value XI YI x s e = Some (lagrange_poly ((!) XI) ((!) YI) {s..<e + 1} x)"
proof -
  let ?l = "\<lambda>i. (\<Prod>j\<in>{s..<e + 1} - {i}. (x - XI ! j) / (XI ! i - XI ! j)) * YI ! i"
  have prod: "(\<Prod>j=s..<i. f j) * (\<Prod>j=i+1..<e+1. f j) = (\<Prod>j\<in>{s..<e + 1} - {i}. f j)"
    if "s \<le> i" "i < e + 1" for i and f :: "nat \<Rightarrow> real"
  proof -
    have "{s..<e + 1} - {i} = {s..<i} \<union> {i+1..<e+1}" using that by auto
    then show ?thesis by (simp add: prod.union_disjoint)
  qed
  have "lg_value XI YI x s e = for_up s (e + 1) (\<lambda>i t0. do {
     t1 \<leftarrow> for_up s i (lg_factor XI x i) 1;
     t1 \<leftarrow> for_up (i + 1) (e + 1) (lg_factor XI x i) t1;
     yi \<leftarrow> array_get YI i;
     Some (t0 + t1 * yi) }) (\<Sum>i=s..<s. ?l i)" by (simp add: lg_value_def)
  also have "\<dots> = Some (\<Sum>i=s..<e + 1. ?l i)"
  proof (rule for_up_states [where \<alpha> = "\<lambda>k. \<Sum>i=s..<k. ?l i"])
    fix i assume i: "s \<le> i" "i < e + 1"
    then have "for_up s i (lg_factor XI x i) 1 = Some (\<Prod>j=s..<i. (x - XI ! j) / (XI ! i - XI ! j))"
      using assms lg_factors [of s i XI i x 1] by simp
    moreover have "for_up (i + 1) (e + 1) (lg_factor XI x i) t1 = Some (t1 * (\<Prod>j=i+1..<e+1. (x - XI ! j) / (XI ! i - XI ! j)))" for t1
      using i assms by (intro lg_factors) auto
    ultimately show "do {
     t1 \<leftarrow> for_up s i (lg_factor XI x i) 1;
     t1 \<leftarrow> for_up (i + 1) (e + 1) (lg_factor XI x i) t1;
     yi \<leftarrow> array_get YI i;
     Some ((\<Sum>i=s..<i. ?l i) + t1 * yi) } = Some (\<Sum>i=s..<Suc i. ?l i)"
      using i assms prod [OF i, of "\<lambda>j. (x - XI ! j) / (XI ! i - XI ! j)"] by (simp add: array_get_def)
  qed (use assms in simp)
  finally show ?thesis by (simp add: lagrange_poly_def)
qed

lemma lg_search_eq:
  assumes "j \<le> N" and "N \<le> length XI"
  shows "yields (lg_search N XI x j) (\<lambda>r. j \<le> r \<and> r \<le> N \<and> (r < N \<longrightarrow> x < XI ! r) \<and> (\<forall>i. j \<le> i \<longrightarrow> i < r \<longrightarrow> XI ! i \<le> x))"
  using assms
proof (induction N XI x j rule: lg_search.induct)
  case (1 N XI x j)
  show ?case
  proof (cases "j < N")
    case False
    then show ?thesis using 1(2) by (subst lg_search.simps) auto
  next
    case True
    then have get: "array_get XI j = Some (XI ! j)" using 1(3) by (simp add: array_get_def)
    show ?thesis
    proof (cases "XI ! j > x")
      case gr: True
      then show ?thesis using True get by (subst lg_search.simps) auto
    next
      case le: False
      have "yields (lg_search N XI x (j + 1))
          (\<lambda>r. j + 1 \<le> r \<and> r \<le> N \<and> (r < N \<longrightarrow> x < XI ! r) \<and> (\<forall>i. j + 1 \<le> i \<longrightarrow> i < r \<longrightarrow> XI ! i \<le> x))"
        using 1(1) [OF True get le] True 1(3) by simp
      then have "yields (lg_search N XI x (j + 1))
          (\<lambda>r. j \<le> r \<and> r \<le> N \<and> (r < N \<longrightarrow> x < XI ! r) \<and> (\<forall>i. j \<le> i \<longrightarrow> i < r \<longrightarrow> XI ! i \<le> x))"
      proof (rule yields_mono)
        fix r assume r: "j + 1 \<le> r \<and> r \<le> N \<and> (r < N \<longrightarrow> x < XI ! r) \<and> (\<forall>i. j + 1 \<le> i \<longrightarrow> i < r \<longrightarrow> XI ! i \<le> x)"
        have "XI ! i \<le> x" if "j \<le> i" "i < r" for i using r le that by (cases "i = j") auto
        with r show "j \<le> r \<and> r \<le> N \<and> (r < N \<longrightarrow> x < XI ! r) \<and> (\<forall>i. j \<le> i \<longrightarrow> i < r \<longrightarrow> XI ! i \<le> x)" by auto
      qed
      then show ?thesis using True get le by (subst lg_search.simps) simp
    qed
  qed
qed

lemma lg_window_facts:
  assumes "2 \<le> OD \<or> OD = N" and "0 < OD" and "OD \<le> N" and "0 \<le> j" and "j \<le> N" and "lg_window N OD j = (s, e)"
  shows "0 \<le> s" and "e < N" and "e + 1 - s = OD" and "1 \<le> j \<Longrightarrow> 2 \<le> OD \<Longrightarrow> s \<le> j - 1 \<and> j - 1 \<le> e"
  using assms by (auto simp: lg_window_def Let_def split: if_splits)

text \<open>The number of points that take part.\<close>

definition lg_order :: "int \<Rightarrow> nat \<Rightarrow> int" where
  "lg_order OD N = min (max 2 OD) (int N)"

text \<open>
  C37. \<open>Lagrange\<close> never leaves its arrays and interpolates: at a sampling point it returns the
  sample, and wherever it is evaluated it reproduces every polynomial whose degree is below the
  number of points that take part (the order, at least 2 and at most \<open>N\<close>).
\<close>

theorem lagrange_interpolates:
  assumes X: "increasing N XI" and Y: "length YI = N" and len: "length XO = M" "length YO = M"
  shows "\<exists>V. Lagrange N XI YI OD M XO YO = Some V \<and> length V = M \<and>
    (\<forall>k<M. \<forall>m<N. XO ! k = XI ! m \<longrightarrow> V ! k = YI ! m) \<and>
    (\<forall>d p. int d < lg_order OD N \<longrightarrow> polynomial d p \<longrightarrow> (\<forall>i<N. YI ! i = p (XI ! i)) \<longrightarrow>
      (\<forall>k<M. V ! k = p (XO ! k)))"
proof -
  let ?O = "lg_order OD N"
  have N: "2 \<le> N" "length XI = N" using X by (auto simp: increasing_def)
  have O: "2 \<le> ?O" "?O \<le> int N" using N by (auto simp: lg_order_def)
  define good where "good k v \<longleftrightarrow> (\<forall>m<N. XO ! k = XI ! m \<longrightarrow> v = YI ! m) \<and>
    (\<forall>d p. int d < ?O \<longrightarrow> polynomial d p \<longrightarrow> (\<forall>i<N. YI ! i = p (XI ! i)) \<longrightarrow> v = p (XO ! k))" for k v
  have inj: "inj_on ((!) XI) {s..<e}" if "e \<le> N" for s e
    by (rule linorder_inj_onI) (use that increasing_mono [OF X] in force)+
  have point: "\<exists>j s e v. lg_search N XI (XO ! k) 0 = Some j \<and> lg_window (int N) ?O (int j) = (int s, int e) \<and> s \<le> e \<and>
      lg_value XI YI (XO ! k) s e = Some v \<and> good k v" if k: "k < M" for k
  proof -
    obtain j where j: "lg_search N XI (XO ! k) 0 = Some j" "j \<le> N" "j < N \<longrightarrow> XO ! k < XI ! j"
      "\<forall>i<j. XI ! i \<le> XO ! k"
      using lg_search_eq [of 0 N XI "XO ! k"] N by (auto simp: yields_def)
    obtain s' e' where w: "lg_window (int N) ?O (int j) = (s', e')" by (cases "lg_window (int N) ?O (int j)")
    note f = lg_window_facts [OF _ _ O(2) _ _ w]
    have se: "0 \<le> s'" "e' < int N" "e' + 1 - s' = ?O" using f O j(2) by auto
    define s e where "s = nat s'" and "e = nat e'"
    have nats: "s' = int s" "e' = int e" "s \<le> e" "e < N" using se O(1) by (auto simp: s_def e_def)
    let ?W = "{s..<e + 1}" and ?v = "lagrange_poly ((!) XI) ((!) YI) {s..<e + 1} (XO ! k)"
    have card: "int (card ?W) = ?O" using se(3) nats by simp
    have W: "finite ?W" "inj_on ((!) XI) ?W" using inj [of "e + 1" s] nats by auto
    have "?v = YI ! m" if m: "m < N" "XO ! k = XI ! m" for m
    proof -
      have "j = m + 1"
      proof (rule ccontr)
        assume "j \<noteq> m + 1"
        then consider "j \<le> m" | "m + 1 < j" by linarith
        then show False
        proof cases
          case 1
          then have "XI ! m < XI ! j" using j m by auto
          then show False using increasing_mono [OF X, of j m] 1 m by (cases "j = m") auto
        next
          case 2
          then show False using j(4) m increasing_mono [OF X, of m "m + 1"] j(2) by force
        qed
      qed
      then have "m \<in> ?W" using f(4) O(1) j(2) nats by auto
      then show ?thesis using lagrange_poly_node [OF W] m by simp
    qed
    moreover have "?v = p (XO ! k)"
      if "int d < ?O" "polynomial d p" "\<forall>i<N. YI ! i = p (XI ! i)" for d p
      using lagrange_poly_exact [OF W _ that(2), of "(!) YI"] that card nats by auto
    ultimately have "good k ?v" by (auto simp: good_def)
    moreover have "lg_value XI YI (XO ! k) s e = Some ?v" using nats N Y by (intro lg_value_eq) auto
    ultimately show ?thesis using j(1) w nats by blast
  qed
  have OD: "(if (if OD < 2 then 2 else OD) > int N then int N else (if OD < 2 then 2 else OD)) = ?O"
    by (auto simp: lg_order_def)
  have "yields (for_up 0 M (\<lambda>k YO. do {
       x \<leftarrow> array_get XO k;
       j \<leftarrow> lg_search N XI x 0;
       let (SI, EI) = lg_window (int N) ?O (int j);
       v \<leftarrow> (if EI < SI then Some 0 else lg_value XI YI x (nat SI) (nat EI));
       array_put YO k v }) YO) (\<lambda>V. length V = M \<and> (\<forall>k<M. good k (V ! k)))"
  proof (rule for_up_rule [where I = "\<lambda>n V. length V = M \<and> (\<forall>k<n. good k (V ! k))"], goal_cases)
    case (3 k V)
    then obtain j s e v where "lg_search N XI (XO ! k) 0 = Some j" "lg_window (int N) ?O (int j) = (int s, int e)" "s \<le> e"
      "lg_value XI YI (XO ! k) s e = Some v" "good k v" using point by blast
    then show ?case using 3 len by (auto simp: array_get_def array_put_def nth_list_update less_Suc_eq)
  qed (use len in auto)
  then show ?thesis
    unfolding Lagrange_def Let_def [of "if OD < 2 then 2 else OD"] OD Let_def [of ?O]
    by (auto simp: yields_def good_def)
qed

theorem lagrange_interpolates_witness:
  "Lagrange 3 [0, 1, 3] [0, 1, 9] 3 2 [2, 1] [7, 7] = Some [4, 1]"
proof -
  have inc: "increasing 3 [0, 1, 3]"
    by (auto simp: increasing_def less_Suc_eq nth_Cons' numeral_3_eq_3)
  have poly: "polynomial 2 (\<lambda>x. x ^ 2)"
    unfolding polynomial_def by (rule exI [of _ "\<lambda>e. if e = 2 then 1 else 0"]) (simp add: numeral_2_eq_2)
  have samples: "\<forall>i<3. [0, 1, 9] ! i = ([0, 1, 3] ! i :: real) ^ 2"
    by (auto simp: less_Suc_eq numeral_3_eq_3)
  obtain V where V: "Lagrange 3 [0, 1, 3] [0, 1, 9] 3 2 [2, 1] [7, 7] = Some V" "length V = 2"
    and exact: "\<And>d p. int d < lg_order 3 3 \<Longrightarrow> polynomial d p \<Longrightarrow> (\<forall>i<3. [0, 1, 9] ! i = p ([0, 1, 3] ! i)) \<Longrightarrow>
      (\<forall>k<2. V ! k = p ([2, 1] ! k))"
    using lagrange_interpolates [OF inc, of "[0, 1, 9]" "[2, 1]" 2 "[7, 7]" 3] by auto
  have "\<forall>k<2. V ! k = ([2, 1] ! k) ^ 2"
    by (rule exact [OF _ poly samples]) (simp add: lg_order_def)
  then have "V ! 0 = 4" "V ! 1 = 1" by (auto dest: spec [of _ 0] spec [of _ 1])
  then have "V = [4, 1]" using V(2) by (auto simp: length_Suc_conv numeral_2_eq_2)
  with V show ?thesis by simp
qed

section \<open>The equations of CubicSpline\<close>

definition cs_a :: "nat \<Rightarrow> real list \<Rightarrow> nat \<Rightarrow> real" where
  "cs_a L x k = (if k = 0 then 0 else if k = L then 1 else (x ! k - x ! (k - 1)) / 6)"

definition cs_c :: "nat \<Rightarrow> real list \<Rightarrow> nat \<Rightarrow> real" where
  "cs_c L x k = (if k = 0 then - 1 else if k = L then 0 else (x ! (k + 1) - x ! k) / 6)"

definition cs_b :: "nat \<Rightarrow> real list \<Rightarrow> nat \<Rightarrow> real" where
  "cs_b L x k = (if k = 0 then 1 else if k = L then - 1 else 2 * ((x ! k - x ! (k - 1)) / 6 + (x ! (k + 1) - x ! k) / 6))"

definition cs_d :: "nat \<Rightarrow> real list \<Rightarrow> real list \<Rightarrow> nat \<Rightarrow> real" where
  "cs_d L x y k = (if k = 0 \<or> k = L then 0
     else (y ! (k + 1) - y ! k) / (x ! (k + 1) - x ! k) - (y ! k - y ! (k - 1)) / (x ! k - x ! (k - 1)))"

fun cs_ec :: "nat \<Rightarrow> real list \<Rightarrow> nat \<Rightarrow> real" where
  "cs_ec L x 0 = cs_c L x 0"
| "cs_ec L x (Suc i) = cs_c L x (Suc i) / (cs_b L x (Suc i) - cs_a L x (Suc i) * cs_ec L x i)"

fun cs_ed :: "nat \<Rightarrow> real list \<Rightarrow> real list \<Rightarrow> nat \<Rightarrow> real" where
  "cs_ed L x y 0 = cs_d L x y 0"
| "cs_ed L x y (Suc i) = (cs_d L x y (Suc i) - cs_a L x (Suc i) * cs_ed L x y i)
     / (cs_b L x (Suc i) - cs_a L x (Suc i) * cs_ec L x i)"

fun cs_back :: "nat \<Rightarrow> real list \<Rightarrow> real list \<Rightarrow> nat \<Rightarrow> real" where
  "cs_back L x y 0 = cs_ed L x y L"
| "cs_back L x y (Suc d) = cs_ed L x y (L - Suc d) - cs_ec L x (L - Suc d) * cs_back L x y d"

definition cs_moment :: "nat \<Rightarrow> real list \<Rightarrow> real list \<Rightarrow> nat \<Rightarrow> real" where
  "cs_moment L x y i = cs_back L x y (L - i)"

lemma cs_moment_step: "i < L \<Longrightarrow> cs_moment L x y i = cs_ed L x y i - cs_ec L x i * cs_moment L x y (i + 1)"
proof -
  assume i: "i < L"
  then have "L - i = Suc (L - (i + 1))" "L - Suc (L - (i + 1)) = i" by auto
  then show ?thesis by (simp add: cs_moment_def del: diff_Suc_eq_diff_pred)
qed

lemma cs_pivot:
  assumes x: "increasing (L + 1) x" and L: "2 \<le> L"
  shows "(i < L \<longrightarrow> cs_ec L x i < 1 \<and> (0 < i \<longrightarrow> 0 < cs_ec L x i)) \<and>
    (0 < i \<and> i \<le> L \<longrightarrow> cs_b L x i - cs_a L x i * cs_ec L x (i - 1) \<noteq> 0)"
proof (induction i)
  case 0
  then show ?case by (simp add: cs_c_def)
next
  case (Suc i)
  show ?case
  proof (cases "Suc i < L")
    case True
    define h h' where "h = x ! (i + 1) - x ! i" and "h' = x ! (i + 2) - x ! (i + 1)"
    have h: "0 < h" "0 < h'"
      using increasing_step [OF x, of i] increasing_step [OF x, of "i + 1"] True by (auto simp: h_def h'_def)
    have e: "cs_ec L x i < 1" using Suc True by simp
    have eqs: "cs_b L x (Suc i) = 2 * (h / 6 + h' / 6)" "cs_a L x (Suc i) = h / 6" and c: "cs_c L x (Suc i) = h' / 6"
      using True by (simp_all add: cs_a_def cs_b_def cs_c_def h_def h'_def)
    have sum_gap: "u < h / 6 \<Longrightarrow> h / 6 + 2 * (h' / 6) < 2 * (h / 6 + h' / 6) - u" for u h h' :: real by argo
    have "h / 6 * cs_ec L x i < h / 6 * 1" using e h by (intro mult_strict_left_mono) auto
    then have p: "h / 6 + 2 * (h' / 6) < cs_b L x (Suc i) - cs_a L x (Suc i) * cs_ec L x i"
      unfolding eqs using sum_gap [of "h / 6 * cs_ec L x i" h h'] by simp
    then have "0 < h' / 6" "h' / 6 < cs_b L x (Suc i) - cs_a L x (Suc i) * cs_ec L x i" using h by argo+
    then show ?thesis using True c p h by (simp add: divide_less_eq)
  next
    case False
    then show ?thesis using Suc L by (auto simp: cs_a_def cs_b_def Suc_lessI not_less le_Suc_eq)
  qed
qed

lemma cs_row:
  assumes x: "increasing (L + 1) x" and i: "0 < i" "i < L" and L: "2 \<le> L"
  shows "cs_a L x i * cs_moment L x y (i - 1) + cs_b L x i * cs_moment L x y i + cs_c L x i * cs_moment L x y (i + 1) = cs_d L x y i"
proof -
  obtain k where k: "i = Suc k" using i by (cases i) auto
  let ?m = "cs_moment L x y"
  define t where "t = cs_b L x i - cs_a L x i * cs_ec L x k"
  have t: "t \<noteq> 0" using cs_pivot [OF x L, of i] i k by (simp add: t_def)
  have m: "?m k = cs_ed L x y k - cs_ec L x k * ?m i" using cs_moment_step [of k L x y] i k by simp
  have "?m i = (cs_d L x y i - cs_a L x i * cs_ed L x y k) / t - cs_c L x i / t * ?m (i + 1)"
    using cs_moment_step [of i L x y] i by (simp add: k t_def)
  also have "\<dots> = (cs_d L x y i - cs_a L x i * cs_ed L x y k - cs_c L x i * ?m (i + 1)) / t"
    by (simp add: diff_divide_distrib)
  finally have "?m i * t = cs_d L x y i - cs_a L x i * cs_ed L x y k - cs_c L x i * ?m (i + 1)"
    using t by (simp add: nonzero_eq_divide_eq)
  moreover have "cs_ed L x y k = ?m k + cs_ec L x k * ?m i" using m by simp
  ultimately show ?thesis by (simp add: k t_def algebra_simps)
qed

lemma cs_ends:
  assumes x: "increasing (L + 1) x" and L: "2 \<le> L"
  shows "cs_moment L x y 0 = cs_moment L x y 1" and "cs_moment L x y (L - 1) = cs_moment L x y L"
proof -
  show "cs_moment L x y 0 = cs_moment L x y 1"
    using cs_moment_step [of 0 L x y] L by (simp add: cs_c_def cs_d_def)
  obtain k where k: "L = Suc k" using L by (cases L) auto
  let ?t = "cs_b L x L - cs_a L x L * cs_ec L x k"
  have t: "?t \<noteq> 0" using cs_pivot [OF x L, of L] k by simp
  have "cs_moment L x y L = cs_ed L x y L" by (simp add: cs_moment_def)
  also have "\<dots> = (cs_d L x y L - cs_a L x L * cs_ed L x y k) / ?t" by (simp add: k)
  also have "\<dots> = (- cs_ed L x y k) / (- 1 - cs_ec L x k)" using L by (simp add: cs_a_def cs_b_def cs_d_def)
  finally have "cs_moment L x y L * (- 1 - cs_ec L x k) = - cs_ed L x y k"
    using t L by (simp add: cs_a_def cs_b_def)
  moreover have "cs_moment L x y k = cs_ed L x y k - cs_ec L x k * cs_moment L x y L"
    using cs_moment_step [of k L x y] k by simp
  ultimately show "cs_moment L x y (L - 1) = cs_moment L x y L" by (simp add: k algebra_simps)
qed

section \<open>The loops of CubicSpline\<close>

lemma cs_boundary_eq:
  assumes "0 < L" and "length (sa_A w) = L + 1" "length (sa_B w) = L + 1" "length (sa_C w) = L + 1" "length (sa_D w) = L + 1"
  shows "\<exists>a b c d. cs_boundary L w = Some \<lparr>sa_A = vec_array (L + 1) (\<lambda>k. if k < 1 \<or> k = L then cs_a L x k else a k),
    sa_B = vec_array (L + 1) (\<lambda>k. if k < 1 \<or> k = L then cs_b L x k else b k),
    sa_C = vec_array (L + 1) (\<lambda>k. if k < 1 \<or> k = L then cs_c L x k else c k),
    sa_D = vec_array (L + 1) (\<lambda>k. if k < 1 \<or> k = L then cs_d L x y k else d k)\<rparr>"
proof -
  have w: "w = \<lparr>sa_A = vec_array (L + 1) ((!) (sa_A w)), sa_B = vec_array (L + 1) ((!) (sa_B w)),
      sa_C = vec_array (L + 1) ((!) (sa_C w)), sa_D = vec_array (L + 1) ((!) (sa_D w))\<rparr>"
    using assms(2-5) vec_array_nth [of "sa_A w"] vec_array_nth [of "sa_B w"] vec_array_nth [of "sa_C w"] vec_array_nth [of "sa_D w"]
    by simp
  have "vec_array (L + 1) ((f(0 := g 0))(L := g L)) = vec_array (L + 1) (\<lambda>k. if k < 1 \<or> k = L then g k else f k)"
    for f g :: "nat \<Rightarrow> real"
    by (intro vec_array_cong) (use assms(1) in auto)
  note put = this [symmetric]
  show ?thesis
    unfolding put
    by (subst w, intro exI [of _ "(!) (sa_A w)"] exI [of _ "(!) (sa_B w)"] exI [of _ "(!) (sa_C w)"] exI [of _ "(!) (sa_D w)"])
      (use assms(1) in \<open>simp add: cs_boundary_def put_vec_array cs_a_def cs_b_def cs_c_def cs_d_def\<close>)
qed

definition cs_state :: "nat \<Rightarrow> (nat \<Rightarrow> real) \<Rightarrow> (nat \<Rightarrow> real) \<Rightarrow> (nat \<Rightarrow> real) \<Rightarrow> (nat \<Rightarrow> real) \<Rightarrow> spline_arrays" where
  "cs_state n a b c d = \<lparr>sa_A = vec_array n a, sa_B = vec_array n b, sa_C = vec_array n c, sa_D = vec_array n d\<rparr>"

lemma cs_state_cong:
  "(\<And>k. k < n \<Longrightarrow> a k = a' k) \<Longrightarrow> (\<And>k. k < n \<Longrightarrow> b k = b' k) \<Longrightarrow> (\<And>k. k < n \<Longrightarrow> c k = c' k) \<Longrightarrow>
   (\<And>k. k < n \<Longrightarrow> d k = d' k) \<Longrightarrow> cs_state n a b c d = cs_state n a' b' c' d'"
  by (simp add: cs_state_def cong: vec_array_cong)

lemma cs_coefficients_eq:
  assumes L: "0 < L" and len: "length x = L + 1" "length y = L + 1"
  shows "cs_coefficients L x y (cs_state (L + 1) (\<lambda>k. if k < 1 \<or> k = L then cs_a L x k else a k)
      (\<lambda>k. if k < 1 \<or> k = L then cs_b L x k else b k) (\<lambda>k. if k < 1 \<or> k = L then cs_c L x k else c k)
      (\<lambda>k. if k < 1 \<or> k = L then cs_d L x y k else d k))
    = Some (cs_state (L + 1) (cs_a L x) (cs_b L x) (cs_c L x) (cs_d L x y))"
proof -
  let ?st = "\<lambda>i. cs_state (L + 1) (\<lambda>k. if k < i \<or> k = L then cs_a L x k else a k)
      (\<lambda>k. if k < i \<or> k = L then cs_b L x k else b k) (\<lambda>k. if k < i \<or> k = L then cs_c L x k else c k)
      (\<lambda>k. if k < i \<or> k = L then cs_d L x y k else d k)"
  have "cs_coefficients L x y (?st 1) = Some (?st L)" unfolding cs_coefficients_def
  proof (rule for_up_states [where \<alpha> = ?st], goal_cases)
    case (2 i)
    then have b: "i < L + 1" "i - 1 < L + 1" "i + 1 < L + 1" "i \<noteq> 0" "i \<noteq> L" by auto
    have get: "array_get x k = Some (x ! k)" "array_get y k = Some (y ! k)" if "k < L + 1" for k
      using that len by (simp_all add: array_get_def)
    have put: "vec_array (L + 1) ((\<lambda>k. if k < i \<or> k = L then g k else f k)(i := g i))
        = vec_array (L + 1) (\<lambda>k. if k < Suc i \<or> k = L then g k else f k)" for f g :: "nat \<Rightarrow> real"
      by (intro vec_array_cong) auto
    show ?case
      unfolding put [symmetric] cs_state_def
      by (simp only: get [OF b(1)] get [OF b(2)] get [OF b(3)] put_vec_array [OF b(1)] Let_def Option.bind.bind_lunit
          spline_arrays.simps cs_a_def cs_b_def cs_c_def cs_d_def b(4,5) if_False simp_thms)
  qed (use L in simp)
  moreover have "?st L = cs_state (L + 1) (cs_a L x) (cs_b L x) (cs_c L x) (cs_d L x y)"
    by (intro cs_state_cong) auto
  ultimately show ?thesis by simp
qed

lemma cs_eliminate_eq:
  "cs_eliminate (L + 1) (cs_state (L + 1) (cs_a L x) (cs_b L x) (cs_c L x) (cs_d L x y))
    = Some (cs_state (L + 1) (cs_a L x) (cs_b L x) (cs_ec L x) (cs_ed L x y))"
proof -
  let ?st = "\<lambda>i. cs_state (L + 1) (cs_a L x) (cs_b L x) (\<lambda>k. if k < i then cs_ec L x k else cs_c L x k)
      (\<lambda>k. if k < i then cs_ed L x y k else cs_d L x y k)"
  have "cs_eliminate (L + 1) (?st 1) = Some (?st (L + 1))" unfolding cs_eliminate_def
  proof (rule for_up_states [where \<alpha> = ?st], goal_cases)
    case (2 i)
    then obtain k where k: "i = Suc k" by (cases i) auto
    have b: "i < L + 1" "i - 1 < L + 1" "i - 1 < i" using 2 by auto
    have put: "vec_array (L + 1) ((\<lambda>k. if k < i then g k else f k)(i := g i))
        = vec_array (L + 1) (\<lambda>k. if k < Suc i then g k else f k)" for f g :: "nat \<Rightarrow> real"
      by (intro vec_array_cong) auto
    have rec: "cs_ec L x i = cs_c L x i / (cs_b L x i - cs_a L x i * cs_ec L x (i - 1))"
      "cs_ed L x y i = (cs_d L x y i - cs_a L x i * cs_ed L x y (i - 1)) / (cs_b L x i - cs_a L x i * cs_ec L x (i - 1))"
      by (simp_all add: k)
    show ?case
      unfolding put [symmetric] cs_state_def
      by (simp add: get_vec_array [OF b(1)] get_vec_array [OF b(2)] put_vec_array [OF b(1)] b(3) rec Let_def
          del: One_nat_def add_Suc_right)
  qed simp
  moreover have "?st 1 = cs_state (L + 1) (cs_a L x) (cs_b L x) (cs_c L x) (cs_d L x y)"
    by (intro cs_state_cong) auto
  moreover have "?st (L + 1) = cs_state (L + 1) (cs_a L x) (cs_b L x) (cs_ec L x) (cs_ed L x y)"
    by (intro cs_state_cong) auto
  ultimately show ?thesis by simp
qed

lemma cs_substitute_eq:
  "cs_substitute (L + 1) (cs_state (L + 1) a b (cs_ec L x) (cs_ed L x y))
    = Some (cs_state (L + 1) (cs_moment L x y) b (cs_ec L x) (cs_ed L x y))"
proof -
  let ?st = "\<lambda>i. cs_state (L + 1) (\<lambda>k. if L - i \<le> k then cs_moment L x y k else a k) b (cs_ec L x) (cs_ed L x y)"
  let ?f = "\<lambda>i w. do {
       let j = L + 1 - i - 2;
       d \<leftarrow> array_get (sa_D w) j; c \<leftarrow> array_get (sa_C w) j; a \<leftarrow> array_get (sa_A w) (j + 1);
       A \<leftarrow> array_put (sa_A w) j (d - c * a);
       Some (w\<lparr>sa_A := A\<rparr>) }"
  have "for_up 0 L ?f (?st 0) = Some (?st L)"
  proof (rule for_up_states [where \<alpha> = ?st], goal_cases)
    case (2 i)
    define j where "j = L + 1 - i - 2"
    have b: "j < L + 1" "j + 1 < L + 1" "L - i \<le> j + 1" "j < L" using 2 by (auto simp: j_def)
    have "vec_array (L + 1) ((\<lambda>k. if L - i \<le> k then cs_moment L x y k else a k)(j := cs_moment L x y j))
        = vec_array (L + 1) (\<lambda>k. if L - Suc i \<le> k then cs_moment L x y k else a k)"
      by (intro vec_array_cong) (use 2 in \<open>auto simp: j_def\<close>)
    then show ?case
      unfolding j_def [symmetric] Let_def cs_state_def
      using b(3) cs_moment_step [OF b(4), of x y]
      by (simp add: get_vec_array [OF b(1)] get_vec_array [OF b(2)] put_vec_array [OF b(1)] del: One_nat_def add_Suc_right)
  qed simp
  moreover have "vec_array (L + 1) (a(L := cs_ed L x y L)) = vec_array (L + 1) (\<lambda>k. if L - 0 \<le> k then cs_moment L x y k else a k)"
    by (intro vec_array_cong) (auto simp: cs_moment_def)
  moreover have "?st L = cs_state (L + 1) (cs_moment L x y) b (cs_ec L x) (cs_ed L x y)"
    by (intro cs_state_cong) auto
  ultimately show ?thesis
    by (simp add: cs_substitute_def cs_state_def get_vec_array put_vec_array)
qed

section \<open>The values of CubicSpline\<close>

text \<open>At a point between two segments the polynomials of both have the same value.\<close>

lemma cubic_closed_segment:
  assumes x: "increasing n x" and k: "k + 1 < n" "k = 0 \<or> x ! k \<le> t" "k + 1 = n - 1 \<or> t \<le> x ! (k + 1)"
  shows "cubic x y c k t = cubic x y c (segment n x t) t"
proof (cases "k + 1 = n - 1 \<or> t < x ! (k + 1)")
  case True
  then show ?thesis using segmentI [OF x k(1,2)] by simp
next
  case False
  then have t: "t = x ! (k + 1)" and k2: "k + 1 < n" using k by auto
  then show ?thesis
    using cubic_at_node [OF x k2, of y c] cubic_right [of x k y c] increasing_step [OF x k(1)] by simp
qed

lemma cs_search_finds:
  assumes x: "increasing (L + 1) x" and "i < L" and "x ! i \<le> t" and "t \<le> x ! L"
  shows "\<exists>j<L. cs_search L x t i = Some j \<and> x ! j \<le> t \<and> t \<le> x ! (j + 1)"
  using assms(2,3)
proof (induction "L - i" arbitrary: i)
  case (Suc d)
  have len: "length x = L + 1" using x by (simp add: increasing_def)
  have unfold: "cs_search L x t i = (if t \<le> x ! (i + 1) then Some i else cs_search L x t (i + 1))"
    using Suc.prems len by (subst cs_search.simps) (simp add: array_get_def)
  show ?case
  proof (cases "t \<le> x ! (i + 1)")
    case True
    then show ?thesis using Suc.prems unfold by auto
  next
    case False
    then have "i + 1 < L" using Suc.prems assms(4) by (cases "i + 1 = L") auto
    then show ?thesis using Suc.hyps(1) [of "i + 1"] Suc.hyps(2) False unfold by auto
  qed
qed simp

lemma cs_value_eq:
  assumes x: "increasing (L + 1) x" and y: "length y = L + 1"
  shows "cs_value L x y (cs_state (L + 1) m b c d) t
    = Some (cubic x y (vec_array (L + 1) m) (segment (L + 1) x t) t)"
proof -
  have L: "0 < L" "length x = L + 1" using x by (auto simp: increasing_def)
  have get: "array_get v k = Some (v ! k)" if "length v = L + 1" "k \<le> L" for v :: "real list" and k
    using that by (simp add: array_get_def)
  obtain j where j: "j < L" "j = 0 \<or> x ! j \<le> t" "j + 1 = L \<or> t \<le> x ! (j + 1)"
    and search: "(if t < x ! 0 then Some 0 else if t > x ! L then Some (L - 1) else cs_search L x t 0) = Some j"
  proof -
    consider "t < x ! 0" | "t > x ! L" "\<not> t < x ! 0" | "x ! 0 \<le> t" "t \<le> x ! L" by linarith
    then show ?thesis
    proof cases
      case 1
      then show ?thesis using that [of 0] L increasing_step [OF x, of 0] by auto
    next
      case 2
      then have "x ! (L - 1) \<le> t" using increasing_step [OF x, of "L - 1"] L by simp
      then show ?thesis using that [of "L - 1"] 2 L by auto
    next
      case 3
      then show ?thesis using cs_search_finds [OF x L(1) 3] that by fastforce
    qed
  qed
  let ?A = "vec_array (L + 1) m"
  have h: "x ! (j + 1) - x ! j \<noteq> 0" using increasing_step [OF x, of j] j(1) by simp
  have algebra: "(a * (p - t) ^ 3 + b * (t - q) ^ 3) / 6 / (p - q) + (p - t) * (u / (p - q) - a * (p - q) / 6)
      + (t - q) * (v / (p - q) - b * (p - q) / 6)
    = (p - t) / (p - q) * u + (t - q) / (p - q) * v
      + (((p - t) / (p - q) * ((p - t) / (p - q)) - 1) * ((p - t) / (p - q)) * a
         + ((t - q) / (p - q) * ((t - q) / (p - q)) - 1) * ((t - q) / (p - q)) * b) * (p - q) * (p - q) / 6"
    if "p - q \<noteq> 0" for a b p q u v :: real
  proof -
    define h where "h = p - q"
    have "h \<noteq> 0" using that by (simp add: h_def)
    then show ?thesis unfolding h_def [symmetric] by (simp add: field_simps power3_eq_cube)
  qed
  have at_j: "?A ! j = m j" "?A ! (j + 1) = m (j + 1)" using j(1) by (simp_all add: vec_array_def del: upt_Suc)
  have in_j: "array_get v j = Some (v ! j)" "array_get v (j + 1) = Some (v ! (j + 1))" if "length v = L + 1" for v :: "real list"
    using get [OF that] j(1) by simp_all
  have len: "length ?A = L + 1" by simp
  have "cs_value L x y (cs_state (L + 1) m b c d) t = Some (cubic x y ?A j t)"
    unfolding cs_value_def get [OF L(2) le0] get [OF L(2) order_refl] Option.bind.bind_lunit search Let_def cs_state_def
      spline_arrays.simps in_j [OF L(2)] in_j [OF y] in_j [OF len] at_j cubic_def algebra [OF h] ..
  also have "cubic x y ?A j t = cubic x y ?A (segment (L + 1) x t) t"
    using j by (intro cubic_closed_segment [OF x]) auto
  finally show ?thesis .
qed

section \<open>The cubic spline\<close>



text \<open>\<open>Bilinear\<close> is exact for the functions that are linear in each coordinate, also outside of the cell.\<close>

lemma bilinear_exact:
  assumes f: "\<And>x y. f x y = a + b * x + c * y + d * x * y" and "x0 \<noteq> x1" and "y0 \<noteq> y1"
  shows "Bilinear [x0, x1] [y0, y1] [f x0 y0, f x1 y0, f x0 y1, f x1 y1] X Y = Some (f X Y)"
proof -
  have "f x0 y0 * (x1 - X) * (y1 - Y) + f x1 y0 * (X - x0) * (y1 - Y) + f x0 y1 * (x1 - X) * (Y - y0)
      + f x1 y1 * (X - x0) * (Y - y0) = f X Y * (x1 - x0) * (y1 - y0)"
    unfolding f by algebra
  then show ?thesis
    using assms(2,3) by (simp add: Bilinear_def array_get_def numeral_2_eq_2 numeral_3_eq_3)
qed

end
