(* ===== verification/ASurface.thy ===== *)
theory ASurface
  imports AInterp
begin

text \<open>
  The splines in two dimensions (\<open>spline2\<close> and \<open>splint2\<close> of AMath.cpp): one natural spline per row of the
  grid, and one through the values that these have at the same place. The coefficients depend linearly on
  the samples, so the surface is twice differentiable in both directions.
\<close>

section \<open>The natural spline\<close>

definition natural :: "nat \<Rightarrow> real list \<Rightarrow> real list \<Rightarrow> real \<Rightarrow> real" where
  "natural n x y t = cubic x y (vec_array n (sp_coeff x y n)) (segment n x t) t"

definition natural' :: "nat \<Rightarrow> real list \<Rightarrow> real list \<Rightarrow> real \<Rightarrow> real" where
  "natural' n x y t = cubic' x y (vec_array n (sp_coeff x y n)) (segment n x t) t"

definition natural'' :: "nat \<Rightarrow> real list \<Rightarrow> real list \<Rightarrow> real \<Rightarrow> real" where
  "natural'' n x y t = cubic'' x (vec_array n (sp_coeff x y n)) (segment n x t) t"

lemma natural_at_node: "increasing n x \<Longrightarrow> i < n \<Longrightarrow> natural n x y (x ! i) = y ! i"
  by (simp add: natural_def cubic_at_node)

lemma natural_derivative:
  assumes "increasing n x"
  shows "(natural n x y has_real_derivative natural' n x y t) (at t)"
    and "(natural' n x y has_real_derivative natural'' n x y t) (at t)"
  using cubic_spline_smooth [OF assms sp_coeff_smooth [OF assms]]
  by (simp_all add: natural_def [abs_def] natural'_def [abs_def] natural''_def)

lemma natural_ends:
  assumes x: "increasing n x"
  shows "natural'' n x y (x ! 0) = 0" and "natural'' n x y (x ! (n - 1)) = 0"
proof -
  have n: "2 \<le> n" using x by (simp add: increasing_def)
  then show "natural'' n x y (x ! 0) = 0"
    using sp_coeff_step [of 0 n x y] by (simp add: natural''_def cubic''_at_node [OF x])
  show "natural'' n x y (x ! (n - 1)) = 0"
    using n sp_coeff_last [of x y n] by (simp add: natural''_def cubic''_at_node [OF x])
qed

text \<open>\<open>splint\<close> evaluates it for coefficients in an array that may be longer.\<close>

lemma splint_natural:
  assumes x: "spaced n x" and "n \<le> length y" and "n \<le> length c" and c: "\<And>k. k < n \<Longrightarrow> c ! k = sp_coeff x y n k"
  shows "splint n x y c t yo = Some (True, natural n x y t)"
  using segment_facts(2) [OF spaced_increasing [OF x], of t] c
  by (simp add: splint_eq [OF assms(1-3)] natural_def cubic_def Let_def)

section \<open>Linearity in the samples\<close>

lemma sp_ups_derivative:
  assumes "\<And>i. i < n \<Longrightarrow> ((\<lambda>t. Y t i) has_real_derivative Y' i) (at t)" and "i + 1 < n"
  shows "((\<lambda>t. sp_ups x (vec_array n (Y t)) i) has_real_derivative sp_ups x (vec_array n Y') i) (at t)"
  using assms(2)
proof (induction i)
  case (Suc i)
  then have "((\<lambda>t. sp_ups x (vec_array n (Y t)) i) has_real_derivative sp_ups x (vec_array n Y') i) (at t)" by simp
  moreover have "((\<lambda>t. sp_rhs x (vec_array n (Y t)) (Suc i)) has_real_derivative sp_rhs x (vec_array n Y') (Suc i)) (at t)"
    using Suc.prems assms(1) [of i] assms(1) [of "i + 1"] assms(1) [of "i + 2"] unfolding sp_rhs_def
    by (auto intro!: DERIV_cdivide DERIV_cmult DERIV_diff)
  ultimately show ?case
    by (auto intro!: DERIV_cdivide DERIV_cmult DERIV_diff)
qed simp

lemma sp_coeff_derivative:
  assumes Y: "\<And>i. i < n \<Longrightarrow> ((\<lambda>t. Y t i) has_real_derivative Y' i) (at t)" and "2 \<le> n"
  shows "((\<lambda>t. sp_coeff x (vec_array n (Y t)) n i) has_real_derivative sp_coeff x (vec_array n Y') n i) (at t)"
proof -
  have "((\<lambda>t. sp_back x (vec_array n (Y t)) n d) has_real_derivative sp_back x (vec_array n Y') n d) (at t)" for d
  proof (induction d)
    case (Suc d)
    have "((\<lambda>t. sp_ups x (vec_array n (Y t)) (n - 2 - d)) has_real_derivative sp_ups x (vec_array n Y') (n - 2 - d)) (at t)"
      using assms(2) by (intro sp_ups_derivative [OF Y]) simp_all
    with Suc show ?case by (auto intro!: DERIV_add DERIV_cmult simp del: diff_diff_left)
  qed simp
  then show ?thesis by (simp add: sp_coeff_def)
qed

lemma natural_parameter:
  assumes x: "increasing n x" and Y: "\<And>i. i < n \<Longrightarrow> ((\<lambda>t. Y t i) has_real_derivative Y' i) (at t)"
  shows "((\<lambda>t. natural n x (vec_array n (Y t)) s) has_real_derivative natural n x (vec_array n Y') s) (at t)"
proof -
  let ?k = "segment n x s"
  have k: "?k < n" "?k + 1 < n" and n: "2 \<le> n"
    using segment_facts(2) [OF x, of s] x by (auto simp: increasing_def)
  note c = sp_coeff_derivative [where x = x, OF Y n]
  show ?thesis
    using Y [OF k(1)] Y [OF k(2)] c [where i = ?k] c [where i = "?k + 1"] k
    by (simp add: natural_def cubic_def Let_def)
      (intro DERIV_add DERIV_cdivide DERIV_cmult DERIV_cmult_right; simp)
qed

lemma natural_zero:
  assumes x: "increasing n x"
  shows "natural n x (vec_array n (\<lambda>i. 0)) s = 0"
proof -
  have k: "segment n x s + 1 < n" using segment_facts(2) [OF x] .
  have ups: "i + 1 < n \<Longrightarrow> sp_ups x (vec_array n (\<lambda>i. 0)) i = 0" for i
    by (induction i) (simp_all add: sp_rhs_def)
  have "2 \<le> n" using x by (simp add: increasing_def)
  then have "sp_back x (vec_array n (\<lambda>i. 0)) n d = 0" for d
    by (induction d) (simp_all add: ups del: diff_diff_left)
  with k show ?thesis by (simp add: natural_def cubic_def Let_def sp_coeff_def)
qed

section \<open>Rows\<close>

definition row :: "nat \<Rightarrow> real list \<Rightarrow> nat \<Rightarrow> real list" where
  "row nc y j = vec_array nc (\<lambda>k. y ! (j * nc + k))"

lemma length_row [simp]: "length (row nc y j) = nc"
  by (simp add: row_def)

lemma nth_row [simp]: "k < nc \<Longrightarrow> row nc y j ! k = y ! (j * nc + k)"
  by (simp add: row_def)

lemma load_row_eq:
  assumes "nc \<le> length v" and "j * nc + nc \<le> length y"
  shows "load_row nc j y v = Some (vec_array (length v) (\<lambda>k. if k < nc then y ! (j * nc + k) else v ! k))"
proof -
  let ?a = "\<lambda>i. vec_array (length v) (\<lambda>k. if k < i then y ! (j * nc + k) else v ! k)"
  have "?a 0 = v" by (simp add: vec_array_nth)
  moreover have "for_up 0 nc (\<lambda>k v. do { a \<leftarrow> array_get y (j * nc + k); array_put v k a }) (?a 0) = Some (?a nc)"
  proof (rule for_up_states [where \<alpha> = ?a])
    fix i assume i: "0 \<le> i" "i < nc"
    then have "array_get y (j * nc + i) = Some (y ! (j * nc + i))" and il: "i < length v"
      using assms by (simp_all add: array_get_def)
    moreover have "vec_array (length v) ((\<lambda>k. if k < i then y ! (j * nc + k) else v ! k)(i := y ! (j * nc + i))) = ?a (Suc i)"
      by (intro vec_array_cong) auto
    ultimately show "do { a \<leftarrow> array_get y (j * nc + i); array_put (?a i) i a } = Some (?a (Suc i))"
      by (simp add: put_vec_array)
  qed simp
  ultimately show ?thesis by (simp add: load_row_def)
qed

lemma load_row_exact: "length v = nc \<Longrightarrow> j * nc + nc \<le> length y \<Longrightarrow> load_row nc j y v = Some (row nc y j)"
  by (auto simp: load_row_eq row_def intro!: vec_array_cong)

lemma store_row_eq:
  assumes "length v = nc" and "j * nc + nc \<le> N"
  shows "store_row nc j v (vec_array N g) =
    Some (vec_array N (\<lambda>p. if j * nc \<le> p \<and> p < j * nc + nc then v ! (p - j * nc) else g p))"
proof -
  let ?a = "\<lambda>i. vec_array N (\<lambda>p. if j * nc \<le> p \<and> p < j * nc + i then v ! (p - j * nc) else g p)"
  have "?a 0 = vec_array N g" by (intro vec_array_cong) simp
  moreover have "for_up 0 nc (\<lambda>k c. do { a \<leftarrow> array_get v k; array_put c (j * nc + k) a }) (?a 0) = Some (?a nc)"
  proof (rule for_up_states [where \<alpha> = ?a])
    fix i assume i: "0 \<le> i" "i < nc"
    then have "array_get v i = Some (v ! i)" and il: "j * nc + i < N"
      using assms by (simp_all add: array_get_def)
    moreover have "vec_array N ((\<lambda>p. if j * nc \<le> p \<and> p < j * nc + i then v ! (p - j * nc) else g p)(j * nc + i := v ! i)) = ?a (Suc i)"
      by (intro vec_array_cong) auto
    ultimately show "do { a \<leftarrow> array_get v i; array_put (?a i) (j * nc + i) a } = Some (?a (Suc i))"
      by (simp add: put_vec_array)
  qed simp
  ultimately show ?thesis by (simp add: store_row_def)
qed

section \<open>The coefficients of a surface\<close>

definition grid_coeff :: "nat \<Rightarrow> real list \<Rightarrow> real list \<Rightarrow> nat \<Rightarrow> real" where
  "grid_coeff nc x2 y p = sp_coeff x2 (row nc y (p div nc)) nc (p mod nc)"

lemma grid_coeff_cell: "k < nc \<Longrightarrow> grid_coeff nc x2 y (j * nc + k) = sp_coeff x2 (row nc y j) nc k"
  by (simp add: grid_coeff_def)

lemma row_bound: "j < nr \<Longrightarrow> j * nc + nc \<le> nr * nc" for j nr nc :: nat
  by (metis Suc_leI add.commute mult_Suc mult_le_mono1)

lemma spline2_eq:
  assumes x2: "increasing nc x2" and len: "length y = nr * nc" "length c = nr * nc"
  shows "spline2 nr nc x1 x2 y c = Some (vec_array (nr * nc) (grid_coeff nc x2 y))"
proof -
  let ?N = "nr * nc"
  have n: "2 \<le> nc" "length x2 = nc" using x2 by (auto simp: increasing_def)
  let ?a = "\<lambda>j. vec_array ?N (\<lambda>p. if p < j * nc then grid_coeff nc x2 y p else c ! p)"
  let ?f = "\<lambda>j (ytmp, ctmp, c). do { ytmp \<leftarrow> load_row nc j y ytmp; ctmp \<leftarrow> spline nc x2 ytmp AMAX AMAX ctmp;
      c \<leftarrow> store_row nc j ctmp c; Some (ytmp, ctmp, c) }"
  let ?I = "\<lambda>j (ytmp :: real list, ctmp :: real list, c'). length ytmp = nc \<and> length ctmp = nc \<and> c' = ?a j"
  have "yields (for_up 0 nr ?f (replicate nc 0, replicate nc 0, c)) (?I nr)"
  proof (rule for_up_rule [where I = ?I])
    show "?I 0 (replicate nc 0, replicate nc 0, c)" using vec_array_nth [of c] len by simp
    fix j s assume j: "0 \<le> j" "j < nr" and s: "?I j s"
    obtain ytmp ctmp c' where st: "s = (ytmp, ctmp, c')" by (cases s)
    have b: "j * nc + nc \<le> ?N" by (rule row_bound [OF j(2)])
    have load: "load_row nc j y ytmp = Some (row nc y j)"
      using s st len b by (simp add: load_row_exact)
    have coeff: "spline nc x2 (row nc y j) AMAX AMAX ctmp = Some (vec_array nc (sp_coeff x2 (row nc y j) nc))"
      using s st n by (simp add: spline_natural_exact)
    have "store_row nc j (vec_array nc (sp_coeff x2 (row nc y j) nc)) (?a j) = Some (?a (Suc j))"
    proof -
      have "vec_array nc (sp_coeff x2 (row nc y j) nc) ! (p - j * nc) = grid_coeff nc x2 y p"
        if "j * nc \<le> p" "p < j * nc + nc" for p
        using grid_coeff_cell [of "p - j * nc" nc x2 y j] that by simp
      then show ?thesis using b by (subst store_row_eq) (auto intro!: vec_array_cong)
    qed
    with load coeff show "yields (?f j s) (?I (Suc j))" using s st by simp
  qed simp
  then obtain ytmp ctmp where "for_up 0 nr ?f (replicate nc 0, replicate nc 0, c) = Some (ytmp, ctmp, ?a nr)"
    by (auto simp: yields_def)
  moreover have "?a nr = vec_array ?N (grid_coeff nc x2 y)" by (intro vec_array_cong) simp
  ultimately show ?thesis by (simp add: spline2_def)
qed

section \<open>The values of a surface\<close>

definition surface :: "nat \<Rightarrow> nat \<Rightarrow> real list \<Rightarrow> real list \<Rightarrow> real list \<Rightarrow> real \<Rightarrow> real \<Rightarrow> real" where
  "surface nr nc x1 x2 y s t = natural nr x1 (vec_array nr (\<lambda>j. natural nc x2 (row nc y j) t)) s"

lemma splint2_rows_eq:
  assumes x2: "spaced nc x2" and y: "length y = nr * nc" and "j \<le> nr"
    and "length ytmp = nc" and "nc \<le> length ctmp"
  shows "\<exists>ctmp'. length ctmp' = length ctmp \<and>
    splint2_rows [j..<nr] nc x2 y (vec_array (nr * nc) (grid_coeff nc x2 y)) t (ytmp, ctmp, vec_array nr g) =
    Some (True, ctmp', vec_array nr (\<lambda>i. if j \<le> i then natural nc x2 (row nc y i) t else g i))"
  using assms(3-5)
proof (induction "nr - j" arbitrary: j ytmp ctmp g)
  case 0
  then have empty: "[j..<nr] = []" and "vec_array nr (\<lambda>i. if j \<le> i then natural nc x2 (row nc y i) t else g i) = vec_array nr g"
    by (auto intro!: vec_array_cong)
  then show ?case unfolding empty by simp
next
  case (Suc d)
  let ?C = "vec_array (nr * nc) (grid_coeff nc x2 y)"
  let ?v = "natural nc x2 (row nc y j) t"
  have j: "j < nr" using Suc.hyps(2) by simp
  have b: "j * nc + nc \<le> nr * nc" by (rule row_bound [OF j])
  define cr where "cr = vec_array (length ctmp) (\<lambda>k. if k < nc then ?C ! (j * nc + k) else ctmp ! k)"
  have load: "load_row nc j y ytmp = Some (row nc y j)" "load_row nc j ?C ctmp = Some cr"
    using Suc.prems y b by (simp_all add: load_row_exact load_row_eq cr_def)
  have cr: "length cr = length ctmp" "\<And>k. k < nc \<Longrightarrow> cr ! k = sp_coeff x2 (row nc y j) nc k"
    using Suc.prems b by (simp_all add: cr_def grid_coeff_cell)
  have val: "splint nc x2 (row nc y j) cr t (g j) = Some (True, ?v)"
    by (rule splint_natural [OF x2]) (use Suc.prems cr in auto)
  have d: "d = nr - Suc j" and l: "nc \<le> length cr" using Suc.hyps(2) Suc.prems(3) cr(1) by simp_all
  obtain ctmp' where rest: "length ctmp' = length cr"
    "splint2_rows [Suc j..<nr] nc x2 y ?C t (row nc y j, cr, vec_array nr (g(j := ?v))) =
      Some (True, ctmp', vec_array nr (\<lambda>i. if Suc j \<le> i then natural nc x2 (row nc y i) t else (g(j := ?v)) i))"
    using Suc.hyps(1) [OF d Suc_leI [OF j] length_row l, of y j "g(j := ?v)"] by blast
  have "vec_array nr (\<lambda>i. if Suc j \<le> i then natural nc x2 (row nc y i) t else (g(j := ?v)) i) =
      vec_array nr (\<lambda>i. if j \<le> i then natural nc x2 (row nc y i) t else g i)"
    by (intro vec_array_cong) (auto simp: not_less_eq_eq dest: le_antisym)
  then show ?case
    using rest cr(1) val by (simp add: upt_conv_Cons [OF j] load get_vec_array [OF j] put_vec_array [OF j] del: upt_Suc)
qed

lemma splint2_eq:
  assumes x1: "spaced nr x1" and x2: "spaced nc x2" and y: "length y = nr * nc"
  shows "splint2 nr nc x1 x2 y (vec_array (nr * nc) (grid_coeff nc x2 y)) s t yo = Some (True, surface nr nc x1 x2 y s t)"
proof -
  let ?yy = "vec_array nr (\<lambda>i. natural nc x2 (row nc y i) t)" and ?m = "if nr > nc then nr else nc"
  have n: "2 \<le> nr" "length x1 = nr" using x1 by (auto simp: spaced_def)
  have "replicate nr 0 = vec_array nr (\<lambda>_. 0 :: real)" by (simp add: vec_array_def map_replicate_const)
  moreover have "nc \<le> ?m" by simp
  ultimately obtain ctmp where rows: "length ctmp = ?m"
    "splint2_rows [0..<nr] nc x2 y (vec_array (nr * nc) (grid_coeff nc x2 y)) t (replicate nc 0, replicate ?m 0, replicate nr 0) =
      Some (True, ctmp, ?yy)"
    using splint2_rows_eq [OF x2 y, of 0 "replicate nc 0" "replicate ?m 0" t "\<lambda>_. 0"] by (auto simp del: length_vec_array)
  have m: "nr \<le> length ctmp" using rows(1) by simp
  then have "spline nr x1 ?yy AMAX AMAX ctmp = Some (vec_array (length ctmp) (\<lambda>k. if k < nr then sp_coeff x1 ?yy nr k else ctmp ! k))"
    using n by (intro spline_natural_eq) (simp_all add: AMAX_def)
  moreover have "splint nr x1 ?yy (vec_array (length ctmp) (\<lambda>k. if k < nr then sp_coeff x1 ?yy nr k else ctmp ! k)) s yo =
      Some (True, natural nr x1 ?yy s)"
    by (rule splint_natural [OF x1]) (use m in auto)
  ultimately show ?thesis using rows(2) by (simp add: splint2_def surface_def)
qed

section \<open>Properties\<close>

text \<open>
  C35. Interpolation on a grid. For sampling points at least \<open>AEPS\<close> apart in both directions, \<open>spline2\<close>
  computes coefficients with which \<open>splint2\<close> evaluates everywhere a surface that passes through all
  samples of the grid. The surface is twice differentiable in either direction, and its second derivatives
  vanish at the ends. No access leaves an array, whichever of the two dimensions is the larger one, and nothing depends on what
  the output array held before.
\<close>

theorem surface_interpolates:
  assumes "spaced nr x1" and "spaced nc x2" and "length y = nr * nc" and "length c = nr * nc"
  shows "\<exists>C S S1 S11 S2 S22. spline2 nr nc x1 x2 y c = Some C \<and>
    (\<forall>s t yo. splint2 nr nc x1 x2 y C s t yo = Some (True, S s t)) \<and>
    (\<forall>j<nr. \<forall>k<nc. S (x1 ! j) (x2 ! k) = y ! (j * nc + k)) \<and>
    (\<forall>s t. ((\<lambda>s. S s t) has_real_derivative S1 s t) (at s) \<and> ((\<lambda>s. S1 s t) has_real_derivative S11 s t) (at s) \<and>
       (S s has_real_derivative S2 s t) (at t) \<and> (S2 s has_real_derivative S22 s t) (at t)) \<and>
    (\<forall>t. S11 (x1 ! 0) t = 0 \<and> S11 (x1 ! (nr - 1)) t = 0) \<and> (\<forall>s. S22 s (x2 ! 0) = 0 \<and> S22 s (x2 ! (nc - 1)) = 0)"
proof -
  note x1 = spaced_increasing [OF assms(1)] and x2 = spaced_increasing [OF assms(2)]
  let ?v = "\<lambda>f t. vec_array nr (\<lambda>j. f nc x2 (row nc y j) t)"
  have "surface nr nc x1 x2 y (x1 ! j) (x2 ! k) = y ! (j * nc + k)" if "j < nr" "k < nc" for j k
    using that by (simp add: surface_def natural_at_node [OF x1] natural_at_node [OF x2])
  moreover have "((\<lambda>s. surface nr nc x1 x2 y s t) has_real_derivative natural' nr x1 (?v natural t) s) (at s)"
    "((\<lambda>s. natural' nr x1 (?v natural t) s) has_real_derivative natural'' nr x1 (?v natural t) s) (at s)" for s t
    using natural_derivative [OF x1] by (simp_all add: surface_def [abs_def])
  moreover have "(surface nr nc x1 x2 y s has_real_derivative natural nr x1 (?v natural' t) s) (at t)"
    "((\<lambda>t. natural nr x1 (?v natural' t) s) has_real_derivative natural nr x1 (?v natural'' t) s) (at t)" for s t
    unfolding surface_def [abs_def] by (intro natural_parameter [OF x1] natural_derivative [OF x2])+
  moreover have "?v natural'' (x2 ! 0) = vec_array nr (\<lambda>_. 0)" "?v natural'' (x2 ! (nc - 1)) = vec_array nr (\<lambda>_. 0)"
    by (simp_all only: natural_ends [OF x2])
  ultimately show ?thesis
    using spline2_eq [OF x2 assms(3,4)] splint2_eq [OF assms(1-3)] natural_ends [OF x1] natural_zero [OF x1]
    by (intro exI [of _ "vec_array (nr * nc) (grid_coeff nc x2 y)"] exI [of _ "surface nr nc x1 x2 y"]
        exI [of _ "\<lambda>s t. natural' nr x1 (?v natural t) s"] exI [of _ "\<lambda>s t. natural'' nr x1 (?v natural t) s"]
        exI [of _ "\<lambda>s t. natural nr x1 (?v natural' t) s"] exI [of _ "\<lambda>s t. natural nr x1 (?v natural'' t) s"]) simp
qed

theorem surface_interpolates_witness:
  "\<exists>C S. spline2 2 3 [0, 1] [0, 1, 3] [0, 1, 0, 2, 5, 1] [7, 7, 7, 7, 7, 7] = Some C \<and>
    (\<forall>s t yo. splint2 2 3 [0, 1] [0, 1, 3] [0, 1, 0, 2, 5, 1] C s t yo = Some (True, S s t)) \<and> S 1 1 = 5 \<and> S 0 3 = 0"
proof -
  have "spaced 2 [0, 1]" "spaced 3 [0, 1, 3]"
    by (auto simp: spaced_def AEPS_def less_Suc_eq nth_Cons' numeral_3_eq_3)
  then obtain C S where "spline2 2 3 [0, 1] [0, 1, 3] [0, 1, 0, 2, 5, 1] [7, 7, 7, 7, 7, 7] = Some C"
    "\<forall>s t yo. splint2 2 3 [0, 1] [0, 1, 3] [0, 1, 0, 2, 5, 1] C s t yo = Some (True, S s t)"
    and nodes: "\<forall>j<2. \<forall>k<3. S ([0, 1] ! j) ([0, 1, 3] ! k) = [0, 1, 0, 2, 5, 1] ! (j * 3 + k)"
    using surface_interpolates [of 2 "[0, 1]" 3 "[0, 1, 3]" "[0, 1, 0, 2, 5, 1]" "[7, 7, 7, 7, 7, 7]"] by auto
  moreover have "S 1 1 = 5" "S 0 3 = 0"
    using nodes [rule_format, of 1 1] nodes [rule_format, of 0 2] by simp_all
  ultimately show ?thesis by blast
qed

end
