(* ===== verification/AConvolve.thy ===== *)
theory AConvolve
  imports Complex_Main AMatrix "HOL-Library.Signed_Division"
begin

text \<open>
  Convolution with a Gaussian window (AMath.h): the classes \<open>gauss2_convolve\<close>, with a width for each
  axis, and \<open>gauss_std_convolve\<close>, with a given window. Both fill a kernel, normalise it and sum the
  pixels under the window. The type of the pixels is a parameter with its conversions to and from
  \<open>double\<close>; the contents of the storage that \<open>new\<close> returns are an argument, and a negative size
  raises an exception, which is the result \<open>None\<close>.
\<close>

section \<open>The kernel\<close>

text \<open>\<open>(int) x\<close> and \<open>new double[n]\<close>\<close>

definition truncated :: "real \<Rightarrow> int" where
  "truncated x = (if x < 0 then \<lceil>x\<rceil> else \<lfloor>x\<rfloor>)"

definition new_array :: "(nat \<Rightarrow> 'a) \<Rightarrow> int \<Rightarrow> 'a list option" where
  "new_array fresh n = (if n < 0 then None else Some (vec_array (nat n) fresh))"

definition fill_kernel :: "int \<Rightarrow> int \<Rightarrow> real \<Rightarrow> real list \<Rightarrow> (real \<times> real list) option" where
  "fill_kernel wSize hSize fract kern =
     (let xcen = wSize sdiv 2; ycen = hSize sdiv 2
      in for_up 0 (nat hSize) (\<lambda>y (sum, kern).
           let dy = real_of_int ((int y - ycen) * (int y - ycen))
           in for_up 0 (nat wSize) (\<lambda>x (sum, kern).
                let dx = real_of_int ((int x - xcen) * (int x - xcen));
                    val = exp (- (dx + dy) / fract)
                in do { kern \<leftarrow> array_put kern (y * nat wSize + x) val; Some (sum + val, kern) }) (sum, kern))
           (0, kern))"

definition normalise_kernel :: "int \<Rightarrow> int \<Rightarrow> real \<Rightarrow> real list \<Rightarrow> real list option" where
  "normalise_kernel wSize hSize total_sum =
     for_up 0 (nat hSize) (\<lambda>y. for_up 0 (nat wSize) (\<lambda>x kern. do {
       k \<leftarrow> array_get kern (y * nat wSize + x); array_put kern (y * nat wSize + x) (k / total_sum) }))"

definition make_kernel :: "int \<Rightarrow> int \<Rightarrow> real \<Rightarrow> real list \<Rightarrow> real list option" where
  "make_kernel wSize hSize fract kern = do {
     (sum, kern) \<leftarrow> fill_kernel wSize hSize fract kern;
     normalise_kernel wSize hSize sum kern }"

section \<open>The window\<close>

definition window_sum ::
  "('d \<Rightarrow> real) \<Rightarrow> 'd list \<Rightarrow> int \<Rightarrow> real list \<Rightarrow> int \<Rightarrow> int \<Rightarrow> int \<Rightarrow> int \<Rightarrow> int \<Rightarrow> real option" where
  "window_sum rd data wData kern wSize xmin xmax ymin ymax =
     for_up (nat ymin) (nat (ymax + 1)) (\<lambda>y. for_up (nat xmin) (nat (xmax + 1)) (\<lambda>x sum. do {
       d \<leftarrow> array_get data (y * nat wData + x);
       k \<leftarrow> array_get kern ((y - nat ymin) * nat wSize + (x - nat xmin));
       Some (sum + rd d * k) })) 0"

section \<open>gauss2_convolve\<close>

record gauss2_convolve =
  g2_sigmax :: real
  g2_sigmay :: real
  g2_kernel :: "real list"
  g2_wSize :: int
  g2_hSize :: int

definition gauss2_MakeKernel :: "gauss2_convolve \<Rightarrow> gauss2_convolve option" where
  "gauss2_MakeKernel g = do {
     K \<leftarrow> make_kernel (g2_wSize g) (g2_hSize g) (2 * g2_sigmax g * g2_sigmay g) (g2_kernel g);
     Some (g\<lparr>g2_kernel := K\<rparr>) }"

definition new_gauss2 :: "(nat \<Rightarrow> real) \<Rightarrow> real \<Rightarrow> real \<Rightarrow> gauss2_convolve option" where
  "new_gauss2 fresh sigmax sigmay =
     (let wSize = truncated (3.5 * sigmax) * 2 + 1; hSize = truncated (3.5 * sigmay) * 2 + 1
      in do { K \<leftarrow> new_array fresh (wSize * hSize);
              gauss2_MakeKernel \<lparr>g2_sigmax = sigmax, g2_sigmay = sigmay, g2_kernel = K, g2_wSize = wSize, g2_hSize = hSize\<rparr> })"

definition gauss2_NewKernel :: "(nat \<Rightarrow> real) \<Rightarrow> real \<Rightarrow> real \<Rightarrow> gauss2_convolve \<Rightarrow> (bool \<times> gauss2_convolve) option" where
  "gauss2_NewKernel fresh sigmax sigmay g =
     (if \<bar>g2_sigmax g - sigmax\<bar> < 1 / 10 ^ 6 \<and> \<bar>g2_sigmay g - sigmay\<bar> < 1 / 10 ^ 6 then Some (True, g)
      else let wNew = truncated (3.5 * sigmax) * 2 + 1; hNew = truncated (3.5 * sigmay) * 2 + 1
           in do { K \<leftarrow> (if g2_wSize g * g2_hSize g \<noteq> wNew * hNew then new_array fresh (wNew * hNew)
                         else Some (g2_kernel g));
                   g \<leftarrow> gauss2_MakeKernel \<lparr>g2_sigmax = sigmax, g2_sigmay = sigmay, g2_kernel = K,
                                            g2_wSize = wNew, g2_hSize = hNew\<rparr>;
                   Some (True, g) })"

definition gauss2_Convolve ::
  "('d \<Rightarrow> real) \<Rightarrow> (real \<Rightarrow> 'd) \<Rightarrow> gauss2_convolve \<Rightarrow> 'd list \<Rightarrow> int \<Rightarrow> int \<Rightarrow> int \<Rightarrow> int \<Rightarrow> 'd option" where
  "gauss2_Convolve rd cv g data wData hData x0 y0 =
     (let wHalf = g2_wSize g sdiv 2; hHalf = g2_hSize g sdiv 2;
          xmin = x0 - wHalf; xmax = x0 + wHalf; ymin = y0 - hHalf; ymax = y0 + hHalf
      in if xmin < 0 \<or> xmax \<ge> wData \<or> ymin < 0 \<or> ymax \<ge> hData then Some (cv 0)
         else do { sum \<leftarrow> window_sum rd data wData (g2_kernel g) (g2_wSize g) xmin xmax ymin ymax; Some (cv sum) })"

section \<open>gauss_std_convolve\<close>

record gauss_std_convolve =
  gs_wSize :: int
  gs_sigma :: real
  gs_kernel :: "real list"

definition gauss_std_MakeKernel :: "gauss_std_convolve \<Rightarrow> gauss_std_convolve option" where
  "gauss_std_MakeKernel g = do {
     K \<leftarrow> make_kernel (gs_wSize g) (gs_wSize g) (2 * gs_sigma g * gs_sigma g) (gs_kernel g);
     Some (g\<lparr>gs_kernel := K\<rparr>) }"

definition new_gauss_std :: "(nat \<Rightarrow> real) \<Rightarrow> int \<Rightarrow> real \<Rightarrow> gauss_std_convolve option" where
  "new_gauss_std fresh sz sigma =
     (let wSize = sz sdiv 2 * 2 + 1; wSize = (if wSize < 3 then 3 else wSize);
          sigma = (if sigma < 0.1 then 0.1 else sigma)
      in do { K \<leftarrow> new_array fresh (wSize * wSize);
              gauss_std_MakeKernel \<lparr>gs_wSize = wSize, gs_sigma = sigma, gs_kernel = K\<rparr> })"

definition gauss_std_NewKernel ::
  "(nat \<Rightarrow> real) \<Rightarrow> int \<Rightarrow> real \<Rightarrow> gauss_std_convolve \<Rightarrow> (bool \<times> gauss_std_convolve) option" where
  "gauss_std_NewKernel fresh sz sigma g =
     (if sz < 3 \<or> sigma < 0.1 then Some (False, g)
      else if sz = gs_wSize g \<and> sigma = gs_sigma g then Some (True, g)
      else let newsize = sz sdiv 2 * 2 + 1
           in do { K \<leftarrow> (if newsize \<noteq> gs_wSize g then new_array fresh (newsize * newsize) else Some (gs_kernel g));
                   g \<leftarrow> gauss_std_MakeKernel \<lparr>gs_wSize = newsize, gs_sigma = sigma, gs_kernel = K\<rparr>;
                   Some (True, g) })"

definition gauss_std_Convolve ::
  "('d \<Rightarrow> real) \<Rightarrow> (real \<Rightarrow> 'd) \<Rightarrow> gauss_std_convolve \<Rightarrow> 'd list \<Rightarrow> int \<Rightarrow> int \<Rightarrow> int \<Rightarrow> int \<Rightarrow> 'd option" where
  "gauss_std_Convolve rd cv g data wData hData x0 y0 =
     (let wHalf = gs_wSize g sdiv 2;
          xmin = x0 - wHalf; xmax = x0 + wHalf; ymin = y0 - wHalf; ymax = y0 + wHalf
      in if xmin < 0 \<or> xmax \<ge> wData \<or> ymin < 0 \<or> ymax \<ge> hData then Some (cv 0)
         else do { sum \<leftarrow> window_sum rd data wData (gs_kernel g) (gs_wSize g) xmin xmax ymin ymax; Some (cv sum) })"

section \<open>The contents of the kernelel\<close>

text \<open>The weight of a cell before the normalisation, for sizes \<open>2 * a + 1\<close> and \<open>2 * b + 1\<close>.\<close>

definition weight :: "nat \<Rightarrow> nat \<Rightarrow> real \<Rightarrow> nat \<Rightarrow> nat \<Rightarrow> real" where
  "weight a b fract i j =
     exp (- (real_of_int ((int j - int a) * (int j - int a)) + real_of_int ((int i - int b) * (int i - int b))) / fract)"

definition grid_sum :: "nat \<Rightarrow> nat \<Rightarrow> (nat \<Rightarrow> nat \<Rightarrow> real) \<Rightarrow> real" where
  "grid_sum h w f = (\<Sum>i<h. \<Sum>j<w. f i j)"

definition gauss_kernel :: "nat \<Rightarrow> nat \<Rightarrow> real \<Rightarrow> real list" where
  "gauss_kernel a b fract =
     (let h = 2 * b + 1; w = 2 * a + 1 in mat_array h w (\<lambda>i j. weight a b fract i j / grid_sum h w (weight a b fract)))"

lemma sdiv_odd: "(2 * int a + 1) sdiv 2 = int a"
  by (simp add: signed_divide_int_def sgn_if)

lemma fill_kernel_eq:
  assumes "length K = (2 * b + 1) * (2 * a + 1)"
  shows "fill_kernel (2 * int a + 1) (2 * int b + 1) fract K
    = Some (grid_sum (2 * b + 1) (2 * a + 1) (weight a b fract), mat_array (2 * b + 1) (2 * a + 1) (weight a b fract))"
proof -
  define h w where "h = 2 * b + 1" and "w = 2 * a + 1"
  let ?g = "weight a b fract"
  obtain f where K: "K = mat_array h w f" using mat_array_entries [of K h w] assms unfolding h_def w_def by metis
  let ?st = "\<lambda>y x. ((\<Sum>i<y. \<Sum>j<w. ?g i j) + (\<Sum>j<x. ?g y j),
      mat_array h w (\<lambda>i j. if i < y \<or> i = y \<and> j < x then ?g i j else f i j))"
  have cell: "array_put (snd (?st y x)) (y * w + x) (?g y x) = Some (snd (?st y (Suc x)))" if "y < h" "x < w" for y x
    using that by (auto simp: put_mat_array intro!: mat_array_cong)
  have row: "for_up 0 w (\<lambda>x (sum, kern). do { kern \<leftarrow> array_put kern (y * w + x) (?g y x); Some (sum + ?g y x, kern) }) (?st y 0)
      = Some (?st (Suc y) 0)" if y: "y < h" for y
  proof -
    have "for_up 0 w (\<lambda>x (sum, kern). do { kern \<leftarrow> array_put kern (y * w + x) (?g y x); Some (sum + ?g y x, kern) }) (?st y 0)
      = Some (?st y w)"
      by (rule for_up_states [where \<alpha> = "?st y"]) (use cell [OF y] in simp_all)
    moreover have "mat_array h w (\<lambda>i j. if i < y \<or> i = y \<and> j < w then ?g i j else f i j)
        = mat_array h w (\<lambda>i j. if i < Suc y \<or> i = Suc y \<and> j < 0 then ?g i j else f i j)"
      by (rule mat_array_cong) auto
    ultimately show ?thesis by simp
  qed
  have "for_up 0 h (\<lambda>y (sum, kern). for_up 0 w
      (\<lambda>x (sum, kern). do { kern \<leftarrow> array_put kern (y * w + x) (?g y x); Some (sum + ?g y x, kern) }) (sum, kern)) (?st 0 0)
    = Some (?st h 0)"
    by (rule for_up_states [where \<alpha> = "\<lambda>y. ?st y 0"]) (use row in simp_all)
  moreover have "?st 0 0 = (0, K)" by (simp add: K)
  moreover have "?st h 0 = (grid_sum h w ?g, mat_array h w ?g)" by (auto simp: grid_sum_def intro!: mat_array_cong)
  moreover have "nat (2 * int a + 1) = w" "nat (2 * int b + 1) = h" by (simp_all add: w_def h_def nat_add_distrib nat_mult_distrib)
  ultimately show ?thesis
    unfolding fill_kernel_def sdiv_odd Let_def weight_def [symmetric] h_def [symmetric] w_def [symmetric] by simp
qed

lemma normalise_kernel_eq:
  "normalise_kernel (2 * int a + 1) (2 * int b + 1) s (mat_array (2 * b + 1) (2 * a + 1) g)
    = Some (mat_array (2 * b + 1) (2 * a + 1) (\<lambda>i j. g i j / s))"
proof -
  define h w where "h = 2 * b + 1" and "w = 2 * a + 1"
  let ?st = "\<lambda>y x. mat_array h w (\<lambda>i j. if i < y \<or> i = y \<and> j < x then g i j / s else g i j)"
  let ?cell = "\<lambda>y x kern. do { k \<leftarrow> array_get kern (y * w + x); array_put kern (y * w + x) (k / s) }"
  have row: "for_up 0 w (?cell y) (?st y 0) = Some (?st (Suc y) 0)" if y: "y < h" for y
  proof -
    have "for_up 0 w (?cell y) (?st y 0) = Some (?st y w)"
      by (rule for_up_states [where \<alpha> = "?st y"]) (use y in \<open>auto simp: cell_simps intro!: mat_array_cong\<close>)
    moreover have "?st y w = ?st (Suc y) 0" by (rule mat_array_cong) auto
    ultimately show ?thesis by simp
  qed
  have "for_up 0 h (\<lambda>y. for_up 0 w (?cell y)) (?st 0 0) = Some (?st h 0)"
    by (rule for_up_states [where \<alpha> = "\<lambda>y. ?st y 0"]) (use row in simp_all)
  moreover have "?st 0 0 = mat_array h w g" by simp
  moreover have "?st h 0 = mat_array h w (\<lambda>i j. g i j / s)" by (rule mat_array_cong) simp
  moreover have "nat (2 * int a + 1) = w" "nat (2 * int b + 1) = h" by (simp_all add: w_def h_def nat_add_distrib nat_mult_distrib)
  ultimately show ?thesis unfolding normalise_kernel_def h_def [symmetric] w_def [symmetric] by simp
qed

lemma make_kernel_eq:
  "length K = (2 * b + 1) * (2 * a + 1) \<Longrightarrow>
    make_kernel (2 * int a + 1) (2 * int b + 1) fract K = Some (gauss_kernel a b fract)"
  by (simp add: make_kernel_def fill_kernel_eq normalise_kernel_eq gauss_kernel_def Let_def del: One_nat_def)

section \<open>The sum over the window\<close>

lemma window_sum_eq:
  assumes in_x: "p + w \<le> W" and in_y: "q + h \<le> H" and len: "H * W \<le> length data"
  shows "window_sum rd data (int W) (mat_array h w f) (int w) (int p) (int (p + w) - 1) (int q) (int (q + h) - 1)
    = Some (grid_sum h w (\<lambda>i j. rd (data ! ((q + i) * W + (p + j))) * f i j))"
proof -
  let ?d = "\<lambda>i j. rd (data ! ((q + i) * W + (p + j))) * f i j"
  let ?cell = "\<lambda>y x sum. do { d \<leftarrow> array_get data (y * W + x);
       k \<leftarrow> array_get (mat_array h w f) ((y - q) * w + (x - p)); Some (sum + rd d * k) }"
  let ?st = "\<lambda>y x. (\<Sum>i<y - q. \<Sum>j<w. ?d i j) + (\<Sum>j<x - p. ?d (y - q) j)"
  have step: "?cell y x (?st y x) = Some (?st y (Suc x))" if y: "q \<le> y" "y < q + h" and x: "p \<le> x" "x < p + w" for y x
  proof -
    have "y * W + x < length data" using y x in_x in_y by (intro cell_less_len [OF _ _ len]) auto
    then have "array_get data (y * W + x) = Some (data ! (y * W + x))" by (simp add: array_get_def)
    moreover have "array_get (mat_array h w f) ((y - q) * w + (x - p)) = Some (f (y - q) (x - p))"
      using y x by (intro get_mat_array) auto
    moreover have "q + (y - q) = y" "p + (x - p) = x" "Suc x - p = Suc (x - p)" using y x by auto
    ultimately show ?thesis by simp
  qed
  have row: "for_up p (p + w) (?cell y) (?st y p) = Some (?st (Suc y) p)" if y: "q \<le> y" "y < q + h" for y
  proof -
    have "for_up p (p + w) (?cell y) (?st y p) = Some (?st y (p + w))"
      by (rule for_up_states [where \<alpha> = "?st y"]) (use step [OF y] in simp_all)
    also have "?st y (p + w) = ?st (Suc y) p" using y by (simp add: Suc_diff_le)
    finally show ?thesis .
  qed
  have "for_up q (q + h) (\<lambda>y. for_up p (p + w) (?cell y)) (?st q p) = Some (?st (q + h) p)"
    by (rule for_up_states [where \<alpha> = "\<lambda>y. ?st y p"]) (use row in simp_all)
  moreover have "nat (int (p + w) - 1 + 1) = p + w" "nat (int (q + h) - 1 + 1) = q + h" by simp_all
  ultimately show ?thesis by (simp add: window_sum_def grid_sum_def)
qed

section \<open>Averages\<close>

text \<open>Positive weights that sum to 1 keep the sum between the bounds of the values.\<close>

lemma grid_sum_between:
  assumes "\<And>i j. i < h \<Longrightarrow> j < w \<Longrightarrow> 0 \<le> f i j" and one: "grid_sum h w f = 1"
    and "\<And>i j. i < h \<Longrightarrow> j < w \<Longrightarrow> lo \<le> v i j \<and> v i j \<le> hi"
  shows "lo \<le> grid_sum h w (\<lambda>i j. v i j * f i j)" and "grid_sum h w (\<lambda>i j. v i j * f i j) \<le> hi"
proof -
  have scale: "grid_sum h w (\<lambda>i j. c * f i j) = c" for c
    using one by (simp add: grid_sum_def sum_distrib_left [symmetric])
  have "grid_sum h w (\<lambda>i j. lo * f i j) \<le> grid_sum h w (\<lambda>i j. v i j * f i j)"
    unfolding grid_sum_def by (intro sum_mono mult_right_mono) (use assms in auto)
  then show "lo \<le> grid_sum h w (\<lambda>i j. v i j * f i j)" by (simp only: scale)
  have "grid_sum h w (\<lambda>i j. v i j * f i j) \<le> grid_sum h w (\<lambda>i j. hi * f i j)"
    unfolding grid_sum_def by (intro sum_mono mult_right_mono) (use assms in auto)
  then show "grid_sum h w (\<lambda>i j. v i j * f i j) \<le> hi" by (simp only: scale)
qed

definition averaging :: "nat \<Rightarrow> nat \<Rightarrow> real list \<Rightarrow> bool" where
  "averaging h w K \<longleftrightarrow> (\<exists>f. K = mat_array h w f \<and> (\<forall>i<h. \<forall>j<w. 0 < f i j) \<and> grid_sum h w f = 1)"

lemma gauss_kernel_averaging: "averaging (2 * b + 1) (2 * a + 1) (gauss_kernel a b fract)"
proof -
  let ?h = "2 * b + 1" and ?w = "2 * a + 1"
  have "0 < grid_sum ?h ?w (weight a b fract)"
    unfolding grid_sum_def weight_def by (intro sum_pos) auto
  moreover from this have "grid_sum ?h ?w (\<lambda>i j. weight a b fract i j / grid_sum ?h ?w (weight a b fract)) = 1"
    by (subst grid_sum_def) (simp add: sum_divide_distrib [symmetric] grid_sum_def)
  ultimately show ?thesis
    unfolding averaging_def gauss_kernel_def Let_def
    by (intro exI [of _ "\<lambda>i j. weight a b fract i j / grid_sum ?h ?w (weight a b fract)"]) (simp add: weight_def)
qed

lemma window_average:
  assumes K: "averaging h w K" and in_x: "p + w \<le> W" and in_y: "q + h \<le> H" and len: "H * W \<le> length data"
  shows "\<exists>v. window_sum rd data (int W) K (int w) (int p) (int (p + w) - 1) (int q) (int (q + h) - 1) = Some v \<and>
    (\<forall>lo hi. (\<forall>i<h. \<forall>j<w. lo \<le> rd (data ! ((q + i) * W + (p + j))) \<and> rd (data ! ((q + i) * W + (p + j))) \<le> hi)
      \<longrightarrow> lo \<le> v \<and> v \<le> hi)"
proof -
  obtain f where f: "K = mat_array h w f" "\<forall>i<h. \<forall>j<w. 0 < f i j" "grid_sum h w f = 1"
    using K by (auto simp: averaging_def)
  have pos: "0 \<le> f i j" if "i < h" "j < w" for i j using f(2) that by (simp add: less_imp_le)
  let ?v = "\<lambda>i j. rd (data ! ((q + i) * W + (p + j)))"
  have "lo \<le> grid_sum h w (\<lambda>i j. ?v i j * f i j) \<and> grid_sum h w (\<lambda>i j. ?v i j * f i j) \<le> hi"
    if "\<forall>i<h. \<forall>j<w. lo \<le> ?v i j \<and> ?v i j \<le> hi" for lo hi
    using grid_sum_between [of h w f lo ?v hi] pos f(3) that by blast
  then show ?thesis unfolding f(1) window_sum_eq [OF in_x in_y len] by blast
qed

lemma gauss2_MakeKernel_eq:
  "g2_wSize g = 2 * int a + 1 \<Longrightarrow> g2_hSize g = 2 * int b + 1 \<Longrightarrow> length (g2_kernel g) = (2 * b + 1) * (2 * a + 1) \<Longrightarrow>
    gauss2_MakeKernel g = Some (g\<lparr>g2_kernel := gauss_kernel a b (2 * g2_sigmax g * g2_sigmay g)\<rparr>)"
  by (simp add: gauss2_MakeKernel_def make_kernel_eq)

text \<open>The number of cells on each side of the centre.\<close>

definition half_size :: "real \<Rightarrow> int" where
  "half_size s = \<lfloor>3.5 * s\<rfloor>"

lemma half_size_nat:
  assumes "0 < s" obtains a where "half_size s = int a" and "truncated (3.5 * s) = int a"
proof
  have "0 \<le> 3.5 * s" using assms by simp
  then show "half_size s = int (nat (half_size s))" "truncated (3.5 * s) = int (nat (half_size s))"
    by (simp_all add: half_size_def truncated_def)
qed

text \<open>The object with the widths and the kernel that belongs to them.\<close>

definition gauss2_for :: "real \<Rightarrow> real \<Rightarrow> gauss2_convolve" where
  "gauss2_for sx sy = \<lparr>g2_sigmax = sx, g2_sigmay = sy,
     g2_kernel = gauss_kernel (nat (half_size sx)) (nat (half_size sy)) (2 * sx * sy),
     g2_wSize = 2 * half_size sx + 1, g2_hSize = 2 * half_size sy + 1\<rparr>"

lemma new_gauss2_eq:
  assumes "0 < sx" and "0 < sy"
  shows "new_gauss2 fresh sx sy = Some (gauss2_for sx sy)"
proof -
  obtain a where a: "half_size sx = int a" "truncated (3.5 * sx) = int a" using half_size_nat [OF assms(1)] .
  obtain b where b: "half_size sy = int b" "truncated (3.5 * sy) = int b" using half_size_nat [OF assms(2)] .
  have "(int a * 2 + 1) * (int b * 2 + 1) = int ((2 * b + 1) * (2 * a + 1))" by (simp add: algebra_simps)
  then have "new_array fresh ((int a * 2 + 1) * (int b * 2 + 1)) = Some (vec_array ((2 * b + 1) * (2 * a + 1)) fresh)"
    by (simp only: new_array_def nat_int of_nat_less_0_iff if_False)
  then show ?thesis
    unfolding new_gauss2_def Let_def a(2) b(2)
    by (simp add: gauss2_MakeKernel_eq [of _ a b] gauss2_for_def a b mult.commute del: One_nat_def)
qed

section \<open>Properties\<close>

text \<open>
  C40. The convolution averages. A \<open>gauss2_convolve\<close> object for positive widths can be made for any
  contents of the fresh storage. Where the window leaves the image \<open>Convolve\<close> returns zero; everywhere
  else it reads pixels of the window alone and returns a value between any bounds of these pixels.
\<close>

theorem convolution_averages:
  assumes "0 < sx" and "0 < sy" and size: "wData * hData \<le> int (length data)"
  shows "\<exists>g. new_gauss2 fresh sx sy = Some g \<and> (\<forall>x0 y0.
    if half_size sx \<le> x0 \<and> x0 + half_size sx < wData \<and> half_size sy \<le> y0 \<and> y0 + half_size sy < hData
    then \<exists>v. gauss2_Convolve rd cv g data wData hData x0 y0 = Some (cv v) \<and>
      (\<forall>lo hi. (\<forall>x y. \<bar>x - x0\<bar> \<le> half_size sx \<and> \<bar>y - y0\<bar> \<le> half_size sy \<longrightarrow>
                  lo \<le> rd (data ! nat (y * wData + x)) \<and> rd (data ! nat (y * wData + x)) \<le> hi) \<longrightarrow> lo \<le> v \<and> v \<le> hi)
    else gauss2_Convolve rd cv g data wData hData x0 y0 = Some (cv 0))"
proof (intro exI [of _ "gauss2_for sx sy"] conjI allI, rule new_gauss2_eq [OF assms(1,2)])
  fix x0 y0
  obtain a where a: "half_size sx = int a" using half_size_nat [OF assms(1)] .
  obtain b where b: "half_size sy = int b" using half_size_nat [OF assms(2)] .
  let ?g = "gauss2_for sx sy"
  have g: "g2_wSize ?g = 2 * int a + 1" "g2_hSize ?g = 2 * int b + 1" "averaging (2 * b + 1) (2 * a + 1) (g2_kernel ?g)"
    using gauss_kernel_averaging [of b a] by (simp_all add: gauss2_for_def a b)
  show "if half_size sx \<le> x0 \<and> x0 + half_size sx < wData \<and> half_size sy \<le> y0 \<and> y0 + half_size sy < hData
    then \<exists>v. gauss2_Convolve rd cv ?g data wData hData x0 y0 = Some (cv v) \<and>
      (\<forall>lo hi. (\<forall>x y. \<bar>x - x0\<bar> \<le> half_size sx \<and> \<bar>y - y0\<bar> \<le> half_size sy \<longrightarrow>
                  lo \<le> rd (data ! nat (y * wData + x)) \<and> rd (data ! nat (y * wData + x)) \<le> hi) \<longrightarrow> lo \<le> v \<and> v \<le> hi)
    else gauss2_Convolve rd cv ?g data wData hData x0 y0 = Some (cv 0)"
    unfolding a b
  proof (split if_split, intro conjI impI)
    assume "\<not> (int a \<le> x0 \<and> x0 + int a < wData \<and> int b \<le> y0 \<and> y0 + int b < hData)"
    then show "gauss2_Convolve rd cv ?g data wData hData x0 y0 = Some (cv 0)"
      by (auto simp: gauss2_Convolve_def g sdiv_odd)
  next
    assume inside: "int a \<le> x0 \<and> x0 + int a < wData \<and> int b \<le> y0 \<and> y0 + int b < hData"
    define p q W H where "p = nat (x0 - int a)" and "q = nat (y0 - int b)" and "W = nat wData" and "H = nat hData"
    have p: "x0 - int a = int p" "x0 + int a = int (p + (2 * a + 1)) - 1" "y0 - int b = int q" "y0 + int b = int (q + (2 * b + 1)) - 1"
      "wData = int W" "hData = int H" using inside by (auto simp: p_def q_def W_def H_def)
    have fits: "p + (2 * a + 1) \<le> W" "q + (2 * b + 1) \<le> H" using inside p by linarith+
    have len: "H * W \<le> length data" using size unfolding p by (metis mult.commute of_nat_le_iff of_nat_mult)
    have w: "2 * int a + 1 = int (2 * a + 1)" by simp
    obtain v where v: "window_sum rd data wData (g2_kernel ?g) (int (2 * a + 1)) (x0 - int a) (x0 + int a) (y0 - int b) (y0 + int b) = Some v"
      "\<And>lo hi. (\<And>i j. i < 2 * b + 1 \<Longrightarrow> j < 2 * a + 1 \<Longrightarrow>
          lo \<le> rd (data ! ((q + i) * W + (p + j))) \<and> rd (data ! ((q + i) * W + (p + j))) \<le> hi) \<Longrightarrow> lo \<le> v \<and> v \<le> hi"
      using window_average [OF g(3) fits len, of rd] unfolding p by blast
    have "gauss2_Convolve rd cv ?g data wData hData x0 y0 = Some (cv v)"
      using inside v(1) [folded w] by (simp add: gauss2_Convolve_def g sdiv_odd Let_def)
    moreover have "lo \<le> v \<and> v \<le> hi" if bounds: "\<forall>x y. \<bar>x - x0\<bar> \<le> int a \<and> \<bar>y - y0\<bar> \<le> int b \<longrightarrow>
        lo \<le> rd (data ! nat (y * wData + x)) \<and> rd (data ! nat (y * wData + x)) \<le> hi" for lo hi
    proof (rule v(2))
      fix i j assume "i < 2 * b + 1" "j < 2 * a + 1"
      then have "\<bar>int (p + j) - x0\<bar> \<le> int a" "\<bar>int (q + i) - y0\<bar> \<le> int b" using p by auto
      moreover have "nat (int (q + i) * wData + int (p + j)) = (q + i) * W + (p + j)"
        unfolding p(5) by (metis nat_int of_nat_add of_nat_mult)
      ultimately show "lo \<le> rd (data ! ((q + i) * W + (p + j))) \<and> rd (data ! ((q + i) * W + (p + j))) \<le> hi"
        using bounds by metis
    qed
    ultimately show "\<exists>v. gauss2_Convolve rd cv ?g data wData hData x0 y0 = Some (cv v) \<and>
      (\<forall>lo hi. (\<forall>x y. \<bar>x - x0\<bar> \<le> int a \<and> \<bar>y - y0\<bar> \<le> int b \<longrightarrow>
                  lo \<le> rd (data ! nat (y * wData + x)) \<and> rd (data ! nat (y * wData + x)) \<le> hi) \<longrightarrow> lo \<le> v \<and> v \<le> hi)"
      by blast
  qed
qed

theorem convolution_averages_witness:
  "\<exists>g. new_gauss2 (\<lambda>_. 7) 1 (1 / 2) = Some g \<and>
    gauss2_Convolve (\<lambda>d. d) (\<lambda>v. v) g (replicate 56 5) 8 7 3 3 = Some 5 \<and>
    gauss2_Convolve (\<lambda>d. d) (\<lambda>v. v) g (replicate 56 5) 8 7 2 3 = Some 0"
proof -
  let ?image = "replicate 56 (5 :: real)"
  have half: "half_size 1 = 3" "half_size (1 / 2) = 1" by (simp_all add: half_size_def)
  obtain g where g: "new_gauss2 (\<lambda>_. 7) 1 (1 / 2) = Some g"
    and conv: "\<And>x0 y0. if 3 \<le> x0 \<and> x0 + 3 < 8 \<and> 1 \<le> y0 \<and> y0 + 1 < 7
    then \<exists>v. gauss2_Convolve (\<lambda>d. d) (\<lambda>v. v) g ?image 8 7 x0 y0 = Some v \<and>
      (\<forall>lo hi. (\<forall>x y. \<bar>x - x0\<bar> \<le> 3 \<and> \<bar>y - y0\<bar> \<le> 1 \<longrightarrow>
                  lo \<le> (?image ! nat (y * 8 + x)) \<and> (?image ! nat (y * 8 + x)) \<le> hi) \<longrightarrow> lo \<le> v \<and> v \<le> hi)
    else gauss2_Convolve (\<lambda>d. d) (\<lambda>v. v) g ?image 8 7 x0 y0 = Some 0"
    using convolution_averages [of 1 "1 / 2" 8 7 ?image "\<lambda>_. 7" "\<lambda>d. d" "\<lambda>v. v"] unfolding half by auto
  obtain v where v: "gauss2_Convolve (\<lambda>d. d) (\<lambda>v. v) g ?image 8 7 3 3 = Some v"
    and bounds: "\<And>lo hi. (\<forall>x y. \<bar>x - 3\<bar> \<le> 3 \<and> \<bar>y - 3\<bar> \<le> 1 \<longrightarrow>
                  lo \<le> (?image ! nat (y * 8 + x)) \<and> (?image ! nat (y * 8 + x)) \<le> hi) \<Longrightarrow> lo \<le> v \<and> v \<le> hi"
    using conv [of 3 3] by auto
  have "?image ! nat (y * 8 + x) = 5" if "\<bar>x - 3\<bar> \<le> 3" "\<bar>y - 3\<bar> \<le> 1" for x y :: int
    using that by (intro nth_replicate) linarith
  then have "v = 5" using bounds [of 5 5] by force
  then show ?thesis using g v conv [of 2 3] by auto
qed

section \<open>The standard convolution\<close>

text \<open>A usable object: an odd window of at least three cells, a width of at least 0.1, and the kernel of both.\<close>

definition usable :: "gauss_std_convolve \<Rightarrow> bool" where
  "usable g \<longleftrightarrow> (\<exists>a\<ge>1. gs_wSize g = 2 * int a + 1 \<and> 0.1 \<le> gs_sigma g \<and>
     gs_kernel g = gauss_kernel a a (2 * gs_sigma g * gs_sigma g) \<and> averaging (2 * a + 1) (2 * a + 1) (gs_kernel g))"

lemma length_gauss_kernel: "length (gauss_kernel a b fract) = (2 * b + 1) * (2 * a + 1)"
  by (simp add: gauss_kernel_def Let_def del: One_nat_def)

lemma gauss_std_MakeKernel_usable:
  assumes "gs_wSize g = 2 * int a + 1" and "1 \<le> a" and "0.1 \<le> gs_sigma g" and "length (gs_kernel g) = (2 * a + 1) * (2 * a + 1)"
  shows "yields (gauss_std_MakeKernel g) usable"
  using assms make_kernel_eq [OF assms(4), of "2 * gs_sigma g * gs_sigma g"] gauss_kernel_averaging [of a a]
  by (auto simp: gauss_std_MakeKernel_def usable_def simp del: One_nat_def)

lemma new_array_square: "new_array fresh ((2 * int a + 1) * (2 * int a + 1)) = Some (vec_array ((2 * a + 1) * (2 * a + 1)) fresh)"
proof -
  have "(2 * int a + 1) * (2 * int a + 1) = int ((2 * a + 1) * (2 * a + 1))" by (simp add: algebra_simps)
  then show ?thesis by (simp only: new_array_def nat_int of_nat_less_0_iff if_False)
qed

lemma odd_window:
  assumes "3 \<le> s sdiv 2 * 2 + 1" obtains a where "1 \<le> a" and "s sdiv 2 * 2 + 1 = 2 * int a + 1"
  using assms by (intro that [of "nat (s sdiv 2)"]) auto

lemma new_gauss_std_usable: "yields (new_gauss_std fresh sz sigma) usable"
proof -
  obtain a where a: "1 \<le> a" "(if sz sdiv 2 * 2 + 1 < 3 then 3 else sz sdiv 2 * 2 + 1) = 2 * int a + 1"
  proof (cases "sz sdiv 2 * 2 + 1 < 3")
    case False
    then show ?thesis using odd_window [of sz] that by auto
  qed (use that [of 1] in simp)
  show ?thesis
    unfolding new_gauss_std_def Let_def a(2) new_array_square
    by (simp add: gauss_std_MakeKernel_usable [OF _ a(1)] del: One_nat_def)
qed

lemma gauss_std_NewKernel_usable:
  assumes "usable g"
  shows "yields (gauss_std_NewKernel fresh sz sigma g) (\<lambda>(ok, g'). usable g' \<and> ok = (3 \<le> sz \<and> 0.1 \<le> sigma))"
proof (cases "sz < 3 \<or> sigma < 0.1 \<or> sz = gs_wSize g \<and> sigma = gs_sigma g")
  case True
  then show ?thesis using assms by (auto simp: gauss_std_NewKernel_def)
next
  case False
  then have "1 \<le> sz sdiv 2" by (auto simp: signed_divide_int_def sgn_if)
  then obtain a where a: "1 \<le> a" "sz sdiv 2 * 2 + 1 = 2 * int a + 1" using odd_window [of sz] by auto
  have "length (gs_kernel g) = (2 * a + 1) * (2 * a + 1)" if "2 * int a + 1 = gs_wSize g"
    using assms that by (auto simp: usable_def length_gauss_kernel simp del: One_nat_def)
  then obtain K where K: "(if 2 * int a + 1 \<noteq> gs_wSize g then new_array fresh ((2 * int a + 1) * (2 * int a + 1)) else Some (gs_kernel g)) = Some K"
    "length K = (2 * a + 1) * (2 * a + 1)"
    unfolding new_array_square by (cases "2 * int a + 1 = gs_wSize g") (simp_all del: One_nat_def)
  have "yields (gauss_std_MakeKernel \<lparr>gs_wSize = 2 * int a + 1, gs_sigma = sigma, gs_kernel = K\<rparr>) usable"
    using False a(1) K(2) by (intro gauss_std_MakeKernel_usable [of _ a]) (auto simp del: One_nat_def)
  then show ?thesis
    using False unfolding gauss_std_NewKernel_def Let_def a(2) K(1) by (auto simp: yields_def)
qed

text \<open>A sequence of calls of \<open>NewKernel\<close>; the results of \<open>new\<close> may differ from call to call.\<close>

fun renew :: "((nat \<Rightarrow> real) \<times> int \<times> real) list \<Rightarrow> gauss_std_convolve \<Rightarrow> gauss_std_convolve option" where
  "renew [] g = Some g"
| "renew ((fresh, sz, sigma) # calls) g = do { (ok, g) \<leftarrow> gauss_std_NewKernel fresh sz sigma g; renew calls g }"

lemma renew_usable: "usable g \<Longrightarrow> yields (renew calls g) usable"
proof (induction calls arbitrary: g)
  case (Cons call calls)
  obtain fresh sz sigma where "call = (fresh, sz, sigma)" by (cases call)
  then show ?case
    using gauss_std_NewKernel_usable [OF Cons.prems, of fresh sz sigma] Cons.IH
    by (fastforce simp: yields_def)
qed simp

text \<open>
  A \<open>gauss_std_convolve\<close> object is usable for whatever size and width it is made with, and stays
  usable over every sequence of \<open>NewKernel\<close> calls, legal and illegal ones: the window is odd and has
  at least three cells, and the kernel holds exactly the normalised weights of the current window
  and width, even where the old storage is used again. No operation leaves the storage of the kernel.
\<close>

theorem standard_kernel_consistent:
  "\<exists>g. new_gauss_std fresh sz sigma = Some g \<and> usable g \<and>
    (\<forall>calls. \<exists>g'. renew calls g = Some g' \<and> usable g')"
  using new_gauss_std_usable [of fresh sz sigma] renew_usable unfolding yields_def by blast

end
