(* ===== verification/AErf.thy ===== *)
theory AErf
  imports Complex_Main "HOL-Library.Monad_Syntax"
begin

text \<open>
  The error function (AMath.cpp): the approximation \<open>erf\<close>, its inverse by bisection and the normal
  distribution. The bisection may run for ever, so it is a partial function whose result \<open>None\<close> is
  not to return. Arithmetic is that of the real numbers.
\<close>

section \<open>The functions\<close>

definition erf :: "real \<Rightarrow> real" where
  "erf x =
     (let z = \<bar>x\<bar>;
          t = 1.0 / (1.0 + 0.5 * z);
          y = t * exp (- z * z - 1.26551223 + t * (1.00002368 + t * (0.37409196 + t *
                (0.09678418 + t * (- 0.18628806 + t * (0.27886807 + t *
                (- 1.13520398 + t * (1.48851587 + t * (- 0.82215223 + t * 0.17087277)))))))))
      in if x \<ge> 0 then 1.0 - y else y - 1.0)"

text \<open>The loop; it is entered with \<open>z1 = erf me\<close>. Its counter is not used.\<close>

partial_function (option) re_loop :: "real \<Rightarrow> real \<Rightarrow> real \<Rightarrow> real \<Rightarrow> real \<Rightarrow> real option" where
  "re_loop z lo hi me z1 =
     (if \<bar>z1 - z\<bar> > 1.2 / 10 ^ 7
      then let (lo, hi) = (if z1 < z then (me, hi) else (lo, me));
               me = (lo + hi) * 0.5
           in re_loop z lo hi me (erf me)
      else Some me)"

definition reverse_erf :: "real \<Rightarrow> real option" where
  "reverse_erf z =
     (let (lo, hi) = (if z \<ge> 0 then (0, 4) else (- 4, 0));
          me = (lo + hi) * 0.5
      in re_loop z lo hi me (erf me))"

definition CNDF :: "real \<Rightarrow> real \<Rightarrow> real \<Rightarrow> real" where
  "CNDF x mu sigma = (let z = (x - mu) / sqrt 2.0 / sigma in 0.5 * (1 + erf z))"

definition RCNDF :: "real \<Rightarrow> real \<Rightarrow> real \<Rightarrow> real option" where
  "RCNDF p mu sigma = do { z \<leftarrow> reverse_erf (p * 2 - 1); Some (z * sqrt 2.0 * sigma + mu) }"

section \<open>Small steps of continuous functions\<close>

lemma continuous_small_steps:
  fixes f :: "real \<Rightarrow> real"
  assumes "a \<le> b" and cont: "\<And>x. a \<le> x \<Longrightarrow> x \<le> b \<Longrightarrow> isCont f x" and e: "0 < e"
  shows "\<exists>d>0. \<forall>s t. a \<le> s \<and> s \<le> t \<and> t \<le> b \<and> t - s < d \<longrightarrow> \<bar>f s - f t\<bar> \<le> e"
proof -
  let ?P = "\<lambda>l u. a \<le> l \<and> u \<le> b \<longrightarrow> (\<exists>d>0. \<forall>s t. l \<le> s \<and> s \<le> t \<and> t \<le> u \<and> t - s < d \<longrightarrow> \<bar>f s - f t\<bar> \<le> e)"
  have near: "\<exists>d>0. \<forall>s. \<bar>s - x\<bar> < d \<longrightarrow> \<bar>f s - f x\<bar> \<le> e / 2" if "a \<le> x" "x \<le> b" for x
    using cont [OF that, unfolded isCont_def, THEN LIM_D, of "e / 2"] e
    by (metis abs_0 half_gt_zero_iff less_imp_le real_norm_def cancel_comm_monoid_add_class.diff_cancel)
  have "?P a b"
  proof (rule Bolzano [where P = ?P and a = a and b = b, OF \<open>a \<le> b\<close>], goal_cases trans local)
    case (trans l m u)
    show ?case
    proof (intro impI)
      assume in_ab: "a \<le> l \<and> u \<le> b"
      obtain d1 where d1: "0 < d1" "\<forall>s t. l \<le> s \<and> s \<le> t \<and> t \<le> m \<and> t - s < d1 \<longrightarrow> \<bar>f s - f t\<bar> \<le> e"
        using trans in_ab by force
      obtain d2 where d2: "0 < d2" "\<forall>s t. m \<le> s \<and> s \<le> t \<and> t \<le> u \<and> t - s < d2 \<longrightarrow> \<bar>f s - f t\<bar> \<le> e"
        using trans in_ab by force
      obtain d3 where d3: "0 < d3" "\<forall>s. \<bar>s - m\<bar> < d3 \<longrightarrow> \<bar>f s - f m\<bar> \<le> e / 2"
        using near [of m] trans in_ab by auto
      have "\<bar>f s - f t\<bar> \<le> e" if st: "l \<le> s" "s \<le> t" "t \<le> u" "t - s < min d1 (min d2 d3)" for s t
      proof -
        consider "t \<le> m" | "m \<le> s" | "s < m" "m < t" by linarith
        then show ?thesis
        proof cases
          case 3
          then have "\<bar>f s - f m\<bar> \<le> e / 2" "\<bar>f t - f m\<bar> \<le> e / 2" using d3(2) st by auto
          then show ?thesis by linarith
        qed (use d1 d2 st in auto)
      qed
      then show "\<exists>d>0. \<forall>s t. l \<le> s \<and> s \<le> t \<and> t \<le> u \<and> t - s < d \<longrightarrow> \<bar>f s - f t\<bar> \<le> e"
        by (intro exI [of _ "min d1 (min d2 d3)"]) (use d1 d2 d3 in auto)
    qed
  next
    case (local x)
    then obtain d where d: "0 < d" "\<forall>s. \<bar>s - x\<bar> < d \<longrightarrow> \<bar>f s - f x\<bar> \<le> e / 2" using near by blast
    have "\<bar>f s - f t\<bar> \<le> e" if "l \<le> x" "x \<le> u" "u - l < d" "l \<le> s" "s \<le> t" "t \<le> u" for l u s t
    proof -
      have "\<bar>f s - f x\<bar> \<le> e / 2" "\<bar>f t - f x\<bar> \<le> e / 2" using d(2) that by auto
      then show ?thesis by linarith
    qed
    then have "\<forall>l u. l \<le> x \<and> x \<le> u \<and> u - l < d \<longrightarrow> ?P l u" by (intro allI impI exI [of _ 1]) auto
    with d(1) show ?case by blast
  qed
  then show ?thesis by simp
qed

section \<open>The bisection\<close>

lemma re_loop_returns:
  assumes step: "\<And>s t. a \<le> s \<Longrightarrow> s \<le> t \<Longrightarrow> t \<le> b \<Longrightarrow> t - s < d \<Longrightarrow> \<bar>f s - f t\<bar> \<le> e" and e: "0 \<le> e" "2 * e \<le> 1.2 / 10 ^ 7"
    and f: "\<And>x. a < x \<Longrightarrow> x < b \<Longrightarrow> erf x = f x"
    and "a \<le> lo" and "lo < hi" and "hi \<le> b" and "f lo \<le> z + e" and "z \<le> f hi + e" and "hi - lo < d * 2 ^ n"
  shows "\<exists>r. re_loop z lo hi ((lo + hi) * 0.5) (erf ((lo + hi) * 0.5)) = Some r \<and> \<bar>erf r - z\<bar> \<le> 1.2 / 10 ^ 7 \<and> a < r \<and> r < b"
  using assms(4-)
proof (induction n arbitrary: lo hi)
  case 0
  define me where "me = (lo + hi) * 0.5"
  have me: "lo < me" "me < hi" using 0 by (auto simp: me_def)
  have "\<bar>f lo - f me\<bar> \<le> e" "\<bar>f me - f hi\<bar> \<le> e" using me 0 by (auto intro!: step)
  moreover have "erf me = f me" using me 0 by (intro f) auto
  ultimately have "\<bar>erf me - z\<bar> \<le> 1.2 / 10 ^ 7" using 0 e by linarith
  then show ?case
    unfolding me_def [symmetric] using me 0 by (subst re_loop.simps) auto
next
  case (Suc n)
  define me where "me = (lo + hi) * 0.5"
  have me: "lo < me" "me < hi" "me - lo = (hi - lo) / 2" "hi - me = (hi - lo) / 2" using Suc.prems by (auto simp: me_def field_simps)
  have eq: "erf me = f me" using me Suc.prems by (intro f) auto
  show ?case
  proof (cases "\<bar>erf me - z\<bar> > 1.2 / 10 ^ 7")
    case False
    then show ?thesis unfolding me_def [symmetric] using me Suc.prems by (subst re_loop.simps) auto
  next
    case True
    define lo' hi' where "lo' = (if erf me < z then me else lo)" and "hi' = (if erf me < z then hi else me)"
    have "\<exists>r. re_loop z lo' hi' ((lo' + hi') * 0.5) (erf ((lo' + hi') * 0.5)) = Some r \<and> \<bar>erf r - z\<bar> \<le> 1.2 / 10 ^ 7 \<and> a < r \<and> r < b"
      by (rule Suc.IH) (use me eq Suc.prems e(1) in \<open>auto simp: lo'_def hi'_def\<close>)
    then show ?thesis
      unfolding me_def [symmetric] using True by (subst re_loop.simps) (auto simp: lo'_def hi'_def Let_def)
  qed
qed

section \<open>The function on the two half lines\<close>

definition erf_pos :: "real \<Rightarrow> real" where
  "erf_pos x =
     (let t = 1.0 / (1.0 + 0.5 * x)
      in 1.0 - t * exp (- x * x - 1.26551223 + t * (1.00002368 + t * (0.37409196 + t *
                (0.09678418 + t * (- 0.18628806 + t * (0.27886807 + t *
                (- 1.13520398 + t * (1.48851587 + t * (- 0.82215223 + t * 0.17087277))))))))))"

lemma erf_nonneg: "0 \<le> x \<Longrightarrow> erf x = erf_pos x"
  by (simp add: erf_def erf_pos_def Let_def)

lemma erf_neg: "x < 0 \<Longrightarrow> erf x = - erf_pos (- x)"
  by (simp add: erf_def erf_pos_def Let_def)

lemma erf_pos_below_one: "0 \<le> x \<Longrightarrow> erf_pos x < 1"
  by (simp add: erf_pos_def Let_def)

lemma erf_pos_continuous: "0 \<le> x \<Longrightarrow> isCont erf_pos x"
  unfolding erf_pos_def [abs_def] Let_def by (intro continuous_intros) auto

lemma erf_pos_0: "erf_pos 0 \<le> 0"
  by (simp add: erf_pos_def)

lemma erf_pos_4: "1 - 6 / 10 ^ 8 \<le> erf_pos 4"
proof -
  let ?E = "- 4 * 4 - 1.26551223 + 1 / 3 * (1.00002368 + 1 / 3 * (0.37409196 + 1 / 3 *
                (0.09678418 + 1 / 3 * (- 0.18628806 + 1 / 3 * (0.27886807 + 1 / 3 *
                (- 1.13520398 + 1 / 3 * (1.48851587 + 1 / 3 * (- 0.82215223 + 1 / 3 * 0.17087277)))))))) :: real"
  have "?E \<le> - 16" by simp
  then have "exp ?E \<le> exp (- 16)" by (simp only: exp_le_cancel_iff)
  also have "exp (- 16 :: real) = inverse (exp (1 / 2) ^ 32)"
    by (simp add: exp_minus exp_of_nat_mult [symmetric])
  also have "\<dots> \<le> inverse ((13 / 8) ^ 32)"
    using exp_lower_Taylor_quadratic [of "1 / 2"] by (intro le_imp_inverse_le power_mono) (simp_all add: power2_eq_square)
  also have "\<dots> \<le> 18 / 10 ^ 8" by (simp add: power_divide)
  finally have "1 / 3 * exp ?E \<le> 6 / 10 ^ 8" by simp
  moreover have "erf_pos 4 = 1 - 1 / 3 * exp ?E" by (simp add: erf_pos_def)
  ultimately show ?thesis by simp
qed

lemma erf_bisection:
  assumes z: "- 1 \<le> z" "z \<le> 1" and ab: "a = 0 \<and> b = 4 \<and> 0 \<le> z \<or> a = - 4 \<and> b = 0 \<and> z < 0"
  shows "\<exists>r. re_loop z a b ((a + b) * 0.5) (erf ((a + b) * 0.5)) = Some r \<and> \<bar>erf r - z\<bar> \<le> 1.2 / 10 ^ 7 \<and> a < r \<and> r < b"
proof -
  define f where "f = (if z \<ge> 0 then erf_pos else (\<lambda>x. - erf_pos (- x)))"
  let ?e = "6 / 10 ^ 8 :: real"
  have cont: "isCont f x" if "a \<le> x" "x \<le> b" for x
  proof (cases "0 \<le> z")
    case True
    then show ?thesis using that ab by (auto simp: f_def erf_pos_continuous)
  next
    case False
    then have "isCont (\<lambda>x. erf_pos (- x)) x"
      using that ab isCont_o2 [of x uminus erf_pos] erf_pos_continuous [of "- x"] by auto
    then show ?thesis using False by (simp add: f_def)
  qed
  have "a < b" using ab by auto
  obtain d where d: "0 < d" "\<forall>s t. a \<le> s \<and> s \<le> t \<and> t \<le> b \<and> t - s < d \<longrightarrow> \<bar>f s - f t\<bar> \<le> ?e"
    using continuous_small_steps [of a b f ?e] cont \<open>a < b\<close> by auto
  obtain n where n: "(b - a) / d < 2 ^ n" using real_arch_pow [of 2 "(b - a) / d"] by auto
  show ?thesis
  proof (rule re_loop_returns [where f = f and d = d and e = ?e and n = n])
    show "erf x = f x" if "a < x" "x < b" for x using that ab by (auto simp: f_def erf_nonneg erf_neg)
    show "b - a < d * 2 ^ n" using n d(1) by (simp add: divide_less_eq mult.commute)
    show "f a \<le> z + ?e" "z \<le> f b + ?e" using ab z erf_pos_0 erf_pos_4 by (auto simp: f_def)
  qed (use d \<open>a < b\<close> in auto)
qed

text \<open>Outside of the range of the function no step of the loop is the last one.\<close>

lemma re_loop_never:
  assumes "re_loop z lo hi me z1 = Some r" and "z1 = erf me"
    and "0 \<le> lo \<and> 0 \<le> hi \<and> 0 \<le> me \<and> 1 + 1.2 / 10 ^ 7 < z \<or> lo < 0 \<and> hi \<le> 0 \<and> me < 0 \<and> z < - 1 - 1.2 / 10 ^ 7"
  shows False
  using assms
proof (induction rule: re_loop.raw_induct [rotated, consumes 1, case_names step])
  case (step re_loop z lo hi me z1 r)
  have "1.2 / 10 ^ 7 < \<bar>erf me - z\<bar>"
    using step.prems(2) erf_pos_below_one [of me] erf_pos_below_one [of "- me"] by (auto simp: erf_nonneg erf_neg)
  define lo' hi' where "lo' = (if z1 < z then me else lo)" and "hi' = (if z1 < z then hi else me)"
  have "re_loop z lo' hi' ((lo' + hi') * 0.5) (erf ((lo' + hi') * 0.5)) = Some r"
    using step.hyps \<open>1.2 / 10 ^ 7 < \<bar>erf me - z\<bar>\<close> step.prems(1) by (auto simp: lo'_def hi'_def Let_def)
  then show ?case
    by (rule step.IH [OF _ refl]) (use step.prems(2) in \<open>auto simp: lo'_def hi'_def\<close>)
qed

section \<open>Properties\<close>

lemma reverse_erf_returns:
  assumes "- 1 \<le> z" and "z \<le> 1"
  shows "\<exists>r. reverse_erf z = Some r \<and> \<bar>erf r - z\<bar> \<le> 1.2 / 10 ^ 7 \<and> - 4 < r \<and> r < 4"
proof (cases "0 \<le> z")
  case True
  then show ?thesis using erf_bisection [OF assms, of 0 4] by (auto simp: reverse_erf_def)
next
  case False
  then show ?thesis using erf_bisection [OF assms, of "- 4" 0] by (auto simp: reverse_erf_def)
qed

text \<open>
  C39. Termination of \<open>reverse_erf\<close>. For every value of the error function, both ends included, the
  bisection ends with an argument inside of its interval at which \<open>erf\<close> is within the tolerance of
  the value; for a value that is more than the tolerance out of the range it never ends.
\<close>

theorem reverse_erf_terminates:
  "if - 1 \<le> z \<and> z \<le> 1 then \<exists>r. reverse_erf z = Some r \<and> \<bar>erf r - z\<bar> \<le> 1.2 / 10 ^ 7 \<and> - 4 < r \<and> r < 4
   else 1 + 1.2 / 10 ^ 7 < \<bar>z\<bar> \<longrightarrow> reverse_erf z = None"
proof -
  have "reverse_erf z = None" if far: "1 + 1.2 / 10 ^ 7 < \<bar>z\<bar>"
  proof (cases "reverse_erf z")
    case (Some r)
    then show ?thesis
    proof (cases "0 \<le> z")
      case True
      then show ?thesis using re_loop_never [of z 0 4 2 "erf 2" r] Some far by (simp add: reverse_erf_def)
    next
      case False
      then show ?thesis using re_loop_never [of z "- 4" 0 "- 2" "erf (- 2)" r] Some far by (simp add: reverse_erf_def)
    qed
  qed
  then show ?thesis using reverse_erf_returns [of z] by simp
qed

theorem reverse_erf_terminates_witness:
  "(\<exists>r. reverse_erf 1 = Some r \<and> 1 - 1.2 / 10 ^ 7 \<le> erf r) \<and> reverse_erf 2 = None"
proof -
  obtain r where "reverse_erf 1 = Some r" "\<bar>erf r - 1\<bar> \<le> 1.2 / 10 ^ 7" using reverse_erf_terminates [of 1] by auto
  moreover from this(2) have "1 - 1.2 / 10 ^ 7 \<le> erf r" by linarith
  moreover have "reverse_erf 2 = None" using reverse_erf_terminates [of 2] by simp
  ultimately show ?thesis by blast
qed

text \<open>
  \<open>RCNDF\<close> is the quantile function of \<open>CNDF\<close>: for every probability it returns an argument at
  which the distribution function is within 6E-8 of the probability.
\<close>

theorem normal_quantile:
  assumes "0 \<le> p" and "p \<le> 1" and "0 < sigma"
  shows "\<exists>x. RCNDF p mu sigma = Some x \<and> \<bar>CNDF x mu sigma - p\<bar> \<le> 0.6 / 10 ^ 7"
proof -
  obtain r where r: "reverse_erf (p * 2 - 1) = Some r" "\<bar>erf r - (p * 2 - 1)\<bar> \<le> 1.2 / 10 ^ 7"
    using reverse_erf_returns [of "p * 2 - 1"] assms by auto
  have "(r * sqrt 2.0 * sigma + mu - mu) / sqrt 2.0 / sigma = r" using assms(3) by simp
  then have "CNDF (r * sqrt 2.0 * sigma + mu) mu sigma = 0.5 * (1 + erf r)" by (simp only: CNDF_def Let_def)
  then have "\<bar>CNDF (r * sqrt 2.0 * sigma + mu) mu sigma - p\<bar> = \<bar>0.5 * (1 + erf r) - p\<bar>" by (simp only:)
  also have "\<bar>0.5 * (1 + erf r) - p\<bar> \<le> 0.6 / 10 ^ 7"
    using r(2) unfolding abs_le_iff by (simp add: field_simps)
  finally show ?thesis using r(1) by (simp add: RCNDF_def)
qed

theorem normal_quantile_witness:
  "\<exists>x. RCNDF (1 / 4) 5 2 = Some x \<and> CNDF x 5 2 \<le> 0.26"
proof -
  obtain x where "RCNDF (1 / 4) 5 2 = Some x" "\<bar>CNDF x 5 2 - 1 / 4\<bar> \<le> 0.6 / 10 ^ 7"
    using normal_quantile [of "1 / 4" 2 5] by auto
  moreover from this(2) have "CNDF x 5 2 \<le> 0.26" unfolding abs_le_iff by simp
  ultimately show ?thesis by blast
qed

end
