(* ===== verification/AEndian.thy ===== *)
theory AEndian
  imports ArrayLoops "HOL-Library.Word"
begin

text \<open>
  Byte order (AMath.cpp): the test of the machine's order and the reversal of the bytes of every cell
  of an array. The storage of the machine is an argument of the test: the bytes that represent a
  \<open>short\<close>. The sizes are natural numbers, and the products of sizes do not overflow.
\<close>

section \<open>The model\<close>

definition TestSwapEndian :: "(16 word \<Rightarrow> 8 word list) \<Rightarrow> bool option" where
  "TestSwapEndian store = do { p0 \<leftarrow> array_get (store 0x0102) 0; Some (p0 = 2) }"

text \<open>The loop over one cell, with the two pointers as indices.\<close>

function swap_cell :: "nat \<Rightarrow> nat \<Rightarrow> 'a list \<Rightarrow> 'a list option" where
  "swap_cell p1 p2 array =
     (if p1 < p2 then do { array \<leftarrow> array_swap p1 p2 array; swap_cell (p1 + 1) (p2 - 1) array } else Some array)"
  by pat_completeness auto
termination by (relation "measure (\<lambda>(p1, p2, array). p2 - p1)") auto

declare swap_cell.simps [simp del]

text \<open>The loop over the cells: \<open>p\<close> starts at 0 and moves by \<open>ncell\<close> until it reaches \<open>ncell * nelement\<close>.\<close>

definition SwapEndian :: "'a list \<Rightarrow> nat \<Rightarrow> nat \<Rightarrow> 'a list option" where
  "SwapEndian array nelement ncell =
     (if ncell mod 2 \<noteq> 0 then Some array
      else let np = ncell - 1
           in for_up 0 nelement (\<lambda>k array. let p = k * ncell in swap_cell p (p + np) array) array)"

section \<open>One cell\<close>

lemma swap_ends:
  "array_swap (length pre) (length pre + length mid + 1) (pre @ x # mid @ y # post) = Some (pre @ y # mid @ x # post)"
proof -
  have "(pre @ x # mid @ y # post) ! (length pre + length mid + 1) = y"
    using nth_append_length [of "pre @ x # mid" y post] by simp
  moreover have "(pre @ y # mid @ y # post)[length pre + length mid + 1 := x] = pre @ y # mid @ x # post"
    using list_update_length [of "pre @ y # mid" y post x] by simp
  ultimately show ?thesis by (simp add: array_swap_def array_get_def array_put_def)
qed

lemma swap_cell_reverses:
  "swap_cell (length pre) (length pre + length cell - 1) (pre @ cell @ post) = Some (pre @ rev cell @ post)"
proof (induction cell arbitrary: pre post rule: length_induct)
  case (1 cell)
  show ?case
  proof (cases "length cell \<le> 1")
    case True
    then have "rev cell = cell" by (cases cell) auto
    moreover have "\<not> length pre < length pre + length cell - 1" using True by linarith
    ultimately show ?thesis by (subst swap_cell.simps) simp
  next
    case False
    then obtain x rest where "cell = x # rest" "rest \<noteq> []" by (cases cell) auto
    then obtain mid y where cell: "cell = x # mid @ [y]" by (metis rev_exhaust)
    have "swap_cell (length (pre @ [y])) (length (pre @ [y]) + length mid - 1) ((pre @ [y]) @ mid @ x # post)
      = Some ((pre @ [y]) @ rev mid @ x # post)"
      using 1 [rule_format, of mid "pre @ [y]" "x # post"] by (simp add: cell)
    then show ?thesis
      using swap_ends [of pre mid x y post] by (subst swap_cell.simps) (simp add: cell)
  qed
qed

lemma length_concat_cells: "\<forall>cell\<in>set cells. length cell = n \<Longrightarrow> length (concat cells) = length cells * n"
  by (induction cells) auto

section \<open>Properties\<close>

text \<open>
  \<open>SwapEndian\<close> reverses the bytes of every cell of an array of cells of even size, whatever their
  number and size, and leaves an array of cells of odd size as it is. It never leaves the array.
\<close>

theorem endian_swap_reverses_cells:
  assumes "\<forall>cell\<in>set cells. length cell = ncell"
  shows "SwapEndian (concat cells) (length cells) ncell
    = Some (if even ncell then concat (map rev cells) else concat cells)"
proof (cases "even ncell")
  case True
  let ?st = "\<lambda>k. concat (map rev (take k cells)) @ concat (drop k cells)"
  have step: "swap_cell (k * ncell) (k * ncell + (ncell - 1)) (?st k) = Some (?st (Suc k))" if k: "k < length cells" for k
  proof -
    have len: "length (concat (map rev (take k cells))) = k * ncell"
      using length_concat_cells [of "map rev (take k cells)" ncell] assms k by (auto dest: in_set_takeD)
    have cell: "length (cells ! k) = ncell" using assms k by simp
    have st: "?st k = concat (map rev (take k cells)) @ cells ! k @ concat (drop (Suc k) cells)"
      "?st (Suc k) = concat (map rev (take k cells)) @ rev (cells ! k) @ concat (drop (Suc k) cells)"
      using k by (simp_all add: Cons_nth_drop_Suc [symmetric] take_Suc_conv_app_nth)
    show ?thesis
    proof (cases "ncell = 0")
      case True
      then show ?thesis using cell unfolding st by (subst swap_cell.simps) simp
    next
      case False
      then have "k * ncell + (ncell - 1) = k * ncell + ncell - 1" by simp
      then show ?thesis
        unfolding st using swap_cell_reverses [of "concat (map rev (take k cells))" "cells ! k"] by (simp add: len cell)
    qed
  qed
  have "for_up 0 (length cells) (\<lambda>k array. let p = k * ncell in swap_cell p (p + (ncell - 1)) array) (?st 0)
    = Some (?st (length cells))"
    by (rule for_up_states [where \<alpha> = ?st]) (simp_all only: Let_def step le0)
  then show ?thesis using True by (simp add: SwapEndian_def Let_def even_iff_mod_2_eq_zero)
qed (simp add: SwapEndian_def even_iff_mod_2_eq_zero)

theorem endian_swap_reverses_cells_witness:
  "SwapEndian ''abcdefgh'' 2 4 = Some ''dcbahgfe''"
proof -
  have two: "length [''abcd'', ''efgh''] = 2" by simp
  show ?thesis using endian_swap_reverses_cells [of "[''abcd'', ''efgh'']" 4] unfolding two by simp
qed

end
