(* ===== verification/APhoto.thy ===== *)
theory APhoto
  imports Complex_Main ArrayLoops
begin

text \<open>
  Conversions of units and the correlation of two samples (AMath.cpp), over the real numbers:
  \<open>pow(10, x)\<close> is \<open>10 powr x\<close> and \<open>log10\<close> the logarithm to the base 10. The constant of ADefine.h is
  the one the source uses.
\<close>

section \<open>Conversions\<close>

definition R2S :: real where "R2S = 1.375098708313975701043156 * 10 ^ 4"

definition Sr2Arcsec :: "real \<Rightarrow> real" where
  "Sr2Arcsec sr = sr * R2S * R2S"

definition Arcsec2Sr :: "real \<Rightarrow> real" where
  "Arcsec2Sr sas = sas / R2S / R2S"

definition Mag2Watt :: "real \<Rightarrow> real" where
  "Mag2Watt mag = 1.78 / 10 ^ 8 * 10 powr (- 0.4 * mag)"

definition Watt2Mag :: "real \<Rightarrow> real" where
  "Watt2Mag watt = - 2.5 * log 10 (10 ^ 8 * watt / 1.78)"

definition Candela2Watt :: "real \<Rightarrow> real" where
  "Candela2Watt cd = 10000 * cd / 683"

definition Watt2Candela :: "real \<Rightarrow> real" where
  "Watt2Candela watt = watt * 683 / 10000"

definition Mag2Photo :: "real \<Rightarrow> real \<Rightarrow> real" where
  "Mag2Photo mag wl =
     (let h = 6.626176 * (1 / 10 ^ 34); c = 3.0 * 10 ^ 8; watt = Mag2Watt mag; f = c / wl * 10 ^ 9
      in watt / h / f)"

definition Photo2Mag :: "real \<Rightarrow> real \<Rightarrow> real" where
  "Photo2Mag photo wl =
     (let h = 6.626176 * (1 / 10 ^ 34); c = 3.0 * 10 ^ 8; f = c / wl * 10 ^ 9; watt = photo * h * f
      in Watt2Mag watt)"

section \<open>Correlation\<close>

definition Correlation :: "nat \<Rightarrow> real list \<Rightarrow> real list \<Rightarrow> real option" where
  "Correlation N X Y = do {
     (sumx, sumy, sumxy, sqx, sqy) \<leftarrow> for_up 0 N (\<lambda>i (sumx, sumy, sumxy, sqx, sqy). do {
       x \<leftarrow> array_get X i; y \<leftarrow> array_get Y i;
       Some (sumx + x, sumy + y, sumxy + x * y, sqx + x * x, sqy + y * y) }) (0, 0, 0, 0, 0);
     let meanx = sumx / real N;
     let meany = sumy / real N;
     let rmsx = sqrt ((sqx - sumx * meanx) / (real N - 1));
     let rmsy = sqrt ((sqy - sumy * meany) / (real N - 1));
     Some ((sumxy - real N * meanx * meany) / rmsx / rmsy) }"

text \<open>The coefficient of correlation: the covariance over the two deviations, in \<open>-1..1\<close>.\<close>

definition mean :: "nat \<Rightarrow> real list \<Rightarrow> real" where
  "mean n x = (\<Sum>i<n. x ! i) / real n"

definition codeviation :: "nat \<Rightarrow> real list \<Rightarrow> real list \<Rightarrow> real" where
  "codeviation n x y = (\<Sum>i<n. (x ! i - mean n x) * (y ! i - mean n y))"

definition pearson :: "nat \<Rightarrow> real list \<Rightarrow> real list \<Rightarrow> real" where
  "pearson n x y = codeviation n x y / (sqrt (codeviation n x x) * sqrt (codeviation n y y))"

lemma codeviation_eq:
  assumes "0 < n"
  shows "codeviation n x y = (\<Sum>i<n. x ! i * y ! i) - (\<Sum>i<n. x ! i) * mean n y"
proof -
  have "codeviation n x y = (\<Sum>i<n. x ! i * y ! i - mean n x * y ! i - x ! i * mean n y + mean n x * mean n y)"
    unfolding codeviation_def by (rule sum.cong) (simp_all add: algebra_simps)
  also have "\<dots> = (\<Sum>i<n. x ! i * y ! i) - mean n x * (\<Sum>i<n. y ! i) - (\<Sum>i<n. x ! i) * mean n y + real n * (mean n x * mean n y)"
    by (simp add: sum.distrib sum_subtractf sum_distrib_left sum_distrib_right)
  also have "(\<Sum>i<n. y ! i) = real n * mean n y" using assms by (simp add: mean_def)
  finally show ?thesis by simp
qed

lemma correlation_sums:
  assumes "length x = n" and "length y = n"
  shows "for_up 0 n (\<lambda>i (sumx, sumy, sumxy, sqx, sqy). do {
       a \<leftarrow> array_get x i; b \<leftarrow> array_get y i;
       Some (sumx + a, sumy + b, sumxy + a * b, sqx + a * a, sqy + b * b) }) (0, 0, 0, 0, 0)
    = Some (\<Sum>i<n. x ! i, \<Sum>i<n. y ! i, \<Sum>i<n. x ! i * y ! i, \<Sum>i<n. x ! i * x ! i, \<Sum>i<n. y ! i * y ! i)"
  using for_up_states [where a = 0 and b = n and \<alpha> = "\<lambda>k. (\<Sum>i<k. x ! i, \<Sum>i<k. y ! i, \<Sum>i<k. x ! i * y ! i,
    \<Sum>i<k. x ! i * x ! i, \<Sum>i<k. y ! i * y ! i)"] assms by (simp add: array_get_def)

section \<open>Properties\<close>

lemma watt_roundtrip: "Watt2Mag (Mag2Watt mag) = mag"
  by (simp add: Watt2Mag_def Mag2Watt_def)

text \<open>
  \<open>Photo2Mag\<close> undoes \<open>Mag2Photo\<close>, and with it \<open>Watt2Mag\<close> undoes \<open>Mag2Watt\<close>: a magnitude that is
  converted to a count of photons of any wave length and back is the same magnitude.
\<close>

theorem magnitude_roundtrip:
  assumes "0 < wl"
  shows "Photo2Mag (Mag2Photo mag wl) wl = mag"
  using assms by (simp add: Photo2Mag_def Mag2Photo_def Let_def watt_roundtrip)

theorem magnitude_roundtrip_witness: "Photo2Mag (Mag2Photo 21 550) 550 = 21"
  by (rule magnitude_roundtrip) simp

text \<open>
  \<open>Correlation\<close> reads both arrays within their bounds and returns the coefficient of correlation
  times \<open>N - 1\<close>: two samples on a rising line get \<open>N - 1\<close> and not 1.
\<close>

theorem correlation_is_scaled:
  assumes N: "2 \<le> N" and "length X = N" and "length Y = N"
    and "0 < codeviation N X X" and "0 < codeviation N Y Y"
  shows "Correlation N X Y = Some ((real N - 1) * pearson N X Y)"
proof -
  have root: "S / sqrt (A / m) / sqrt (B / m) = m * (S / (sqrt A * sqrt B))" if "0 < A" "0 < B" "0 < m" for S A B m :: real
    using that by (simp add: real_sqrt_divide)
  have n: "0 < real N - 1" "0 < N" using N by auto
  have "(\<Sum>i<N. X ! i) = real N * mean N X" using n by (simp add: mean_def)
  then have xy: "(\<Sum>i<N. X ! i * Y ! i) - real N * mean N X * mean N Y = codeviation N X Y" by (simp add: codeviation_eq [OF n(2)])
  have "Correlation N X Y = Some (codeviation N X Y / sqrt (codeviation N X X / (real N - 1)) / sqrt (codeviation N Y Y / (real N - 1)))"
    unfolding Correlation_def correlation_sums [OF assms(2,3)] Option.bind.bind_lunit case_prod_conv Let_def mean_def [symmetric]
    unfolding xy codeviation_eq [OF n(2), symmetric] ..
  then show ?thesis using root [OF assms(4,5) n(1)] by (simp add: pearson_def)
qed

theorem correlation_is_scaled_witness: "Correlation 3 [1, 2, 3] [10, 20, 30] = Some 2"
proof -
  have d: "codeviation 3 [1, 2, 3] [1, 2, 3] = 2" "codeviation 3 [10, 20, 30] [10, 20, 30] = 200"
    "codeviation 3 [1, 2, 3] [10, 20, 30] = 20"
    by (simp_all add: codeviation_def mean_def numeral_3_eq_3)
  have "sqrt 2 * sqrt 200 = sqrt (20 ^ 2)" by (simp add: real_sqrt_mult [symmetric])
  then have "sqrt 2 * sqrt 200 = 20" by simp
  then show ?thesis using correlation_is_scaled [of 3 "[1, 2, 3]" "[10, 20, 30]"] by (simp add: d pearson_def)
qed

end
