(* ===== verification/ADefine.thy ===== *)
theory ADefine
  imports ASphere
begin

text \<open>
  The constants, macros and the point type of ADefine.h, over the real numbers. The conversion factors are
  the decimal numbers of the code; the lemmas say how far they are from being inverse to each other and
  consistent. \<open>AEPS\<close> and \<open>AMAX\<close> are in ASphere, \<open>R2S\<close> is in APhoto.
\<close>

section \<open>Constants\<close>

definition API :: real where "API = 3141592653589793238462643 / 10 ^ 24"
definition R2D :: real where "R2D = 5729577951308232087679815 / 10 ^ 23"
definition D2R :: real where "D2R = 1745329251994329576923691 / 10 ^ 26"
definition R2H :: real where "R2H = 3819718634205488058453210 / 10 ^ 24"
definition H2R :: real where "H2R = 2617993877991494365385536 / 10 ^ 25"
definition S2R :: real where "S2R = 7272205216643039903848712 / 10 ^ 29"
definition R2AS :: real where "R2AS = 2062648062470963551564734 / 10 ^ 19"
definition AS2R :: real where "AS2R = 4848136811095359935899141 / 10 ^ 30"
definition AS2D :: real where "AS2D = 2777777777777777777777778 / 10 ^ 28"
definition D2AS :: real where "D2AS = 3600"

lemmas angle_factors = API_def R2D_def D2R_def R2H_def H2R_def S2R_def R2AS_def AS2R_def AS2D_def D2AS_def

definition JD2K :: real where "JD2K = 2451545"
definition MJD0 :: real where "MJD0 = 24000005 / 10"
definition MJD2K :: real where "MJD2K = 515445 / 10"
definition DAYSEC :: real where "DAYSEC = 86400"
definition DJY :: real where "DJY = 36525 / 100"
definition DJC :: real where "DJC = 36525"
definition DJM :: real where "DJM = 365250"

section \<open>Macros\<close>

definition frac_part :: "real \<Rightarrow> real" where
  "frac_part x = x - of_int \<lfloor>x\<rfloor>"

definition reduce_to :: "real \<Rightarrow> real \<Rightarrow> real" where
  "reduce_to x period = x - of_int \<lfloor>x / period\<rfloor> * period"

section \<open>Points\<close>

record pt2f =
  pt_x :: real
  pt_y :: real

definition new_pt2f :: pt2f where
  "new_pt2f = \<lparr>pt_x = 0, pt_y = 0\<rparr>"

definition pt2f_at :: "real \<Rightarrow> real \<Rightarrow> pt2f" where
  "pt2f_at x y = \<lparr>pt_x = x, pt_y = y\<rparr>"

text \<open>The assignment of an object to itself is skipped; \<open>same\<close> says whether the addresses are equal.\<close>

definition pt2f_assign :: "bool \<Rightarrow> pt2f \<Rightarrow> pt2f \<Rightarrow> pt2f" where
  "pt2f_assign same pt this = (if \<not> same then this\<lparr>pt_x := pt_x pt, pt_y := pt_y pt\<rparr> else this)"

definition pt2f_eq :: "pt2f \<Rightarrow> pt2f \<Rightarrow> bool" where
  "pt2f_eq this pt =
     (let dx = pt_x this - pt_x pt; dy = pt_y this - pt_y pt;
          dx = (if dx < 0 then - dx else dx); dy = (if dy < 0 then - dy else dy)
      in dx < AEPS \<and> dy < AEPS)"

section \<open>What they are good for\<close>

text \<open>Pairs of factors that convert forth and back are inverse up to twenty-three digits.\<close>

lemma factors_inverse:
  "\<bar>R2D * D2R - 1\<bar> < 1 / 10 ^ 23" "\<bar>R2H * H2R - 1\<bar> < 1 / 10 ^ 23" "\<bar>R2AS * AS2R - 1\<bar> < 1 / 10 ^ 23"
  "\<bar>AS2D * D2AS - 1\<bar> < 1 / 10 ^ 23"
  by (simp_all add: angle_factors)

text \<open>The factors belong to the same half circle: 180 degrees, 12 hours, 43200 seconds, 648000 seconds of arc.\<close>

lemma factors_half_circle:
  "\<bar>180 * D2R - API\<bar> < 1 / 10 ^ 22" "\<bar>12 * H2R - API\<bar> < 1 / 10 ^ 22" "\<bar>43200 * S2R - API\<bar> < 1 / 10 ^ 22"
  "\<bar>648000 * AS2R - API\<bar> < 1 / 10 ^ 22"
  by (simp_all add: angle_factors)

lemma epochs_consistent: "MJD0 + MJD2K = JD2K" "100 * DJY = DJC" "10 * DJC = DJM"
  by (simp_all add: MJD0_def MJD2K_def JD2K_def DJY_def DJC_def DJM_def)

lemma frac_part_bounds: "0 \<le> frac_part x" "frac_part x < 1"
  by (simp_all add: frac_part_def) linarith

text \<open>\<open>reduce\<close> brings a number into the period and keeps it up to whole periods.\<close>

theorem reduce_in_period:
  assumes "0 < period"
  shows "0 \<le> reduce_to x period \<and> reduce_to x period < period \<and>
    (\<exists>k :: int. x = reduce_to x period + of_int k * period) \<and>
    (\<forall>n :: int. reduce_to (x + of_int n * period) period = reduce_to x period)"
proof (intro conjI)
  have eq: "reduce_to x period = frac_part (x / period) * period" for x
    using assms by (simp add: reduce_to_def frac_part_def algebra_simps)
  show "0 \<le> reduce_to x period" and "reduce_to x period < period"
    unfolding eq using frac_part_bounds [of "x / period"] assms by simp_all
  show "\<exists>k :: int. x = reduce_to x period + of_int k * period"
    by (intro exI [of _ "\<lfloor>x / period\<rfloor>"]) (simp add: reduce_to_def)
  have "(x + of_int n * period) / period = x / period + of_int n" for n
    using assms by (simp add: field_simps)
  then show "\<forall>n :: int. reduce_to (x + of_int n * period) period = reduce_to x period"
    by (simp add: reduce_to_def algebra_simps)
qed

text \<open>
  The comparison of points is reflexive and symmetric, and an assigned point is equal to its source; but it
  is a comparison with a tolerance and not an equivalence: it is not transitive.
\<close>

theorem pt2f_comparison:
  "pt2f_eq p p \<and> (pt2f_eq p q \<longleftrightarrow> pt2f_eq q p) \<and> pt2f_assign False p q = p \<and>
   (\<exists>a b c. pt2f_eq a b \<and> pt2f_eq b c \<and> \<not> pt2f_eq a c)"
proof (intro conjI)
  show "pt2f_eq p p"
    using AEPS_pos by (simp add: pt2f_eq_def)
  show "pt2f_eq p q \<longleftrightarrow> pt2f_eq q p"
    by (auto simp: pt2f_eq_def Let_def)
  show "pt2f_assign False p q = p"
    by (cases p) (simp add: pt2f_assign_def)
  show "\<exists>a b c. pt2f_eq a b \<and> pt2f_eq b c \<and> \<not> pt2f_eq a c"
    by (intro exI [of _ "pt2f_at 0 0"] exI [of _ "pt2f_at (3 / (4 * 10 ^ 6)) 0"] exI [of _ "pt2f_at (3 / (2 * 10 ^ 6)) 0"])
      (simp add: pt2f_eq_def pt2f_at_def AEPS_def)
qed

end
