(* ===== verification/Spec2Isabelle.thy ===== *)
theory Spec2Isabelle
  imports ControllerSafety Polling Reports Uploads ServiceRun Wakeups NtpClient GLog Daemon KSelect
    AGaussFit ACurves ASurface AConvolve AErf AEndian APhoto ADefine
begin

text \<open>
  \<^bold>\<open>The program.\<close> camannex is a daemon for the auxiliary devices of a camera: temperature controllers
  (coolers) and ion pump controllers (vacuum) on serial ports. \<open>main\<close> (src/src/camannex.cpp) takes a lock
  file, becomes a background process and starts the service \<open>AnnexControl\<close>. The service reads the
  configuration, opens a connection to a server and creates one controller per configured port. A
  controller (\<open>ControllerBase\<close> with the derived classes \<open>CoolerCtl\<close> and \<open>VacuumCtl\<close>) runs three threads
  over its port: one generates the list of requests of a polling round and sends the first, one reacts
  to a reply by removing the answered request and sending the next, and one reports a silent port. When
  the list has become empty the readings are written to the log, uploaded to a database over HTTP
  (\<open>DataTransfer\<close>) and sent to the server as a line of text (\<open>AsciiProtocol\<close> over \<open>TCPClient\<close>). Reports
  of controllers and connection go to the service through its message queue (\<open>MessageQueue\<close>).

  \<^bold>\<open>Theories and sources\<close> (all under src/src/).
  \<^item> Prelude: machine types, undefined behaviour as \<open>Inl\<close> of \<open>ub_kind\<close>, list lemmas. FlagSearch: the
    search loops of \<open>Lookup\<close>. CircularBuffer, BoostStrings, CMemory: the library interfaces.
  \<^item> SerialComm (SerialComm.cpp), TcpClient (tcpasio.cpp): the ports. ByteSource states what both promise
    their users, as the locales \<open>byte_source\<close> and \<open>frame_source\<close>; each class is a \<open>sublocale\<close>.
  \<^item> Checksum (AMath.h, the digit expressions of the encoders), AsciiProtocol (AsciiProtocol.cpp).
  \<^item> ControllerBase (ControllerBase.cpp), CoolerCtl, VacuumCtl: object state, callbacks, one round of each
    thread. The virtual functions are the record \<open>methods\<close>; \<open>controller_contract\<close> says what the base class
    needs of them, and both derived classes are interpretations. ControllerRun composes a controller with
    its port and with the completions of boost::asio into a machine of events.
  \<^item> MessageQueue, Parameter (parameter.h), AnnexControl: the service.
  \<^item> Compositions: ControllerSafety (well-formedness of a running controller, \<open>safe_controller\<close>, from the
    connection by the service on), Polling (an abstract polling protocol and the simulation of the machine
    by it), Reports (readings to lines on the wire: \<open>respond_body\<close>, AsciiProtocol and \<open>TCPClient::Write\<close>),
    Uploads (readings to the database: \<open>upload_database\<close> over DataTransfer, on one heap), ServiceRun (the
    running service: all controllers that \<open>StartService\<close> has created with their machines, the slots through
    which they post to the message queue, the message thread, \<open>thread_network\<close> and the session, under any
    interleaving), Wakeups (the machine with spurious wake-ups of \<open>cndDrct_\<close>).
  \<^item> DataTransfer, NtpClient (NTPClient.cpp), GLog, Daemon (daemon.cpp, IOServiceKeep.cpp, camannex.cpp).
  \<^item> KSelect: the selection template of AMath.h.
  \<^item> The numerical library (AMath.h, AMath.cpp), which the controllers use for their checksums only:
    ArrayLoops (arrays with checked accesses, counting loops and their rules), AMatrix (products),
    AInvert (\<open>MatInvert\<close>, \<open>LSLinearSolve\<close>), AGaussFit (\<open>GaussFit2D\<close>), ASphere (coordinates on the
    sphere), AInterp (splines by coefficients), ASurface (their use on a grid), ACurves (\<open>CubicSpline\<close>, \<open>Lagrange\<close>, \<open>Bilinear\<close>),
    AConvolve (Gaussian windows), AErf (error function and normal distribution), AEndian (byte order),
    APhoto (units, correlation), ADefine (the constants, macros and point type of ADefine.h).

  \<^bold>\<open>State and operations.\<close> A class is a record with the members that its functions use; a member function
  is a definition on the record that returns the new record, its result, and the list of effects it
  requests of a library (start a read, write bytes, log a line, notify a thread). A completion handler is a
  function of the outcome the library reports. A public operation, a handler, or one round of a thread's
  loop is one atomic step: the mutexes of the code make these steps exclusive and are not modelled
  otherwise. Numbers keep their width where the code depends on it (bytes are \<open>8 word\<close>, packet fields
  \<open>32 word\<close>, sizes of the callback \<open>size_t\<close>); other \<open>int\<close>s are integers.

  \<^bold>\<open>Parameters.\<close> Code outside the repository is an argument: \<open>cb_ops\<close> (boost::circular_buffer), \<open>boost_str\<close>
  (boost string algorithms and format), \<open>mq_ops\<close> (boost::interprocess::message_queue), \<open>curl_lib\<close> (libcurl),
  \<open>num_conv\<close> (atof and the renderings of floating point numbers), \<open>fp_conv\<close> (floating point literals and
  conversions), \<open>cfg_root\<close> (a parsed XML file), and records with the outcomes of system calls. The locales
  \<open>circular_buffer\<close>, \<open>boost_strings\<close> and \<open>mq_laws\<close> state the documented behaviour the proofs rely on; each is
  interpreted on an instance that computes (\<open>ring_ops\<close>, \<open>boost_ref\<close>, \<open>list_mq\<close>), on which the
  witnesses evaluate.

  \<^bold>\<open>What the lemmas show.\<close> Ports: the transmit queue is a lossless FIFO with at most one outstanding write;
  \<open>Lookup\<close> finds the first occurrence; \<open>Read\<close> takes exactly the requested slice. Frames: every encoded request has the documented
  layout and checksum, replies are stored in the slot of their device. Polling: a round
  sends every request once and in order and reports the new readings; every run of a connected controller,
  under any events the operating system may deliver, keeps its members well formed or stops at one of
  three named kinds of undefined behaviour, and refines a protocol in which the pending requests are always
  the rest of the round. A spurious wake-up breaks the correspondence of requests and replies until the end
  of the round, where the reply that is left over empties an empty list. Reports: one line per device reaches the wire whole, and parses back. Protocol: rendering and
  parsing are inverse; a rendered line stays readable for nine more renderings. Service: one running controller per
  configured port; the interleaved run of the service is for each controller the run of its own events, and blocks
  only after as many reports as the queue has room for, so every bus is polled whatever happens on the others; the
  configuration file reads back. Upload: the form of every device and the result codes, no leak in the
  object's life cycle or over a round, the reassembly of the answer. NTP: the decoded reply, the offset, its validity,
  every socket closed once.
  Selection: termination and agreement with sorting. Numerical library: the computed inverse is the inverse
  on both sides and singular matrices are reported; the fit gives back the surface that was sampled; splines
  pass through the samples and are twice differentiable, on a line and on a grid; Lagrange interpolation is exact for polynomials;
  rotation and projection are undone by their inverses; a convolution is an average of the window; the
  bisection of \<open>reverse_erf\<close> ends. No access leaves an array in any of these. Some theorems state what the code does where it misses
  its purpose (undefined behaviour, a stalled queue, reports without a handler).

  \<^bold>\<open>Loops.\<close> A loop is a total function by structural recursion or a proved measure, or, in the numerical
  library, a counting loop over an interval (\<open>for_up\<close>, \<open>for_down\<close>), so no fuel is used. The bisection of
  \<open>reverse_erf\<close>, which may not end, is a partial function into \<open>option\<close>. Endless loops (the threads) are
  modelled by one round. Events come in any order that \<open>legal_event\<close> allows (a read delivers at most 512
  bytes, a write reports at most the bytes it was given, errors have codes).

  \<^bold>\<open>Numbers of the numerical library.\<close> A \<open>double\<close> is a real number (for matrices: an element of any
  ordered field) and the functions of the C library are those of the real numbers, so rounding, overflow and
  the values that are not numbers are outside the model; where the code divides by zero the theorems have
  the hypothesis that excludes it. Walking pointers are written as the positions they have in the current round. An
  access outside of an array is \<open>None\<close>. What fresh storage of \<open>malloc\<close> and \<open>new\<close> contains is an argument;
  that \<open>malloc\<close> and \<open>calloc\<close> succeed is assumed.

  \<^bold>\<open>Not modelled.\<close> Time-outs, sleeping and the priorities of threads (their interleaving is the order of the
  events), the interruption of a round by another; the DEBUG variants of the upload; the
  declarations without a definition (DataTransfer.h) and the structures, macros and declarations of data.h
  that no code uses; the Boost, curl and system libraries beyond the laws named above; build files.
  Sizes and indices of AMath are natural numbers: the overflow of \<open>(l + ir) / 2\<close> for more than
  \<open>2^30\<close> elements is outside the model.
\<close>

end
